(* ===== verification/Prelude.thy ===== *)
theory Prelude
  imports Main "HOL-Library.Word" "HOL-Library.Char_ord" "HOL-Library.List_Lexorder"
begin

text \<open>
  Shared vocabulary of the development: the machine types of the C++ code, its
  exception class, C strings and \<open>strcmp\<close>, the character classes of \<open>ctype.h\<close>, and the
  list facts several components use.

  Conventions used by every theory:
  \<^item> \<open>unsigned int\<close> is a \<open>32 word\<close> wherever the code computes with it;
    array indices and \<open>int\<close> loop variables that stay far from their limits are \<open>int\<close> or
    \<open>nat\<close>;
  \<^item> a null pointer is \<open>None\<close>; an operation that dereferences a null or
    dangling pointer, or reads outside an array, has undefined behaviour in C++ and
    returns \<open>None\<close> in the model;
  \<^item> a function that may throw returns \<open>exn + 'a\<close>, with \<open>Inl\<close> for the thrown
    exception;
  \<^item> C strings are HOL strings without NUL characters.
\<close>

section \<open>Machine types and exceptions\<close>

type_synonym u32 = "32 word"

text \<open>The class \<open>Exception\<close>: a context and an error message, copied on construction.\<close>

record exn =
  exn_context :: string
  exn_error :: string

definition Exception :: "string \<Rightarrow> string \<Rightarrow> exn" where
  "Exception context error = \<lparr>exn_context = context, exn_error = error\<rparr>"

text \<open>Collections of rewrite rules that the component theories fill.\<close>

named_theorems unfold_ops \<comment> \<open>definitions of the one-line operations\<close>

section \<open>C strings\<close>

text \<open>
  \<open>strcmp\<close> compares byte by byte (as \<open>unsigned char\<close>); only the sign of its result
  is specified by the C standard, and only the sign is used by the code.
\<close>

fun strcmp :: "string \<Rightarrow> string \<Rightarrow> int" where
  "strcmp [] [] = 0"
| "strcmp [] (b # bs) = -1"
| "strcmp (a # as) [] = 1"
| "strcmp (a # as) (b # bs) =
     (if a = b then strcmp as bs else if of_char a < (of_char b :: nat) then -1 else 1)"

lemma strcmp_eq_0_iff [simp]: "strcmp s t = 0 \<longleftrightarrow> s = t"
  by (induction s t rule: strcmp.induct) auto

lemma char_less_code: "a < b \<longleftrightarrow> of_char a < (of_char b :: nat)" for a b :: char
  by (simp add: less_char_def)

lemma strcmp_neg_iff: "strcmp s t < 0 \<longleftrightarrow> s < t"
  by (induction s t rule: strcmp.induct) (auto simp: char_less_code)

text \<open>The character classes of \<open>ctype.h\<close> in the C locale.\<close>

definition isdigit :: "char \<Rightarrow> bool" where
  "isdigit c \<longleftrightarrow> (let n = of_char c :: nat in 48 \<le> n \<and> n \<le> 57)"

definition isalpha :: "char \<Rightarrow> bool" where
  "isalpha c \<longleftrightarrow> (let n = of_char c :: nat in 65 \<le> n \<and> n \<le> 90 \<or> 97 \<le> n \<and> n \<le> 122)"

definition isalnum :: "char \<Rightarrow> bool" where
  "isalnum c \<longleftrightarrow> isalpha c \<or> isdigit c"

definition isspace :: "char \<Rightarrow> bool" where
  "isspace c \<longleftrightarrow> (let n = of_char c :: nat in n = 32 \<or> 9 \<le> n \<and> n \<le> 13)"

definition tolower :: "char \<Rightarrow> char" where
  "tolower c = (let n = of_char c :: nat in if 65 \<le> n \<and> n \<le> 90 then char_of (n + 32) else c)"

text \<open>\<open>strcasecmp(s,t)==0\<close>.\<close>

definition strcaseeq :: "string \<Rightarrow> string \<Rightarrow> bool" where
  "strcaseeq s t \<longleftrightarrow> map tolower s = map tolower t"

text \<open>
  \<open>strtol(s,&end,10)\<close>: the value, clamped to \<open>long\<close>, and the number of characters
  consumed (0 when there is no number: then \<open>end==s\<close>). \<open>atoi\<close> is the value without the
  end pointer; the C standard defines it only when the number fits in an \<open>int\<close>.
\<close>

definition digit_value :: "char \<Rightarrow> int" where
  "digit_value c = int (of_char c) - 48"

definition number_value :: "string \<Rightarrow> int" where
  "number_value ds = foldl (\<lambda>a c. 10 * a + digit_value c) 0 ds"

definition strtol :: "string \<Rightarrow> int \<times> nat" where
  "strtol s =
     (let ws = length (takeWhile isspace s);
          r = drop ws s;
          sign = (case r of [] \<Rightarrow> False | c # _ \<Rightarrow> c = CHR ''-'' \<or> c = CHR ''+'');
          neg = (case r of [] \<Rightarrow> False | c # _ \<Rightarrow> c = CHR ''-'');
          ds = takeWhile isdigit (if sign then tl r else r);
          v = (if neg then - number_value ds else number_value ds)
      in if ds = [] then (0, 0)
         else (max (- (2 ^ 63)) (min (2 ^ 63 - 1) v),
               ws + (if sign then 1 else 0) + length ds))"

definition atoi :: "string \<Rightarrow> int" where
  "atoi s = fst (strtol s)"

section \<open>Sums, lists and machine counters\<close>

lemma map_sum_Inr_iff [simp]: "map_sum id f x = Inr y \<longleftrightarrow> (\<exists>z. x = Inr z \<and> y = f z)"
  by (cases x) auto

lemma distinct_bounded_length:
  assumes "distinct xs" and "\<forall>x \<in> set xs. x < n"
  shows "length xs \<le> n"
proof -
  have "card (set xs) \<le> card {..<n}"
    using assms(2) by (intro card_mono) auto
  with assms(1) show ?thesis by (simp add: distinct_card)
qed

lemma unat_of_nat_u32 [simp]: "n < 2 ^ 32 \<Longrightarrow> unat (of_nat n :: u32) = n"
  by (simp add: unat_of_nat take_bit_nat_eq_self)

lemma of_nat_u32_pos: "n < 2 ^ 32 \<Longrightarrow> (0 < (of_nat n :: u32)) = (0 < n)"
  by (simp add: word_less_nat_alt)

lemma of_nat_u32_pred: "0 < n \<Longrightarrow> (of_nat n :: u32) - 1 = of_nat (n - 1)"
  by simp

lemma unat_u32_Suc: "x < y \<Longrightarrow> unat (x + 1) = Suc (unat x)" for x y :: u32
proof -
  assume "x < y"
  moreover have "unat y < 2 ^ LENGTH(32)"
    by (rule unsigned_less)
  ultimately have "unat x + 1 < 2 ^ 32"
    by (simp add: word_less_nat_alt)
  then show ?thesis by (simp add: unat_word_ariths)
qed

lemma unat_u32_pred: "x \<noteq> 0 \<Longrightarrow> unat (x - 1) = unat x - 1" for x :: u32
  by (simp add: unat_minus_one)

lemma list_update_split:
  "i < length xs \<Longrightarrow> xs[i := y] = take i xs @ y # drop (Suc i) xs"
  by (simp add: upd_conv_take_nth_drop)

end
