(* ===== verification/Queue_Interface.thy ===== *)
theory Queue_Interface
  imports Prelude
begin

text \<open>
  What the queue pool relies on when it serves an array of queues: the contract of one
  queue as a locale, and the generic scan over the array (the loop of
  \<open>QueuePool::DequeueTask\<close>), with its correctness proved once from the contract.
\<close>

text \<open>
  The scan asks each queue in turn and stops at the first that hands out an element,
  returning its index; \<open>None\<close> when a \<open>deq\<close> has undefined behaviour.
\<close>

fun scan_dequeue ::
  "('q \<Rightarrow> ('x option \<times> 'q) option) \<Rightarrow> 'q list \<Rightarrow> ((nat \<times> 'x) option \<times> 'q list) option" where
  "scan_dequeue deq [] = Some (None, [])"
| "scan_dequeue deq (q # qs) =
     (case deq q of
        None \<Rightarrow> None
      | Some (Some x, q') \<Rightarrow> Some (Some (0, x), q' # qs)
      | Some (None, q') \<Rightarrow>
          (case scan_dequeue deq qs of
             None \<Rightarrow> None
           | Some (r, qs') \<Rightarrow> Some (map_option (apfst Suc) r, q' # qs')))"

locale queue_interface =
  fixes deq :: "'q \<Rightarrow> ('x option \<times> 'q) option"
    and locked :: "'q \<Rightarrow> bool"
    and inv :: "'q \<Rightarrow> bool"
    and pending :: "'q \<Rightarrow> 'x list"
  assumes deq_locked: "locked q \<Longrightarrow> deq q = Some (None, q)"
    and deq_open: "inv q \<Longrightarrow> \<not> locked q \<Longrightarrow>
      \<exists>x q'. deq q = Some (Some x, q') \<and> inv q' \<and> pending q = x # pending q'"
    and deq_declines: "deq q = Some (None, q') \<Longrightarrow> locked q"
begin

lemma scan_all_locked: "\<forall>q \<in> set qs. locked q \<Longrightarrow> scan_dequeue deq qs = Some (None, qs)"
  by (induction qs) (auto simp: deq_locked)

lemma scan_first_open:
  assumes "\<forall>q \<in> set qs. inv q" and "\<not> (\<forall>q \<in> set qs. locked q)"
  shows "\<exists>i x q'. i < length qs \<and> \<not> locked (qs ! i) \<and> (\<forall>j < i. locked (qs ! j)) \<and>
    deq (qs ! i) = Some (Some x, q') \<and> inv q' \<and> pending (qs ! i) = x # pending q' \<and>
    scan_dequeue deq qs = Some (Some (i, x), qs[i := q'])"
  using assms
proof (induction qs)
  case Nil
  then show ?case by simp
next
  case (Cons q qs)
  show ?case
  proof (cases "locked q")
    case False
    with Cons.prems(1) obtain x q' where "deq q = Some (Some x, q')" "inv q'"
      "pending q = x # pending q'"
      using deq_open [of q] by auto
    with False show ?thesis by (intro exI [of _ 0]) simp
  next
    case True
    with Cons obtain i x q' where "i < length qs" "\<not> locked (qs ! i)" "\<forall>j < i. locked (qs ! j)"
      "deq (qs ! i) = Some (Some x, q')" "inv q'" "pending (qs ! i) = x # pending q'"
      "scan_dequeue deq qs = Some (Some (i, x), qs[i := q'])"
      by auto
    with True show ?thesis
      by (intro exI [of _ "Suc i"]) (auto simp: deq_locked less_Suc_eq_0_disj)
  qed
qed

text \<open>Without any invariant: if the scan returns empty-handed, every queue was locked.\<close>

lemma scan_none_locked:
  "scan_dequeue deq qs = Some (None, qs') \<Longrightarrow> (\<forall>q \<in> set qs. locked q) \<and> qs' = qs"
proof (induction qs arbitrary: qs')
  case Nil
  then show ?case by simp
next
  case (Cons q qs)
  have "locked q"
    using Cons.prems by (auto split: option.splits dest: deq_declines)
  with Cons show ?case by (auto simp: deq_locked split: option.splits)
qed

lemma scan_some:
  "scan_dequeue deq qs = Some (Some (i, x), qs') \<Longrightarrow>
    i < length qs \<and> \<not> locked (qs ! i) \<and> (\<forall>j < i. locked (qs ! j)) \<and>
    (\<exists>q'. deq (qs ! i) = Some (Some x, q') \<and> qs' = qs[i := q'])"
proof (induction qs arbitrary: i qs')
  case Nil
  then show ?case by simp
next
  case (Cons q qs)
  show ?case
  proof (cases "locked q")
    case True
    with Cons show ?thesis
      by (cases i) (fastforce simp: deq_locked less_Suc_eq_0_disj split: option.splits)+
  next
    case False
    with Cons.prems show ?thesis
      by (auto split: option.splits dest: deq_declines)
  qed
qed

end

end
