(* ===== verification/Task_Queue.thy ===== *)
theory Task_Queue
  imports Queue_Interface
begin

text \<open>
  One task queue: \<open>Queue.cpp\<close> and \<open>Queue.h\<close>.

  A queue is two singly linked lists of heap-allocated \<open>Task\<close> cells (the waiting tasks,
  with a pointer to the last cell, and the cancelled tasks) and three counters. The cells
  move between the two lists by pointer updates, so the model keeps the heap: a map from
  addresses to cells. \<open>new\<close> takes the next unused address; \<open>delete\<close> removes the cell, so
  that a later access through a stale pointer is undefined behaviour (\<open>None\<close>).
  \<open>WorkflowInstance *\<close> and \<open>DOMNode *\<close> are opaque references; the only thing this
  component reads through them is \<open>GetInstanceID()\<close>, a parameter of \<open>CancelTasks\<close>.
\<close>

section \<open>State\<close>

type_synonym wi_ref = nat
type_synonym node_ref = nat
type_synonym addr = nat
type_synonym ptr = "addr option"

record cell =
  workflow_instance :: wi_ref
  task :: node_ref
  next_task :: ptr

type_synonym heap = "addr \<rightharpoonup> cell"

record queue =
  q_name :: string
  q_id :: u32
  concurrency :: u32
  qsize :: u32
  running_tasks :: u32
  first_task :: ptr
  last_task :: ptr
  cancelled_tasks :: ptr
  q_heap :: heap
  q_brk :: addr

section \<open>Operations\<close>

definition QUEUE_NAME_MAX_LEN :: nat where
  "QUEUE_NAME_MAX_LEN = 64"

definition CheckQueueName :: "string \<Rightarrow> bool" where
  "CheckQueueName queue_name \<longleftrightarrow>
     (if length queue_name > QUEUE_NAME_MAX_LEN then False
      else (\<forall>c \<in> set queue_name. \<not> (\<not> isalnum c \<and> c \<noteq> CHR ''_'' \<and> c \<noteq> CHR ''-'')))"

text \<open>
  The constructor; \<open>row\<close> is the result of the query for \<open>queue_id\<close> and
  \<open>queue_concurrency\<close>, \<open>None\<close> when there is no such row.
\<close>

definition Queue_new :: "string \<Rightarrow> (u32 \<times> u32) option \<Rightarrow> exn + queue" where
  "Queue_new name row =
     (if \<not> CheckQueueName name then Inl (Exception ''Queue'' ''Invalid queue name'')
      else case row of
        None \<Rightarrow> Inl (Exception ''Queue'' ''Unknown queue'')
      | Some (queue_id, conc) \<Rightarrow> Inr \<lparr>q_name = name, q_id = queue_id, concurrency = conc, qsize = 0,
          running_tasks = 0, first_task = None, last_task = None, cancelled_tasks = None,
          q_heap = Map.empty, q_brk = 0\<rparr>)"

definition IsLocked :: "queue \<Rightarrow> bool" where
  "IsLocked q =
     (if cancelled_tasks q \<noteq> None then False
      else if qsize q > 0 \<and> running_tasks q < concurrency q then False
      else True)"

definition EnqueueTask :: "wi_ref \<Rightarrow> node_ref \<Rightarrow> queue \<Rightarrow> queue option" where
  "EnqueueTask wi t q =
     (let new_task = q_brk q;
          h = (q_heap q)(new_task \<mapsto> \<lparr>workflow_instance = wi, task = t, next_task = None\<rparr>);
          q1 = q\<lparr>q_heap := h, q_brk := Suc new_task\<rparr>
      in case first_task q of
           None \<Rightarrow> Some (q1\<lparr>last_task := Some new_task, first_task := Some new_task,
                           qsize := qsize q + 1\<rparr>)
         | Some _ \<Rightarrow>
             (case last_task q of
                None \<Rightarrow> None
              | Some l \<Rightarrow>
                  (case h l of
                     None \<Rightarrow> None
                   | Some c \<Rightarrow> Some (q1\<lparr>q_heap := h(l \<mapsto> c\<lparr>next_task := Some new_task\<rparr>),
                                       last_task := Some new_task,
                                       qsize := qsize q + 1\<rparr>))))"

text \<open>
  \<open>DequeueTask\<close> returns \<open>false\<close> (an inner \<open>None\<close>) or \<open>true\<close> with the two out
  parameters.
\<close>

definition DequeueTask :: "queue \<Rightarrow> ((wi_ref \<times> node_ref) option \<times> queue) option" where
  "DequeueTask q =
     (if IsLocked q then Some (None, q)
      else case cancelled_tasks q of
        Some p \<Rightarrow>
          (case q_heap q p of
             None \<Rightarrow> None
           | Some c \<Rightarrow> Some (Some (workflow_instance c, task c),
               q\<lparr>cancelled_tasks := next_task c, q_heap := (q_heap q)(p := None)\<rparr>))
      | None \<Rightarrow>
          (case first_task q of
             None \<Rightarrow> None
           | Some p \<Rightarrow>
               (case q_heap q p of
                  None \<Rightarrow> None
                | Some c \<Rightarrow> Some (Some (workflow_instance c, task c),
                    q\<lparr>first_task := next_task c, qsize := qsize q - 1,
                      q_heap := (q_heap q)(p := None)\<rparr>))))"

definition ExecuteTask :: "queue \<Rightarrow> queue" where
  "ExecuteTask q = q\<lparr>running_tasks := running_tasks q + 1\<rparr>"

definition TerminateTask :: "queue \<Rightarrow> queue" where
  "TerminateTask q = q\<lparr>running_tasks := running_tasks q - 1\<rparr>"

text \<open>
  \<open>CancelTasks\<close> walks the waiting list with \<open>Task **task\<close>, a pointer to the link
  it came through: the field \<open>first_task\<close> (\<open>None\<close> below) or the field
  \<open>next_task\<close> of a cell (\<open>Some p\<close>). \<open>read_link\<close> is \<open>*task\<close>, \<open>write_link\<close> is the
  assignment to it.
\<close>

type_synonym link = "addr option"

definition read_link :: "link \<Rightarrow> queue \<Rightarrow> ptr option" where
  "read_link l q =
     (case l of None \<Rightarrow> Some (first_task q)
      | Some p \<Rightarrow> map_option next_task (q_heap q p))"

definition write_link :: "link \<Rightarrow> ptr \<Rightarrow> queue \<Rightarrow> queue" where
  "write_link l v q =
     (case l of None \<Rightarrow> q\<lparr>first_task := v\<rparr>
      | Some p \<Rightarrow> q\<lparr>q_heap := (q_heap q)(p := map_option (next_task_update (\<lambda>_. v)) (q_heap q p))\<rparr>)"

text \<open>
  The body for a cell \<open>p\<close> of the cancelled instance: unlink it, push it on the
  cancelled list, decrement the size.
\<close>

definition move_cell :: "link \<Rightarrow> addr \<Rightarrow> cell \<Rightarrow> queue \<Rightarrow> queue" where
  "move_cell l p c q =
     (let q1 = write_link l (next_task c) q;
          q2 = write_link (Some p) (cancelled_tasks q1) q1
      in q2\<lparr>cancelled_tasks := Some p, qsize := qsize q2 - 1\<rparr>)"

partial_function (option) cancel_loop ::
  "(wi_ref \<Rightarrow> u32) \<Rightarrow> u32 \<Rightarrow> link \<Rightarrow> queue \<Rightarrow> queue option" where
  "cancel_loop instance_id wid l q =
     (case read_link l q of
        None \<Rightarrow> None
      | Some None \<Rightarrow> Some q
      | Some (Some p) \<Rightarrow>
          (case q_heap q p of
             None \<Rightarrow> None
           | Some c \<Rightarrow>
               if instance_id (workflow_instance c) = wid
               then cancel_loop instance_id wid l (move_cell l p c q)
               else cancel_loop instance_id wid (Some p) q))"

definition CancelTasks :: "(wi_ref \<Rightarrow> u32) \<Rightarrow> u32 \<Rightarrow> queue \<Rightarrow> queue option" where
  "CancelTasks instance_id wid q = cancel_loop instance_id wid None q"

section \<open>Linked lists in the heap\<close>

text \<open>
  \<open>path h p as r\<close>: following \<open>next_task\<close> from the pointer \<open>p\<close> visits the cells
  \<open>as\<close> and arrives at the pointer \<open>r\<close>. \<open>walk\<close> computes the cells of a list.
\<close>

primrec path :: "heap \<Rightarrow> ptr \<Rightarrow> addr list \<Rightarrow> ptr \<Rightarrow> bool" where
  "path h p [] r \<longleftrightarrow> p = r"
| "path h p (a # as) r \<longleftrightarrow>
     p = Some a \<and> (case h a of None \<Rightarrow> False | Some c \<Rightarrow> path h (next_task c) as r)"

fun walk :: "heap \<Rightarrow> nat \<Rightarrow> ptr \<Rightarrow> addr list" where
  "walk h n None = []"
| "walk h 0 (Some a) = []"
| "walk h (Suc n) (Some a) =
     (case h a of None \<Rightarrow> [] | Some c \<Rightarrow> a # walk h n (next_task c))"

definition content :: "heap \<Rightarrow> addr \<Rightarrow> (wi_ref \<times> node_ref) option" where
  "content h a = map_option (\<lambda>c. (workflow_instance c, task c)) (h a)"

lemma path_append [simp]:
  "path h p (as @ bs) r \<longleftrightarrow> (\<exists>m. path h p as m \<and> path h m bs r)"
  by (induction as arbitrary: p) (auto split: option.splits)

lemma path_upd [simp]: "a \<notin> set as \<Longrightarrow> path (h(a := x)) p as r = path h p as r"
  by (induction as arbitrary: p) (auto split: option.splits)

lemma path_dom: "path h p as r \<Longrightarrow> a \<in> set as \<Longrightarrow> h a \<noteq> None"
  by (induction as arbitrary: p) (auto split: option.splits)

lemma path_walk: "path h p as None \<Longrightarrow> length as \<le> n \<Longrightarrow> walk h n p = as"
proof (induction as arbitrary: p n)
  case Nil
  then show ?case by simp
next
  case (Cons a as)
  then show ?case by (cases n) (auto split: option.splits)
qed

lemma path_None_iff [simp]: "path h None as r \<longleftrightarrow> as = [] \<and> r = None"
  by (cases as) auto

lemma content_upd_other [simp]: "a \<noteq> b \<Longrightarrow> content (h(b := x)) a = content h a"
  by (simp add: content_def)

lemma content_upd_next [simp]:
  "content (h(b := map_option (next_task_update f) (h b))) a = content h a"
  by (auto simp: content_def map_option_case split: option.splits)

section \<open>The representation invariant\<close>

definition waiting_cells :: "queue \<Rightarrow> addr list" where
  "waiting_cells q = walk (q_heap q) (q_brk q) (first_task q)"

definition cancelled_cells :: "queue \<Rightarrow> addr list" where
  "cancelled_cells q = walk (q_heap q) (q_brk q) (cancelled_tasks q)"

text \<open>
  \<open>rep q ws cs\<close>: the waiting list consists of the cells \<open>ws\<close>, the cancelled list of
  \<open>cs\<close>, all different, and \<open>size\<close> counts the waiting ones.
\<close>

definition rep :: "queue \<Rightarrow> addr list \<Rightarrow> addr list \<Rightarrow> bool" where
  "rep q ws cs \<longleftrightarrow>
     path (q_heap q) (first_task q) ws None \<and>
     path (q_heap q) (cancelled_tasks q) cs None \<and>
     distinct (ws @ cs) \<and> (\<forall>a \<in> set (ws @ cs). a < q_brk q) \<and>
     length ws < 2 ^ 32 \<and> qsize q = of_nat (length ws)"

definition queue_wf :: "queue \<Rightarrow> bool" where
  "queue_wf q \<longleftrightarrow> rep q (waiting_cells q) (cancelled_cells q)"

definition last_ok :: "queue \<Rightarrow> bool" where
  "last_ok q \<longleftrightarrow>
     (let ws = waiting_cells q in ws \<noteq> [] \<longrightarrow> last_task q = Some (last ws))"

definition queue_inv :: "queue \<Rightarrow> bool" where
  "queue_inv q \<longleftrightarrow> queue_wf q \<and> last_ok q"

text \<open>The abstract contents: the tasks of the two lists in list order.\<close>

definition waiting :: "queue \<Rightarrow> (wi_ref \<times> node_ref) list" where
  "waiting q = List.map_filter (content (q_heap q)) (waiting_cells q)"

definition cancelled :: "queue \<Rightarrow> (wi_ref \<times> node_ref) list" where
  "cancelled q = List.map_filter (content (q_heap q)) (cancelled_cells q)"

lemma rep_cells:
  assumes "rep q ws cs"
  shows "waiting_cells q = ws" and "cancelled_cells q = cs"
proof -
  from assms have "length (ws @ cs) \<le> q_brk q"
    by (intro distinct_bounded_length) (auto simp: rep_def)
  with assms show "waiting_cells q = ws" "cancelled_cells q = cs"
    by (auto simp: rep_def waiting_cells_def cancelled_cells_def intro!: path_walk)
qed

lemma rep_wf: "rep q ws cs \<Longrightarrow> queue_wf q"
  by (simp add: queue_wf_def rep_cells)

lemma rep_inv:
  "rep q ws cs \<Longrightarrow> (ws \<noteq> [] \<Longrightarrow> last_task q = Some (last ws)) \<Longrightarrow> queue_inv q"
  by (simp add: queue_inv_def rep_wf last_ok_def rep_cells Let_def)

lemma rep_contents:
  assumes "rep q ws cs"
  shows "waiting q = List.map_filter (content (q_heap q)) ws"
    and "cancelled q = List.map_filter (content (q_heap q)) cs"
  using rep_cells [OF assms] by (simp_all add: waiting_def cancelled_def)

lemma map_filter_cong_set:
  "(\<And>x. x \<in> set xs \<Longrightarrow> f x = g x) \<Longrightarrow> List.map_filter f xs = List.map_filter g xs"
  by (induction xs) (auto simp: List.map_filter_def)

lemma map_filter_append [simp]:
  "List.map_filter f (xs @ ys) = List.map_filter f xs @ List.map_filter f ys"
  by (simp add: List.map_filter_def)

lemma map_filter_Cons [simp]:
  "List.map_filter f (x # xs) = (case f x of None \<Rightarrow> [] | Some y \<Rightarrow> [y]) @ List.map_filter f xs"
  by (simp add: List.map_filter_def split: option.splits)

lemma map_filter_Nil [simp]: "List.map_filter f [] = []"
  by (simp add: List.map_filter_def)

lemma length_map_filter_all:
  "(\<And>x. x \<in> set xs \<Longrightarrow> f x \<noteq> None) \<Longrightarrow> length (List.map_filter f xs) = length xs"
  by (induction xs) (auto split: option.splits)

lemma path_content: "path h p as r \<Longrightarrow> a \<in> set as \<Longrightarrow> content h a \<noteq> None"
  using path_dom by (fastforce simp: content_def)

lemma rep_lengths:
  assumes "rep q ws cs"
  shows "length (waiting q) = length ws" and "length (cancelled q) = length cs"
  using assms by (auto simp: rep_contents rep_def intro!: length_map_filter_all dest: path_content)

lemma queue_inv_rep:
  assumes "queue_inv q"
  obtains ws cs where "rep q ws cs" and "ws \<noteq> [] \<Longrightarrow> last_task q = Some (last ws)"
  using assms by (auto simp: queue_inv_def queue_wf_def last_ok_def Let_def)

lemma queue_wf_rep:
  assumes "queue_wf q"
  obtains ws cs where "rep q ws cs"
  using assms by (auto simp: queue_wf_def)

section \<open>What each operation does\<close>

lemma Queue_new_inv:
  assumes "Queue_new name row = Inr q"
  shows "queue_inv q" and "waiting q = []" and "cancelled q = []" and "running_tasks q = 0"
proof -
  from assms have "rep q [] []" and run: "running_tasks q = 0"
    by (auto simp: Queue_new_def rep_def split: if_splits option.splits)
  then show "queue_inv q" "waiting q = []" "cancelled q = []" "running_tasks q = 0"
    by (auto intro: rep_inv simp: rep_contents)
qed

lemma IsLocked_iff:
  assumes "queue_wf q"
  shows "IsLocked q \<longleftrightarrow> cancelled q = [] \<and> (waiting q = [] \<or> concurrency q \<le> running_tasks q)"
proof -
  obtain ws cs where r: "rep q ws cs" using assms by (rule queue_wf_rep)
  then have "cancelled q = [] \<longleftrightarrow> cs = []" and "waiting q = [] \<longleftrightarrow> ws = []"
    using rep_lengths [OF r] by (metis length_0_conv)+
  moreover have "cs = [] \<longleftrightarrow> cancelled_tasks q = None"
    using r by (cases cs) (auto simp: rep_def)
  moreover have "qsize q > 0 \<longleftrightarrow> ws \<noteq> []"
    using r by (auto simp: rep_def of_nat_u32_pos)
  ultimately show ?thesis by (auto simp: IsLocked_def not_less)
qed

lemma fresh_path:
  "\<forall>a \<in> set as. a < n \<Longrightarrow> path (h(n := x)) p as r = path h p as r"
  by (rule path_upd) auto

lemma map_filter_content_fresh:
  "\<forall>a \<in> set as. a < n \<Longrightarrow>
   List.map_filter (content (h(n := x))) as = List.map_filter (content h) as"
  by (rule map_filter_cong_set) auto

lemma EnqueueTask_rep:
  assumes r: "rep q ws cs" and l: "ws \<noteq> [] \<Longrightarrow> last_task q = Some (last ws)"
    and room: "Suc (length ws) < 2 ^ 32"
  obtains q' where "EnqueueTask wi t q = Some q'" and "rep q' (ws @ [q_brk q]) cs"
    and "last_task q' = Some (q_brk q)"
    and "\<And>a. a < q_brk q \<Longrightarrow> content (q_heap q') a = content (q_heap q) a"
    and "content (q_heap q') (q_brk q) = Some (wi, t)"
    and "concurrency q' = concurrency q" and "running_tasks q' = running_tasks q"
proof (cases "ws = []")
  case True
  with r have "first_task q = None" by (simp add: rep_def)
  with r True that show thesis
    by (force simp: EnqueueTask_def rep_def fresh_path content_def Let_def)
next
  case False
  then obtain ws0 b where ws: "ws = ws0 @ [b]" by (metis append_butlast_last_id)
  with r obtain c where c: "q_heap q b = Some c" "next_task c = None"
    and b: "b < q_brk q" "b \<notin> set ws0" "b \<notin> set cs"
    by (auto simp: rep_def split: option.splits)
  from r ws obtain f where f: "first_task q = Some f"
    by (cases ws0) (auto simp: rep_def)
  let ?n = "q_brk q"
  let ?h = "((q_heap q)(?n \<mapsto> \<lparr>workflow_instance = wi, task = t, next_task = None\<rparr>))
              (b \<mapsto> c\<lparr>next_task := Some ?n\<rparr>)"
  let ?q = "q\<lparr>q_heap := ?h, q_brk := Suc ?n, last_task := Some ?n, qsize := qsize q + 1\<rparr>"
  have enq: "EnqueueTask wi t q = Some ?q"
    using l ws f c b by (simp add: EnqueueTask_def Let_def)
  have "rep ?q (ws @ [?n]) cs"
    using r ws b room by (auto simp: rep_def fresh_path less_Suc_eq)
  moreover have "content ?h a = content (q_heap q) a" if "a < ?n" for a
    using that c by (cases "a = b") (auto simp: content_def)
  moreover have "content ?h ?n = Some (wi, t)"
    using b by (simp add: content_def)
  ultimately show thesis using enq that by simp
qed

lemma EnqueueTask_inv:
  assumes inv: "queue_inv q" and room: "Suc (length (waiting q)) < 2 ^ 32"
  obtains q' where "EnqueueTask wi t q = Some q'" and "queue_inv q'"
    and "waiting q' = waiting q @ [(wi, t)]" and "cancelled q' = cancelled q"
    and "concurrency q' = concurrency q" and "running_tasks q' = running_tasks q"
proof -
  obtain ws cs where r: "rep q ws cs" and l: "ws \<noteq> [] \<Longrightarrow> last_task q = Some (last ws)"
    using inv by (rule queue_inv_rep) blast
  from room have room': "Suc (length ws) < 2 ^ 32" by (simp add: rep_lengths [OF r])
  obtain q' where q': "EnqueueTask wi t q = Some q'" "rep q' (ws @ [q_brk q]) cs"
    "last_task q' = Some (q_brk q)"
    and old: "\<And>a. a < q_brk q \<Longrightarrow> content (q_heap q') a = content (q_heap q) a"
    and new: "content (q_heap q') (q_brk q) = Some (wi, t)"
    and same: "concurrency q' = concurrency q" "running_tasks q' = running_tasks q"
    using EnqueueTask_rep [OF r l room'] by metis
  have "List.map_filter (content (q_heap q')) xs = List.map_filter (content (q_heap q)) xs"
    if "set xs \<subseteq> set (ws @ cs)" for xs
    using that r by (intro map_filter_cong_set old) (auto simp: rep_def)
  then have "waiting q' = waiting q @ [(wi, t)]" and "cancelled q' = cancelled q"
    using new by (simp_all add: rep_contents [OF q'(2)] rep_contents [OF r])
  moreover have "queue_inv q'"
    using q'(2) by (rule rep_inv) (simp add: q'(3))
  ultimately show thesis using q'(1) same that by blast
qed

lemma DequeueTask_locked: "IsLocked q \<Longrightarrow> DequeueTask q = Some (None, q)"
  by (simp add: DequeueTask_def)

lemma DequeueTask_cancelled:
  assumes "rep q ws (p # cs)"
  obtains q' x where "DequeueTask q = Some (Some x, q')" and "rep q' ws cs"
    and "content (q_heap q) p = Some x"
    and "\<And>a. a \<noteq> p \<Longrightarrow> content (q_heap q') a = content (q_heap q) a"
    and "last_task q' = last_task q" and "concurrency q' = concurrency q"
    and "running_tasks q' = running_tasks q"
proof -
  from assms obtain c where c: "q_heap q p = Some c" "cancelled_tasks q = Some p"
    by (auto simp: rep_def split: option.splits)
  let ?q = "q\<lparr>cancelled_tasks := next_task c, q_heap := (q_heap q)(p := None)\<rparr>"
  have "DequeueTask q = Some (Some (workflow_instance c, task c), ?q)"
    using c by (simp add: DequeueTask_def IsLocked_def)
  moreover have "rep ?q ws cs"
    using assms c by (auto simp: rep_def)
  ultimately show thesis
    using c by (intro that [of "(workflow_instance c, task c)" ?q]) (auto simp: content_def)
qed

lemma DequeueTask_waiting:
  assumes r: "rep q (p # ws) []" and u: "\<not> IsLocked q"
  obtains q' x where "DequeueTask q = Some (Some x, q')" and "rep q' ws []"
    and "content (q_heap q) p = Some x"
    and "\<And>a. a \<noteq> p \<Longrightarrow> content (q_heap q') a = content (q_heap q) a"
    and "last_task q' = last_task q" and "concurrency q' = concurrency q"
    and "running_tasks q' = running_tasks q"
proof -
  from r obtain c where c: "q_heap q p = Some c" "first_task q = Some p"
    "cancelled_tasks q = None"
    by (auto simp: rep_def split: option.splits)
  let ?q = "q\<lparr>first_task := next_task c, qsize := qsize q - 1, q_heap := (q_heap q)(p := None)\<rparr>"
  have "DequeueTask q = Some (Some (workflow_instance c, task c), ?q)"
    using c u by (simp add: DequeueTask_def)
  moreover have "rep ?q ws []"
    using r c by (auto simp: rep_def)
  ultimately show thesis
    using c by (intro that [of "(workflow_instance c, task c)" ?q]) (auto simp: content_def)
qed

text \<open>
  The order in which tasks leave: cancelled ones first, then waiting ones in arrival
  order.
\<close>

definition next_out :: "queue \<Rightarrow> (wi_ref \<times> node_ref) list" where
  "next_out q = cancelled q @ waiting q"

lemma DequeueTask_inv:
  assumes inv: "queue_inv q" and u: "\<not> IsLocked q"
  obtains x q' where "DequeueTask q = Some (Some x, q')" and "queue_inv q'"
    and "next_out q = x # next_out q'"
    and "cancelled q' = tl (cancelled q)"
    and "waiting q' = (if cancelled q = [] then tl (waiting q) else waiting q)"
    and "concurrency q' = concurrency q" and "running_tasks q' = running_tasks q"
proof -
  obtain ws cs where r: "rep q ws cs" and l: "ws \<noteq> [] \<Longrightarrow> last_task q = Some (last ws)"
    using inv by (rule queue_inv_rep) blast
  have same: "List.map_filter (content h) xs = List.map_filter (content (q_heap q)) xs"
    if "p \<notin> set xs" "\<And>a. a \<noteq> p \<Longrightarrow> content h a = content (q_heap q) a" for h xs p
    using that by (intro map_filter_cong_set) metis
  show thesis
  proof (cases cs)
    case (Cons p cs')
    obtain q' x where q': "DequeueTask q = Some (Some x, q')" "rep q' ws cs'"
      "content (q_heap q) p = Some x"
      "\<And>a. a \<noteq> p \<Longrightarrow> content (q_heap q') a = content (q_heap q) a"
      "last_task q' = last_task q" "concurrency q' = concurrency q"
      "running_tasks q' = running_tasks q"
      using DequeueTask_cancelled [OF r [unfolded Cons]] by blast
    have "p \<notin> set ws" "p \<notin> set cs'" using r Cons by (auto simp: rep_def)
    then have "cancelled q = x # cancelled q'" "waiting q' = waiting q"
      using q'(3) same [OF _ q'(4)] rep_contents [OF r] rep_contents [OF q'(2)] Cons by simp_all
    moreover have "queue_inv q'" using q'(2) by (rule rep_inv) (simp add: q'(5) l)
    ultimately show thesis using q' by (intro that [of x q']) (simp_all add: next_out_def Cons)
  next
    case Nil
    with u r have "ws \<noteq> []"
      using rep_lengths [OF r] rep_wf [OF r] by (auto simp: IsLocked_iff)
    then obtain p ws' where ws: "ws = p # ws'" by (cases ws) auto
    obtain q' x where q': "DequeueTask q = Some (Some x, q')" "rep q' ws' []"
      "content (q_heap q) p = Some x"
      "\<And>a. a \<noteq> p \<Longrightarrow> content (q_heap q') a = content (q_heap q) a"
      "last_task q' = last_task q" "concurrency q' = concurrency q"
      "running_tasks q' = running_tasks q"
      using DequeueTask_waiting [OF r [unfolded Nil ws] u] by blast
    have "p \<notin> set ws'" using r ws by (auto simp: rep_def)
    then have "waiting q = x # waiting q'" "cancelled q = []" "cancelled q' = []"
      using q'(3) same [OF _ q'(4)] rep_contents [OF r] rep_contents [OF q'(2)] Nil ws
      by simp_all
    moreover have "queue_inv q'" using q'(2) by (rule rep_inv) (use l ws q'(5) in simp)
    ultimately show thesis using q' by (intro that [of x q']) (simp_all add: next_out_def)
  qed
qed

section \<open>Cancellation\<close>

definition hit :: "(wi_ref \<Rightarrow> u32) \<Rightarrow> u32 \<Rightarrow> wi_ref \<times> node_ref \<Rightarrow> bool" where
  "hit instance_id wid x \<longleftrightarrow> instance_id (fst x) = wid"

definition hit_cell :: "(wi_ref \<Rightarrow> u32) \<Rightarrow> u32 \<Rightarrow> heap \<Rightarrow> addr \<Rightarrow> bool" where
  "hit_cell instance_id wid h a \<longleftrightarrow>
     (case content h a of None \<Rightarrow> False | Some x \<Rightarrow> hit instance_id wid x)"

definition link_of :: "addr list \<Rightarrow> link" where
  "link_of ks = (if ks = [] then None else Some (last ks))"

lemma link_of_simps [simp]: "link_of [] = None" "link_of (ks @ [a]) = Some a"
  by (simp_all add: link_of_def)

lemma read_link_rep:
  assumes "rep q (ks @ bs) cs"
  shows "read_link (link_of ks) q = Some (case bs of [] \<Rightarrow> None | b # _ \<Rightarrow> Some b)"
  using assms
  by (cases ks rule: rev_cases)
     (auto simp: rep_def read_link_def split: option.splits list.splits)

lemma move_cell_rep:
  assumes r: "rep q (ks @ p # bs) cs" and c: "q_heap q p = Some c"
  shows "rep (move_cell (link_of ks) p c q) (ks @ bs) (p # cs)"
proof (cases ks rule: rev_cases)
  case Nil
  then show ?thesis using r c
    by (auto simp: rep_def move_cell_def write_link_def Let_def)
next
  case (snoc ks0 k)
  then show ?thesis using r c
    by (auto simp: rep_def move_cell_def write_link_def Let_def split: option.splits)
qed

lemma move_cell_content [simp]:
  "content (q_heap (move_cell l p c q)) a = content (q_heap q) a"
  by (cases l)
     (auto simp: move_cell_def write_link_def Let_def content_def option.map_comp comp_def)

lemma move_cell_same [simp]:
  "last_task (move_cell l p c q) = last_task q"
  "concurrency (move_cell l p c q) = concurrency q"
  "running_tasks (move_cell l p c q) = running_tasks q"
  by (cases l; simp add: move_cell_def write_link_def Let_def)+

lemma cancel_loop_rep:
  assumes "rep q (ks @ bs) cs"
  shows "\<exists>q'. cancel_loop f w (link_of ks) q = Some q' \<and>
    rep q' (ks @ filter (\<lambda>a. \<not> hit_cell f w (q_heap q) a) bs)
      (rev (filter (hit_cell f w (q_heap q)) bs) @ cs) \<and>
    content (q_heap q') = content (q_heap q) \<and> last_task q' = last_task q \<and>
    concurrency q' = concurrency q \<and> running_tasks q' = running_tasks q"
  using assms
proof (induction bs arbitrary: q ks cs)
  case Nil
  then show ?case
    using read_link_rep [of q ks "[]" cs] by (subst cancel_loop.simps) simp
next
  case (Cons p bs)
  then obtain c where c: "q_heap q p = Some c"
    by (auto simp: rep_def split: option.splits)
  have loop: "cancel_loop f w (link_of ks) q =
      (if hit_cell f w (q_heap q) p then cancel_loop f w (link_of ks) (move_cell (link_of ks) p c q)
       else cancel_loop f w (Some p) q)"
    by (subst cancel_loop.simps)
       (simp add: read_link_rep [OF Cons.prems] c hit_cell_def hit_def content_def)
  show ?case
  proof (cases "hit_cell f w (q_heap q) p")
    case True
    let ?q = "move_cell (link_of ks) p c q"
    have same: "hit_cell f w (q_heap ?q) = hit_cell f w (q_heap q)"
      by (simp add: hit_cell_def fun_eq_iff)
    have "content (q_heap ?q) = content (q_heap q)" by (simp add: fun_eq_iff)
    then show ?thesis
      using Cons.IH [OF move_cell_rep [OF Cons.prems c]] True loop unfolding same by simp
  next
    case False
    have "rep q ((ks @ [p]) @ bs) cs" using Cons.prems by simp
    from Cons.IH [OF this] show ?thesis using False loop by simp
  qed
qed

lemma map_filter_content_filter:
  assumes "\<And>a. a \<in> set as \<Longrightarrow> content h a \<noteq> None"
  shows "List.map_filter (content h) (filter (hit_cell f w h) as) =
           filter (hit f w) (List.map_filter (content h) as)"
    and "List.map_filter (content h) (filter (\<lambda>a. \<not> hit_cell f w h a) as) =
           filter (\<lambda>x. \<not> hit f w x) (List.map_filter (content h) as)"
  using assms by (induction as) (auto simp: hit_cell_def split: option.splits)

lemma rev_map_filter: "List.map_filter f (rev xs) = rev (List.map_filter f xs)"
  by (induction xs) (auto split: option.splits)

text \<open>
  Cancellation on a well-formed queue terminates and moves exactly the tasks of the
  instance. The pointer \<open>last_task\<close> is not touched: \<open>queue_inv\<close> survives when the last
  waiting task stays, or when none stays.
\<close>

lemma CancelTasks_wf:
  assumes wf: "queue_wf q"
  obtains q' where "CancelTasks f w q = Some q'" and "queue_wf q'"
    and "waiting q' = filter (\<lambda>x. \<not> hit f w x) (waiting q)"
    and "cancelled q' = rev (filter (hit f w) (waiting q)) @ cancelled q"
    and "concurrency q' = concurrency q" and "running_tasks q' = running_tasks q"
    and "queue_inv q \<Longrightarrow> (\<forall>x \<in> set (waiting q). hit f w x) \<or> \<not> hit f w (last (waiting q))
         \<Longrightarrow> queue_inv q'"
proof -
  obtain ws cs where r: "rep q ws cs" using wf by (rule queue_wf_rep)
  let ?h = "q_heap q"
  obtain q' where q': "CancelTasks f w q = Some q'"
    and r': "rep q' (filter (\<lambda>a. \<not> hit_cell f w ?h a) ws) (rev (filter (hit_cell f w ?h) ws) @ cs)"
    and same: "content (q_heap q') = content ?h" "last_task q' = last_task q"
      "concurrency q' = concurrency q" "running_tasks q' = running_tasks q"
    using cancel_loop_rep [of q "[]" ws cs f w] r by (auto simp: CancelTasks_def)
  have def_ws: "\<And>a. a \<in> set ws \<Longrightarrow> content ?h a \<noteq> None"
    using r by (auto simp: rep_def dest: path_content)
  have w: "waiting q' = filter (\<lambda>x. \<not> hit f w x) (waiting q)"
    by (simp add: rep_contents [OF r'] rep_contents [OF r] same map_filter_content_filter [OF def_ws])
  have c: "cancelled q' = rev (filter (hit f w) (waiting q)) @ cancelled q"
    by (simp add: rep_contents [OF r'] rep_contents [OF r] same rev_map_filter
        map_filter_content_filter [OF def_ws])
  have "queue_inv q'" if inv: "queue_inv q"
    and ok: "(\<forall>x \<in> set (waiting q). hit f w x) \<or> \<not> hit f w (last (waiting q))"
  proof (rule rep_inv [OF r'])
    assume ne: "filter (\<lambda>a. \<not> hit_cell f w ?h a) ws \<noteq> []"
    then have ws: "ws \<noteq> []" by auto
    then have l: "last_task q = Some (last ws)"
      using inv rep_cells [OF r] by (simp add: queue_inv_def last_ok_def Let_def)
    obtain x where x: "content ?h (last ws) = Some x"
      using def_ws ws by fastforce
    have "waiting q = List.map_filter (content ?h) (butlast ws @ [last ws])"
      using ws by (simp add: rep_contents [OF r])
    then have lw: "last (waiting q) = x" using x by (simp only: map_filter_append) simp
    have "filter (\<lambda>x. \<not> hit f w x) (waiting q) \<noteq> []"
      using ne rep_lengths(1) [OF r'] w by (metis length_0_conv)
    with ok have "\<not> hit f w x" by (auto simp: lw filter_empty_conv)
    then have "\<not> hit_cell f w ?h (last ws)" by (simp add: hit_cell_def x)
    then have "last (filter (\<lambda>a. \<not> hit_cell f w ?h a) (butlast ws @ [last ws])) = last ws"
      by simp
    then show "last_task q' = Some (last (filter (\<lambda>a. \<not> hit_cell f w ?h a) ws))"
      using ws l same by simp
  qed
  with that q' rep_wf [OF r'] w c same show thesis by blast
qed

section \<open>The queue implements a two-stage FIFO\<close>

text \<open>
  The abstract queue: two lists and two counters. Its step function is the specification
  of the class; \<open>queue_step\<close> runs the modelled operation.
\<close>

record aqueue =
  a_waiting :: "(wi_ref \<times> node_ref) list"
  a_cancelled :: "(wi_ref \<times> node_ref) list"
  a_concurrency :: u32
  a_running :: u32

datatype queue_op = OpEnqueue wi_ref node_ref | OpDequeue | OpExecute | OpTerminate | OpCancel u32

definition a_locked :: "aqueue \<Rightarrow> bool" where
  "a_locked a \<longleftrightarrow> a_cancelled a = [] \<and> (a_waiting a = [] \<or> a_concurrency a \<le> a_running a)"

fun a_step :: "(wi_ref \<Rightarrow> u32) \<Rightarrow> queue_op \<Rightarrow> aqueue \<Rightarrow> (wi_ref \<times> node_ref) option \<times> aqueue" where
  "a_step f (OpEnqueue wi t) a = (None, a\<lparr>a_waiting := a_waiting a @ [(wi, t)]\<rparr>)"
| "a_step f OpDequeue a =
     (if a_locked a then (None, a)
      else case a_cancelled a of
        x # xs \<Rightarrow> (Some x, a\<lparr>a_cancelled := xs\<rparr>)
      | [] \<Rightarrow> (Some (hd (a_waiting a)), a\<lparr>a_waiting := tl (a_waiting a)\<rparr>))"
| "a_step f OpExecute a = (None, a\<lparr>a_running := a_running a + 1\<rparr>)"
| "a_step f OpTerminate a = (None, a\<lparr>a_running := a_running a - 1\<rparr>)"
| "a_step f (OpCancel w) a =
     (None, a\<lparr>a_waiting := filter (\<lambda>x. \<not> hit f w x) (a_waiting a),
              a_cancelled := rev (filter (hit f w) (a_waiting a)) @ a_cancelled a\<rparr>)"

fun queue_step ::
  "(wi_ref \<Rightarrow> u32) \<Rightarrow> queue_op \<Rightarrow> queue \<Rightarrow> ((wi_ref \<times> node_ref) option \<times> queue) option" where
  "queue_step f (OpEnqueue wi t) q = map_option (Pair None) (EnqueueTask wi t q)"
| "queue_step f OpDequeue q = DequeueTask q"
| "queue_step f OpExecute q = Some (None, ExecuteTask q)"
| "queue_step f OpTerminate q = Some (None, TerminateTask q)"
| "queue_step f (OpCancel w) q = map_option (Pair None) (CancelTasks f w q)"

definition abs_queue :: "queue \<Rightarrow> aqueue" where
  "abs_queue q = \<lparr>a_waiting = waiting q, a_cancelled = cancelled q,
     a_concurrency = concurrency q, a_running = running_tasks q\<rparr>"

text \<open>
  The two conditions under which a step is safe: the size counter does not wrap, and a
  cancellation does not take the last waiting task while leaving others.
\<close>

fun op_safe :: "(wi_ref \<Rightarrow> u32) \<Rightarrow> queue_op \<Rightarrow> aqueue \<Rightarrow> bool" where
  "op_safe f (OpEnqueue wi t) a \<longleftrightarrow> Suc (length (a_waiting a)) < 2 ^ 32"
| "op_safe f (OpCancel w) a \<longleftrightarrow>
     (\<forall>x \<in> set (a_waiting a). hit f w x) \<or> \<not> hit f w (last (a_waiting a))"
| "op_safe f _ a \<longleftrightarrow> True"

lemma counter_ops_same [simp]:
  "waiting (q\<lparr>running_tasks := n\<rparr>) = waiting q" "cancelled (q\<lparr>running_tasks := n\<rparr>) = cancelled q"
  "queue_inv (q\<lparr>running_tasks := n\<rparr>) = queue_inv q"
  by (simp_all add: waiting_def cancelled_def waiting_cells_def cancelled_cells_def queue_inv_def
      queue_wf_def last_ok_def rep_def)

lemma queue_inv_wf: "queue_inv q \<Longrightarrow> queue_wf q"
  by (simp add: queue_inv_def)

lemma a_locked_abs: "queue_wf q \<Longrightarrow> a_locked (abs_queue q) = IsLocked q"
  by (simp add: a_locked_def abs_queue_def IsLocked_iff)

lemma queue_step_simulates:
  assumes inv: "queue_inv q" and safe: "op_safe f x (abs_queue q)"
  shows "\<exists>out q'. queue_step f x q = Some (out, q') \<and> queue_inv q' \<and>
    a_step f x (abs_queue q) = (out, abs_queue q')"
proof (cases x)
  case (OpEnqueue wi t)
  with safe have "Suc (length (waiting q)) < 2 ^ 32" by (simp add: abs_queue_def)
  from EnqueueTask_inv [OF inv this, of wi t] obtain q' where "EnqueueTask wi t q = Some q'"
    "queue_inv q'" "waiting q' = waiting q @ [(wi, t)]" "cancelled q' = cancelled q"
    "concurrency q' = concurrency q" "running_tasks q' = running_tasks q" by blast
  with OpEnqueue show ?thesis by (simp add: abs_queue_def)
next
  case OpDequeue
  show ?thesis
  proof (cases "IsLocked q")
    case True
    with OpDequeue inv show ?thesis
      by (simp add: DequeueTask_locked a_locked_abs queue_inv_wf)
  next
    case False
    from DequeueTask_inv [OF inv False] obtain y q' where
      "DequeueTask q = Some (Some y, q')" "queue_inv q'" "next_out q = y # next_out q'"
      "cancelled q' = tl (cancelled q)"
      "waiting q' = (if cancelled q = [] then tl (waiting q) else waiting q)"
      "concurrency q' = concurrency q" "running_tasks q' = running_tasks q" by blast
    note q' = this
    have "\<not> a_locked (abs_queue q)"
      using False inv by (simp add: a_locked_abs queue_inv_wf)
    moreover have "cancelled q = [] \<Longrightarrow> hd (waiting q) = y"
      using q'(3) by (metis append_Nil list.sel(1) next_out_def)
    ultimately have "a_step f OpDequeue (abs_queue q) = (Some y, abs_queue q')"
      using q' by (cases "cancelled q") (auto simp: next_out_def abs_queue_def)
    with OpDequeue q' show ?thesis by simp
  qed
next
  case (OpCancel w)
  from CancelTasks_wf [OF queue_inv_wf [OF inv], of f w] obtain q' where
    "CancelTasks f w q = Some q'" "waiting q' = filter (\<lambda>x. \<not> hit f w x) (waiting q)"
    "cancelled q' = rev (filter (hit f w) (waiting q)) @ cancelled q"
    "concurrency q' = concurrency q" "running_tasks q' = running_tasks q"
    "(\<forall>x \<in> set (waiting q). hit f w x) \<or> \<not> hit f w (last (waiting q)) \<Longrightarrow> queue_inv q'"
    using inv by blast
  with OpCancel safe show ?thesis by (simp add: abs_queue_def)
qed (use inv in \<open>simp_all add: ExecuteTask_def TerminateTask_def abs_queue_def\<close>)

text \<open>Runs of operations, with the list of tasks handed out.\<close>

fun queue_run ::
  "(wi_ref \<Rightarrow> u32) \<Rightarrow> queue_op list \<Rightarrow> queue \<Rightarrow> ((wi_ref \<times> node_ref) option list \<times> queue) option" where
  "queue_run f [] q = Some ([], q)"
| "queue_run f (x # xs) q =
     (case queue_step f x q of
        None \<Rightarrow> None
      | Some (out, q') \<Rightarrow> map_option (apfst (Cons out)) (queue_run f xs q'))"

fun a_run ::
  "(wi_ref \<Rightarrow> u32) \<Rightarrow> queue_op list \<Rightarrow> aqueue \<Rightarrow> (wi_ref \<times> node_ref) option list \<times> aqueue" where
  "a_run f [] a = ([], a)"
| "a_run f (x # xs) a =
     (let (out, a') = a_step f x a in apfst (Cons out) (a_run f xs a'))"

fun run_safe :: "(wi_ref \<Rightarrow> u32) \<Rightarrow> queue_op list \<Rightarrow> aqueue \<Rightarrow> bool" where
  "run_safe f [] a \<longleftrightarrow> True"
| "run_safe f (x # xs) a \<longleftrightarrow> op_safe f x a \<and> run_safe f xs (snd (a_step f x a))"

interpretation task_queue: queue_interface DequeueTask IsLocked queue_inv next_out
proof unfold_locales
  show "\<exists>x q'. DequeueTask q = Some (Some x, q') \<and> queue_inv q' \<and> next_out q = x # next_out q'"
    if "queue_inv q" "\<not> IsLocked q" for q
    using DequeueTask_inv [OF that] by blast
  show "IsLocked q" if "DequeueTask q = Some (None, q')" for q q'
    using that by (auto simp: DequeueTask_def split: if_splits option.splits)
qed (rule DequeueTask_locked)

text \<open>
  C15. A queue object refines the two-stage FIFO: from any state that satisfies the
  invariant, every sequence of safe operations runs without undefined behaviour, hands out
  exactly the tasks the abstract queue hands out (cancelled ones first, then arrival order,
  nothing while the concurrency limit is reached), and ends in a state that satisfies the
  invariant and represents the abstract state.
\<close>

theorem queue_run_refines:
  assumes "queue_inv q" and "run_safe f xs (abs_queue q)"
  shows "\<exists>outs q'. queue_run f xs q = Some (outs, q') \<and> queue_inv q' \<and>
    a_run f xs (abs_queue q) = (outs, abs_queue q')"
  using assms
proof (induction xs arbitrary: q)
  case Nil
  then show ?case by simp
next
  case (Cons x xs)
  then obtain out q1 where s: "queue_step f x q = Some (out, q1)" "queue_inv q1"
    "a_step f x (abs_queue q) = (out, abs_queue q1)"
    using queue_step_simulates [of q f x] by auto
  with Cons.IH [of q1] Cons.prems show ?case by auto
qed

text \<open>A fresh queue with a concurrency of two, used by the concrete runs below.\<close>

definition demo_queue :: queue where
  "demo_queue = \<lparr>q_name = ''q'', q_id = 1, concurrency = 2, qsize = 0, running_tasks = 0,
     first_task = None, last_task = None, cancelled_tasks = None, q_heap = Map.empty, q_brk = 0\<rparr>"

lemma demo_queue_new: "Queue_new ''q'' (Some (1, 2)) = Inr demo_queue"
  by (simp add: Queue_new_def demo_queue_def CheckQueueName_def QUEUE_NAME_MAX_LEN_def
      isalnum_def isalpha_def)

lemma demo_queue_inv: "queue_inv demo_queue" "abs_queue demo_queue =
    \<lparr>a_waiting = [], a_cancelled = [], a_concurrency = 2, a_running = 0\<rparr>"
  using Queue_new_inv [OF demo_queue_new] by (simp_all add: abs_queue_def) (simp add: demo_queue_def)

theorem queue_run_refines_witness:
  "queue_inv demo_queue \<and>
   run_safe of_nat [OpEnqueue 1 10, OpEnqueue 2 20, OpEnqueue 1 30, OpCancel 2, OpDequeue, OpDequeue]
     (abs_queue demo_queue) \<and>
   (\<exists>outs q'. queue_run of_nat
      [OpEnqueue 1 10, OpEnqueue 2 20, OpEnqueue 1 30, OpCancel 2, OpDequeue, OpDequeue] demo_queue =
        Some (outs, q') \<and> queue_inv q' \<and> outs = [None, None, None, None, Some (2, 20), Some (1, 10)] \<and>
        waiting q' = [(1, 30)])"
proof -
  let ?xs = "[OpEnqueue 1 10, OpEnqueue 2 20, OpEnqueue 1 30, OpCancel 2, OpDequeue, OpDequeue]"
  have safe: "run_safe of_nat ?xs (abs_queue demo_queue)"
    by (simp add: demo_queue_inv hit_def a_locked_def)
  have run: "a_run of_nat ?xs (abs_queue demo_queue) =
    ([None, None, None, None, Some (2, 20), Some (1, 10)],
     \<lparr>a_waiting = [(1, 30)], a_cancelled = [], a_concurrency = 2, a_running = 0\<rparr>)"
    by (simp add: demo_queue_inv hit_def a_locked_def)
  show ?thesis
    using queue_run_refines [OF demo_queue_inv(1) safe] safe demo_queue_inv(1)
    unfolding run by (auto simp: abs_queue_def)
qed

text \<open>
  Cancellation terminates on every well-formed queue: it moves exactly the waiting
  tasks of the instance, in reverse order, in front of the cancelled list, keeps the
  others in order and the counters consistent, and does not touch concurrency or running
  tasks.
\<close>

theorem CancelTasks_moves:
  assumes "queue_wf q"
  shows "\<exists>q'. CancelTasks f w q = Some q' \<and> queue_wf q' \<and>
    waiting q' = filter (\<lambda>x. f (fst x) \<noteq> w) (waiting q) \<and>
    cancelled q' = rev (filter (\<lambda>x. f (fst x) = w) (waiting q)) @ cancelled q \<and>
    concurrency q' = concurrency q \<and> running_tasks q' = running_tasks q"
  using CancelTasks_wf [OF assms, of f w] unfolding hit_def by metis

theorem CancelTasks_moves_witness:
  "queue_wf demo_queue \<and> (\<exists>q'. CancelTasks of_nat 2 demo_queue = Some q' \<and> queue_wf q' \<and> waiting q' = [])"
  using CancelTasks_moves [OF queue_inv_wf [OF demo_queue_inv(1)], of of_nat 2]
    queue_inv_wf [OF demo_queue_inv(1)] Queue_new_inv(2) [OF demo_queue_new] by auto

text \<open>
  The safety condition on cancellations is needed. The code leaves \<open>last_task\<close>
  pointing at a cancelled cell when the last waiting task is cancelled and another one
  stays. The next \<open>EnqueueTask\<close> then links the new task behind the cancelled cell: it
  is counted in \<open>size\<close> but not in the waiting list, it is handed out as a cancelled
  task, and once the waiting list is empty \<open>DequeueTask\<close> dereferences a null
  pointer; if the cancelled cell was dequeued (deleted) first, \<open>EnqueueTask\<close> writes
  through a dangling pointer. The abstract queue has no such behaviour.
\<close>

theorem cancel_last_corrupts:
  "map_option (\<lambda>(outs, q). (waiting q, cancelled q, qsize q))
     (queue_run of_nat [OpEnqueue 1 10, OpEnqueue 2 20, OpCancel 2, OpEnqueue 1 30] demo_queue) =
     Some ([(1, 10)], [(2, 20), (1, 30)], 2) \<and>
   queue_run of_nat [OpEnqueue 1 10, OpEnqueue 2 20, OpCancel 2, OpEnqueue 1 30,
     OpDequeue, OpDequeue, OpDequeue, OpDequeue] demo_queue = None \<and>
   queue_run of_nat [OpEnqueue 1 10, OpEnqueue 2 20, OpCancel 2, OpDequeue, OpEnqueue 1 30]
     demo_queue = None"
  by (simp add: demo_queue_def EnqueueTask_def CancelTasks_def cancel_loop.simps read_link_def
      move_cell_def write_link_def DequeueTask_def IsLocked_def waiting_def cancelled_def
      waiting_cells_def cancelled_cells_def content_def Let_def numeral_2_eq_2)

end
