(* ===== verification/Lookup_Tables.thy ===== *)
theory Lookup_Tables
  imports Prelude
begin

text \<open>
  Dichotomic lookup in sorted arrays. The code has three copies of the same loop, with
  two key types: \<open>QueuePool::lookup\<close> and \<open>Configuration::lookup\<close> compare strings with
  \<open>strcmp\<close>, \<open>WorkflowScheduler::lookup\<close> compares unsigned integers. The contract their
  callers use is the locale \<open>lookup_table\<close>; each copy is an interpretation of it.
\<close>

section \<open>The contract\<close>

locale lookup_table =
  fixes lookup :: "'k::linorder list \<Rightarrow> 'k \<Rightarrow> int"
    and usable :: "'k list \<Rightarrow> bool"
  assumes lookup_hit: "sorted ks \<Longrightarrow> usable ks \<Longrightarrow> k \<in> set ks \<Longrightarrow>
      0 \<le> lookup ks k \<and> nat (lookup ks k) < length ks \<and> ks ! nat (lookup ks k) = k"
    and lookup_miss: "sorted ks \<Longrightarrow> usable ks \<Longrightarrow> k \<notin> set ks \<Longrightarrow> lookup ks k = -1"
begin

lemma lookup_fail_iff: "sorted ks \<Longrightarrow> usable ks \<Longrightarrow> lookup ks k = -1 \<longleftrightarrow> k \<notin> set ks"
  using lookup_hit [of ks k] lookup_miss [of ks k] by fastforce

lemma lookup_nth:
  assumes "sorted ks" and "distinct ks" and "usable ks" and "i < length ks"
  shows "lookup ks (ks ! i) = int i"
proof -
  have "ks ! i \<in> set ks" using assms(4) by simp
  from lookup_hit [OF assms(1,3) this] assms(2,4) show ?thesis
    by (auto simp: nth_eq_iff_index_eq)
qed

text \<open>The array of values kept beside the keys behaves as a finite map.\<close>

lemma lookup_inj:
  assumes "sorted ks" and "usable ks" and "j \<in> set ks" and "k \<in> set ks" and "j \<noteq> k"
  shows "nat (lookup ks j) \<noteq> nat (lookup ks k)"
  using lookup_hit [OF assms(1-3)] lookup_hit [OF assms(1,2,4)] assms(5) by metis

lemma update_other:
  assumes "sorted ks" and "usable ks" and "j \<in> set ks" and "k \<in> set ks" and "j \<noteq> k"
  shows "(vs[nat (lookup ks k) := v]) ! nat (lookup ks j) = vs ! nat (lookup ks j)"
  using lookup_inj [OF assms] by simp

lemma update_same:
  assumes "sorted ks" and "usable ks" and "k \<in> set ks" and "length vs = length ks"
  shows "(vs[nat (lookup ks k) := v]) ! nat (lookup ks k) = v"
  using lookup_hit [OF assms(1-3)] assms(4) by simp

end

section \<open>The loop\<close>

text \<open>
  \<open>cmp m\<close> is the sign of the comparison of the entry at \<open>m\<close> with the wanted key. The
  \<open>while\<close> form tests \<open>begin<=end\<close> first; the \<open>do\<close> form, used by \<open>Configuration\<close>, runs
  the body once before the test.
\<close>

function bsearch :: "(int \<Rightarrow> int) \<Rightarrow> int \<Rightarrow> int \<Rightarrow> int" where
  "bsearch cmp b e =
     (if b \<le> e then
        let middle = (e + b) div 2 in
        if cmp middle = 0 then middle
        else if cmp middle < 0 then bsearch cmp (middle + 1) e
        else bsearch cmp b (middle - 1)
      else -1)"
  by pat_completeness auto
termination
  by (relation "measure (\<lambda>(cmp, b, e). nat (e - b + 1))") auto

function bsearch_do :: "(int \<Rightarrow> int) \<Rightarrow> int \<Rightarrow> int \<Rightarrow> int" where
  "bsearch_do cmp b e =
     (let middle = (e + b) div 2 in
      if cmp middle = 0 then middle
      else if cmp middle < 0
        then (if middle + 1 \<le> e then bsearch_do cmp (middle + 1) e else -1)
      else (if b \<le> middle - 1 then bsearch_do cmp b (middle - 1) else -1))"
  by pat_completeness auto
termination
  by (relation "measure (\<lambda>(cmp, b, e). nat (e - b + 1))") auto

declare bsearch.simps [simp del] bsearch_do.simps [simp del]

lemma bsearch_do_eq: "b \<le> e \<Longrightarrow> bsearch_do cmp b e = bsearch cmp b e"
proof (induction cmp b e rule: bsearch_do.induct)
  case (1 cmp b e)
  let ?m = "(e + b) div 2"
  consider "cmp ?m = 0" | "cmp ?m < 0" | "cmp ?m > 0" by linarith
  then show ?case
  proof cases
    case 2
    with 1 show ?thesis
      by (cases "?m + 1 \<le> e")
         (simp_all add: bsearch_do.simps [of cmp b e] bsearch.simps [of cmp b e]
          bsearch.simps [of cmp "?m + 1" e] Let_def)
  next
    case 3
    with 1 show ?thesis
      by (cases "b \<le> ?m - 1")
         (simp_all add: bsearch_do.simps [of cmp b e] bsearch.simps [of cmp b e]
          bsearch.simps [of cmp b "?m - 1"] Let_def)
  qed (use 1 in \<open>simp add: bsearch_do.simps [of cmp b e] bsearch.simps [of cmp b e] Let_def\<close>)
qed

text \<open>
  \<open>cmp\<close> is monotone when it is the comparison against a sorted array.
\<close>

definition table_cmp :: "('k::linorder \<Rightarrow> 'k \<Rightarrow> int) \<Rightarrow> 'k list \<Rightarrow> 'k \<Rightarrow> int \<Rightarrow> int" where
  "table_cmp compare ks k m = compare (ks ! nat m) k"

definition is_compare :: "('k::linorder \<Rightarrow> 'k \<Rightarrow> int) \<Rightarrow> bool" where
  "is_compare compare \<longleftrightarrow>
     (\<forall>x y. (compare x y = 0 \<longleftrightarrow> x = y) \<and> (compare x y < 0 \<longleftrightarrow> x < y))"

lemma bsearch_bounds:
  "0 \<le> b \<Longrightarrow> bsearch cmp b e \<noteq> -1 \<Longrightarrow>
    b \<le> bsearch cmp b e \<and> bsearch cmp b e \<le> e \<and> cmp (bsearch cmp b e) = 0"
proof (induction cmp b e rule: bsearch.induct)
  case (1 cmp b e)
  let ?m = "(e + b) div 2"
  have be: "b \<le> e" using 1 by (simp add: bsearch.simps [of cmp b e] split: if_splits)
  then have m: "b \<le> ?m" "?m \<le> e" by auto
  consider "cmp ?m = 0" | "cmp ?m < 0" | "cmp ?m > 0" by linarith
  then show ?case
  proof cases
    case 1
    then show ?thesis using be m by (simp add: bsearch.simps [of cmp b e] Let_def)
  next
    case 2
    then show ?thesis using 1(1) [OF be refl] "1.prems" be
      by (auto simp: bsearch.simps [of cmp b e] Let_def)
  next
    case 3
    then show ?thesis using 1(2) [OF be refl] "1.prems" be
      by (auto simp: bsearch.simps [of cmp b e] Let_def)
  qed
qed

lemma bsearch_finds:
  assumes "is_compare compare" and "sorted ks"
  shows "0 \<le> b \<Longrightarrow> e < int (length ks) \<Longrightarrow> b \<le> i \<Longrightarrow> i \<le> e \<Longrightarrow> ks ! nat i = k \<Longrightarrow>
    bsearch (table_cmp compare ks k) b e \<noteq> -1"
proof (induction "table_cmp compare ks k" b e rule: bsearch.induct)
  case (1 b e)
  let ?c = "table_cmp compare ks k" and ?m = "(e + b) div 2"
  have be: "b \<le> e" using 1 by simp
  then have m: "b \<le> ?m" "?m \<le> e" by auto
  with "1.prems" have ml: "0 \<le> ?m" "nat ?m < length ks" by (auto simp: nat_less_iff)
  consider "?c ?m = 0" | "?c ?m < 0" | "?c ?m > 0" by linarith
  then show ?case
  proof cases
    case 1
    then show ?thesis using be m "1.prems" by (simp add: bsearch.simps [of ?c b e] Let_def)
  next
    case 2
    then have "ks ! nat ?m < k" using assms(1) by (simp add: table_cmp_def is_compare_def)
    moreover have "ks ! nat i \<le> ks ! nat ?m" if "i \<le> ?m"
      using assms(2) ml(2) that by (intro sorted_nth_mono) auto
    ultimately have "\<not> i \<le> ?m" using "1.prems" by auto
    then show ?thesis
      using 1(1) [OF be refl] 2 be m "1.prems" by (simp add: bsearch.simps [of ?c b e] Let_def)
  next
    case 3
    then have "k < ks ! nat ?m"
      using assms(1) by (auto simp: table_cmp_def is_compare_def) (metis linorder_neqE not_less_iff_gr_or_eq)
    moreover have "ks ! nat ?m \<le> ks ! nat i" if "?m \<le> i"
      using assms(2) "1.prems" ml(1) that by (intro sorted_nth_mono) auto
    ultimately have "\<not> ?m \<le> i" using "1.prems" by auto
    then show ?thesis
      using 1(2) [OF be refl] 3 be m "1.prems" by (simp add: bsearch.simps [of ?c b e] Let_def)
  qed
qed

lemma bsearch_table:
  fixes k :: "'k::linorder"
  assumes "is_compare compare" and "sorted ks"
  defines "r \<equiv> bsearch (table_cmp compare ks k) 0 (int (length ks) - 1)"
  shows "k \<in> set ks \<Longrightarrow> 0 \<le> r \<and> nat r < length ks \<and> ks ! nat r = k"
    and "k \<notin> set ks \<Longrightarrow> r = -1"
proof -
  have found: "0 \<le> r \<and> nat r < length ks \<and> ks ! nat r = k" if "r \<noteq> -1"
    using bsearch_bounds [of 0 "table_cmp compare ks k" "int (length ks) - 1"] that assms(1)
    by (auto simp: r_def table_cmp_def is_compare_def)
  show "0 \<le> r \<and> nat r < length ks \<and> ks ! nat r = k" if "k \<in> set ks"
  proof (rule found)
    from that obtain i where "i < length ks" "ks ! i = k" by (auto simp: in_set_conv_nth)
    then show "r \<noteq> -1"
      unfolding r_def using assms(1,2) by (intro bsearch_finds [of _ _ _ _ "int i"]) auto
  qed
  show "r = -1" if "k \<notin> set ks"
    using found that nth_mem by blast
qed

section \<open>The three copies\<close>

text \<open>\<open>QueuePool::lookup\<close>: \<open>name[0..pool_size)\<close>.\<close>

definition queue_lookup :: "string list \<Rightarrow> string \<Rightarrow> int" where
  "queue_lookup name queue_name =
     bsearch (table_cmp strcmp name queue_name) 0 (int (length name) - 1)"

text \<open>\<open>Configuration::lookup\<close>: \<open>entries\<close>, never empty.\<close>

definition config_lookup :: "string list \<Rightarrow> string \<Rightarrow> int" where
  "config_lookup entries entry =
     bsearch_do (table_cmp strcmp entries entry) 0 (int (length entries) - 1)"

text \<open>\<open>WorkflowScheduler::lookup\<close>.\<close>

definition id_compare :: "u32 \<Rightarrow> u32 \<Rightarrow> int" where
  "id_compare x y = (if x = y then 0 else if x < y then -1 else 1)"

definition id_lookup :: "u32 list \<Rightarrow> u32 \<Rightarrow> int" where
  "id_lookup ids wid = bsearch (table_cmp id_compare ids wid) 0 (int (length ids) - 1)"

lemma is_compare_strcmp: "is_compare strcmp"
  by (simp add: is_compare_def strcmp_neg_iff)

lemma is_compare_id: "is_compare id_compare"
  by (auto simp: is_compare_def id_compare_def)

interpretation queue_table: lookup_table queue_lookup "\<lambda>_. True"
  by unfold_locales (simp_all add: queue_lookup_def bsearch_table [OF is_compare_strcmp])

interpretation config_table: lookup_table config_lookup "\<lambda>ks. ks \<noteq> []"
proof unfold_locales
  fix ks :: "string list" and k
  assume ks: "sorted ks" "ks \<noteq> []"
  have eq: "config_lookup ks k = bsearch (table_cmp strcmp ks k) 0 (int (length ks) - 1)"
    unfolding config_lookup_def using ks(2) by (intro bsearch_do_eq) (cases ks, auto)
  show "k \<in> set ks \<Longrightarrow> 0 \<le> config_lookup ks k \<and> nat (config_lookup ks k) < length ks \<and>
      ks ! nat (config_lookup ks k) = k"
    and "k \<notin> set ks \<Longrightarrow> config_lookup ks k = -1"
    unfolding eq by (rule bsearch_table [OF is_compare_strcmp ks(1)], assumption)+
qed

interpretation id_table: lookup_table id_lookup "\<lambda>_. True"
  by unfold_locales (simp_all add: id_lookup_def bsearch_table [OF is_compare_id])

text \<open>
  Entries are found only if the array is sorted by \<open>strcmp\<close>. \<open>QueuePool\<close> fills it in
  the order of an SQL \<open>ORDER BY\<close>; under a collation that orders an underscore after the
  letters, a queue that is present is not found.
\<close>

lemma queue_lookup_needs_strcmp_order:
  "queue_lookup [''aab'', ''a_b''] ''a_b'' = -1 \<and> ''a_b'' \<in> set [''aab'', ''a_b'']"
  by (simp add: queue_lookup_def table_cmp_def bsearch.simps Let_def)

end
