(* ===== verification/Queue_Pool.thy ===== *)
theory Queue_Pool
  imports Task_Queue Lookup_Tables
begin

text \<open>
  The pool of all queues: \<open>QueuePool.cpp\<close> and \<open>QueuePool.h\<close>. It owns the queues, the
  table of running task identifiers, and the condition variable on which the forker thread
  sleeps while no queue can hand out a task.

  Every public operation runs under the pool's mutex, so it is one atomic step, except
  \<open>DequeueTask\<close>, which may sleep in \<open>pthread_cond_wait\<close> and is therefore two steps. An
  operation returns its result, whether it signalled \<open>fork_lock\<close>, and the new pool;
  \<open>None\<close> is undefined behaviour.
\<close>

section \<open>State\<close>

record pool =
  p_name :: "string list"
  p_queue :: "queue list"
  tid_queue_index :: "nat list"
  tid_task :: "node_ref option list"
  tid_workflow_instance :: "wi_ref option list"
  maxpid :: nat
  lasttid :: nat
  fork_locked :: bool
  fork_possible :: bool
  p_shutting_down :: bool

definition pool_locked :: "pool \<Rightarrow> bool" where
  "pool_locked p \<longleftrightarrow> list_all IsLocked (p_queue p)"

definition refresh :: "pool \<Rightarrow> pool" where
  "refresh p = p\<lparr>fork_possible := \<not> pool_locked p\<rparr>"

definition signals :: "pool \<Rightarrow> bool" where
  "signals p \<longleftrightarrow> fork_locked p \<and> fork_possible p"

text \<open>
  The constructor. \<open>rows\<close> is the result of the query for queue names, in its order, each
  with the row its \<open>Queue\<close> constructor then finds; \<open>pid_max\<close> is the number read from
  \<open>/proc/sys/kernel/pid_max\<close>, \<open>None\<close> when the file cannot be opened.
\<close>

fun new_queues :: "(string \<times> (u32 \<times> u32) option) list \<Rightarrow> exn + queue list" where
  "new_queues [] = Inr []"
| "new_queues ((name, row) # rows) =
     (case Queue_new name row of
        Inl e \<Rightarrow> Inl e
      | Inr q \<Rightarrow> map_sum id (Cons q) (new_queues rows))"

definition QueuePool_new :: "(string \<times> (u32 \<times> u32) option) list \<Rightarrow> nat option \<Rightarrow> exn + pool" where
  "QueuePool_new rows pid_max =
     (case new_queues rows of
        Inl e \<Rightarrow> Inl e
      | Inr qs \<Rightarrow>
          (case pid_max of
             None \<Rightarrow> Inl (Exception ''QueuePool'' ''Unable to read /proc/sys/kernel/pid_max'')
           | Some n \<Rightarrow> Inr (refresh
               \<lparr>p_name = List.map fst rows, p_queue = qs,
                tid_queue_index = replicate (n + 1) 0, tid_task = replicate (n + 1) None,
                tid_workflow_instance = replicate (n + 1) None, maxpid = n, lasttid = 0,
                fork_locked = False, fork_possible = False, p_shutting_down = False\<rparr>)))"

section \<open>Operations\<close>

definition GetQueue :: "string \<Rightarrow> pool \<Rightarrow> queue option" where
  "GetQueue queue_name p =
     (let i = queue_lookup (p_name p) queue_name
      in if i \<noteq> -1 then Some (p_queue p ! nat i) else None)"

definition pool_enqueue ::
  "string \<Rightarrow> wi_ref \<Rightarrow> node_ref \<Rightarrow> pool \<Rightarrow> (bool \<times> bool \<times> pool) option" where
  "pool_enqueue queue_name wi t p =
     (let i = queue_lookup (p_name p) queue_name
      in if i = -1 then Some (False, False, p)
         else case EnqueueTask wi t (p_queue p ! nat i) of
             None \<Rightarrow> None
           | Some q \<Rightarrow> (let p1 = refresh (p\<lparr>p_queue := (p_queue p)[nat i := q]\<rparr>)
                       in Some (True, signals p1, p1)))"

text \<open>\<open>DequeueTask\<close> up to the wait: exit, sleep, or go on to the scan.\<close>

datatype dequeue_entry = EntryExit | EntryWait | EntryScan

definition pool_dequeue_enter :: "pool \<Rightarrow> dequeue_entry \<times> pool" where
  "pool_dequeue_enter p =
     (if p_shutting_down p then (EntryExit, p)
      else if \<not> fork_possible p then (EntryWait, p\<lparr>fork_locked := True\<rparr>)
      else (EntryScan, p))"

text \<open>
  \<open>DequeueTask\<close> from the second shutdown test on, with the mutex held (again). The
  result is \<open>None\<close> for \<open>false\<close>.
\<close>

definition pool_dequeue_scan ::
  "pool \<Rightarrow> ((string \<times> wi_ref \<times> node_ref) option \<times> pool) option" where
  "pool_dequeue_scan p =
     (if p_shutting_down p then Some (None, p)
      else let p1 = p\<lparr>fork_locked := False\<rparr>
      in case scan_dequeue DequeueTask (p_queue p1) of
           None \<Rightarrow> None
         | Some (None, qs) \<Rightarrow> Some (None, p1\<lparr>p_queue := qs\<rparr>)
         | Some (Some (i, x), qs) \<Rightarrow>
             Some (Some (p_name p ! i, x), refresh (p1\<lparr>p_queue := qs\<rparr>)))"

text \<open>
  The search for a free task identifier: the loop over \<open>i\<close>, returning the final \<open>i\<close> and
  the last \<open>task_id\<close> tried.
\<close>

function tid_loop :: "wi_ref option list \<Rightarrow> nat \<Rightarrow> nat \<Rightarrow> nat \<Rightarrow> nat \<Rightarrow> nat \<times> nat" where
  "tid_loop tab n prev i task_id =
     (if i < n then
        let t = (prev + 1 + i) mod n
        in if tab ! t = None then (i, t) else tid_loop tab n prev (i + 1) t
      else (i, task_id))"
  by pat_completeness auto
termination
  by (relation "measure (\<lambda>(tab, n, prev, i, task_id). n - i)") auto

declare tid_loop.simps [simp del]

definition register_task ::
  "nat \<Rightarrow> wi_ref \<Rightarrow> node_ref \<Rightarrow> nat \<Rightarrow> pool \<Rightarrow> pool" where
  "register_task i wi t tid p =
     refresh (p\<lparr>tid_queue_index := (tid_queue_index p)[tid := i],
                tid_task := (tid_task p)[tid := Some t],
                tid_workflow_instance := (tid_workflow_instance p)[tid := Some wi],
                p_queue := (p_queue p)[i := ExecuteTask (p_queue p ! i)]\<rparr>)"

definition pool_execute ::
  "wi_ref \<Rightarrow> node_ref \<Rightarrow> string \<Rightarrow> int \<Rightarrow> pool \<Rightarrow> (int \<times> bool \<times> pool) option" where
  "pool_execute wi t queue_name task_id p =
     (let i = queue_lookup (p_name p) queue_name
      in if i = -1 then Some (0, False, p)
      else if task_id = 0 then
        (let (j, tid) = tid_loop (tid_workflow_instance p) (maxpid p) (lasttid p) 0 0;
             p1 = p\<lparr>lasttid := tid\<rparr>
         in if j = maxpid p then Some (0, False, p1)
            else let p2 = register_task (nat i) wi t tid p1 in Some (int tid, signals p2, p2))
      else if task_id < 0 \<or> int (maxpid p) < task_id then None
      else let p2 = register_task (nat i) wi t (nat task_id) p in Some (task_id, signals p2, p2))"

definition pool_terminate ::
  "int \<Rightarrow> pool \<Rightarrow> ((wi_ref \<times> node_ref option) option \<times> bool \<times> pool) option" where
  "pool_terminate task_id p =
     (if task_id < 0 \<or> int (maxpid p) < task_id then None
      else let tid = nat task_id in
      case tid_workflow_instance p ! tid of
        None \<Rightarrow> Some (None, False, p)
      | Some wi \<Rightarrow>
          (let i = tid_queue_index p ! tid;
               p1 = refresh (p\<lparr>p_queue := (p_queue p)[i := TerminateTask (p_queue p ! i)],
                      tid_queue_index := (tid_queue_index p)[tid := 0],
                      tid_task := (tid_task p)[tid := None],
                      tid_workflow_instance := (tid_workflow_instance p)[tid := None]\<rparr>)
           in if i < length (p_queue p)
              then Some (Some (wi, tid_task p ! tid), signals p1, p1) else None))"

fun cancel_all :: "(wi_ref \<Rightarrow> u32) \<Rightarrow> u32 \<Rightarrow> queue list \<Rightarrow> queue list option" where
  "cancel_all f w [] = Some []"
| "cancel_all f w (q # qs) =
     (case CancelTasks f w q of
        None \<Rightarrow> None
      | Some q' \<Rightarrow> map_option (Cons q') (cancel_all f w qs))"

definition pool_cancel :: "(wi_ref \<Rightarrow> u32) \<Rightarrow> u32 \<Rightarrow> pool \<Rightarrow> (bool \<times> bool \<times> pool) option" where
  "pool_cancel f workflow_instance_id p =
     (case cancel_all f workflow_instance_id (p_queue p) of
        None \<Rightarrow> None
      | Some qs \<Rightarrow> (let p1 = refresh (p\<lparr>p_queue := qs\<rparr>) in Some (True, signals p1, p1)))"

definition pool_shutdown :: "pool \<Rightarrow> bool \<times> pool" where
  "pool_shutdown p = (let p1 = p\<lparr>p_shutting_down := True\<rparr> in (fork_locked p1, p1))"

text \<open>\<open>SendStatistics\<close>: one entry per queue: name, concurrency, size, running tasks.\<close>

definition pool_statistics :: "pool \<Rightarrow> (string \<times> u32 \<times> u32 \<times> u32) list" where
  "pool_statistics p =
     List.map (\<lambda>i. (p_name p ! i, concurrency (p_queue p ! i), qsize (p_queue p ! i),
                    running_tasks (p_queue p ! i))) [0..<length (p_queue p)]"

section \<open>The pool invariant\<close>

text \<open>
  \<open>slots p i\<close>: the task identifiers registered for queue \<open>i\<close>. The invariant ties the
  running counter of each queue to its registered identifiers and \<open>fork_possible\<close> to the
  state of the queues.
\<close>

definition slots :: "pool \<Rightarrow> nat \<Rightarrow> nat list" where
  "slots p i = filter (\<lambda>t. tid_workflow_instance p ! t \<noteq> None \<and> tid_queue_index p ! t = i)
     [0..<maxpid p + 1]"

definition pool_inv :: "pool \<Rightarrow> bool" where
  "pool_inv p \<longleftrightarrow>
     length (p_name p) = length (p_queue p) \<and> sorted (p_name p) \<and>
     length (tid_queue_index p) = maxpid p + 1 \<and> length (tid_task p) = maxpid p + 1 \<and>
     length (tid_workflow_instance p) = maxpid p + 1 \<and> maxpid p + 1 < 2 ^ 32 \<and>
     (fork_possible p \<longleftrightarrow> \<not> pool_locked p) \<and>
     (\<forall>i < length (p_queue p). running_tasks (p_queue p ! i) = of_nat (length (slots p i))) \<and>
     (\<forall>t \<le> maxpid p. tid_workflow_instance p ! t \<noteq> None \<longrightarrow>
        tid_queue_index p ! t < length (p_queue p))"

lemma refresh_simps [simp]:
  "p_name (refresh p) = p_name p" "p_queue (refresh p) = p_queue p"
  "tid_queue_index (refresh p) = tid_queue_index p" "tid_task (refresh p) = tid_task p"
  "tid_workflow_instance (refresh p) = tid_workflow_instance p" "maxpid (refresh p) = maxpid p"
  "lasttid (refresh p) = lasttid p" "fork_locked (refresh p) = fork_locked p"
  "p_shutting_down (refresh p) = p_shutting_down p" "pool_locked (refresh p) = pool_locked p"
  "fork_possible (refresh p) = (\<not> pool_locked p)" "slots (refresh p) = slots p"
  by (simp_all add: refresh_def pool_locked_def slots_def fun_eq_iff)

lemma slots_queue_simps [simp]:
  "slots (p\<lparr>p_queue := qs\<rparr>) = slots p" "slots (p\<lparr>fork_locked := b\<rparr>) = slots p"
  "slots (p\<lparr>lasttid := n\<rparr>) = slots p" "slots (p\<lparr>p_shutting_down := b\<rparr>) = slots p"
  "slots (p\<lparr>fork_possible := b\<rparr>) = slots p"
  by (simp_all add: slots_def fun_eq_iff)

text \<open>Unconditional frame facts of the queue operations.\<close>

lemma EnqueueTask_running: "EnqueueTask wi t q = Some q' \<Longrightarrow> running_tasks q' = running_tasks q"
  by (auto simp: EnqueueTask_def Let_def split: option.splits)

lemma DequeueTask_running: "DequeueTask q = Some (r, q') \<Longrightarrow> running_tasks q' = running_tasks q"
  by (auto simp: DequeueTask_def split: if_splits option.splits)

lemma cancel_loop_frame:
  assumes "cancel_loop f w l q = Some q'"
  shows "running_tasks q' = running_tasks q \<and> (q' = q \<or> cancelled_tasks q' \<noteq> None)"
proof (rule cancel_loop.raw_induct [where P = "\<lambda>f w l q q'. running_tasks q' = running_tasks q \<and>
    (q' = q \<or> cancelled_tasks q' \<noteq> None)", OF _ assms])
  fix loop f w l q q'
  assume IH: "\<And>f w l q q'. loop f w l q = Some q' \<Longrightarrow>
      running_tasks q' = running_tasks q \<and> (q' = q \<or> cancelled_tasks q' \<noteq> None)"
    and eq: "(case read_link l q of None \<Rightarrow> None | Some None \<Rightarrow> Some q
      | Some (Some p) \<Rightarrow> (case q_heap q p of None \<Rightarrow> None
        | Some c \<Rightarrow> if f (workflow_instance c) = w then loop f w l (move_cell l p c q)
                    else loop f w (Some p) q)) = Some q'"
  have "cancelled_tasks (move_cell l p c q) \<noteq> None" for p c
    by (simp add: move_cell_def Let_def)
  then show "running_tasks q' = running_tasks q \<and> (q' = q \<or> cancelled_tasks q' \<noteq> None)"
    using eq by (auto split: option.splits if_splits dest: IH)
qed

lemma CancelTasks_running: "CancelTasks f w q = Some q' \<Longrightarrow> running_tasks q' = running_tasks q"
  using cancel_loop_frame by (auto simp: CancelTasks_def)

lemma CancelTasks_unlocked: "CancelTasks f w q = Some q' \<Longrightarrow> IsLocked q' \<Longrightarrow> IsLocked q"
  using cancel_loop_frame [of f w None q q']
  by (auto simp: CancelTasks_def IsLocked_def split: if_splits)

lemma running_list_update:
  "i < length qs \<Longrightarrow> running_tasks q = running_tasks (qs ! i) \<Longrightarrow>
   running_tasks (qs[i := q] ! j) = running_tasks (qs ! j)"
  by (cases "i = j") auto

lemma cancel_all_frame:
  "cancel_all f w qs = Some qs' \<Longrightarrow> length qs' = length qs \<and>
     (\<forall>i < length qs. running_tasks (qs' ! i) = running_tasks (qs ! i)) \<and>
     (list_all IsLocked qs' \<longrightarrow> list_all IsLocked qs)"
  by (induction qs arbitrary: qs')
     (auto simp: CancelTasks_running less_Suc_eq_0_disj dest: CancelTasks_unlocked
       split: option.splits)

lemma scan_dequeue_running:
  "scan_dequeue DequeueTask qs = Some (r, qs') \<Longrightarrow> length qs' = length qs \<and>
     (\<forall>i < length qs. running_tasks (qs' ! i) = running_tasks (qs ! i))"
proof (induction qs arbitrary: r qs')
  case Nil
  then show ?case by simp
next
  case (Cons q qs)
  then obtain o1 q1 where q1: "DequeueTask q = Some (o1, q1)" by (auto split: option.splits)
  have "running_tasks q1 = running_tasks q" by (rule DequeueTask_running [OF q1])
  with Cons q1 show ?case
    by (cases o1) (auto simp: less_Suc_eq_0_disj split: option.splits)
qed

lemma queue_lookup_range:
  assumes "sorted names" and "queue_lookup names n \<noteq> -1"
  shows "nat (queue_lookup names n) < length names" and "names ! nat (queue_lookup names n) = n"
  using queue_table.lookup_hit [of names n] queue_table.lookup_miss [of names n] assms by auto

lemma pool_enqueue_inv:
  assumes "pool_inv p" and "pool_enqueue n wi t p = Some (r, sig, p')"
  shows "pool_inv p'"
proof (cases "queue_lookup (p_name p) n = -1")
  case True
  with assms show ?thesis by (simp add: pool_enqueue_def)
next
  case False
  let ?i = "nat (queue_lookup (p_name p) n)"
  from assms False obtain q where q: "EnqueueTask wi t (p_queue p ! ?i) = Some q"
    and p': "p' = refresh (p\<lparr>p_queue := (p_queue p)[?i := q]\<rparr>)"
    by (auto simp: pool_enqueue_def Let_def split: option.splits)
  have "?i < length (p_queue p)"
    using assms(1) queue_lookup_range(1) [OF _ False] by (simp add: pool_inv_def)
  then have "running_tasks ((p_queue p)[?i := q] ! j) = running_tasks (p_queue p ! j)" for j
    by (rule running_list_update) (rule EnqueueTask_running [OF q])
  with assms(1) show ?thesis
    by (simp add: p' pool_inv_def)
qed

lemma pool_dequeue_scan_inv:
  assumes "pool_inv p" and "pool_dequeue_scan p = Some (r, p')"
  shows "pool_inv p'"
proof (cases "p_shutting_down p")
  case True
  with assms show ?thesis by (simp add: pool_dequeue_scan_def)
next
  case False
  with assms(2) obtain s qs where s: "scan_dequeue DequeueTask (p_queue p) = Some (s, qs)"
    by (auto simp: pool_dequeue_scan_def Let_def split: option.splits)
  show ?thesis
  proof (cases s)
    case None
    with s have "qs = p_queue p" using task_queue.scan_none_locked by blast
    with None s assms False show ?thesis
      by (auto simp: pool_dequeue_scan_def pool_inv_def pool_locked_def)
  next
    case (Some x)
    obtain i y where "x = (i, y)" by (cases x)
    with Some s assms False have "p' = refresh (p\<lparr>fork_locked := False, p_queue := qs\<rparr>)"
      by (auto simp: pool_dequeue_scan_def)
    with assms(1) scan_dequeue_running [OF s] show ?thesis
      by (auto simp: pool_inv_def pool_locked_def)
  qed
qed

lemma pool_cancel_inv:
  assumes "pool_inv p" and "pool_cancel f w p = Some (r, sig, p')"
  shows "pool_inv p'"
proof -
  from assms(2) obtain qs where qs: "cancel_all f w (p_queue p) = Some qs"
    and p': "p' = refresh (p\<lparr>p_queue := qs\<rparr>)"
    by (auto simp: pool_cancel_def Let_def split: option.splits)
  from cancel_all_frame [OF qs] assms(1) show ?thesis
    by (auto simp: p' pool_inv_def pool_locked_def)
qed

section \<open>Task identifiers\<close>

lemma tid_loop_spec:
  assumes "i \<le> n" and "tid_loop tab n prev i tid0 = (j, t)"
  shows "i \<le> j \<and> j \<le> n \<and> (j < n \<longrightarrow> t < n \<and> tab ! t = None) \<and>
    (\<forall>k. i \<le> k \<and> k < j \<longrightarrow> tab ! ((prev + 1 + k) mod n) \<noteq> None)"
  using assms
proof (induction tab n prev i tid0 rule: tid_loop.induct)
  case (1 tab n prev i tid0)
  show ?case
  proof (cases "i < n \<and> tab ! ((prev + 1 + i) mod n) \<noteq> None")
    case True
    then have "tid_loop tab n prev i tid0 = tid_loop tab n prev (i + 1) ((prev + 1 + i) mod n)"
      by (simp only: tid_loop.simps [of tab n prev i tid0] Let_def if_True if_False)
    with True 1 have "Suc i \<le> j \<and> j \<le> n \<and> (j < n \<longrightarrow> t < n \<and> tab ! t = None) \<and>
      (\<forall>k. Suc i \<le> k \<and> k < j \<longrightarrow> tab ! ((prev + 1 + k) mod n) \<noteq> None)"
      by simp
    with True show ?thesis by (metis Suc_le_eq le_neq_implies_less less_imp_le)
  next
    case False
    with "1.prems" show ?thesis
      by (auto simp: tid_loop.simps [of tab n prev i tid0] Let_def split: if_splits)
  qed
qed

lemma residue_reached:
  assumes "t < (n::nat)"
  obtains k where "k < n" and "(prev + 1 + k) mod n = t"
proof -
  let ?k = "(t + (n - (prev + 1) mod n)) mod n"
  have "(prev + 1) mod n \<le> n" using assms by (simp add: order_less_imp_le)
  then have "(prev + 1) mod n + (t + (n - (prev + 1) mod n)) = t + n" by simp
  then have "(prev + 1 + ?k) mod n = t"
    using assms by (metis mod_add_eq mod_add_self2 mod_less mod_mod_trivial)
  moreover have "?k < n" using assms by simp
  ultimately show thesis by (rule that [rotated])
qed

lemma tid_loop_complete:
  assumes "tid_loop tab n prev 0 tid0 = (n, t')" and "t < n"
  shows "tab ! t \<noteq> None"
proof -
  obtain k where "k < n" "(prev + 1 + k) mod n = t"
    using assms(2) by (rule residue_reached)
  with tid_loop_spec [OF _ assms(1)] show ?thesis by auto
qed

lemma mem_slots: "t \<in> set (slots p i) \<longleftrightarrow>
    t \<le> maxpid p \<and> tid_workflow_instance p ! t \<noteq> None \<and> tid_queue_index p ! t = i"
  by (auto simp: slots_def simp del: upt_Suc)

lemma distinct_slots [simp]: "distinct (slots p i)"
  by (simp add: slots_def)

lemma slots_card: "length (slots p i) = card (set (slots p i))"
  by (simp add: distinct_card)

lemma register_task_slots:
  assumes "pool_inv p" and "tid \<le> maxpid p" and "tid_workflow_instance p ! tid = None"
  shows "length (slots (register_task i wi t tid p) j) =
    (if j = i then Suc (length (slots p j)) else length (slots p j))"
proof -
  have "tid < length (tid_workflow_instance p)" "tid < length (tid_queue_index p)"
    using assms(1,2) by (auto simp: pool_inv_def)
  then have s: "set (slots (register_task i wi t tid p) j) =
      (if j = i then insert tid (set (slots p j)) else set (slots p j) - {tid})"
    using assms(2,3) by (auto simp: register_task_def mem_slots nth_list_update split: if_splits)
  have "tid \<notin> set (slots p j)" using assms(3) by (simp add: mem_slots)
  then show ?thesis unfolding slots_card s by (cases "j = i") (auto simp: card_insert_disjoint)
qed

lemma register_task_inv:
  assumes inv: "pool_inv p" and i: "i < length (p_queue p)" and tid: "tid \<le> maxpid p"
    and free: "tid_workflow_instance p ! tid = None"
  shows "pool_inv (register_task i wi t tid p)"
proof -
  let ?p = "register_task i wi t tid p"
  have "running_tasks (p_queue ?p ! j) = of_nat (length (slots ?p j))"
    if "j < length (p_queue p)" for j
    using inv that i register_task_slots [OF inv tid free]
    by (cases "i = j") (auto simp: register_task_def pool_inv_def ExecuteTask_def)
  moreover have "tid_queue_index ?p ! u < length (p_queue ?p)"
    if "u \<le> maxpid ?p" "tid_workflow_instance ?p ! u \<noteq> None" for u
    using inv i that by (cases "u = tid") (auto simp: register_task_def pool_inv_def)
  ultimately show ?thesis
    using inv by (simp add: pool_inv_def) (simp add: register_task_def)
qed

lemma pool_execute_inv:
  assumes inv: "pool_inv p"
    and ex: "pool_execute wi t n task_id p = Some (tid, sig, p')"
    and free: "task_id \<noteq> 0 \<Longrightarrow> tid_workflow_instance p ! nat task_id = None"
  shows "pool_inv p'"
proof (cases "queue_lookup (p_name p) n = -1")
  case True
  with inv ex show ?thesis by (simp add: pool_execute_def)
next
  case False
  let ?i = "nat (queue_lookup (p_name p) n)"
  have i: "?i < length (p_queue p)"
    using inv queue_lookup_range(1) [OF _ False] by (simp add: pool_inv_def)
  show ?thesis
  proof (cases "task_id = 0")
    case t0: True
    obtain j u where l: "tid_loop (tid_workflow_instance p) (maxpid p) (lasttid p) 0 0 = (j, u)"
      by fastforce
    have inv1: "pool_inv (p\<lparr>lasttid := u\<rparr>)"
      using inv by (simp add: pool_inv_def pool_locked_def)
    show ?thesis
    proof (cases "j = maxpid p")
      case True
      with ex False t0 l inv1 show ?thesis by (simp add: pool_execute_def Let_def)
    next
      case j: False
      with tid_loop_spec [OF _ l] have u: "u \<le> maxpid p" "tid_workflow_instance p ! u = None"
        by auto
      from ex False t0 l j have "p' = register_task ?i wi t u (p\<lparr>lasttid := u\<rparr>)"
        by (simp add: pool_execute_def Let_def)
      then show ?thesis using register_task_inv [OF inv1, of ?i u] i u by simp
    qed
  next
    case t1: False
    with ex False have "p' = register_task ?i wi t (nat task_id) p" "nat task_id \<le> maxpid p"
      by (auto simp: pool_execute_def Let_def split: if_splits)
    with register_task_inv [OF inv i _ free [OF t1]] show ?thesis by simp
  qed
qed

lemma pool_terminate_inv:
  assumes inv: "pool_inv p" and te: "pool_terminate task_id p = Some (r, sig, p')"
  shows "pool_inv p'"
proof -
  let ?t = "nat task_id"
  have t: "?t \<le> maxpid p" using te by (auto simp: pool_terminate_def split: if_splits)
  show ?thesis
  proof (cases "tid_workflow_instance p ! ?t")
    case None
    with te inv show ?thesis by (auto simp: pool_terminate_def Let_def split: if_splits)
  next
    case (Some wi)
    let ?i = "tid_queue_index p ! ?t"
    let ?p = "p\<lparr>p_queue := (p_queue p)[?i := TerminateTask (p_queue p ! ?i)],
                tid_queue_index := (tid_queue_index p)[?t := 0],
                tid_task := (tid_task p)[?t := None],
                tid_workflow_instance := (tid_workflow_instance p)[?t := None]\<rparr>"
    have i: "?i < length (p_queue p)" and p': "p' = refresh ?p"
      using te Some by (auto simp: pool_terminate_def Let_def split: if_splits)
    have tl: "?t < length (tid_workflow_instance p)" "?t < length (tid_queue_index p)"
      using inv t by (auto simp: pool_inv_def)
    have mem: "?t \<in> set (slots p ?i)" "\<And>j. j \<noteq> ?i \<Longrightarrow> ?t \<notin> set (slots p j)"
      using t Some by (auto simp: mem_slots)
    have s: "set (slots ?p j) = set (slots p j) - {?t}" for j
      using tl by (auto simp: mem_slots nth_list_update split: if_splits)
    have len: "length (slots ?p j) = (if j = ?i then length (slots p j) - 1 else length (slots p j))" for j
      using mem by (simp add: slots_card s)
    have pos: "0 < length (slots p ?i)" using mem(1) by (cases "slots p ?i") auto
    have "running_tasks (p_queue ?p ! j) = of_nat (length (slots ?p j))"
      if "j < length (p_queue p)" for j
    proof -
      have "running_tasks (p_queue p ! j) = of_nat (length (slots p j))"
        using inv that by (simp add: pool_inv_def)
      moreover have "running_tasks (p_queue ?p ! j) = (if j = ?i
          then running_tasks (p_queue p ! j) - 1 else running_tasks (p_queue p ! j))"
        using i by (simp add: TerminateTask_def)
      ultimately show ?thesis unfolding len using of_nat_u32_pred [OF pos] by auto
    qed
    moreover have "tid_queue_index ?p ! u < length (p_queue ?p)"
      if "u \<le> maxpid ?p" "tid_workflow_instance ?p ! u \<noteq> None" for u
      using inv that tl by (cases "u = ?t") (auto simp: pool_inv_def)
    ultimately show ?thesis using inv by (simp add: p' pool_inv_def)
  qed
qed

section \<open>The forker thread and the condition variable\<close>

text \<open>
  The forker (\<open>ProcessManager::Fork\<close>) is the only caller of \<open>DequeueTask\<close>. It is running
  outside the pool, asleep on \<open>fork_lock\<close>, woken but not yet holding the mutex, or gone
  (\<open>DequeueTask\<close> returned \<open>false\<close>). Any other thread may perform a pool operation at any
  time; \<open>ExecuteTask\<close> is called by the forker only (the other caller, \<open>Resume\<close>, runs
  before the forker exists). \<open>pthread_cond_signal\<close> wakes the forker if it is asleep.
  Spurious wake-ups, which POSIX allows, are not steps; their effect is stated separately below.
\<close>

datatype forker_pc = Running | Asleep | Woken | Gone

record sys =
  s_pool :: pool
  s_pc :: forker_pc

definition wake :: "bool \<Rightarrow> forker_pc \<Rightarrow> forker_pc" where
  "wake sig pc = (if sig \<and> pc = Asleep then Woken else pc)"

text \<open>\<open>size++\<close> does not wrap: fewer than $2^{32}-1$ tasks are queued.\<close>

definition room :: "pool \<Rightarrow> bool" where
  "room p \<longleftrightarrow> (\<forall>q \<in> set (p_queue p). qsize q + 1 \<noteq> 0)"

inductive sys_step :: "(wi_ref \<Rightarrow> u32) \<Rightarrow> sys \<Rightarrow> sys \<Rightarrow> bool" for f where
  step_enqueue: "room (s_pool s) \<Longrightarrow> pool_enqueue n wi t (s_pool s) = Some (r, sig, p) \<Longrightarrow>
     sys_step f s \<lparr>s_pool = p, s_pc = wake sig (s_pc s)\<rparr>"
| step_terminate: "pool_terminate tid (s_pool s) = Some (r, sig, p) \<Longrightarrow>
     sys_step f s \<lparr>s_pool = p, s_pc = wake sig (s_pc s)\<rparr>"
| step_cancel: "pool_cancel f w (s_pool s) = Some (r, sig, p) \<Longrightarrow>
     sys_step f s \<lparr>s_pool = p, s_pc = wake sig (s_pc s)\<rparr>"
| step_shutdown: "pool_shutdown (s_pool s) = (sig, p) \<Longrightarrow>
     sys_step f s \<lparr>s_pool = p, s_pc = wake sig (s_pc s)\<rparr>"
| step_execute: "s_pc s = Running \<Longrightarrow>
     pool_execute wi t n 0 (s_pool s) = Some (tid, sig, p) \<Longrightarrow>
     sys_step f s \<lparr>s_pool = p, s_pc = wake sig Running\<rparr>"
| step_exit: "s_pc s = Running \<Longrightarrow> pool_dequeue_enter (s_pool s) = (EntryExit, p) \<Longrightarrow>
     sys_step f s \<lparr>s_pool = p, s_pc = Gone\<rparr>"
| step_sleep: "s_pc s = Running \<Longrightarrow> pool_dequeue_enter (s_pool s) = (EntryWait, p) \<Longrightarrow>
     sys_step f s \<lparr>s_pool = p, s_pc = Asleep\<rparr>"
| step_scan: "s_pc s = Running \<Longrightarrow> pool_dequeue_enter (s_pool s) = (EntryScan, p1) \<Longrightarrow>
     pool_dequeue_scan p1 = Some (r, p) \<Longrightarrow>
     sys_step f s \<lparr>s_pool = p, s_pc = (if r = None then Gone else Running)\<rparr>"
| step_woken: "s_pc s = Woken \<Longrightarrow> pool_dequeue_scan (s_pool s) = Some (r, p) \<Longrightarrow>
     sys_step f s \<lparr>s_pool = p, s_pc = (if r = None then Gone else Running)\<rparr>"

inductive reachable :: "(wi_ref \<Rightarrow> u32) \<Rightarrow> sys \<Rightarrow> bool" for f where
  reach_start: "pool_inv p \<Longrightarrow> \<not> fork_locked p \<Longrightarrow> \<not> p_shutting_down p \<Longrightarrow>
     reachable f \<lparr>s_pool = p, s_pc = Running\<rparr>"
| reach_step: "reachable f s \<Longrightarrow> sys_step f s s' \<Longrightarrow> reachable f s'"

definition sys_inv :: "sys \<Rightarrow> bool" where
  "sys_inv s \<longleftrightarrow> pool_inv (s_pool s) \<and>
     (s_pc s = Asleep \<longrightarrow>
        fork_locked (s_pool s) \<and> pool_locked (s_pool s) \<and> \<not> p_shutting_down (s_pool s)) \<and>
     (s_pc s = Woken \<longrightarrow> \<not> pool_locked (s_pool s) \<or> p_shutting_down (s_pool s)) \<and>
     (s_pc s = Gone \<longrightarrow> p_shutting_down (s_pool s))"

text \<open>An operation of another thread that keeps an unlocked pool unlocked.\<close>

definition gentle :: "pool \<Rightarrow> bool \<Rightarrow> pool \<Rightarrow> bool" where
  "gentle p sig p' \<longleftrightarrow> pool_inv p' \<and> fork_locked p' = fork_locked p \<and>
     p_shutting_down p' = p_shutting_down p \<and> (pool_locked p' \<longrightarrow> pool_locked p) \<and>
     (sig = signals p' \<or> p' = p \<and> \<not> sig)"

lemma gentle_sys_inv:
  assumes "sys_inv s" and "gentle (s_pool s) sig p"
  shows "sys_inv \<lparr>s_pool = p, s_pc = wake sig (s_pc s)\<rparr>"
  using assms
  by (auto simp: sys_inv_def gentle_def wake_def signals_def pool_inv_def)

lemma locked_list_update:
  "i < length qs \<Longrightarrow> (IsLocked q \<longrightarrow> IsLocked (qs ! i)) \<Longrightarrow>
   list_all IsLocked (qs[i := q]) \<Longrightarrow> list_all IsLocked qs"
  by (fastforce simp: list_all_length nth_list_update split: if_splits)

lemma EnqueueTask_unlocked:
  assumes "EnqueueTask wi t q = Some q'" and "qsize q + 1 \<noteq> 0" and "IsLocked q'"
  shows "IsLocked q"
proof -
  from assms(1) have "qsize q' = qsize q + 1" "cancelled_tasks q' = cancelled_tasks q"
    "running_tasks q' = running_tasks q" "concurrency q' = concurrency q"
    by (auto simp: EnqueueTask_def Let_def split: option.splits)
  with assms(2,3) show ?thesis
    by (auto simp: IsLocked_def word_neq_0_conv split: if_splits)
qed

lemma TerminateTask_unlocked:
  assumes "running_tasks q \<noteq> 0" and "IsLocked (TerminateTask q)"
  shows "IsLocked q"
proof -
  have "running_tasks q - 1 < running_tasks q"
    using assms(1) by (simp add: word_less_nat_alt unat_u32_pred unat_gt_0)
  with assms(2) show ?thesis by (auto simp: IsLocked_def TerminateTask_def split: if_splits)
qed


lemma pool_enqueue_gentle:
  assumes "pool_inv p" and "room p" and "pool_enqueue n wi t p = Some (r, sig, p')"
  shows "gentle p sig p'"
proof (cases "queue_lookup (p_name p) n = -1")
  case True
  with assms show ?thesis by (auto simp: pool_enqueue_def gentle_def)
next
  case False
  let ?i = "nat (queue_lookup (p_name p) n)"
  from assms(3) False obtain q where q: "EnqueueTask wi t (p_queue p ! ?i) = Some q"
    and p': "p' = refresh (p\<lparr>p_queue := (p_queue p)[?i := q]\<rparr>)" "sig = signals p'"
    by (auto simp: pool_enqueue_def Let_def split: option.splits)
  have i: "?i < length (p_queue p)"
    using assms(1) queue_lookup_range(1) [OF _ False] by (simp add: pool_inv_def)
  then have "qsize (p_queue p ! ?i) + 1 \<noteq> 0" using assms(2) by (simp add: room_def)
  then have "pool_locked p' \<longrightarrow> pool_locked p"
    using locked_list_update [OF i] EnqueueTask_unlocked [OF q] by (auto simp: p' pool_locked_def)
  with pool_enqueue_inv [OF assms(1,3)] p' show ?thesis by (simp add: gentle_def)
qed

lemma pool_terminate_gentle:
  assumes "pool_inv p" and te: "pool_terminate tid p = Some (r, sig, p')"
  shows "gentle p sig p'"
proof (cases "tid_workflow_instance p ! nat tid")
  case None
  with assms show ?thesis
    by (auto simp: pool_terminate_def gentle_def Let_def split: if_splits)
next
  case (Some wi)
  let ?i = "tid_queue_index p ! nat tid"
  have i: "?i < length (p_queue p)" and sig: "sig = signals p'" and t: "nat tid \<le> maxpid p"
    and q: "p_queue p' = (p_queue p)[?i := TerminateTask (p_queue p ! ?i)]"
    and same: "fork_locked p' = fork_locked p" "p_shutting_down p' = p_shutting_down p"
    using te Some by (auto simp: pool_terminate_def Let_def split: if_splits)
  have "nat tid \<in> set (slots p ?i)" using t Some by (simp add: mem_slots)
  then have "length (slots p ?i) \<noteq> 0" by auto
  moreover have "length (slots p ?i) \<le> maxpid p + 1"
    unfolding slots_def by (metis length_filter_le length_upt diff_zero)
  ultimately have "running_tasks (p_queue p ! ?i) \<noteq> 0"
    using assms(1) i by (simp add: pool_inv_def word_neq_0_conv of_nat_u32_pos)
  then have "pool_locked p' \<longrightarrow> pool_locked p"
    using locked_list_update [OF i] TerminateTask_unlocked by (auto simp: q pool_locked_def)
  with pool_terminate_inv [OF assms] sig same show ?thesis by (simp add: gentle_def)
qed

lemma pool_cancel_gentle:
  assumes "pool_inv p" and "pool_cancel f w p = Some (r, sig, p')"
  shows "gentle p sig p'"
proof -
  from assms(2) obtain qs where "cancel_all f w (p_queue p) = Some qs"
    and "p' = refresh (p\<lparr>p_queue := qs\<rparr>)" "sig = signals p'"
    by (auto simp: pool_cancel_def Let_def split: option.splits)
  with pool_cancel_inv [OF assms] cancel_all_frame show ?thesis
    by (auto simp: gentle_def pool_locked_def)
qed

text \<open>When the pool is not locked and no shutdown is requested, the scan finds a task.\<close>

lemma scan_none:
  assumes "pool_dequeue_scan p = Some (None, p')"
  shows "p_shutting_down p' = p_shutting_down p" and "p_shutting_down p \<or> pool_locked p"
  using assms task_queue.scan_none_locked [of "p_queue p"]
  by (auto simp: pool_dequeue_scan_def pool_locked_def list_all_iff Let_def
      split: if_splits option.splits)

lemma sys_step_inv:
  assumes "sys_step f s s'" and inv: "sys_inv s"
  shows "sys_inv s'"
  using assms
proof (induction rule: sys_step.induct)
  case (step_enqueue s n wi t r sig p)
  then show ?case by (intro gentle_sys_inv) (auto intro: pool_enqueue_gentle simp: sys_inv_def)
next
  case (step_terminate tid s r sig p)
  then show ?case by (intro gentle_sys_inv) (auto intro: pool_terminate_gentle simp: sys_inv_def)
next
  case (step_cancel w s r sig p)
  then show ?case by (intro gentle_sys_inv) (auto intro: pool_cancel_gentle simp: sys_inv_def)
next
  case (step_shutdown s sig p)
  then show ?case
    by (auto simp: sys_inv_def pool_shutdown_def wake_def pool_inv_def pool_locked_def Let_def)
next
  case (step_execute s wi t n tid sig p)
  then have "pool_inv p" by (auto simp: sys_inv_def intro: pool_execute_inv)
  then show ?case by (simp add: sys_inv_def wake_def)
next
  case (step_exit s p)
  then show ?case by (auto simp: sys_inv_def pool_dequeue_enter_def split: if_splits)
next
  case (step_sleep s p)
  then show ?case
    by (auto simp: sys_inv_def pool_dequeue_enter_def pool_inv_def pool_locked_def split: if_splits)
next
  case (step_scan s p1 r p)
  then have "p1 = s_pool s" "fork_possible (s_pool s)"
    by (auto simp: pool_dequeue_enter_def split: if_splits)
  with step_scan scan_none [of "s_pool s" p] pool_dequeue_scan_inv [of "s_pool s" r p]
  show ?case by (auto simp: sys_inv_def pool_inv_def)
next
  case (step_woken s r p)
  with scan_none [of "s_pool s" p] pool_dequeue_scan_inv [of "s_pool s" r p]
  show ?case by (auto simp: sys_inv_def)
qed

lemma reachable_inv: "reachable f s \<Longrightarrow> sys_inv s"
proof (induction rule: reachable.induct)
  case (reach_start p)
  then show ?case by (simp add: sys_inv_def)
next
  case (reach_step s s')
  then show ?case by (blast intro: sys_step_inv)
qed

section \<open>Properties\<close>

lemma QueuePool_new_inv:
  assumes "QueuePool_new rows (Some n) = Inr p" and "sorted (List.map fst rows)"
    and "n + 1 < 2 ^ 32"
  shows "pool_inv p" and "\<forall>q \<in> set (p_queue p). queue_inv q" and "\<not> fork_locked p"
    and "\<not> p_shutting_down p"
proof -
  have qs: "length qs = length rows \<and> (\<forall>q \<in> set qs. queue_inv q \<and> running_tasks q = 0)"
    if "new_queues rows = Inr qs" for qs
    using that
    by (induction rows arbitrary: qs rule: new_queues.induct)
       (auto simp: Queue_new_inv split: sum.splits)
  from assms(1) obtain qs where "new_queues rows = Inr qs"
    and p: "p = refresh \<lparr>p_name = List.map fst rows, p_queue = qs,
      tid_queue_index = replicate (n + 1) 0, tid_task = replicate (n + 1) None,
      tid_workflow_instance = replicate (n + 1) None, maxpid = n, lasttid = 0,
      fork_locked = False, fork_possible = False, p_shutting_down = False\<rparr>"
    by (auto simp: QueuePool_new_def split: sum.splits)
  with qs have q: "length qs = length rows" "\<forall>q \<in> set qs. queue_inv q \<and> running_tasks q = 0"
    by auto
  have "slots p i = []" for i
    unfolding p by (auto simp: slots_def filter_empty_conv simp del: upt_Suc replicate_Suc)
  then show "pool_inv p" using q assms(2,3) by (auto simp: pool_inv_def p simp del: replicate_Suc)
  show "\<forall>q \<in> set (p_queue p). queue_inv q" "\<not> fork_locked p" "\<not> p_shutting_down p"
    using q by (auto simp: p)
qed

text \<open>A pool with two queues and seven task identifiers, for the witnesses.\<close>

definition demo_q :: "string \<Rightarrow> u32 \<Rightarrow> queue" where
  "demo_q name queue_id = \<lparr>q_name = name, q_id = queue_id, concurrency = 1, qsize = 0,
     running_tasks = 0, first_task = None, last_task = None, cancelled_tasks = None,
     q_heap = Map.empty, q_brk = 0\<rparr>"

definition demo_pool :: pool where
  "demo_pool = \<lparr>p_name = [''a'', ''b''], p_queue = [demo_q ''a'' 1, demo_q ''b'' 2],
     tid_queue_index = replicate 8 0, tid_task = replicate 8 None,
     tid_workflow_instance = replicate 8 None, maxpid = 7, lasttid = 0,
     fork_locked = False, fork_possible = False, p_shutting_down = False\<rparr>"

text \<open>The same pool after task 50 of instance 5 entered queue \<open>b\<close>.\<close>

definition demo_q_full :: queue where
  "demo_q_full = (demo_q ''b'' 2)\<lparr>qsize := 1, first_task := Some 0, last_task := Some 0,
     q_heap := [0 \<mapsto> \<lparr>workflow_instance = 5, task = 50, next_task = None\<rparr>], q_brk := 1\<rparr>"

definition demo_enqueued :: pool where
  "demo_enqueued = demo_pool\<lparr>p_queue := [demo_q ''a'' 1, demo_q_full], fork_possible := True\<rparr>"

lemma demo_pool_new:
  "QueuePool_new [(''a'', Some (1, 1)), (''b'', Some (2, 1))] (Some 7) = Inr demo_pool"
  by (simp add: demo_pool_def QueuePool_new_def Queue_new_def CheckQueueName_def
      QUEUE_NAME_MAX_LEN_def isalnum_def isalpha_def demo_q_def refresh_def pool_locked_def
      IsLocked_def)

lemmas demo_pool_ok = QueuePool_new_inv [OF demo_pool_new, simplified]

lemma demo_lookup: "queue_lookup [''a'', ''b''] ''b'' = 1"
  by (simp add: queue_lookup_def table_cmp_def bsearch.simps Let_def)

lemma demo_q_full: "EnqueueTask 5 50 (demo_q ''b'' 2) = Some demo_q_full"
  by (simp add: EnqueueTask_def demo_q_def demo_q_full_def)

lemma demo_locked: "IsLocked (demo_q n i)" "\<not> IsLocked demo_q_full"
  by (simp_all add: demo_q_def demo_q_full_def IsLocked_def)

lemma demo_q_inv: "queue_inv (demo_q n i)" "queue_inv demo_q_full"
  by (simp_all add: queue_inv_def queue_wf_def rep_def last_ok_def waiting_cells_def
      cancelled_cells_def demo_q_def demo_q_full_def)

lemma demo_enqueued:
  "pool_enqueue ''b'' 5 50 demo_pool = Some (True, False, demo_enqueued)"
  "pool_enqueue ''b'' 5 50 (demo_pool\<lparr>fork_locked := True\<rparr>) =
     Some (True, True, demo_enqueued\<lparr>fork_locked := True\<rparr>)"
  by (simp_all add: demo_enqueued_def pool_enqueue_def demo_pool_def demo_lookup demo_q_full
      signals_def refresh_def pool_locked_def demo_locked)

lemma no_lost_wakeup_core:
  assumes "reachable f s" and "s_pc s = Asleep"
  shows "(\<forall>q \<in> set (p_queue (s_pool s)). IsLocked q) \<and> \<not> p_shutting_down (s_pool s)"
  using reachable_inv [OF assms(1)] assms(2)
  by (simp add: sys_inv_def pool_locked_def list_all_iff)

text \<open>
  C17. No wake-up is lost: in every reachable state of the pool and the forker, if the
  forker sleeps on \<open>fork_lock\<close> without a pending signal, then no queue can hand out a task
  and no shutdown has been requested.
\<close>

theorem no_lost_wakeup:
  assumes "reachable f s" and "s_pc s = Asleep"
  shows "(\<forall>q \<in> set (p_queue (s_pool s)). IsLocked q) \<and> \<not> p_shutting_down (s_pool s)"
  by (rule no_lost_wakeup_core [OF assms])

lemma demo_reachable: "reachable of_nat \<lparr>s_pool = demo_pool, s_pc = Running\<rparr>"
  by (rule reach_start) (rule demo_pool_ok)+

lemma demo_asleep: "reachable of_nat \<lparr>s_pool = demo_pool\<lparr>fork_locked := True\<rparr>, s_pc = Asleep\<rparr>"
proof (rule reach_step [OF demo_reachable])
  have "pool_dequeue_enter demo_pool = (EntryWait, demo_pool\<lparr>fork_locked := True\<rparr>)"
    by (simp add: demo_pool_def pool_dequeue_enter_def)
  then show "sys_step of_nat \<lparr>s_pool = demo_pool, s_pc = Running\<rparr>
      \<lparr>s_pool = demo_pool\<lparr>fork_locked := True\<rparr>, s_pc = Asleep\<rparr>"
    by (intro step_sleep) simp_all
qed

theorem no_lost_wakeup_witness:
  "reachable of_nat \<lparr>s_pool = demo_pool\<lparr>fork_locked := True\<rparr>, s_pc = Asleep\<rparr> \<and>
   list_all IsLocked (p_queue demo_pool)"
  using no_lost_wakeup [OF demo_asleep] demo_asleep by (simp add: list_all_iff)


lemma demo_woken:
  "reachable of_nat \<lparr>s_pool = demo_enqueued\<lparr>fork_locked := True\<rparr>, s_pc = Woken\<rparr>"
proof (rule reach_step [OF demo_asleep])
  let ?p = "demo_enqueued\<lparr>fork_locked := True\<rparr>"
  let ?s = "\<lparr>s_pool = demo_pool\<lparr>fork_locked := True\<rparr>, s_pc = Asleep\<rparr>"
  have "pool_enqueue ''b'' 5 50 (s_pool ?s) = Some (True, True, ?p)" "room (s_pool ?s)"
    by (simp_all add: demo_enqueued) (simp add: room_def demo_pool_def demo_q_def)
  from step_enqueue [OF this(2,1), of of_nat]
  show "sys_step of_nat ?s \<lparr>s_pool = ?p, s_pc = Woken\<rparr>" by (simp add: wake_def)
qed


text \<open>
  The sleep is not in a loop that tests the predicate again: if the forker is woken
  while asleep without a signal (a spurious wake-up, which POSIX allows for
  \<open>pthread_cond_wait\<close>), \<open>DequeueTask\<close> finds every queue locked and returns \<open>false\<close>, so
  the forker exits although no shutdown was requested.
\<close>

theorem spurious_wakeup_ends_forker:
  assumes "reachable f s" and "s_pc s = Asleep"
  shows "\<exists>p. pool_dequeue_scan (s_pool s) = Some (None, p) \<and> \<not> p_shutting_down p"
proof -
  from no_lost_wakeup_core [OF assms] have "\<not> p_shutting_down (s_pool s)"
    and "scan_dequeue DequeueTask (p_queue (s_pool s)) = Some (None, p_queue (s_pool s))"
    by (auto intro: task_queue.scan_all_locked)
  then show ?thesis by (simp add: pool_dequeue_scan_def)
qed

theorem spurious_wakeup_ends_forker_witness:
  "reachable of_nat \<lparr>s_pool = demo_pool\<lparr>fork_locked := True\<rparr>, s_pc = Asleep\<rparr> \<and>
   (\<exists>p. pool_dequeue_scan (demo_pool\<lparr>fork_locked := True\<rparr>) = Some (None, p) \<and> \<not> p_shutting_down p)"
  using spurious_wakeup_ends_forker [OF demo_asleep] demo_asleep by simp

text \<open>
  Task identifiers: \<open>ExecuteTask\<close> with identifier 0 picks a free identifier whenever
  one exists, whatever \<open>lasttid\<close> is, registers the task under it and leaves every other
  registration alone; it returns 0 with the tables and queues unchanged only when all
  \<open>maxpid\<close> identifiers are taken. The invariant (each queue's running counter equals the
  number of identifiers registered for it) is kept in both cases.
\<close>

theorem ExecuteTask_allocates:
  assumes inv: "pool_inv p" and n: "n \<in> set (p_name p)"
    and ex: "pool_execute wi t n 0 p = Some (tid, sig, p')"
  shows "pool_inv p' \<and>
    (if \<exists>u < maxpid p. tid_workflow_instance p ! u = None
     then 0 \<le> tid \<and> nat tid < maxpid p \<and> tid_workflow_instance p ! nat tid = None \<and>
       tid_workflow_instance p' = (tid_workflow_instance p)[nat tid := Some wi] \<and>
       tid_task p' = (tid_task p)[nat tid := Some t] \<and>
       p_name p ! (tid_queue_index p' ! nat tid) = n
     else tid = 0 \<and> tid_workflow_instance p' = tid_workflow_instance p \<and> p_queue p' = p_queue p)"
proof -
  have sorted: "sorted (p_name p)" using inv by (simp add: pool_inv_def)
  have i: "queue_lookup (p_name p) n \<noteq> -1"
    using queue_table.lookup_fail_iff [OF sorted, of n] n by simp
  let ?i = "nat (queue_lookup (p_name p) n)"
  obtain j u where l: "tid_loop (tid_workflow_instance p) (maxpid p) (lasttid p) 0 0 = (j, u)"
    by fastforce
  have free_iff: "j \<noteq> maxpid p \<longleftrightarrow> (\<exists>u < maxpid p. tid_workflow_instance p ! u = None)"
    using tid_loop_spec [OF _ l] tid_loop_complete l by fastforce
  show ?thesis
  proof (cases "j = maxpid p")
    case True
    with ex i l have "tid = 0" "p' = p\<lparr>lasttid := u\<rparr>" by (auto simp: pool_execute_def Let_def)
    with True free_iff pool_execute_inv [OF inv ex] show ?thesis by auto
  next
    case False
    with tid_loop_spec [OF _ l] have u: "u < maxpid p" "tid_workflow_instance p ! u = None" by auto
    from ex i l False have "tid = int u" "p' = register_task ?i wi t u (p\<lparr>lasttid := u\<rparr>)"
      by (auto simp: pool_execute_def Let_def)
    moreover have "u < length (tid_queue_index p)" using inv u by (simp add: pool_inv_def)
    ultimately show ?thesis
      using u False free_iff pool_execute_inv [OF inv ex] queue_lookup_range(2) [OF sorted i]
      by (auto simp: register_task_def)
  qed
qed

theorem ExecuteTask_allocates_witness:
  "pool_inv demo_pool \<and> ''b'' \<in> set (p_name demo_pool) \<and>
   (\<exists>sig p'. pool_execute 5 50 ''b'' 0 demo_pool = Some (1, sig, p') \<and> pool_inv p' \<and>
      tid_workflow_instance p' ! 1 = Some 5)"
proof -
  have n: "''b'' \<in> set (p_name demo_pool)" by (simp add: demo_pool_def)
  obtain sig p' where ex: "pool_execute 5 50 ''b'' 0 demo_pool = Some (1, sig, p')"
    by (auto simp: pool_execute_def demo_pool_def demo_lookup tid_loop.simps Let_def)
  have "length (tid_workflow_instance demo_pool) = 8" "maxpid demo_pool = 7"
    "tid_workflow_instance demo_pool ! 0 = None"
    by (simp_all add: demo_pool_def)
  with ExecuteTask_allocates [OF demo_pool_ok(1) n ex] demo_pool_ok(1) n ex show ?thesis
    by (auto split: if_splits)
qed

text \<open>
  C18. \<open>TerminateTask\<close> undoes \<open>ExecuteTask\<close>: after a task has been registered, terminating
  its identifier returns the same workflow instance and task, frees the identifier, and
  restores every running counter.
\<close>

theorem Terminate_after_Execute:
  assumes inv: "pool_inv p" and n: "n \<in> set (p_name p)"
    and ex: "pool_execute wi t n 0 p = Some (tid, sig, p1)" and tid: "tid \<noteq> 0"
  shows "\<exists>sig' p2. pool_terminate tid p1 = Some (Some (wi, Some t), sig', p2) \<and>
    tid_workflow_instance p2 = tid_workflow_instance p \<and> p_queue p2 = p_queue p"
proof -
  have sorted: "sorted (p_name p)" using inv by (simp add: pool_inv_def)
  have i: "queue_lookup (p_name p) n \<noteq> -1"
    using queue_table.lookup_fail_iff [OF sorted, of n] n by simp
  let ?i = "nat (queue_lookup (p_name p) n)"
  have len: "?i < length (p_queue p)"
    using inv queue_lookup_range(1) [OF sorted i] by (simp add: pool_inv_def)
  obtain j u where l: "tid_loop (tid_workflow_instance p) (maxpid p) (lasttid p) 0 0 = (j, u)"
    by fastforce
  with ex i tid have j: "j \<noteq> maxpid p" and p1: "tid = int u"
    "p1 = register_task ?i wi t u (p\<lparr>lasttid := u\<rparr>)"
    by (auto simp: pool_execute_def Let_def split: if_splits)
  with tid_loop_spec [OF _ l] have u: "u < maxpid p" "tid_workflow_instance p ! u = None" by auto
  moreover have "u < length (tid_queue_index p)" "u < length (tid_task p)"
    "u < length (tid_workflow_instance p)" using inv u by (auto simp: pool_inv_def)
  moreover have "TerminateTask (ExecuteTask q) = q" for q
    by (simp add: TerminateTask_def ExecuteTask_def)
  moreover have "(tid_workflow_instance p)[u := None] = tid_workflow_instance p"
    using u(2) by (metis list_update_id)
  ultimately show ?thesis
    using len by (simp add: p1 pool_terminate_def register_task_def Let_def)
qed

theorem Terminate_after_Execute_witness:
  "\<exists>sig p1 sig' p2. pool_execute 5 50 ''b'' 0 demo_pool = Some (1, sig, p1) \<and>
     pool_terminate 1 p1 = Some (Some (5, Some 50), sig', p2) \<and> p_queue p2 = p_queue demo_pool"
proof -
  have n: "''b'' \<in> set (p_name demo_pool)" by (simp add: demo_pool_def)
  obtain sig p' where ex: "pool_execute 5 50 ''b'' 0 demo_pool = Some (1, sig, p')"
    by (auto simp: pool_execute_def demo_pool_def demo_lookup tid_loop.simps Let_def)
  from Terminate_after_Execute [OF demo_pool_ok(1) n ex] ex show ?thesis by fastforce
qed

text \<open>
  The concurrency limit: when \<open>DequeueTask\<close> hands out a task that was not a cancelled
  one and the forker registers it with \<open>ExecuteTask\<close>, the queue runs at most as many tasks
  as its concurrency allows.
\<close>

theorem fork_respects_concurrency:
  assumes inv: "pool_inv p" and names: "distinct (p_name p)"
    and scan: "pool_dequeue_scan p = Some (Some (n, wi, t), p1)"
    and i: "i = nat (queue_lookup (p_name p) n)"
    and fresh: "cancelled_tasks (p_queue p ! i) = None"
    and ex: "pool_execute wi t n 0 p1 = Some (tid, sig, p2)"
  shows "running_tasks (p_queue p2 ! i) \<le> concurrency (p_queue p2 ! i)"
proof -
  have sorted: "sorted (p_name p)" using inv by (simp add: pool_inv_def)
  from scan obtain k qs where s: "scan_dequeue DequeueTask (p_queue p) = Some (Some (k, wi, t), qs)"
    and p1: "p1 = refresh (p\<lparr>fork_locked := False, p_queue := qs\<rparr>)" and n: "n = p_name p ! k"
    by (auto simp: pool_dequeue_scan_def Let_def split: if_splits option.splits)
  from task_queue.scan_some [OF s] obtain q' where k: "k < length (p_queue p)"
    "\<not> IsLocked (p_queue p ! k)" and q': "DequeueTask (p_queue p ! k) = Some (Some (wi, t), q')"
    "qs = (p_queue p)[k := q']" by auto
  have ki: "queue_lookup (p_name p) n = int k"
    using queue_table.lookup_nth [OF sorted names _ , of k] inv k(1) n by (simp add: pool_inv_def)
  then have ik: "i = k" using i by simp
  have "running_tasks q' = running_tasks (p_queue p ! k)" "concurrency q' = concurrency (p_queue p ! k)"
    using q'(1) by (auto simp: DequeueTask_def split: if_splits option.splits)
  then have lt: "running_tasks q' < concurrency q'"
    using k(2) fresh by (auto simp: ik IsLocked_def split: if_splits)
  have "p_queue p2 = p_queue p1 \<or> p_queue p2 = (p_queue p1)[k := ExecuteTask (p_queue p1 ! k)]"
    using ex ki by (auto simp: pool_execute_def p1 register_task_def Let_def
        split: if_splits prod.splits)
  then have "p_queue p2 ! i = q' \<or> p_queue p2 ! i = ExecuteTask q'"
    using k(1) by (auto simp: ik p1 q'(2))
  then show ?thesis using lt by (auto simp: ExecuteTask_def inc_le)
qed

theorem fork_respects_concurrency_witness:
  "\<exists>p1 sig p2. pool_dequeue_scan demo_enqueued = Some (Some (''b'', 5, 50), p1) \<and>
     pool_execute 5 50 ''b'' 0 p1 = Some (1, sig, p2) \<and>
     running_tasks (p_queue p2 ! 1) \<le> concurrency (p_queue p2 ! 1)"
proof -
  have deq: "DequeueTask demo_q_full = Some (Some (5, 50), (demo_q ''b'' 2)\<lparr>last_task := Some 0, q_brk := 1\<rparr>)"
    by (simp add: DequeueTask_def demo_locked) (simp add: demo_q_full_def demo_q_def)
  have deqa: "DequeueTask (demo_q ''a'' 1) = Some (None, demo_q ''a'' 1)"
    by (simp add: DequeueTask_def demo_locked)
  define p1 where "p1 = refresh (demo_enqueued\<lparr>fork_locked := False,
    p_queue := [demo_q ''a'' 1, (demo_q ''b'' 2)\<lparr>last_task := Some 0, q_brk := 1\<rparr>]\<rparr>)"
  have scan: "pool_dequeue_scan demo_enqueued = Some (Some (''b'', 5, 50), p1)"
    unfolding p1_def
    by (simp add: pool_dequeue_scan_def demo_enqueued_def deq deqa Let_def) (simp add: demo_pool_def)
  have p1: "p_name p1 = [''a'', ''b'']" "tid_workflow_instance p1 = replicate 8 None"
      "maxpid p1 = 7" "lasttid p1 = 0"
    by (simp_all add: p1_def demo_enqueued_def) (simp_all add: demo_pool_def)
  obtain sig p2 where ex: "pool_execute 5 50 ''b'' 0 p1 = Some (1, sig, p2)"
    using p1 by (auto simp: pool_execute_def demo_lookup tid_loop.simps Let_def)
  have inv: "pool_inv demo_enqueued" by (rule pool_enqueue_inv [OF demo_pool_ok(1) demo_enqueued(1)])
  have names: "p_name demo_enqueued = [''a'', ''b'']"
    by (simp add: demo_enqueued_def demo_pool_def)
  have "cancelled_tasks (p_queue demo_enqueued ! 1) = None"
    by (simp add: demo_enqueued_def demo_q_full_def demo_q_def)
  with fork_respects_concurrency [OF inv _ scan _ _ ex, of 1] show ?thesis
    using scan ex by (simp add: names demo_lookup)
qed

end
