(* ===== verification/Settings.thy ===== *)
theory Settings
  imports Lookup_Tables
begin

text \<open>
  The configuration store and the configuration file reader: \<open>Configuration.cpp\<close> and
  \<open>ConfigurationReader.cpp\<close>. The store is a fixed sorted table of entry names with an
  array of values beside it; the reader parses a file line by line and sets entries.
\<close>

section \<open>The store\<close>

definition default_configuration :: "(string \<times> string) list" where
  "default_configuration =
    [(''core.gid'', ''0''),
     (''core.pidfile'', ''/var/run/evqueue/evqueue.pid''),
     (''core.uid'', ''0''),
     (''gc.delay'', ''2''),
     (''gc.enable'', ''yes''),
     (''gc.interval'', ''43200''),
     (''gc.limit'', ''1000''),
     (''gc.logs.retention'', ''7''),
     (''gc.workflowinstance.retention'', ''30''),
     (''logger.db.enable'', ''no''),
     (''logger.syslog.enable'', ''yes''),
     (''mysql.database'', ''queueing''),
     (''mysql.host'', ''localhost''),
     (''mysql.password'', ''''),
     (''mysql.user'', ''''),
     (''network.bind.ip'', ''127.0.0.1''),
     (''network.bind.port'', ''5000''),
     (''network.listen.backlog'', ''64''),
     (''network.rcv.timeout'', ''30''),
     (''network.snd.timeout'', ''30''),
     (''processmanager.errlogs.directory'', ''errlogs''),
     (''processmanager.errlogs.enable'', ''no''),
     (''processmanager.logs.delete'', ''yes''),
     (''processmanager.logs.directory'', ''/tmp''),
     (''processmanager.monitor.path'', ''/usr/local/bin/evqueue_monitor''),
     (''processmanager.monitor.ssh_key'', ''''),
     (''processmanager.monitor.ssh_path'', ''/usr/bin/ssh''),
     (''processmanager.tasks.directory'', ''.''),
     (''workflowinstance.saveparameters'', ''yes''),
     (''workflowinstance.savepoint.level'', ''2''),
     (''workflowinstance.savepoint.retry.enable'', ''yes''),
     (''workflowinstance.savepoint.retry.times'', ''0''),
     (''workflowinstance.savepoint.retry.wait'', ''2'')]"

record config =
  entries :: "string list"
  cvalues :: "string list"

definition Configuration_new :: config where
  "Configuration_new = \<lparr>entries = List.map fst default_configuration,
     cvalues = List.map snd default_configuration\<rparr>"

definition config_Set :: "string \<Rightarrow> string \<Rightarrow> config \<Rightarrow> bool \<times> config" where
  "config_Set entry v c =
     (let i = config_lookup (entries c) entry
      in if i = -1 then (False, c) else (True, c\<lparr>cvalues := (cvalues c)[nat i := v]\<rparr>))"

definition config_Get :: "string \<Rightarrow> config \<Rightarrow> string option" where
  "config_Get entry c =
     (let i = config_lookup (entries c) entry
      in if i = -1 then None else Some (cvalues c ! nat i))"

definition config_GetInt :: "string \<Rightarrow> config \<Rightarrow> int" where
  "config_GetInt entry c = (case config_Get entry c of None \<Rightarrow> -1 | Some v \<Rightarrow> atoi v)"

text \<open>\<open>GetBool\<close> passes the null pointer of an unknown entry to \<open>strcasecmp\<close>.\<close>

definition config_GetBool :: "string \<Rightarrow> config \<Rightarrow> bool option" where
  "config_GetBool entry c =
     (case config_Get entry c of
        None \<Rightarrow> None
      | Some v \<Rightarrow> Some (strcaseeq v ''yes'' \<or> strcaseeq v ''true'' \<or> strcaseeq v ''1''))"

text \<open>The class invariant: the entry table is the default one, with a value for each.\<close>

definition config_inv :: "config \<Rightarrow> bool" where
  "config_inv c \<longleftrightarrow> entries c = List.map fst default_configuration \<and>
     length (cvalues c) = length default_configuration"

definition default_names :: "string list" where
  "default_names = List.map fst default_configuration"

fun strcmp_sorted :: "string list \<Rightarrow> bool" where
  "strcmp_sorted (s # t # ss) \<longleftrightarrow> strcmp s t < 0 \<and> strcmp_sorted (t # ss)"
| "strcmp_sorted _ \<longleftrightarrow> True"

lemma strcmp_sorted_iff: "strcmp_sorted ss \<longleftrightarrow> sorted_wrt (<) ss"
proof (induction ss rule: strcmp_sorted.induct)
  case (1 s t ss)
  then show ?case by (auto simp: strcmp_neg_iff intro: order.strict_trans)
qed simp_all

lemma default_names_sorted: "sorted_wrt (<) default_names"
proof -
  have "strcmp_sorted default_names" by code_simp
  then show ?thesis by (simp only: strcmp_sorted_iff)
qed

lemma config_table:
  assumes "config_inv c"
  shows "sorted (entries c)" and "distinct (entries c)" and "entries c \<noteq> []"
    and "entries c = default_names" and "length (cvalues c) = length (entries c)"
proof -
  show e: "entries c = default_names" and "length (cvalues c) = length (entries c)"
    using assms by (simp_all add: config_inv_def default_names_def)
  show "sorted (entries c)" "distinct (entries c)"
    using default_names_sorted by (simp_all add: e strict_sorted_iff)
  show "entries c \<noteq> []" unfolding e by (simp add: default_names_def default_configuration_def)
qed

lemma config_lookup_iff:
  "config_inv c \<Longrightarrow> config_lookup (entries c) e = -1 \<longleftrightarrow> e \<notin> set default_names"
  using config_table.lookup_fail_iff [of "entries c" e] config_table [of c] by metis

lemma config_Set_inv: "config_inv c \<Longrightarrow> config_inv (snd (config_Set e v c))"
  by (simp add: config_Set_def config_inv_def Let_def)

lemma Configuration_new_inv: "config_inv Configuration_new"
  by (simp add: config_inv_def Configuration_new_def)

section \<open>The reader\<close>

definition CONFIGURATION_LINE_MAXLEN :: nat where
  "CONFIGURATION_LINE_MAXLEN = 256"

text \<open>
  \<open>fgets(line,n,f)\<close> on the remaining content of the file: at most \<open>n-1\<close> characters, up
  to and including a newline. The result is the line and the rest.
\<close>

definition fgets :: "nat \<Rightarrow> string \<Rightarrow> (string \<times> string) option" where
  "fgets n s =
     (if s = [] then None
      else let k = length (takeWhile (\<lambda>c. c \<noteq> CHR 0x0A) s);
               m = min (n - 1) (k + 1)
           in Some (take m s, drop m s))"

text \<open>
  Removal of the line ending. After the newline has been removed the code reads
  \<open>line[len-1]\<close> again; when the line was just a newline this is \<open>line[-1]\<close>, a read
  before the array: undefined behaviour.
\<close>

definition trim_line :: "string \<Rightarrow> string option" where
  "trim_line line =
     (let l1 = (if last line = CHR 0x0A then butlast line else line)
      in if l1 = [] then None
         else Some (if last l1 = CHR 0x0D then butlast l1 else l1))"

definition is_blank :: "char \<Rightarrow> bool" where
  "is_blank c \<longleftrightarrow> c = CHR '' '' \<or> c = CHR 0x09"

definition skip_spaces :: "string \<Rightarrow> string" where
  "skip_spaces s = dropWhile is_blank s"

definition is_entry_char :: "char \<Rightarrow> bool" where
  "is_entry_char c \<longleftrightarrow> isalnum c \<or> c = CHR ''.'' \<or> c = CHR ''_''"

text \<open>
  The condition that ends the value, with the precedence of \<open>&&\<close> over \<open>||\<close> as the
  compiler reads it: a tab or a number sign ends a value of any quoting.
\<close>

definition ends_value :: "nat \<Rightarrow> char \<Rightarrow> bool" where
  "ends_value quoted c \<longleftrightarrow>
     (quoted = 0 \<and> c = CHR '' '' \<or> c = CHR 0x09 \<or> c = CHR ''#'') \<or>
     (quoted = 1 \<and> c = CHR 0x27) \<or> (quoted = 2 \<and> c = CHR 0x22)"

definition reader_error :: "string \<Rightarrow> exn + 'a" where
  "reader_error msg = Inl (Exception ''ConfigurationReader'' msg)"

text \<open>The part of a line after the equals sign.\<close>

definition read_value :: "string \<Rightarrow> exn + string" where
  "read_value s =
     (let r = skip_spaces s in
      if r = [] then reader_error ''Missing value''
      else
        let quoted = (if hd r = CHR 0x27 then 1 else if hd r = CHR 0x22 then 2 else 0 :: nat);
            r1 = (if quoted > 0 then tl r else r)
        in if r1 = [] then reader_error ''Empty value''
        else
          let v = takeWhile (\<lambda>c. \<not> ends_value quoted c) r1;
              r2 = dropWhile (\<lambda>c. \<not> ends_value quoted c) r1
          in if quoted > 0 \<and> r2 = [] then reader_error ''Missing ending quote''
          else
            let r3 = skip_spaces (if quoted > 0 then tl r2 else r2)
            in if r3 \<noteq> [] \<and> hd r3 \<noteq> CHR ''#'' then reader_error ''Garbage data after value''
            else Inr v)"

text \<open>A trimmed line: nothing (empty line or comment), or an entry and its value.\<close>

definition read_entry :: "string \<Rightarrow> exn + (string \<times> string) option" where
  "read_entry line =
     (if line = [] then Inr None
      else let s = skip_spaces line in
      if s = [] \<or> hd s = CHR ''#'' then Inr None
      else
        let entry = takeWhile is_entry_char s; r = dropWhile is_entry_char s in
        if entry = [] then reader_error ''Expected configuration entry''
        else if r = [] then reader_error ''Missing value''
        else
          let r1 = skip_spaces r in
          if r1 = [] \<or> hd r1 \<noteq> CHR ''='' then reader_error (''Expecting '' @ [CHR 0x27, CHR ''='', CHR 0x27])
          else map_sum id (\<lambda>v. Some (entry, v)) (read_value (tl r1)))"

definition read_line :: "string \<Rightarrow> config \<Rightarrow> (exn + config) option" where
  "read_line line c =
     (case trim_line line of
        None \<Rightarrow> None
      | Some l \<Rightarrow> Some
          (case read_entry l of
             Inl e \<Rightarrow> Inl e
           | Inr None \<Rightarrow> Inr c
           | Inr (Some (entry, v)) \<Rightarrow>
               (case config_Set entry v c of
                  (True, c') \<Rightarrow> Inr c'
                | (False, _) \<Rightarrow> reader_error ''Unknown configuration entry'')))"

function read_lines :: "string \<Rightarrow> config \<Rightarrow> (exn + config) option" where
  "read_lines s c =
     (case fgets CONFIGURATION_LINE_MAXLEN s of
        None \<Rightarrow> Some (Inr c)
      | Some (line, rest) \<Rightarrow>
          (case read_line line c of
             None \<Rightarrow> None
           | Some (Inl e) \<Rightarrow> Some (Inl e)
           | Some (Inr c') \<Rightarrow> read_lines rest c'))"
  by pat_completeness auto
termination
  by (relation "measure (\<lambda>(s, c). length s)")
     (auto simp: fgets_def CONFIGURATION_LINE_MAXLEN_def Let_def split: if_splits)

declare read_lines.simps [simp del]

text \<open>\<open>ConfigurationReader::Read\<close>; the file content is \<open>None\<close> if it cannot be opened.\<close>

definition Read :: "string option \<Rightarrow> (exn + config) option" where
  "Read content =
     (case content of
        None \<Rightarrow> Some (reader_error ''Unable to open configuration file'')
      | Some s \<Rightarrow> read_lines s Configuration_new)"

section \<open>Properties\<close>

lemma config_Set_Get:
  assumes inv: "config_inv c" and e: "e \<in> set default_names"
  shows "fst (config_Set e v c)" and "config_Get e (snd (config_Set e v c)) = Some v"
    and "e' \<noteq> e \<Longrightarrow> config_Get e' (snd (config_Set e v c)) = config_Get e' c"
proof -
  note t = config_table [OF inv]
  have i: "config_lookup (entries c) e \<noteq> -1" using config_lookup_iff [OF inv] e by simp
  then show "fst (config_Set e v c)" by (simp add: config_Set_def)
  show "config_Get e (snd (config_Set e v c)) = Some v"
    using i config_table.update_same [OF t(1,3) _ t(5), of e v] e t(4)
    by (simp add: config_Set_def config_Get_def)
  show "config_Get e' (snd (config_Set e v c)) = config_Get e' c" if "e' \<noteq> e"
    using i config_table.update_other [OF t(1,3) _ _ that, of "cvalues c" v] e t(4)
      config_lookup_iff [OF inv, of e']
    by (auto simp: config_Set_def config_Get_def Let_def)
qed

text \<open>
  The store is a finite map over its fixed entry names: setting a known entry
  succeeds, is read back, and leaves every other entry alone; an unknown entry is refused
  by \<open>Set\<close>, leaves the store unchanged and reads as null.
\<close>

theorem config_is_map:
  assumes "config_inv c"
  shows "if e \<in> set default_names
    then \<exists>c'. config_Set e v c = (True, c') \<and> config_inv c' \<and> config_Get e c' = Some v \<and>
      (\<forall>e'. e' \<noteq> e \<longrightarrow> config_Get e' c' = config_Get e' c)
    else config_Set e v c = (False, c) \<and> config_Get e c = None"
proof (cases "e \<in> set default_names")
  case True
  then show ?thesis
    using config_Set_Get [OF assms True, where v = v] config_Set_inv [OF assms, of e v]
    by (intro iffD2 [OF if_P [OF True]] exI [of _ "snd (config_Set e v c)"])
       (auto simp: prod_eq_iff)
next
  case False
  with config_lookup_iff [OF assms, of e] show ?thesis
    by (simp add: config_Set_def config_Get_def)
qed

lemma known_port: "''network.bind.port'' \<in> set default_names"
  by (simp add: default_names_def default_configuration_def)

theorem config_is_map_witness:
  "config_inv Configuration_new \<and>
   (\<exists>c'. config_Set ''network.bind.port'' ''80'' Configuration_new = (True, c') \<and>
      config_Get ''network.bind.port'' c' = Some ''80'')"
  using config_is_map [OF Configuration_new_inv, of "''network.bind.port''" "''80''"]
    known_port Configuration_new_inv by auto

text \<open>Characters that \<open>read_entry\<close> takes literally in a value.\<close>

definition plain_char :: "char \<Rightarrow> bool" where
  "plain_char x \<longleftrightarrow> x \<notin> {CHR '' '', CHR 0x09, CHR ''#'', CHR 0x0A, CHR 0x0D}"

definition is_quote :: "char \<Rightarrow> bool" where
  "is_quote x \<longleftrightarrow> x = CHR 0x27 \<or> x = CHR 0x22"

definition plain_value :: "string \<Rightarrow> bool" where
  "plain_value v \<longleftrightarrow> v \<noteq> [] \<and> (\<forall>x \<in> set v. plain_char x) \<and> \<not> is_quote (hd v)"

definition quotable :: "char \<Rightarrow> string \<Rightarrow> bool" where
  "quotable q v \<longleftrightarrow> is_quote q \<and>
     (\<forall>x \<in> set v. x \<noteq> q \<and> x \<notin> {CHR 0x09, CHR ''#'', CHR 0x0A})"

lemma plain_charD:
  assumes "plain_char x"
  shows "\<not> is_blank x" and "\<not> ends_value 0 x" and "x \<noteq> CHR 0x0D"
  using assms by (simp_all add: plain_char_def is_blank_def ends_value_def)

definition quote_code :: "char \<Rightarrow> nat" where
  "quote_code c = (if c = CHR 0x27 then 1 else if c = CHR 0x22 then 2 else 0)"

lemma quote_code:
  "is_quote q \<Longrightarrow> 0 < quote_code q" "\<not> is_quote q \<Longrightarrow> quote_code q = 0"
  "is_quote q \<Longrightarrow> ends_value (quote_code q) q" "is_quote q \<Longrightarrow> \<not> is_blank q"
  "is_quote q \<Longrightarrow> q \<noteq> CHR 0x0D" "is_quote q \<Longrightarrow> ends_value (quote_code q) x \<Longrightarrow>
     x = q \<or> x = CHR 0x09 \<or> x = CHR ''#''"
  by (auto simp: quote_code_def is_quote_def ends_value_def is_blank_def split: if_splits)

lemma default_names_chars: "list_all (\<lambda>e. e \<noteq> [] \<and> list_all is_entry_char e) default_names"
  by code_simp

lemma default_name:
  assumes "e \<in> set default_names"
  shows "e \<noteq> []" and "\<forall>x \<in> set e. is_entry_char x"
  using assms default_names_chars by (auto simp: list_all_iff)

lemma entry_char_plain:
  assumes "is_entry_char x"
  shows "\<not> is_blank x" and "x \<noteq> CHR ''#''" and "x \<noteq> CHR ''=''" and "x \<noteq> CHR 0x0A"
  using assms
  by (auto simp: is_entry_char_def is_blank_def isalnum_def isalpha_def isdigit_def)

lemma skip_spaces_id: "s = [] \<or> \<not> is_blank (hd s) \<Longrightarrow> skip_spaces s = s"
  by (cases s) (auto simp: skip_spaces_def)

lemma read_entry_simple:
  assumes e: "e \<in> set default_names"
  shows "read_entry (e @ CHR ''='' # r) = map_sum id (\<lambda>v. Some (e, v)) (read_value r)"
proof -
  note n = default_name [OF e]
  have ne: "\<not> is_entry_char (CHR ''='')" by code_simp
  have t: "takeWhile is_entry_char (e @ CHR ''='' # r) = e"
    "dropWhile is_entry_char (e @ CHR ''='' # r) = CHR ''='' # r"
    using n(2) ne by (simp_all add: takeWhile_append2 dropWhile_append2)
  have h: "is_entry_char (hd (e @ CHR ''='' # r))" using n by simp
  then have s: "skip_spaces (e @ CHR ''='' # r) = e @ CHR ''='' # r"
    by (intro skip_spaces_id) (simp add: entry_char_plain)
  have eq: "skip_spaces (CHR ''='' # r) = CHR ''='' # r"
    by (intro skip_spaces_id) (simp add: is_blank_def)
  have "hd (e @ CHR ''='' # r) \<noteq> CHR ''#''" using entry_char_plain [OF h] by simp
  then show ?thesis using n(1) by (simp add: read_entry_def s t eq Let_def)
qed

lemma read_value_plain:
  assumes v: "plain_value v"
  shows "read_value v = Inr v"
proof -
  have h: "plain_char (hd v)" "v \<noteq> []" "quote_code (hd v) = 0"
    using v by (simp_all add: plain_value_def quote_code)
  have s: "skip_spaces v = v" by (rule skip_spaces_id) (simp add: plain_charD [OF h(1)])
  have "\<forall>x \<in> set v. \<not> ends_value 0 x" using v plain_charD(2) by (simp add: plain_value_def)
  then have t: "takeWhile (\<lambda>c. \<not> ends_value 0 c) v = v" "dropWhile (\<lambda>c. \<not> ends_value 0 c) v = []"
    by (simp_all add: takeWhile_eq_all_conv)
  have e: "skip_spaces [] = []" by (simp add: skip_spaces_def)
  show ?thesis
    by (simp only: read_value_def Let_def s h(2,3) less_irrefl if_False t e
        quote_code_def [symmetric] simp_thms)
qed

lemma read_value_quoted:
  assumes "quotable q v"
  shows "read_value (q # v @ [q]) = Inr v"
proof -
  have q: "is_quote q" and v: "\<forall>x \<in> set v. \<not> ends_value (quote_code q) x"
    using assms quote_code(6) by (auto simp: quotable_def)
  have t: "takeWhile (\<lambda>c. \<not> ends_value (quote_code q) c) (v @ [q]) = v"
    "dropWhile (\<lambda>c. \<not> ends_value (quote_code q) c) (v @ [q]) = [q]"
    using v quote_code(3) [OF q] by (simp_all add: takeWhile_append2 dropWhile_append2)
  have s: "skip_spaces (q # v @ [q]) = q # v @ [q]" "skip_spaces [] = []"
    using quote_code(4) [OF q] by (simp_all add: skip_spaces_def)
  show ?thesis
    using quote_code(1) [OF q] t
    by (simp only: read_value_def Let_def s list.sel quote_code_def [symmetric]) (simp add: s)
qed

lemma read_line_sets_core:
  assumes "config_inv c" and "e \<in> set default_names"
    and "plain_value v \<and> raw = v \<or> (\<exists>q. quotable q v \<and> raw = q # v @ [q])"
  shows "read_line (e @ CHR ''='' # raw @ [CHR 0x0A]) c = Some (Inr (snd (config_Set e v c))) \<and>
    config_Get e (snd (config_Set e v c)) = Some v"
proof -
  have "raw \<noteq> []" using assms(3) by (auto simp: plain_value_def)
  moreover have "last v \<noteq> CHR 0x0D" if "plain_value v"
    using that plain_charD(3) last_in_set by (simp add: plain_value_def)
  moreover have "last (q # v @ [q]) \<noteq> CHR 0x0D" if "quotable q v" for q
    using that quote_code(5) [of q] by (simp add: quotable_def)
  ultimately have raw: "raw \<noteq> []" "last raw \<noteq> CHR 0x0D"
    using assms(3) by blast+
  then have "trim_line (e @ CHR ''='' # raw @ [CHR 0x0A]) = Some (e @ CHR ''='' # raw)"
    by (simp add: trim_line_def butlast_append)
  moreover have "read_value raw = Inr v"
    using assms(3) read_value_plain read_value_quoted by blast
  moreover obtain c' where "config_Set e v c = (True, c')"
    using config_Set_Get(1) [OF assms(1,2), of v] by (cases "config_Set e v c") auto
  ultimately show ?thesis
    using read_entry_simple [OF assms(2), of raw] config_Set_Get(2) [OF assms(1,2), of v]
    by (simp add: read_line_def)
qed

text \<open>
  Round trip of one line: for every entry name of the table, the line
  \<open>name=value\<close> with a value free of blanks, number signs and quotes at its start, and the
  line \<open>name="value"\<close> (either quote character) with a value free of that quote, tabs and
  number signs, set the entry to exactly this value.
\<close>

theorem read_line_sets:
  assumes "config_inv c" and "e \<in> set default_names"
    and "plain_value v \<and> raw = v \<or> (\<exists>q. quotable q v \<and> raw = q # v @ [q])"
  shows "read_line (e @ CHR ''='' # raw @ [CHR 0x0A]) c = Some (Inr (snd (config_Set e v c))) \<and>
    config_Get e (snd (config_Set e v c)) = Some v"
  by (rule read_line_sets_core [OF assms])

theorem read_line_sets_witness:
  "read_line ''network.bind.port=80\<newline>'' Configuration_new =
     Some (Inr (snd (config_Set ''network.bind.port'' ''80'' Configuration_new))) \<and>
   config_Get ''network.bind.port''
     (snd (config_Set ''network.bind.port'' ''80'' Configuration_new)) = Some ''80''"
  using read_line_sets [OF Configuration_new_inv known_port, of "''80''" "''80''"]
  by (simp add: plain_value_def plain_char_def is_quote_def)

text \<open>
  Three lines the reader mishandles: an empty line makes it read before the line
  buffer; a quoted value that contains a number sign is rejected (or cut off silently when
  a second number sign follows); a quoted value can even lack its closing quote, when a
  number sign takes its place.
\<close>

theorem reader_quirks:
  "read_line ''\<newline>'' c = None \<and>
   read_entry (''mysql.user='' @ [CHR 0x22] @ ''a#b'' @ [CHR 0x22]) =
     reader_error ''Garbage data after value'' \<and>
   read_entry (''mysql.user='' @ [CHR 0x22] @ ''a##b'' @ [CHR 0x22]) =
     Inr (Some (''mysql.user'', ''a'')) \<and>
   read_entry (''mysql.user='' @ [CHR 0x22] @ ''a#'') = Inr (Some (''mysql.user'', ''a''))"
  by (simp add: read_line_def trim_line_def)
     (simp add: read_entry_def read_value_def skip_spaces_def is_blank_def is_entry_char_def
       isalnum_def isalpha_def isdigit_def ends_value_def reader_error_def)

text \<open>
  A configuration written out as a file, each value in double quotes, as a user would.
\<close>

definition write_entry :: "string \<times> string \<Rightarrow> string" where
  "write_entry ev = fst ev @ CHR ''='' # (CHR 0x22 # snd ev @ [CHR 0x22]) @ [CHR 0x0A]"

definition writable :: "string \<times> string \<Rightarrow> bool" where
  "writable ev \<longleftrightarrow> fst ev \<in> set default_names \<and> quotable (CHR 0x22) (snd ev) \<and>
     length (write_entry ev) < CONFIGURATION_LINE_MAXLEN"

definition write_config :: "config \<Rightarrow> string" where
  "write_config c = concat (List.map write_entry (zip (entries c) (cvalues c)))"

lemma fgets_line:
  assumes "\<forall>x \<in> set l. x \<noteq> CHR 0x0A" and "length l + 1 < n"
  shows "fgets n (l @ CHR 0x0A # rest) = Some (l @ [CHR 0x0A], rest)"
proof -
  have "takeWhile (\<lambda>c. c \<noteq> CHR 0x0A) (l @ CHR 0x0A # rest) = l"
    using assms(1) by (simp add: takeWhile_append2)
  moreover have "min (n - 1) (length l + 1) = length l + 1" using assms(2) by simp
  ultimately show ?thesis by (simp add: fgets_def)
qed

definition set_all :: "(string \<times> string) list \<Rightarrow> config \<Rightarrow> config" where
  "set_all evs c = foldl (\<lambda>c (e, v). snd (config_Set e v c)) c evs"

lemma set_all_simps [simp]:
  "set_all [] c = c" "set_all ((e, v) # evs) c = set_all evs (snd (config_Set e v c))"
  by (simp_all add: set_all_def)

lemma write_entry_fgets:
  assumes "writable (e, v)"
  shows "fgets CONFIGURATION_LINE_MAXLEN (write_entry (e, v) @ rest) = Some (write_entry (e, v), rest)"
proof -
  let ?l = "e @ CHR ''='' # (CHR 0x22 # v @ [CHR 0x22])"
  have "\<forall>x \<in> set e. x \<noteq> CHR 0x0A" "\<forall>x \<in> set v. x \<noteq> CHR 0x0A"
    using assms default_name(2) [of e] entry_char_plain(4) by (auto simp: writable_def quotable_def)
  then have "\<forall>x \<in> set ?l. x \<noteq> CHR 0x0A" by auto
  moreover have "length ?l + 1 < CONFIGURATION_LINE_MAXLEN"
    using assms by (simp add: writable_def write_entry_def)
  ultimately show ?thesis
    using fgets_line [of ?l CONFIGURATION_LINE_MAXLEN rest] by (simp add: write_entry_def)
qed

lemma read_line_write_entry:
  assumes "config_inv c" and "writable (e, v)"
  shows "read_line (write_entry (e, v)) c = Some (Inr (snd (config_Set e v c)))"
  using read_line_sets_core [OF assms(1), of e v "CHR 0x22 # v @ [CHR 0x22]"] assms(2)
  by (auto simp: writable_def write_entry_def)

lemma read_lines_written:
  assumes "config_inv c" and "\<forall>ev \<in> set evs. writable ev"
  shows "read_lines (concat (List.map write_entry evs)) c = Some (Inr (set_all evs c))"
  using assms
proof (induction evs arbitrary: c)
  case Nil
  then show ?case by (simp add: read_lines.simps fgets_def)
next
  case (Cons ev evs)
  obtain e v where ev: "ev = (e, v)" by (cases ev)
  with Cons.prems have w: "writable (e, v)" by simp
  show ?case
    using Cons.IH [OF config_Set_inv [OF Cons.prems(1), of e v]] Cons.prems(2)
      write_entry_fgets [OF w] read_line_write_entry [OF Cons.prems(1) w]
    by (simp add: ev read_lines.simps [of "write_entry (e, v) @ _"])
qed

lemma set_all_inv: "config_inv c \<Longrightarrow> config_inv (set_all evs c)"
  by (induction evs arbitrary: c) (auto simp: config_Set_inv)

lemma set_all_Get:
  assumes "config_inv c" and "distinct (List.map fst evs)" and "(e, v) \<in> set evs"
    and "\<forall>ev \<in> set evs. fst ev \<in> set default_names"
  shows "config_Get e (set_all evs c) = Some v"
proof -
  have keep: "config_Get e (set_all evs c) = config_Get e c"
    if "config_inv c" "e \<notin> fst ` set evs" "\<forall>ev \<in> set evs. fst ev \<in> set default_names"
    for evs :: "(string \<times> string) list" and c
    using that by (induction evs arbitrary: c) (auto simp: config_Set_inv config_Set_Get(3))
  from assms show ?thesis
  proof (induction evs arbitrary: c)
    case Nil
    then show ?case by simp
  next
    case (Cons ev evs)
    obtain e1 v1 where ev: "ev = (e1, v1)" by (cases ev)
    have inv1: "config_inv (snd (config_Set e1 v1 c))" by (rule config_Set_inv [OF Cons.prems(1)])
    show ?case
    proof (cases "(e, v) = ev")
      case True
      with Cons.prems ev have "e \<notin> fst ` set evs" by auto
      then show ?thesis
        using keep [OF inv1] Cons.prems True ev config_Set_Get(2) [of c e v] by auto
    next
      case False
      with Cons.IH [OF inv1] Cons.prems ev show ?thesis by auto
    qed
  qed
qed

lemma config_ext:
  assumes c: "config_inv c" and d: "config_inv d"
    and eq: "\<And>e. e \<in> set default_names \<Longrightarrow> config_Get e c = config_Get e d"
  shows "c = d"
proof -
  note tc = config_table [OF c] and td = config_table [OF d]
  have "cvalues c ! i = cvalues d ! i" if i: "i < length (entries c)" for i
  proof -
    have "config_Get (entries c ! i) c = Some (cvalues c ! i)"
      using config_table.lookup_nth [OF tc(1,2,3) i] by (simp add: config_Get_def)
    moreover have "config_Get (entries d ! i) d = Some (cvalues d ! i)"
      using config_table.lookup_nth [OF td(1,2,3), of i] i tc(4) td(4) by (simp add: config_Get_def)
    moreover have "entries c ! i \<in> set default_names" using i tc(4) by (metis nth_mem)
    ultimately show ?thesis using eq [of "entries c ! i"] tc(4) td(4) by simp
  qed
  then have "cvalues c = cvalues d" using tc td by (intro nth_equalityI) simp_all
  with tc(4) td(4) show ?thesis by simp
qed

text \<open>
  C22. Round trip of the whole file: writing out any configuration whose values contain no
  double quote, tab, number sign or newline and whose lines fit the line buffer, and reading
  the file back, restores exactly that configuration, whatever the defaults are.
\<close>

theorem config_file_roundtrip:
  assumes "config_inv c" and "\<forall>ev \<in> set (zip (entries c) (cvalues c)). writable ev"
  shows "Read (Some (write_config c)) = Some (Inr c)"
proof -
  let ?evs = "zip (entries c) (cvalues c)"
  note t = config_table [OF assms(1)]
  have "set_all ?evs Configuration_new = c"
  proof (rule config_ext [OF set_all_inv [OF Configuration_new_inv] assms(1)])
    fix e assume "e \<in> set default_names"
    then obtain i where i: "i < length (entries c)" "entries c ! i = e"
      using t(4) by (metis in_set_conv_nth)
    then have "(e, cvalues c ! i) \<in> set ?evs" using t(5) by (auto simp: set_zip)
    moreover have "distinct (List.map fst ?evs)" using t(2,5) by simp
    ultimately have "config_Get e (set_all ?evs Configuration_new) = Some (cvalues c ! i)"
      using assms(2) by (intro set_all_Get [OF Configuration_new_inv]) (auto simp: writable_def)
    moreover have "config_Get e c = Some (cvalues c ! i)"
      using config_table.lookup_nth [OF t(1,2,3) i(1)] i(2) by (simp add: config_Get_def)
    ultimately show "config_Get e (set_all ?evs Configuration_new) = config_Get e c" by simp
  qed
  with read_lines_written [OF Configuration_new_inv assms(2)]
  show ?thesis by (simp add: Read_def write_config_def)
qed

lemma default_writable:
  "\<forall>ev \<in> set (zip (entries Configuration_new) (cvalues Configuration_new)). writable ev"
proof -
  have "list_all writable (zip (entries Configuration_new) (cvalues Configuration_new))"
    by code_simp
  then show ?thesis by (simp add: list_all_iff)
qed

theorem config_file_roundtrip_witness:
  "config_inv Configuration_new \<and>
   Read (Some (write_config Configuration_new)) = Some (Inr Configuration_new)"
  using config_file_roundtrip [OF Configuration_new_inv default_writable] Configuration_new_inv
  by simp

end
