(* ===== verification/Workflow_Parameters.thy ===== *)
theory Workflow_Parameters
  imports Prelude
begin

text \<open>
  The parameters passed to a workflow: \<open>WorkflowParameters.cpp\<close>. A singly linked list
  that grows at the front, and a cursor for iteration. Cells are never changed or removed
  while the list lives, so the list is modelled by its cells from \<open>first_parameter\<close> on and
  the cursor by the cells from \<open>current_parameter\<close> on.
\<close>

record parameters =
  first_parameter :: "(string \<times> string) list"
  current_parameter :: "(string \<times> string) list"

definition Parameters_new :: parameters where
  "Parameters_new = \<lparr>first_parameter = [], current_parameter = []\<rparr>"

definition param_Add :: "string \<Rightarrow> string \<Rightarrow> parameters \<Rightarrow> bool \<times> parameters" where
  "param_Add name v p =
     (if list_ex (\<lambda>cur. strcmp (fst cur) name = 0) (first_parameter p) then (False, p)
      else (True, p\<lparr>first_parameter := (name, v) # first_parameter p\<rparr>))"

definition param_SeekStart :: "parameters \<Rightarrow> parameters" where
  "param_SeekStart p = p\<lparr>current_parameter := first_parameter p\<rparr>"

text \<open>\<open>Get\<close> returns \<open>false\<close> at the end, else the cell's name and value.\<close>

definition param_Get :: "parameters \<Rightarrow> (string \<times> string) option \<times> parameters" where
  "param_Get p =
     (case current_parameter p of
        [] \<Rightarrow> (None, p)
      | c # cs \<Rightarrow> (Some c, p\<lparr>current_parameter := cs\<rparr>))"

text \<open>The loop \<open>while(parameters->Get(&name,&value))\<close> of the callers, with its results.\<close>

function param_loop :: "parameters \<Rightarrow> (string \<times> string) list \<times> parameters" where
  "param_loop p =
     (case param_Get p of
        (None, p') \<Rightarrow> ([], p')
      | (Some c, p') \<Rightarrow> apfst (Cons c) (param_loop p'))"
  by pat_completeness auto
termination
  by (relation "measure (\<lambda>p. length (current_parameter p))")
     (auto simp: param_Get_def split: list.splits)

declare param_loop.simps [simp del]

definition add_all :: "(string \<times> string) list \<Rightarrow> parameters \<Rightarrow> parameters" where
  "add_all nvs p = foldl (\<lambda>p (n, v). snd (param_Add n v p)) p nvs"

definition params_inv :: "parameters \<Rightarrow> bool" where
  "params_inv p \<longleftrightarrow> distinct (List.map fst (first_parameter p))"

lemma param_Add_inv: "params_inv p \<Longrightarrow> params_inv (snd (param_Add n v p))"
  by (auto simp: params_inv_def param_Add_def list_ex_iff)

lemma add_all_inv: "params_inv p \<Longrightarrow> params_inv (add_all nvs p)"
  by (induction nvs arbitrary: p) (auto simp: add_all_def param_Add_inv)

lemma param_Add_dup:
  "fst (param_Add n v p) \<longleftrightarrow> n \<notin> fst ` set (first_parameter p)"
  by (auto simp: param_Add_def list_ex_iff)

lemma param_loop_all:
  "param_loop p = (current_parameter p, p\<lparr>current_parameter := []\<rparr>)"
proof (induction p rule: param_loop.induct)
  case (1 p)
  then show ?case
    by (cases "current_parameter p") (simp_all add: param_loop.simps [of p] param_Get_def)
qed

lemma add_all_first:
  "map_of (first_parameter (add_all nvs p)) n =
     (case map_of (first_parameter p) n of Some v \<Rightarrow> Some v | None \<Rightarrow> map_of nvs n)"
proof (induction nvs arbitrary: p)
  case Nil
  then show ?case by (simp add: add_all_def split: option.splits)
next
  case (Cons nv nvs)
  obtain m v where nv: "nv = (m, v)" by (cases nv)
  have "add_all (nv # nvs) p = add_all nvs (snd (param_Add m v p))"
    by (simp add: add_all_def nv)
  moreover have "map_of (first_parameter p) m = None \<longleftrightarrow> m \<notin> fst ` set (first_parameter p)"
    by (simp add: map_of_eq_None_iff)
  ultimately show ?case
    using param_Add_dup [of m v p]
    by (auto simp: Cons nv param_Add_def list_ex_iff split: option.splits if_splits)
qed

text \<open>
  Parameters are a first-wins association: after any sequence of \<open>Add\<close> calls on an
  empty list, iterating from \<open>SeekStart\<close> ends and yields every name exactly once, each
  with the value of the first \<open>Add\<close> for it (later ones were refused), and nothing else;
  the list itself is unchanged.
\<close>

theorem parameters_iterate:
  "let p = add_all nvs Parameters_new; (cells, p') = param_loop (param_SeekStart p) in
     distinct (List.map fst cells) \<and> map_of cells = map_of nvs \<and>
     first_parameter p' = first_parameter p \<and> fst (param_Get p') = None"
proof -
  have "params_inv (add_all nvs Parameters_new)"
    by (rule add_all_inv) (simp add: params_inv_def Parameters_new_def)
  moreover have "map_of (first_parameter (add_all nvs Parameters_new)) = map_of nvs"
    by (rule ext) (simp add: add_all_first Parameters_new_def)
  ultimately show ?thesis
    by (simp add: param_loop_all param_SeekStart_def params_inv_def param_Get_def)
qed

end
