(* ===== verification/Statistics.thy ===== *)
theory Statistics
  imports Prelude
begin

text \<open>
  The global counters: \<open>Statistics.cpp\<close>, and the generator of workflow instance
  identifiers: \<open>SequenceGenerator.cpp\<close>. Each operation runs under its object's mutex (the
  reset does not take it) and is one step. The counters are unsigned and wrap around.
\<close>

section \<open>Counters\<close>

record stats =
  accepted_connections :: u32
  input_errors :: u32
  workflow_queries :: u32
  workflow_status_queries :: u32
  workflow_cancel_queries :: u32
  statistics_queries :: u32
  workflow_exceptions :: u32
  workflow_instance_launched :: u32
  workflow_instance_executing :: u32
  workflow_instance_errors :: u32

definition Statistics_new :: stats where
  "Statistics_new = \<lparr>accepted_connections = 0, input_errors = 0, workflow_queries = 0,
     workflow_status_queries = 0, workflow_cancel_queries = 0, statistics_queries = 0,
     workflow_exceptions = 0, workflow_instance_launched = 0, workflow_instance_executing = 0,
     workflow_instance_errors = 0\<rparr>"

definition IncAcceptedConnections :: "stats \<Rightarrow> stats" where
  "IncAcceptedConnections s = s\<lparr>accepted_connections := accepted_connections s + 1\<rparr>"

definition IncInputErrors :: "stats \<Rightarrow> stats" where
  "IncInputErrors s = s\<lparr>input_errors := input_errors s + 1\<rparr>"

definition IncWorkflowQueries :: "stats \<Rightarrow> stats" where
  "IncWorkflowQueries s = s\<lparr>workflow_queries := workflow_queries s + 1\<rparr>"

definition IncWorkflowStatusQueries :: "stats \<Rightarrow> stats" where
  "IncWorkflowStatusQueries s = s\<lparr>workflow_status_queries := workflow_status_queries s + 1\<rparr>"

definition IncWorkflowCancelQueries :: "stats \<Rightarrow> stats" where
  "IncWorkflowCancelQueries s = s\<lparr>workflow_cancel_queries := workflow_cancel_queries s + 1\<rparr>"

definition IncStatisticsQueries :: "stats \<Rightarrow> stats" where
  "IncStatisticsQueries s = s\<lparr>statistics_queries := statistics_queries s + 1\<rparr>"

definition IncWorkflowExceptions :: "stats \<Rightarrow> stats" where
  "IncWorkflowExceptions s = s\<lparr>workflow_exceptions := workflow_exceptions s + 1\<rparr>"

definition IncWorkflowInstanceExecuting :: "stats \<Rightarrow> stats" where
  "IncWorkflowInstanceExecuting s =
     s\<lparr>workflow_instance_launched := workflow_instance_launched s + 1,
       workflow_instance_executing := workflow_instance_executing s + 1\<rparr>"

definition DecWorkflowInstanceExecuting :: "stats \<Rightarrow> stats" where
  "DecWorkflowInstanceExecuting s =
     (if workflow_instance_executing s > 0
      then s\<lparr>workflow_instance_executing := workflow_instance_executing s - 1\<rparr> else s)"

definition IncWorkflowInstanceErrors :: "stats \<Rightarrow> stats" where
  "IncWorkflowInstanceErrors s = s\<lparr>workflow_instance_errors := workflow_instance_errors s + 1\<rparr>"

definition ResetGlobalStatistics :: "stats \<Rightarrow> stats" where
  "ResetGlobalStatistics s =
     s\<lparr>accepted_connections := 0, input_errors := 0, workflow_queries := 0,
       workflow_status_queries := 0, workflow_cancel_queries := 0, statistics_queries := 0,
       workflow_exceptions := 0, workflow_instance_launched := 0,
       workflow_instance_executing := 0, workflow_instance_errors := 0\<rparr>"

text \<open>The attributes \<open>SendGlobalStatistics\<close> writes; \<open>%d\<close> prints the counter as signed.\<close>

definition global_statistics :: "stats \<Rightarrow> (string \<times> int) list" where
  "global_statistics s =
     [(''accepted_connections'', sint (accepted_connections s)),
      (''input_errors'', sint (input_errors s)),
      (''workflow_queries'', sint (workflow_queries s)),
      (''workflow_status_queries'', sint (workflow_status_queries s)),
      (''workflow_cancel_queries'', sint (workflow_cancel_queries s)),
      (''statistics_queries'', sint (statistics_queries s)),
      (''workflow_exceptions'', sint (workflow_exceptions s)),
      (''workflow_instance_launched'', sint (workflow_instance_launched s)),
      (''workflow_instance_executing'', sint (workflow_instance_executing s)),
      (''workflow_instance_errors'', sint (workflow_instance_errors s))]"

text \<open>The life cycle events of workflow instances, as the instance class reports them.\<close>

datatype life_event = Launched | Ended | Reset

fun life_step :: "life_event \<Rightarrow> stats \<Rightarrow> stats" where
  "life_step Launched s = IncWorkflowInstanceExecuting s"
| "life_step Ended s = DecWorkflowInstanceExecuting s"
| "life_step Reset s = ResetGlobalStatistics s"

text \<open>
  A schedule of events is possible when no more instances end than are alive; \<open>alive\<close>
  counts the instances really running.
\<close>

fun alive :: "nat \<Rightarrow> life_event list \<Rightarrow> nat option" where
  "alive n [] = Some n"
| "alive n (Launched # es) = alive (Suc n) es"
| "alive n (Ended # es) = (if n = 0 then None else alive (n - 1) es)"
| "alive n (Reset # es) = alive n es"

lemma alive_bound: "alive n es = Some m \<Longrightarrow> m \<le> n + length es"
proof (induction es arbitrary: n)
  case (Cons e es)
  then show ?case by (cases e) (fastforce split: if_splits)+
qed simp

lemma executing_counts_aux:
  assumes "alive n es = Some m" and "Reset \<notin> set es" and "n + length es < 2 ^ 32"
    and "workflow_instance_executing s = of_nat n"
  shows "workflow_instance_executing (fold life_step es s) = of_nat m"
  using assms
proof (induction es arbitrary: n s)
  case Nil
  then show ?case by simp
next
  case (Cons e es)
  show ?case
  proof (cases e)
    case Launched
    have "workflow_instance_executing (IncWorkflowInstanceExecuting s) = of_nat (Suc n)"
      using Cons.prems(4) by (simp add: IncWorkflowInstanceExecuting_def)
    with Cons.IH [of "Suc n" "IncWorkflowInstanceExecuting s"] Cons.prems Launched
    show ?thesis by simp
  next
    case Ended
    have n0: "n \<noteq> 0" and nx: "alive (n - 1) es = Some m"
      using Cons.prems(1) unfolding Ended by (simp_all split: if_splits)
    have bound: "n < 2 ^ 32" using Cons.prems(3) by linarith
    have dec: "workflow_instance_executing (DecWorkflowInstanceExecuting s) = of_nat (n - 1)"
      using n0 Cons.prems(4) of_nat_u32_pos [of n] of_nat_u32_pred [of n] bound
      by (simp add: DecWorkflowInstanceExecuting_def)
    have rest: "Reset \<notin> set es" using Cons.prems(2) by simp
    have len: "n - 1 + length es < 2 ^ 32" using Cons.prems(3) by simp
    show ?thesis
      unfolding Ended fold_simps life_step.simps by (rule Cons.IH [OF nx rest len dec])
  next
    case Reset
    with Cons.prems show ?thesis by simp
  qed
qed

text \<open>
  Without a reset, the executing counter is exact: after any possible sequence of
  instance launches and ends (fewer than $2^{32}$ of them) it equals the number of
  instances alive, and never wraps below zero.
\<close>

theorem executing_counts_alive:
  assumes "alive 0 es = Some m" and "Reset \<notin> set es" and "length es < 2 ^ 32"
  shows "unat (workflow_instance_executing (fold life_step es Statistics_new)) = m"
proof -
  have "workflow_instance_executing (fold life_step es Statistics_new) = of_nat m"
    using executing_counts_aux [OF assms(1,2)] assms(3) by (simp add: Statistics_new_def)
  moreover have "m < 2 ^ 32" using alive_bound [OF assms(1)] assms(3) by simp
  ultimately show ?thesis by simp
qed

theorem executing_counts_alive_witness:
  "unat (workflow_instance_executing
     (fold life_step [Launched, Launched, Ended, Launched] Statistics_new)) = 2"
  using executing_counts_alive [of "[Launched, Launched, Ended, Launched]" 2] by simp

text \<open>
  A reset while an instance runs makes the counter wrong from then on: the end of the
  old instance is charged to a later one.
\<close>

lemma reset_loses_instances:
  "alive 0 [Launched, Reset, Launched, Ended] = Some 1 \<and>
   workflow_instance_executing (fold life_step [Launched, Reset, Launched, Ended] Statistics_new) = 0"
  by (simp add: Statistics_new_def IncWorkflowInstanceExecuting_def DecWorkflowInstanceExecuting_def
      ResetGlobalStatistics_def)

section \<open>Instance identifiers\<close>

text \<open>
  \<open>SequenceGenerator\<close> starts above the largest identifier in the database (\<open>None\<close>: no
  row, read as 0) and hands out consecutive numbers.
\<close>

definition SequenceGenerator_new :: "u32 option \<Rightarrow> u32" where
  "SequenceGenerator_new max_id = (case max_id of None \<Rightarrow> 0 | Some m \<Rightarrow> m) + 1"

definition GetInc :: "u32 \<Rightarrow> u32 \<times> u32" where
  "GetInc seq = (seq, seq + 1)"

fun draw :: "nat \<Rightarrow> u32 \<Rightarrow> u32 list" where
  "draw 0 seq = []"
| "draw (Suc n) seq = (let (i, seq') = GetInc seq in i # draw n seq')"

lemma draw_upt:
  "unat seq + n < 2 ^ 32 \<Longrightarrow> List.map unat (draw n seq) = [unat seq..<unat seq + n]"
proof (induction n arbitrary: seq)
  case 0
  then show ?case by simp
next
  case (Suc n)
  then have "unat (seq + 1) = Suc (unat seq)" by (simp add: unat_word_ariths)
  with Suc show ?case by (simp add: GetInc_def upt_conv_Cons)
qed

text \<open>
  The generator hands out pairwise different identifiers, all above the largest one
  already in the database, until the 32-bit counter is exhausted.
\<close>

theorem sequence_fresh:
  assumes "unat m + n + 1 < 2 ^ 32"
  shows "distinct (draw n (SequenceGenerator_new (Some m))) \<and>
    (\<forall>i \<in> set (draw n (SequenceGenerator_new (Some m))). m < i)"
proof -
  let ?ids = "draw n (m + 1)"
  have "unat (m + 1) = unat m + 1" using assms by (simp add: unat_word_ariths)
  with draw_upt [of "m + 1" n] assms have ids: "List.map unat ?ids = [unat m + 1..<unat m + 1 + n]"
    by simp
  then have "distinct (List.map unat ?ids)" by simp
  moreover have "m < i" if "i \<in> set ?ids" for i
  proof -
    have "unat i \<in> set (List.map unat ?ids)" using that by simp
    then have "unat m < unat i" unfolding ids by auto
    then show ?thesis by (simp add: word_less_nat_alt)
  qed
  ultimately show ?thesis by (auto simp: SequenceGenerator_new_def distinct_map)
qed

theorem sequence_fresh_witness:
  "distinct (draw 3 (SequenceGenerator_new (Some 41))) \<and>
   draw 3 (SequenceGenerator_new (Some 41)) = [42, 43, 44]"
  using sequence_fresh [of 41 3] by (simp add: SequenceGenerator_new_def GetInc_def numeral_3_eq_3)

end
