(* ===== verification/Scheduler_Interface.thy ===== *)
theory Scheduler_Interface
  imports Prelude
begin

text \<open>
  What the two kinds of timed events (task retries and scheduled workflows) rely on in the
  event scheduler they inherit from: the contract of \<open>InsertEvent\<close> and \<open>Flush\<close> as a
  locale, and the consequences the clients use, proved once from it.
\<close>

text \<open>\<open>Scheduler::Event\<close>: a date (\<open>time_t\<close>, read as an integer) and what the subclass adds.\<close>

record 'e event =
  scheduled_at :: int
  payload :: 'e

locale event_queue =
  fixes insert_event :: "'e event \<Rightarrow> 's \<Rightarrow> 's"
    and flush_events :: "('e event \<Rightarrow> bool) \<Rightarrow> 's \<Rightarrow> 's \<times> 'e event list"
    and pending_events :: "'s \<Rightarrow> 'e event list"
    and valid :: "'s \<Rightarrow> bool"
    and room :: "'s \<Rightarrow> bool"
  assumes valid_sorted: "valid s \<Longrightarrow> sorted (List.map scheduled_at (pending_events s))"
    and insert_valid: "valid s \<Longrightarrow> room s \<Longrightarrow> valid (insert_event e s)"
    and insert_pending: "valid s \<Longrightarrow> \<exists>xs ys. pending_events s = xs @ ys \<and>
      pending_events (insert_event e s) = xs @ e # ys \<and>
      (\<forall>x \<in> set xs. scheduled_at x \<le> scheduled_at e) \<and>
      (\<forall>y \<in> set ys. scheduled_at e < scheduled_at y)"
    and flush_valid: "valid s \<Longrightarrow> valid (fst (flush_events P s))"
    and flush_pending: "valid s \<Longrightarrow>
      pending_events (fst (flush_events P s)) = List.filter (\<lambda>e. \<not> P e) (pending_events s)"
    and flush_removed: "valid s \<Longrightarrow> snd (flush_events P s) = List.filter P (pending_events s)"
begin

lemma insert_set: "valid s \<Longrightarrow>
    set (pending_events (insert_event e s)) = insert e (set (pending_events s))"
  using insert_pending [of s e] by auto

lemma insert_filter_other:
  assumes "valid s" and "\<not> P e"
  shows "List.filter P (pending_events (insert_event e s)) = List.filter P (pending_events s)"
  using insert_pending [OF assms(1), of e] assms(2) by auto

text \<open>Events of the same date keep the order in which they were inserted.\<close>

lemma insert_stable:
  assumes "valid s"
  shows "List.filter (\<lambda>x. scheduled_at x = d) (pending_events (insert_event e s)) =
    List.filter (\<lambda>x. scheduled_at x = d) (pending_events s) @
      (if scheduled_at e = d then [e] else [])"
proof -
  obtain xs ys where s: "pending_events s = xs @ ys"
    "pending_events (insert_event e s) = xs @ e # ys"
    and later: "\<forall>y \<in> set ys. scheduled_at e < scheduled_at y"
    using insert_pending [OF assms, of e] by blast
  have "List.filter (\<lambda>x. scheduled_at x = d) ys = []" if "scheduled_at e = d"
    using later that by (simp add: filter_empty_conv) fastforce
  with s show ?thesis by simp
qed

lemma flush_twice:
  assumes "valid s"
  shows "snd (flush_events P (fst (flush_events P s))) = []"
  using flush_removed [OF flush_valid [OF assms], of P P] flush_pending [OF assms, of P]
  by simp

lemma flush_all:
  assumes "valid s"
  shows "pending_events (fst (flush_events (\<lambda>_. True) s)) = [] \<and>
    snd (flush_events (\<lambda>_. True) s) = pending_events s"
  using assms by (simp add: flush_pending flush_removed)

lemma flush_after_insert:
  assumes "valid s" and "room s" and "P e"
  shows "e \<in> set (snd (flush_events P (insert_event e s)))"
  using assms flush_removed [OF insert_valid [OF assms(1,2)], of P e] insert_set [of s e] by simp

end

end
