(* ===== verification/Event_Scheduler.thy ===== *)
theory Event_Scheduler
  imports Scheduler_Interface
begin

text \<open>
  The timed event list of \<open>Scheduler.cpp\<close> and the thread that serves it. The list linked
  by \<open>next_event\<close> is a HOL list. The operations that run under the scheduler's mutex are
  functions; the threads started by \<open>InsertEvent\<close>, the mutex, the condition variable and
  the clock are a step relation over them.
\<close>

section \<open>The event list\<close>

record 'e scheduler =
  number_of_events :: u32
  first_event :: "'e event list"
  is_shutting_down :: bool

definition Scheduler_new :: "'e scheduler" where
  "Scheduler_new = \<lparr>number_of_events = 0, first_event = [], is_shutting_down = False\<rparr>"

text \<open>The walk of \<open>InsertEvent\<close> past the events that are not later than the new one.\<close>

fun insert_after :: "'e event \<Rightarrow> 'e event list \<Rightarrow> 'e event list" where
  "insert_after n [] = [n]"
| "insert_after n (x # xs) =
     (if scheduled_at n \<ge> scheduled_at x then x # insert_after n xs else n # x # xs)"

text \<open>What an operation does beside changing the list.\<close>

datatype effect = Create_Thread | Signal | No_Effect

definition InsertEvent :: "'e event \<Rightarrow> 'e scheduler \<Rightarrow> effect \<times> 'e scheduler" where
  "InsertEvent new_event s =
     (case first_event s of
        [] \<Rightarrow> (Create_Thread, s\<lparr>first_event := [new_event], number_of_events := 0 + 1\<rparr>)
      | x # xs \<Rightarrow>
          if scheduled_at new_event < scheduled_at x
          then (Signal, s\<lparr>first_event := new_event # x # xs,
                  number_of_events := number_of_events s + 1\<rparr>)
          else (No_Effect, s\<lparr>first_event := x # insert_after new_event xs,
                  number_of_events := number_of_events s + 1\<rparr>))"

text \<open>
  The loop of \<open>Flush\<close>. \<open>at_first\<close> tells whether the cursor is still the address of
  \<open>first_event\<close>. The result is the events kept, those removed in order, and whether the
  head changed.
\<close>

fun flush_loop ::
  "('e event \<Rightarrow> bool) \<Rightarrow> bool \<Rightarrow> 'e event list \<Rightarrow> 'e event list \<times> 'e event list \<times> bool" where
  "flush_loop removes at_first [] = ([], [], False)"
| "flush_loop removes at_first (x # xs) =
     (if removes x
      then let (kept, gone, woke) = flush_loop removes at_first xs
           in (kept, x # gone, at_first \<or> woke)
      else let (kept, gone, woke) = flush_loop removes False xs
           in (x # kept, gone, woke))"

text \<open>
  \<open>Flush\<close>, for the virtual function \<open>flush_filter\<close> of the subclass. The removed events
  are the ones \<open>event_removed(\<dots>, FLUSH)\<close> is called on.
\<close>

definition Flush ::
  "('e event \<Rightarrow> bool) \<Rightarrow> bool \<Rightarrow> 'e scheduler \<Rightarrow> effect \<times> 'e event list \<times> 'e scheduler" where
  "Flush flush_filter use_filter s =
     (if number_of_events s = 0 then (No_Effect, [], s)
      else let (kept, gone, woke) =
             flush_loop (\<lambda>e. \<not> use_filter \<or> flush_filter e) True (first_event s)
           in (if woke then Signal else No_Effect, gone,
               s\<lparr>first_event := kept,
                 number_of_events := number_of_events s - of_nat (length gone)\<rparr>))"

definition flush_filter_default :: "'e event \<Rightarrow> bool" where
  "flush_filter_default e = True"

definition sched_Shutdown :: "'e scheduler \<Rightarrow> effect \<times> 'e scheduler" where
  "sched_Shutdown s = (if number_of_events s > 0 then Signal else No_Effect,
     s\<lparr>is_shutting_down := True\<rparr>)"

definition shift_event :: "int \<Rightarrow> 'e scheduler \<Rightarrow> 'e event option \<times> 'e scheduler" where
  "shift_event curr_time s =
     (case first_event s of
        [] \<Rightarrow> (None, s)
      | x # xs \<Rightarrow>
          if scheduled_at x \<le> curr_time
          then (Some x, s\<lparr>first_event := xs, number_of_events := number_of_events s - 1\<rparr>)
          else (None, s))"

text \<open>The loop of \<open>retry_thread\<close> that removes the events that are due.\<close>

fun drain :: "nat \<Rightarrow> int \<Rightarrow> 'e scheduler \<Rightarrow> 'e event list \<times> 'e scheduler" where
  "drain 0 curr_time s = ([], s)"
| "drain (Suc fuel) curr_time s =
     (case shift_event curr_time s of
        (None, s') \<Rightarrow> ([], s')
      | (Some e, s') \<Rightarrow> apfst (Cons e) (drain fuel curr_time s'))"

definition get_sleep_time :: "int \<Rightarrow> 'e scheduler \<Rightarrow> int" where
  "get_sleep_time curr_time s = scheduled_at (hd (first_event s)) - curr_time"

text \<open>The invariant: the list is sorted by date and counted.\<close>

definition sched_inv :: "'e scheduler \<Rightarrow> bool" where
  "sched_inv s \<longleftrightarrow> sorted (List.map scheduled_at (first_event s)) \<and>
     number_of_events s = of_nat (length (first_event s)) \<and> length (first_event s) < 2 ^ 32"

definition sched_room :: "'e scheduler \<Rightarrow> bool" where
  "sched_room s \<longleftrightarrow> length (first_event s) + 1 < 2 ^ 32"

lemma Scheduler_new_inv [simp]: "sched_inv Scheduler_new"
  by (simp add: sched_inv_def Scheduler_new_def)

lemma sched_inv_empty: "sched_inv s \<Longrightarrow> number_of_events s = 0 \<longleftrightarrow> first_event s = []"
proof -
  assume inv: "sched_inv s"
  then have "unat (number_of_events s) = length (first_event s)" by (simp add: sched_inv_def)
  then show ?thesis by (metis length_0_conv unat_eq_0)
qed

lemma insert_after_split: "sorted (List.map scheduled_at xs) \<Longrightarrow>
   \<exists>ys zs. xs = ys @ zs \<and> insert_after n xs = ys @ n # zs \<and>
     (\<forall>y \<in> set ys. scheduled_at y \<le> scheduled_at n) \<and>
     (\<forall>z \<in> set zs. scheduled_at n < scheduled_at z)"
proof (induction xs)
  case Nil
  then show ?case by simp
next
  case (Cons x xs)
  show ?case
  proof (cases "scheduled_at n \<ge> scheduled_at x")
    case True
    from Cons.prems have "sorted (List.map scheduled_at xs)" by simp
    from Cons.IH [OF this] obtain ys zs where ih: "xs = ys @ zs" "insert_after n xs = ys @ n # zs"
      "\<forall>y \<in> set ys. scheduled_at y \<le> scheduled_at n" "\<forall>z \<in> set zs. scheduled_at n < scheduled_at z"
      by blast
    with True show ?thesis by (intro exI [of _ "x # ys"] exI [of _ zs]) simp
  next
    case False
    with Cons.prems show ?thesis by (intro exI [of _ "[]"] exI [of _ "x # xs"]) fastforce
  qed
qed

lemma InsertEvent_events:
  assumes "sched_inv s"
  shows "\<exists>xs ys. first_event s = xs @ ys \<and> first_event (snd (InsertEvent e s)) = xs @ e # ys \<and>
    (\<forall>x \<in> set xs. scheduled_at x \<le> scheduled_at e) \<and>
    (\<forall>y \<in> set ys. scheduled_at e < scheduled_at y)"
proof (cases "first_event s")
  case Nil
  then show ?thesis by (simp add: InsertEvent_def)
next
  case (Cons x xs)
  have srt: "sorted (List.map scheduled_at (x # xs))"
    using assms by (simp only: sched_inv_def Cons)
  show ?thesis
  proof (cases "scheduled_at e < scheduled_at x")
    case True
    with srt Cons show ?thesis
      by (intro exI [of _ "[]"] exI [of _ "x # xs"]) (fastforce simp: InsertEvent_def)
  next
    case False
    then have "first_event (snd (InsertEvent e s)) = insert_after e (first_event s)"
      using Cons by (simp add: InsertEvent_def)
    with insert_after_split [of "first_event s" e] srt Cons show ?thesis by simp
  qed
qed

lemma InsertEvent_count:
  "sched_inv s \<Longrightarrow> number_of_events (snd (InsertEvent e s)) = number_of_events s + 1"
  by (cases "first_event s") (simp_all add: InsertEvent_def sched_inv_def)

lemma InsertEvent_inv:
  assumes "sched_inv s" and "sched_room s"
  shows "sched_inv (snd (InsertEvent e s))"
proof -
  obtain xs ys where split: "first_event s = xs @ ys"
    "first_event (snd (InsertEvent e s)) = xs @ e # ys"
    "\<forall>x \<in> set xs. scheduled_at x \<le> scheduled_at e" "\<forall>y \<in> set ys. scheduled_at e < scheduled_at y"
    using InsertEvent_events [OF assms(1)] by blast
  then have "sorted (List.map scheduled_at (xs @ e # ys))"
    using assms(1) by (auto simp: sched_inv_def sorted_append less_imp_le)
  with split assms InsertEvent_count [OF assms(1), of e] show ?thesis
    by (simp add: sched_inv_def sched_room_def)
qed

lemma InsertEvent_shutting [simp]:
  "is_shutting_down (snd (InsertEvent e s)) = is_shutting_down s"
  by (simp add: InsertEvent_def split: list.splits)

lemma flush_loop_result: "flush_loop P b xs =
   (List.filter (\<lambda>x. \<not> P x) xs, List.filter P xs,
    b \<and> xs \<noteq> [] \<and> P (hd xs))"
  by (induction P b xs rule: flush_loop.induct) (auto split: prod.splits)

lemma Flush_result:
  assumes "sched_inv s"
  shows "snd (Flush ff uf s) =
     (List.filter (\<lambda>e. \<not> uf \<or> ff e) (first_event s),
      s\<lparr>first_event := List.filter (\<lambda>e. uf \<and> \<not> ff e) (first_event s),
        number_of_events := of_nat (length (List.filter (\<lambda>e. uf \<and> \<not> ff e) (first_event s)))\<rparr>)"
proof (cases "number_of_events s = 0")
  case True
  with sched_inv_empty [OF assms] have "first_event s = []" by simp
  with True show ?thesis by (simp add: Flush_def)
next
  case False
  have "length (first_event s) = length (List.filter (\<lambda>e. \<not> uf \<or> ff e) (first_event s)) +
     length (List.filter (\<lambda>e. uf \<and> \<not> ff e) (first_event s))"
    using sum_length_filter_compl [of "\<lambda>e. \<not> uf \<or> ff e" "first_event s"] by simp
  then have "number_of_events s = of_nat (length (List.filter (\<lambda>e. \<not> uf \<or> ff e) (first_event s))) +
     of_nat (length (List.filter (\<lambda>e. uf \<and> \<not> ff e) (first_event s)))"
    using assms by (simp only: sched_inv_def of_nat_add)
  with False show ?thesis by (simp add: Flush_def flush_loop_result)
qed

lemma Flush_inv: "sched_inv s \<Longrightarrow> sched_inv (snd (snd (Flush ff uf s)))"
  using le_less_trans [OF length_filter_le [of "\<lambda>e. uf \<and> \<not> ff e" "first_event s"]]
  by (simp add: Flush_result sched_inv_def sorted_filter)

lemma Flush_shutting [simp]:
  "is_shutting_down (snd (snd (Flush ff uf s))) = is_shutting_down s"
  by (simp add: Flush_def split: prod.splits)

interpretation scheduler: event_queue
  "\<lambda>e s. snd (InsertEvent e s)"
  "\<lambda>P s. prod.swap (snd (Flush P True s))"
  first_event sched_inv sched_room
proof unfold_locales
  show "sorted (List.map scheduled_at (first_event s))" if "sched_inv s" for s :: "'a scheduler"
    using that by (simp add: sched_inv_def)
  show "sched_inv (snd (InsertEvent e s))" if "sched_inv s" "sched_room s" for s :: "'a scheduler" and e
    using that by (rule InsertEvent_inv)
  show "\<exists>xs ys. first_event s = xs @ ys \<and> first_event (snd (InsertEvent e s)) = xs @ e # ys \<and>
      (\<forall>x \<in> set xs. scheduled_at x \<le> scheduled_at e) \<and> (\<forall>y \<in> set ys. scheduled_at e < scheduled_at y)"
    if "sched_inv s" for s :: "'a scheduler" and e
    using that by (rule InsertEvent_events)
  show "sched_inv (fst (prod.swap (snd (Flush P True s))))" if "sched_inv s" for s :: "'a scheduler" and P
    using that by (simp add: Flush_inv)
  show "first_event (fst (prod.swap (snd (Flush P True s)))) = List.filter (\<lambda>e. \<not> P e) (first_event s)"
    if "sched_inv s" for s :: "'a scheduler" and P
    using that by (simp add: Flush_result)
  show "snd (prod.swap (snd (Flush P True s))) = List.filter P (first_event s)"
    if "sched_inv s" for s :: "'a scheduler" and P
    using that by (simp add: Flush_result)
qed

section \<open>Insertion, flush and drain\<close>

text \<open>
  C23. The scheduler serves its events in order of date, and events of the same date in the
  order in which they were inserted: inserting keeps the list sorted and counted, adds exactly
  the new event, and puts it behind every event of the same date.
\<close>

theorem InsertEvent_ordered:
  assumes "sched_inv s" and "sched_room s"
  shows "sched_inv (snd (InsertEvent e s)) \<and>
    set (first_event (snd (InsertEvent e s))) = insert e (set (first_event s)) \<and>
    List.filter (\<lambda>x. scheduled_at x = d) (first_event (snd (InsertEvent e s))) =
      List.filter (\<lambda>x. scheduled_at x = d) (first_event s) @
        (if scheduled_at e = d then [e] else [])"
  using scheduler.insert_valid [OF assms] scheduler.insert_set [OF assms(1)]
    scheduler.insert_stable [OF assms(1)]
  by simp

definition demo_scheduler :: "string scheduler" where
  "demo_scheduler = \<lparr>number_of_events = 2,
     first_event = [\<lparr>scheduled_at = 5, payload = ''a''\<rparr>, \<lparr>scheduled_at = 9, payload = ''b''\<rparr>],
     is_shutting_down = False\<rparr>"

lemma demo_scheduler_inv: "sched_inv demo_scheduler \<and> sched_room demo_scheduler"
  by (simp add: demo_scheduler_def sched_inv_def sched_room_def)

theorem InsertEvent_ordered_witness:
  "List.map payload (List.filter (\<lambda>x. scheduled_at x = 5)
     (first_event (snd (InsertEvent \<lparr>scheduled_at = 5, payload = ''c''\<rparr> demo_scheduler)))) =
   [''a'', ''c'']"
  using InsertEvent_ordered [of demo_scheduler "\<lparr>scheduled_at = 5, payload = ''c''\<rparr>" 5]
    demo_scheduler_inv
  by (simp add: demo_scheduler_def)

text \<open>
  \<open>Flush\<close> removes exactly the events the subclass selects, in order, keeps the others
  in order and counted, and signals the serving thread exactly when the first event, on which
  its waiting time depends, has gone.
\<close>

theorem Flush_selects:
  assumes "sched_inv s"
  shows "case Flush ff True s of (eff, gone, s') \<Rightarrow>
    gone = List.filter ff (first_event s) \<and>
    first_event s' = List.filter (\<lambda>e. \<not> ff e) (first_event s) \<and> sched_inv s' \<and>
    (eff = Signal) = (first_event s \<noteq> [] \<and> ff (hd (first_event s)))"
proof -
  have "fst (Flush ff True s) = Signal \<longleftrightarrow> first_event s \<noteq> [] \<and> ff (hd (first_event s))"
    using sched_inv_empty [OF assms] by (auto simp: Flush_def flush_loop_result)
  with Flush_result [OF assms, of ff True] Flush_inv [OF assms, of ff True] show ?thesis
    by (cases "Flush ff True s") simp
qed

theorem Flush_selects_witness:
  "case Flush (\<lambda>e. payload e = ''a'') True demo_scheduler of (eff, gone, s') \<Rightarrow>
     eff = Signal \<and> List.map payload gone = [''a''] \<and> List.map payload (first_event s') = [''b'']"
  using Flush_selects [of demo_scheduler "\<lambda>e. payload e = ''a''"] demo_scheduler_inv
  by (auto simp: demo_scheduler_def split: prod.splits)

lemma takeWhile_due:
  "sorted (List.map scheduled_at xs) \<Longrightarrow>
   takeWhile (\<lambda>e. scheduled_at e \<le> t) xs = List.filter (\<lambda>e. scheduled_at e \<le> t) xs"
proof (induction xs)
  case (Cons x xs)
  have "List.filter (\<lambda>e. scheduled_at e \<le> t) xs = []" if "\<not> scheduled_at x \<le> t"
    using Cons.prems that by (fastforce simp: filter_empty_conv)
  with Cons show ?case by simp
qed simp

lemma dropWhile_due:
  "sorted (List.map scheduled_at xs) \<Longrightarrow>
   \<forall>e \<in> set (dropWhile (\<lambda>e. scheduled_at e \<le> t) xs). t < scheduled_at e"
proof (induction xs)
  case (Cons x xs)
  then show ?case by (cases "scheduled_at x \<le> t") fastforce+
qed simp

lemma shift_event_inv: "sched_inv s \<Longrightarrow> sched_inv (snd (shift_event t s))"
  by (cases "first_event s") (auto simp: shift_event_def sched_inv_def)

lemma drain_result:
  "sched_inv s \<Longrightarrow> length (first_event s) < fuel \<Longrightarrow>
   fst (drain fuel t s) = takeWhile (\<lambda>e. scheduled_at e \<le> t) (first_event s) \<and>
   first_event (snd (drain fuel t s)) = dropWhile (\<lambda>e. scheduled_at e \<le> t) (first_event s) \<and>
   sched_inv (snd (drain fuel t s))"
proof (induction fuel arbitrary: s)
  case 0
  then show ?case by simp
next
  case (Suc fuel)
  show ?case
  proof (cases "first_event s")
    case Nil
    with Suc.prems show ?thesis by (simp add: shift_event_def)
  next
    case (Cons x xs)
    show ?thesis
    proof (cases "scheduled_at x \<le> t")
      case True
      let ?s = "s\<lparr>first_event := xs, number_of_events := number_of_events s - 1\<rparr>"
      have shift: "shift_event t s = (Some x, ?s)" using True Cons by (simp add: shift_event_def)
      have inv: "sched_inv ?s" using shift_event_inv [OF Suc.prems(1), of t] shift by simp
      have "length (first_event ?s) < fuel" using Suc.prems(2) Cons by simp
      from Suc.IH [OF inv this] True Cons shift show ?thesis by simp
    next
      case False
      with Suc.prems(1) Cons show ?thesis by (simp add: shift_event_def)
    qed
  qed
qed

text \<open>
  One round of the serving thread, undisturbed, fires exactly the events that are due,
  each once and in order of date, and leaves exactly those that are not: fuel above the number
  of events is always enough, so the round ends.
\<close>

theorem drain_fires_due:
  assumes "sched_inv s" and "length (first_event s) < fuel"
  shows "fst (drain fuel now s) = List.filter (\<lambda>e. scheduled_at e \<le> now) (first_event s) \<and>
    first_event s = fst (drain fuel now s) @ first_event (snd (drain fuel now s)) \<and>
    (\<forall>e \<in> set (first_event (snd (drain fuel now s))). now < scheduled_at e) \<and>
    sched_inv (snd (drain fuel now s))"
proof -
  have srt: "sorted (List.map scheduled_at (first_event s))" using assms(1) by (simp add: sched_inv_def)
  from drain_result [OF assms, of now] takeWhile_due [OF srt, of now] dropWhile_due [OF srt, of now]
    takeWhile_dropWhile_id [of "\<lambda>e. scheduled_at e \<le> now" "first_event s"]
  show ?thesis by simp
qed

theorem drain_fires_due_witness:
  "List.map payload (fst (drain 3 7 demo_scheduler)) = [''a''] \<and>
   List.map payload (first_event (snd (drain 3 7 demo_scheduler))) = [''b'']"
  using drain_fires_due [of demo_scheduler 3 7] demo_scheduler_inv
  by (auto simp: demo_scheduler_def)

section \<open>The serving threads\<close>

text \<open>
  Where a thread of \<open>retry_thread\<close> stands: at the top of its loop; removing due events with
  the date it read (\<open>curr_time\<close>); about to take the mutex and look at what is left;
  asleep in \<open>pthread_cond_timedwait\<close> since the first event was due at the first date, until
  the second; woken and waiting for the mutex; returned.
\<close>

datatype thread_pc =
  Loop_Top | Shifting int | Checking int | Sleeping int int | Waking | Exited

text \<open>
  The scheduler with its threads. \<open>mutex_owner\<close> is the thread that holds the mutex between
  two steps (the operations take and release it within one step). \<open>alarms\<close> records each
  event given to \<open>event_removed(\<dots>, ALARM)\<close> with the time it happened.
\<close>

record 'e served =
  sched :: "'e scheduler"
  mutex_owner :: "nat option"
  threads :: "thread_pc list"
  clock :: int
  alarms :: "(int \<times> 'e event) list"

definition asleep :: "thread_pc \<Rightarrow> bool" where
  "asleep pc = (case pc of Sleeping d u \<Rightarrow> True | _ \<Rightarrow> False)"

text \<open>
  \<open>pthread_create\<close> adds a thread; \<open>pthread_cond_signal\<close> wakes one of the sleeping threads,
  if there is one.
\<close>

inductive signalled :: "effect \<Rightarrow> thread_pc list \<Rightarrow> thread_pc list \<Rightarrow> bool" where
  signalled_create: "signalled Create_Thread ts (ts @ [Loop_Top])"
| signalled_none: "signalled No_Effect ts ts"
| signalled_nobody: "\<forall>pc \<in> set ts. \<not> asleep pc \<Longrightarrow> signalled Signal ts ts"
| signalled_one: "i < length ts \<Longrightarrow> asleep (ts ! i) \<Longrightarrow> signalled Signal ts (ts[i := Waking])"

inductive_cases signalled_createE: "signalled Create_Thread ts ts'"
inductive_cases signalled_signalE: "signalled Signal ts ts'"
inductive_simps signalled_No_Effect: "signalled No_Effect ts ts'"

text \<open>
  The steps of the scheduler. \<open>allowed now d\<close> restricts the dates the clients may insert at
  time \<open>now\<close>.
\<close>

inductive served_step :: "(int \<Rightarrow> int \<Rightarrow> bool) \<Rightarrow> 'e served \<Rightarrow> 'e served \<Rightarrow> bool" for allowed where
  serve_insert: "mutex_owner s = None \<Longrightarrow> sched_room (sched s) \<Longrightarrow>
     allowed (clock s) (scheduled_at e) \<Longrightarrow> InsertEvent e (sched s) = (eff, s') \<Longrightarrow>
     signalled eff (threads s) ts \<Longrightarrow> served_step allowed s (s\<lparr>sched := s', threads := ts\<rparr>)"
| serve_flush: "mutex_owner s = None \<Longrightarrow> Flush ff uf (sched s) = (eff, gone, s') \<Longrightarrow>
     signalled eff (threads s) ts \<Longrightarrow> served_step allowed s (s\<lparr>sched := s', threads := ts\<rparr>)"
| serve_shutdown: "mutex_owner s = None \<Longrightarrow> sched_Shutdown (sched s) = (eff, s') \<Longrightarrow>
     signalled eff (threads s) ts \<Longrightarrow> served_step allowed s (s\<lparr>sched := s', threads := ts\<rparr>)"
| serve_tick: "0 \<le> d \<Longrightarrow> served_step allowed s (s\<lparr>clock := clock s + d\<rparr>)"
| serve_time: "i < length (threads s) \<Longrightarrow> threads s ! i = Loop_Top \<Longrightarrow>
     served_step allowed s (s\<lparr>threads := (threads s)[i := Shifting (clock s)]\<rparr>)"
| serve_alarm: "i < length (threads s) \<Longrightarrow> threads s ! i = Shifting now \<Longrightarrow> mutex_owner s = None \<Longrightarrow>
     shift_event now (sched s) = (Some e, s') \<Longrightarrow>
     served_step allowed s (s\<lparr>sched := s', alarms := alarms s @ [(clock s, e)]\<rparr>)"
| serve_no_more: "i < length (threads s) \<Longrightarrow> threads s ! i = Shifting now \<Longrightarrow> mutex_owner s = None \<Longrightarrow>
     shift_event now (sched s) = (None, s') \<Longrightarrow>
     served_step allowed s (s\<lparr>sched := s', threads := (threads s)[i := Checking now]\<rparr>)"
| serve_exit: "i < length (threads s) \<Longrightarrow> threads s ! i = Checking now \<Longrightarrow> mutex_owner s = None \<Longrightarrow>
     number_of_events (sched s) = 0 \<Longrightarrow>
     served_step allowed s (s\<lparr>threads := (threads s)[i := Exited]\<rparr>)"
| serve_due: "i < length (threads s) \<Longrightarrow> threads s ! i = Checking now \<Longrightarrow> mutex_owner s = None \<Longrightarrow>
     number_of_events (sched s) \<noteq> 0 \<Longrightarrow> get_sleep_time now (sched s) \<le> 0 \<Longrightarrow>
     served_step allowed s (s\<lparr>mutex_owner := Some i, threads := (threads s)[i := Loop_Top]\<rparr>)"
| serve_sleep: "i < length (threads s) \<Longrightarrow> threads s ! i = Checking now \<Longrightarrow> mutex_owner s = None \<Longrightarrow>
     number_of_events (sched s) \<noteq> 0 \<Longrightarrow> get_sleep_time now (sched s) > 0 \<Longrightarrow>
     \<not> is_shutting_down (sched s) \<Longrightarrow>
     served_step allowed s (s\<lparr>threads := (threads s)[i := Sleeping (scheduled_at (hd (first_event (sched s))))
       (clock s + get_sleep_time now (sched s))]\<rparr>)"
| serve_stop: "i < length (threads s) \<Longrightarrow> threads s ! i = Checking now \<Longrightarrow> mutex_owner s = None \<Longrightarrow>
     number_of_events (sched s) \<noteq> 0 \<Longrightarrow> get_sleep_time now (sched s) > 0 \<Longrightarrow>
     is_shutting_down (sched s) \<Longrightarrow>
     served_step allowed s (s\<lparr>mutex_owner := Some i, threads := (threads s)[i := Exited]\<rparr>)"
| serve_timeout: "i < length (threads s) \<Longrightarrow> threads s ! i = Sleeping d u \<Longrightarrow>
     served_step allowed s (s\<lparr>threads := (threads s)[i := Waking]\<rparr>)"
| serve_again: "i < length (threads s) \<Longrightarrow> threads s ! i = Waking \<Longrightarrow> mutex_owner s = None \<Longrightarrow>
     \<not> is_shutting_down (sched s) \<Longrightarrow>
     served_step allowed s (s\<lparr>threads := (threads s)[i := Loop_Top]\<rparr>)"
| serve_woken_stop: "i < length (threads s) \<Longrightarrow> threads s ! i = Waking \<Longrightarrow> mutex_owner s = None \<Longrightarrow>
     is_shutting_down (sched s) \<Longrightarrow>
     served_step allowed s (s\<lparr>mutex_owner := Some i, threads := (threads s)[i := Exited]\<rparr>)"

definition served_start :: "int \<Rightarrow> 'e served" where
  "served_start t = \<lparr>sched = Scheduler_new, mutex_owner = None, threads = [], clock = t, alarms = []\<rparr>"

inductive served_reachable :: "(int \<Rightarrow> int \<Rightarrow> bool) \<Rightarrow> 'e served \<Rightarrow> bool" for allowed where
  served_init: "served_reachable allowed (served_start t)"
| served_next: "served_reachable allowed s \<Longrightarrow> served_step allowed s s' \<Longrightarrow> served_reachable allowed s'"

text \<open>
  A thread that will get to the first event in time: it has not returned, and if it sleeps,
  the event it computed its waiting time from was not later than the present first one.
\<close>

definition attends :: "'e event list \<Rightarrow> thread_pc \<Rightarrow> bool" where
  "attends es pc = (case pc of Exited \<Rightarrow> False
     | Sleeping d u \<Rightarrow> es \<noteq> [] \<longrightarrow> d \<le> scheduled_at (hd es)
     | _ \<Rightarrow> True)"

definition not_ahead :: "int \<Rightarrow> thread_pc \<Rightarrow> bool" where
  "not_ahead t pc = (case pc of Shifting now \<Rightarrow> now \<le> t | Checking now \<Rightarrow> now \<le> t | _ \<Rightarrow> True)"

definition served_inv :: "'e served \<Rightarrow> bool" where
  "served_inv s \<longleftrightarrow> sched_inv (sched s) \<and>
     (\<forall>pc \<in> set (threads s). not_ahead (clock s) pc) \<and>
     (\<forall>(t, e) \<in> set (alarms s). scheduled_at e \<le> t) \<and>
     (first_event (sched s) \<noteq> [] \<and> \<not> is_shutting_down (sched s) \<longrightarrow>
        (\<exists>pc \<in> set (threads s). attends (first_event (sched s)) pc))"

lemma signalled_not_ahead:
  "signalled eff ts ts' \<Longrightarrow> \<forall>pc \<in> set ts. not_ahead t pc \<Longrightarrow> \<forall>pc \<in> set ts'. not_ahead t pc"
  by (induction rule: signalled.induct)
    (auto simp: not_ahead_def dest!: set_update_subset_insert [THEN subsetD])

lemma update_not_ahead:
  "\<forall>pc \<in> set ts. not_ahead t pc \<Longrightarrow> not_ahead t x \<Longrightarrow> \<forall>pc \<in> set (ts[i := x]). not_ahead t pc"
  by (auto dest!: set_update_subset_insert [THEN subsetD])

lemma update_attends:
  "i < length ts \<Longrightarrow> attends es x \<Longrightarrow> \<exists>pc \<in> set (ts[i := x]). attends es pc"
  by (blast intro: set_update_memI)

lemma attends_later:
  assumes "attends es pc" and "es' \<noteq> [] \<Longrightarrow> es \<noteq> [] \<and> scheduled_at (hd es) \<le> scheduled_at (hd es')"
  shows "attends es' pc"
  using assms by (auto simp: attends_def split: thread_pc.splits)

lemma attends_awake: "attends es pc \<Longrightarrow> \<not> asleep pc \<Longrightarrow> attends es' pc"
  by (auto simp: attends_def asleep_def split: thread_pc.splits)

lemma signalled_attends:
  assumes "signalled eff ts ts'" and "\<exists>pc \<in> set ts. attends es pc"
    and "eff \<noteq> Signal \<Longrightarrow> es' \<noteq> [] \<Longrightarrow> es \<noteq> [] \<and> scheduled_at (hd es) \<le> scheduled_at (hd es')"
  shows "\<exists>pc \<in> set ts'. attends es' pc"
  using assms
proof (cases rule: signalled.cases)
  case signalled_create
  then show ?thesis by (simp add: attends_def)
next
  case signalled_none
  with assms show ?thesis using attends_later [of es _ es'] by blast
next
  case signalled_nobody
  with assms(2) show ?thesis using attends_awake by blast
next
  case (signalled_one i)
  then show ?thesis using update_attends [of i ts es' Waking] by (simp add: attends_def)
qed

lemma hd_filter_later:
  assumes "sorted (List.map scheduled_at xs)" and "List.filter P xs \<noteq> []"
  shows "xs \<noteq> [] \<and> scheduled_at (hd xs) \<le> scheduled_at (hd (List.filter P xs))"
proof -
  from assms(2) have "hd (List.filter P xs) \<in> set xs"
    using hd_in_set [OF assms(2)] by simp
  with assms show ?thesis by (cases xs) auto
qed

lemma shift_event_hd:
  assumes "sched_inv s" and "shift_event t s = (r, s')" and "first_event s' \<noteq> []"
  shows "first_event s \<noteq> [] \<and> scheduled_at (hd (first_event s)) \<le> scheduled_at (hd (first_event s'))"
  using assms
  by (cases "first_event s"; cases "first_event s'")
    (auto simp: shift_event_def sched_inv_def split: if_splits)

lemma shift_event_some:
  "shift_event t s = (Some e, s') \<Longrightarrow> scheduled_at e \<le> t \<and> is_shutting_down s' = is_shutting_down s"
  by (auto simp: shift_event_def split: list.splits if_splits)

lemma shift_event_none: "shift_event t s = (None, s') \<Longrightarrow> s' = s"
  by (auto simp: shift_event_def split: list.splits if_splits)

lemma served_step_inv_insert:
  assumes "served_inv s" and "sched_room (sched s)"
    and "InsertEvent e (sched s) = (eff, s')" and "signalled eff (threads s) ts"
  shows "served_inv (s\<lparr>sched := s', threads := ts\<rparr>)"
proof -
  have inv: "sched_inv s'"
    using InsertEvent_inv [of "sched s" e] assms(1-3) by (simp add: served_inv_def)
  have shut: "is_shutting_down s' = is_shutting_down (sched s)"
    using InsertEvent_shutting [of e "sched s"] assms(3) by simp
  have "\<exists>pc \<in> set ts. attends (first_event s') pc" if "\<not> is_shutting_down s'"
  proof (cases "first_event (sched s)")
    case Nil
    with assms(3) have "eff = Create_Thread" by (simp add: InsertEvent_def)
    with assms(4) show ?thesis by (auto simp: attends_def elim: signalled_createE)
  next
    case (Cons x xs)
    with assms(1) that shut have "\<exists>pc \<in> set (threads s). attends (first_event (sched s)) pc"
      by (simp add: served_inv_def)
    moreover have "hd (first_event s') = x" if "eff \<noteq> Signal"
      using assms(3) Cons that by (auto simp: InsertEvent_def split: if_splits)
    ultimately show ?thesis
      using signalled_attends [OF assms(4), of "first_event (sched s)" "first_event s'"] Cons by simp
  qed
  with inv signalled_not_ahead [OF assms(4)] assms(1) show ?thesis by (simp add: served_inv_def)
qed

lemma served_step_inv_flush:
  assumes "served_inv s" and "Flush ff uf (sched s) = (eff, gone, s')"
    and "signalled eff (threads s) ts"
  shows "served_inv (s\<lparr>sched := s', threads := ts\<rparr>)"
proof -
  have old: "sched_inv (sched s)" using assms(1) by (simp add: served_inv_def)
  have inv: "sched_inv s'" using Flush_inv [OF old, of ff uf] assms(2) by simp
  have shut: "is_shutting_down s' = is_shutting_down (sched s)"
    using Flush_shutting [of ff uf "sched s"] assms(2) by simp
  have es: "first_event s' = List.filter (\<lambda>e. uf \<and> \<not> ff e) (first_event (sched s))"
    using Flush_result [OF old, of ff uf] assms(2) by simp
  have later: "first_event s' \<noteq> [] \<Longrightarrow> first_event (sched s) \<noteq> [] \<and>
     scheduled_at (hd (first_event (sched s))) \<le> scheduled_at (hd (first_event s'))"
    unfolding es by (rule hd_filter_later) (use old in \<open>simp_all add: sched_inv_def\<close>)
  have "\<exists>pc \<in> set ts. attends (first_event s') pc" if "first_event s' \<noteq> []" "\<not> is_shutting_down s'"
    using signalled_attends [OF assms(3), of "first_event (sched s)" "first_event s'"] later that shut
      assms(1)
    by (simp add: served_inv_def)
  with inv signalled_not_ahead [OF assms(3)] assms(1) show ?thesis by (simp add: served_inv_def)
qed

lemma served_step_inv_shutdown:
  assumes "served_inv s" and "sched_Shutdown (sched s) = (eff, s')" and "signalled eff (threads s) ts"
  shows "served_inv (s\<lparr>sched := s', threads := ts\<rparr>)"
  using assms signalled_not_ahead [OF assms(3)]
  by (auto simp: served_inv_def sched_Shutdown_def sched_inv_def)

text \<open>A step of one thread that changes neither the list nor the clock.\<close>

lemma served_step_inv_thread:
  assumes "served_inv s" and "i < length (threads s)" and "not_ahead (clock s) pc"
    and "attends (first_event (sched s)) pc \<or> first_event (sched s) = [] \<or> is_shutting_down (sched s)"
  shows "served_inv (s\<lparr>threads := (threads s)[i := pc]\<rparr>)"
    and "served_inv (s\<lparr>mutex_owner := m, threads := (threads s)[i := pc]\<rparr>)"
  using assms update_not_ahead [of "threads s" "clock s" pc i]
    update_attends [OF assms(2), of "first_event (sched s)" pc]
  by (auto simp: served_inv_def)

lemma served_step_inv_alarm:
  assumes "served_inv s" and "threads s ! i = Shifting now" and "i < length (threads s)"
    and "shift_event now (sched s) = (Some e, s')"
  shows "served_inv (s\<lparr>sched := s', alarms := alarms s @ [(clock s, e)]\<rparr>)"
proof -
  have old: "sched_inv (sched s)" using assms(1) by (simp add: served_inv_def)
  have inv: "sched_inv s'" using shift_event_inv [OF old, of now] assms(4) by simp
  have "not_ahead (clock s) (threads s ! i)" using assms(1,3) by (simp add: served_inv_def)
  then have "now \<le> clock s" using assms(2) by (simp add: not_ahead_def)
  then have due: "scheduled_at e \<le> clock s" and shut: "is_shutting_down s' = is_shutting_down (sched s)"
    using shift_event_some [OF assms(4)] by simp_all
  have "\<exists>pc \<in> set (threads s). attends (first_event s') pc"
    if "first_event s' \<noteq> []" "\<not> is_shutting_down s'"
    using signalled_attends [OF signalled_none [of "threads s"], of "first_event (sched s)" "first_event s'"]
      shift_event_hd [OF old assms(4)] that shut assms(1)
    by (simp add: served_inv_def)
  with inv due assms(1) show ?thesis by (auto simp: served_inv_def)
qed

lemma served_step_inv:
  assumes "served_step allowed s s'" and "served_inv s"
  shows "served_inv s'"
  using assms(1)
proof (cases rule: served_step.cases)
  case (serve_insert e eff sc ts)
  with assms(2) show ?thesis by (simp add: served_step_inv_insert)
next
  case (serve_flush ff uf eff gone sc ts)
  with assms(2) show ?thesis by (simp add: served_step_inv_flush)
next
  case (serve_shutdown eff sc ts)
  with assms(2) show ?thesis by (simp add: served_step_inv_shutdown)
next
  case (serve_tick d)
  have "not_ahead (clock s) pc \<Longrightarrow> not_ahead (clock s + d) pc" for pc
    using serve_tick by (auto simp: not_ahead_def split: thread_pc.splits)
  with serve_tick assms(2) show ?thesis by (auto simp: served_inv_def)
next
  case (serve_time i)
  with assms(2) show ?thesis by (simp add: served_step_inv_thread attends_def not_ahead_def)
next
  case (serve_alarm i now e sc)
  with assms(2) show ?thesis by (simp add: served_step_inv_alarm)
next
  case (serve_no_more i now sc)
  from serve_no_more(5) have "sc = sched s" by (rule shift_event_none)
  moreover have "not_ahead (clock s) (threads s ! i)"
    using assms(2) serve_no_more(2) by (simp add: served_inv_def)
  ultimately show ?thesis
    using serve_no_more assms(2)
    by (simp add: served_step_inv_thread attends_def not_ahead_def)
next
  case (serve_exit i now)
  with assms(2) have "first_event (sched s) = []" by (simp add: served_inv_def sched_inv_empty)
  with serve_exit assms(2) show ?thesis by (simp add: served_step_inv_thread not_ahead_def)
next
  case (serve_due i now)
  with assms(2) show ?thesis by (simp add: served_step_inv_thread attends_def not_ahead_def)
next
  case (serve_sleep i now)
  with assms(2) show ?thesis by (simp add: served_step_inv_thread attends_def not_ahead_def)
next
  case (serve_stop i now)
  with assms(2) show ?thesis by (simp add: served_step_inv_thread not_ahead_def)
next
  case (serve_timeout i d u)
  with assms(2) show ?thesis by (simp add: served_step_inv_thread attends_def not_ahead_def)
next
  case (serve_again i)
  with assms(2) show ?thesis by (simp add: served_step_inv_thread attends_def not_ahead_def)
next
  case (serve_woken_stop i)
  with assms(2) show ?thesis by (simp add: served_step_inv_thread not_ahead_def)
qed

lemma served_start_inv: "served_inv (served_start t)"
  by (simp add: served_inv_def served_start_def) (simp add: Scheduler_new_def)

lemma served_reachable_inv: "served_reachable allowed s \<Longrightarrow> served_inv s"
  by (induction rule: served_reachable.induct) (auto intro: served_start_inv served_step_inv)

text \<open>A scheduler that has been given one event, for the concrete instances.\<close>

definition one_event :: "string served" where
  "one_event = \<lparr>sched = \<lparr>number_of_events = 1,
       first_event = [\<lparr>scheduled_at = 10, payload = ''a''\<rparr>], is_shutting_down = False\<rparr>,
     mutex_owner = None, threads = [Loop_Top], clock = 0, alarms = []\<rparr>"

lemma one_event_reachable:
  assumes "allowed 0 10"
  shows "served_reachable allowed one_event"
proof -
  let ?s = "served_start 0 :: string served" and ?e = "\<lparr>scheduled_at = 10, payload = ''a''\<rparr>"
  have "served_step allowed ?s (?s\<lparr>sched := snd (InsertEvent ?e (sched ?s)), threads := [Loop_Top]\<rparr>)"
    by (rule serve_insert [where e = ?e and eff = Create_Thread])
      (use assms signalled_create [of "[]"] in
        \<open>simp_all add: served_start_def Scheduler_new_def InsertEvent_def sched_room_def\<close>)
  moreover have "?s\<lparr>sched := snd (InsertEvent ?e (sched ?s)), threads := [Loop_Top]\<rparr> = one_event"
    by (simp add: served_start_def Scheduler_new_def InsertEvent_def one_event_def)
  ultimately show ?thesis using served_next [OF served_init] by metis
qed




lemma one_event_fires:
  "served_reachable (\<lambda>_ _. True)
     (one_event\<lparr>sched := Scheduler_new, clock := 12, threads := [Shifting 12],
        alarms := [(12, \<lparr>scheduled_at = 10, payload = ''a''\<rparr>)]\<rparr>)"
proof -
  let ?t = "one_event\<lparr>clock := 0 + 12\<rparr>"
  have 1: "served_step (\<lambda>_ _. True) one_event ?t"
    using serve_tick [of 12 "\<lambda>_ _. True" one_event] by (simp add: one_event_def)
  let ?u = "?t\<lparr>threads := [Shifting 12]\<rparr>"
  have 2: "served_step (\<lambda>_ _. True) ?t ?u"
    using serve_time [of 0 ?t "\<lambda>_ _. True"] by (simp add: one_event_def)
  have 3: "served_step (\<lambda>_ _. True) ?u (?u\<lparr>sched := Scheduler_new,
      alarms := [(12, \<lparr>scheduled_at = 10, payload = ''a''\<rparr>)]\<rparr>)"
    using serve_alarm [of 0 ?u 12 "\<lparr>scheduled_at = 10, payload = ''a''\<rparr>" Scheduler_new "\<lambda>_ _. True"]
    by (simp add: one_event_def shift_event_def Scheduler_new_def)
  show ?thesis
    using served_next [OF served_next [OF served_next [OF one_event_reachable 1] 2] 3]
    by (simp add: one_event_def)
qed


section \<open>The mutex of the serving thread\<close>

text \<open>
  \<open>retry_thread\<close> does not release the mutex when it finds the first event already due. That
  happens when an event that is due at once is inserted between the two looks at the list.
\<close>

definition checks_ahead :: "'e served \<Rightarrow> bool" where
  "checks_ahead s \<longleftrightarrow> (\<forall>pc \<in> set (threads s). \<forall>now. pc = Checking now \<longrightarrow>
     (\<forall>e \<in> set (first_event (sched s)). now < scheduled_at e))"

definition mutex_free :: "'e served \<Rightarrow> bool" where
  "mutex_free s \<longleftrightarrow> (mutex_owner s \<noteq> None \<longrightarrow> is_shutting_down (sched s))"

lemma signalled_set: "signalled eff ts ts' \<Longrightarrow> set ts' \<subseteq> set ts \<union> {Loop_Top, Waking}"
  by (induction rule: signalled.induct) (auto dest: set_update_subset_insert [THEN subsetD])

lemma checks_ahead_signalled:
  assumes "checks_ahead s" and "signalled eff (threads s) ts"
    and "\<And>now. Checking now \<in> set (threads s) \<Longrightarrow> e \<in> set (first_event s') \<Longrightarrow>
      e \<notin> set (first_event (sched s)) \<Longrightarrow> now < scheduled_at e"
    and "set (first_event s') \<subseteq> insert e (set (first_event (sched s)))"
  shows "checks_ahead (s\<lparr>sched := s', threads := ts\<rparr>)"
  using assms(1,3,4) signalled_set [OF assms(2)] unfolding checks_ahead_def by fastforce

lemma checks_ahead_update:
  "checks_ahead s \<Longrightarrow> (\<And>now e. pc = Checking now \<Longrightarrow> e \<in> set (first_event (sched s)) \<Longrightarrow> now < scheduled_at e) \<Longrightarrow>
   checks_ahead (s\<lparr>threads := (threads s)[i := pc]\<rparr>) \<and>
   checks_ahead (s\<lparr>mutex_owner := m, threads := (threads s)[i := pc]\<rparr>)"
  using set_update_subset_insert [of "threads s" i pc] unfolding checks_ahead_def by fastforce

lemma shift_event_none_ahead:
  assumes "sched_inv s" and "shift_event now s = (None, s')" and "e \<in> set (first_event s)"
  shows "now < scheduled_at e"
  using assms by (cases "first_event s") (auto simp: shift_event_def sched_inv_def split: if_splits)

lemma shift_event_subset:
  "shift_event now s = (r, s') \<Longrightarrow> set (first_event s') \<subseteq> set (first_event s)"
  by (auto simp: shift_event_def split: list.splits if_splits)

lemma Flush_subset:
  "sched_inv s \<Longrightarrow> Flush ff uf s = (eff, gone, s') \<Longrightarrow> set (first_event s') \<subseteq> set (first_event s)"
  using Flush_result [of s ff uf] by auto

lemma checks_ahead_step:
  assumes "served_step (<) s s'" and "served_inv s" and "checks_ahead s"
  shows "checks_ahead s'"
  using assms(1)
proof (cases rule: served_step.cases)
  case (serve_insert e eff sc ts)
  have "sched_inv (sched s)" using assms(2) by (simp add: served_inv_def)
  then have "set (first_event sc) = insert e (set (first_event (sched s)))"
    using scheduler.insert_set [of "sched s" e] serve_insert(5) by simp
  moreover have "now < scheduled_at e" if "Checking now \<in> set (threads s)" for now
    using that assms(2) serve_insert(4) by (fastforce simp: served_inv_def not_ahead_def)
  ultimately show ?thesis
    using serve_insert checks_ahead_signalled [OF assms(3) serve_insert(6), of e sc] by simp
next
  case (serve_flush ff uf eff gone sc ts)
  have "set (first_event sc) \<subseteq> set (first_event (sched s))"
    using Flush_subset [OF _ serve_flush(3)] assms(2) by (simp add: served_inv_def)
  then show ?thesis
    using serve_flush checks_ahead_signalled [OF assms(3) serve_flush(4), of undefined sc] by auto
next
  case (serve_shutdown eff sc ts)
  then have "first_event sc = first_event (sched s)" by (auto simp: sched_Shutdown_def)
  then show ?thesis
    using serve_shutdown checks_ahead_signalled [OF assms(3) serve_shutdown(4), of undefined sc] by auto
next
  case (serve_tick d)
  with assms(3) show ?thesis by (simp add: checks_ahead_def)
next
  case (serve_alarm i now e sc)
  with assms(3) shift_event_subset [OF serve_alarm(5)] show ?thesis
    by (auto simp: checks_ahead_def)
next
  case (serve_no_more i now sc)
  have "sched_inv (sched s)" using assms(2) by (simp add: served_inv_def)
  then have "\<forall>e \<in> set (first_event (sched s)). now < scheduled_at e"
    using shift_event_none_ahead [OF _ serve_no_more(5)] by blast
  then have "checks_ahead (s\<lparr>threads := (threads s)[i := Checking now]\<rparr>)"
    by (intro checks_ahead_update [OF assms(3), THEN conjunct1]) simp
  then show ?thesis
    unfolding serve_no_more(1) shift_event_none [OF serve_no_more(5)] by simp
qed (use assms(3) checks_ahead_update [OF assms(3)] in auto)

lemma mutex_free_step:
  assumes "served_step (<) s s'" and "served_inv s" and "checks_ahead s" and "mutex_free s"
  shows "mutex_free s'"
  using assms(1)
proof (cases rule: served_step.cases)
  case (serve_due i now)
  have "first_event (sched s) \<noteq> []"
    using serve_due(5) assms(2) by (simp add: served_inv_def sched_inv_empty)
  moreover have "Checking now \<in> set (threads s)" using serve_due(2,3) by (metis nth_mem)
  ultimately have "now < scheduled_at (hd (first_event (sched s)))"
    using assms(3) by (simp add: checks_ahead_def)
  with serve_due(6) show ?thesis by (simp add: get_sleep_time_def)
next
  case (serve_alarm i now e sc)
  with assms(4) shift_event_some [OF serve_alarm(5)] show ?thesis by (simp add: mutex_free_def)
next
  case (serve_no_more i now sc)
  with assms(4) shift_event_none [OF serve_no_more(5)] show ?thesis by (simp add: mutex_free_def)
qed (use assms(4) in \<open>simp_all add: mutex_free_def\<close>)

lemma future_only_inv:
  "served_reachable (<) s \<Longrightarrow> served_inv s \<and> checks_ahead s \<and> mutex_free s"
proof (induction rule: served_reachable.induct)
  case (served_init t)
  then show ?case
    using served_start_inv [of t] by (simp add: checks_ahead_def mutex_free_def served_start_def)
next
  case (served_next s s')
  then show ?case
    using served_step_inv checks_ahead_step mutex_free_step by blast
qed

text \<open>
  If every event is inserted with a date strictly in the future, the scheduler never
  loses its mutex before shutdown: between two operations nobody holds it.
\<close>

theorem future_events_keep_mutex:
  assumes "served_reachable (<) s" and "\<not> is_shutting_down (sched s)"
  shows "mutex_owner s = None"
  using future_only_inv [OF assms(1)] assms(2) by (auto simp: mutex_free_def)

theorem future_events_keep_mutex_witness: "mutex_owner one_event = None"
  using future_events_keep_mutex [OF one_event_reachable [of "(<)"]] by (simp add: one_event_def)

text \<open>
  A thread that has the mutex and stands at the top of its loop or before the next removal
  waits for itself: no operation on the list can happen any more.
\<close>

definition stuck :: "'e served \<Rightarrow> bool" where
  "stuck s \<longleftrightarrow> mutex_owner s \<noteq> None"

lemma stuck_step:
  assumes "served_step allowed s s'" and "stuck s"
  shows "stuck s' \<and> sched s' = sched s \<and> alarms s' = alarms s"
  using assms by (cases rule: served_step.cases) (auto simp: stuck_def)

lemma stuck_forever:
  assumes "(served_step allowed)\<^sup>*\<^sup>* s s'" and "stuck s"
  shows "stuck s' \<and> sched s' = sched s \<and> alarms s' = alarms s"
  using assms
proof (induction rule: rtranclp_induct)
  case base
  then show ?case by simp
next
  case (step y z)
  then show ?case using stuck_step [of allowed y z] by simp
qed

lemma image_const_on:
  assumes "x \<in> A" and "\<And>y. y \<in> A \<Longrightarrow> f y = f x"
  shows "f ` A = {f x}"
proof -
  have "f y \<in> {f x}" if "y \<in> A" for y using assms(2) [OF that] by simp
  with assms(1) show ?thesis by blast
qed

definition due_event :: "string event" where
  "due_event = \<lparr>scheduled_at = 0, payload = ''b''\<rparr>"

definition locked_state :: "string served" where
  "locked_state = \<lparr>sched = \<lparr>number_of_events = 2,
       first_event = [due_event, \<lparr>scheduled_at = 10, payload = ''a''\<rparr>], is_shutting_down = False\<rparr>,
     mutex_owner = Some 0, threads = [Loop_Top], clock = 0, alarms = []\<rparr>"

lemma locked_state_reachable: "served_reachable (\<le>) locked_state"
proof -
  let ?a = "one_event\<lparr>threads := [Shifting 0]\<rparr>"
  have 1: "served_step (\<le>) one_event ?a"
    using serve_time [of 0 one_event "(\<le>)"] by (simp add: one_event_def)
  let ?b = "one_event\<lparr>threads := [Checking 0]\<rparr>"
  have 2: "served_step (\<le>) ?a ?b"
    using serve_no_more [of 0 ?a 0 "sched ?a" "(\<le>)"] by (simp add: one_event_def shift_event_def)
  let ?c = "?b\<lparr>sched := snd (InsertEvent due_event (sched ?b)), threads := [Checking 0]\<rparr>"
  have 3: "served_step (\<le>) ?b ?c"
    by (rule serve_insert [where e = due_event and eff = Signal])
      (use signalled_nobody [of "[Checking 0]"] in
        \<open>simp_all add: one_event_def InsertEvent_def due_event_def sched_room_def asleep_def\<close>)
  have 4: "served_step (\<le>) ?c locked_state"
    using serve_due [of 0 ?c 0 "(\<le>)"]
    by (simp add: one_event_def InsertEvent_def due_event_def get_sleep_time_def locked_state_def)
  show ?thesis
    using served_next [OF served_next [OF served_next [OF served_next [OF one_event_reachable 1] 2] 3] 4]
    by simp
qed

text \<open>
  With an event that is due when it is inserted (a negative retry delay, or an insertion
  that waited for the mutex past its date), the scheduler can stop for ever: a state is
  reachable in which events are waiting, shutdown was not asked for, and from which no step
  ever changes the event list or fires an event, since the serving thread holds the mutex it
  is about to lock again.
\<close>

theorem due_event_stops_scheduler:
  "\<exists>s :: string served. served_reachable (\<le>) s \<and> length (first_event (sched s)) = 2 \<and>
     \<not> is_shutting_down (sched s) \<and> mutex_owner s = Some 0 \<and> threads s = [Loop_Top] \<and>
     (\<lambda>s'. (sched s', alarms s')) ` {s'. (served_step (\<le>))\<^sup>*\<^sup>* s s'} = {(sched s, alarms s)}"
proof (intro exI [of _ locked_state] conjI)
  show "served_reachable (\<le>) locked_state" by (rule locked_state_reachable)
  have stk: "stuck locked_state" by (simp add: stuck_def locked_state_def)
  have "(sched y, alarms y) = (sched locked_state, alarms locked_state)"
    if "y \<in> {s'. (served_step (\<le>))\<^sup>*\<^sup>* locked_state s'}" for y
    using stuck_forever [OF that [unfolded mem_Collect_eq] stk] by blast
  moreover have "locked_state \<in> {s'. (served_step (\<le>))\<^sup>*\<^sup>* locked_state s'}"
    unfolding mem_Collect_eq by (rule rtranclp.rtrancl_refl)
  ultimately show "(\<lambda>s'. (sched s', alarms s')) ` {s'. (served_step (\<le>))\<^sup>*\<^sup>* locked_state s'} =
      {(sched locked_state, alarms locked_state)}"
    by (rule image_const_on [rotated])
qed (simp_all add: locked_state_def)

end
