(* ===== verification/Retrier.thy ===== *)
theory Retrier
  imports Event_Scheduler Task_Queue
begin

text \<open>
  The retrier (\<open>Retrier.cpp\<close>): the scheduler whose events are tasks to restart. The events
  are served by the scheduler's threads; what a restart does to the workflow instance is the
  argument \<open>restart\<close> of \<open>retrier_event_removed\<close>, given by the instance's model.
\<close>

record timed_task =
  tt_instance :: wi_ref
  tt_task :: node_ref

record retrier =
  r_sched :: "timed_task scheduler"
  filter_workflow_instance_id :: u32

definition Retrier_new :: retrier where
  "Retrier_new = \<lparr>r_sched = Scheduler_new, filter_workflow_instance_id = 0\<rparr>"

definition InsertTask :: "wi_ref \<Rightarrow> node_ref \<Rightarrow> int \<Rightarrow> retrier \<Rightarrow> effect \<times> retrier" where
  "InsertTask wi t retry_at r =
     (let new_task = \<lparr>scheduled_at = retry_at, payload = \<lparr>tt_instance = wi, tt_task = t\<rparr>\<rparr>;
          (eff, s) = InsertEvent new_task (r_sched r)
      in (eff, r\<lparr>r_sched := s\<rparr>))"

text \<open>The filter compares the instance's identifier (\<open>GetInstanceID\<close>) with the one asked for.\<close>

definition retrier_flush_filter :: "(wi_ref \<Rightarrow> u32) \<Rightarrow> retrier \<Rightarrow> timed_task event \<Rightarrow> bool" where
  "retrier_flush_filter get_id r e \<longleftrightarrow>
     get_id (tt_instance (payload e)) = filter_workflow_instance_id r"

definition FlushWorkflowInstance ::
  "(wi_ref \<Rightarrow> u32) \<Rightarrow> u32 \<Rightarrow> retrier \<Rightarrow> effect \<times> timed_task event list \<times> retrier" where
  "FlushWorkflowInstance get_id workflow_instance_id r =
     (let r = r\<lparr>filter_workflow_instance_id := workflow_instance_id\<rparr>;
          (eff, gone, s) = Flush (retrier_flush_filter get_id r) True (r_sched r)
      in (eff, gone, r\<lparr>r_sched := s\<rparr>))"

text \<open>
  \<open>event_removed\<close>: restart the task, delete its instance when that terminated it. It does
  the same for an alarm and for a flush.
\<close>

definition retrier_event_removed ::
  "(wi_ref \<Rightarrow> node_ref \<Rightarrow> 's \<Rightarrow> bool \<times> 's) \<Rightarrow> (wi_ref \<Rightarrow> 's \<Rightarrow> 's) \<Rightarrow> timed_task event \<Rightarrow> 's \<Rightarrow> 's" where
  "retrier_event_removed restart delete e \<sigma> =
     (let (workflow_terminated, \<sigma>) = restart (tt_instance (payload e)) (tt_task (payload e)) \<sigma>
      in if workflow_terminated then delete (tt_instance (payload e)) \<sigma> else \<sigma>)"

definition retrier_inv :: "retrier \<Rightarrow> bool" where
  "retrier_inv r \<longleftrightarrow> sched_inv (r_sched r)"

text \<open>The retries an instance waits for.\<close>

definition retries_of :: "(wi_ref \<Rightarrow> u32) \<Rightarrow> u32 \<Rightarrow> retrier \<Rightarrow> timed_task event list" where
  "retries_of get_id i r =
     List.filter (\<lambda>e. get_id (tt_instance (payload e)) = i) (first_event (r_sched r))"

lemma Retrier_new_inv [simp]: "retrier_inv Retrier_new"
  by (simp add: retrier_inv_def Retrier_new_def)

lemma InsertTask_parts:
  "InsertTask wi t at r =
     (let e = \<lparr>scheduled_at = at, payload = \<lparr>tt_instance = wi, tt_task = t\<rparr>\<rparr>
      in (fst (InsertEvent e (r_sched r)), r\<lparr>r_sched := snd (InsertEvent e (r_sched r))\<rparr>))"
  by (simp add: InsertTask_def Let_def split: prod.splits)

lemma InsertTask_inv:
  "retrier_inv r \<Longrightarrow> sched_room (r_sched r) \<Longrightarrow> retrier_inv (snd (InsertTask wi t at r))"
  by (simp add: retrier_inv_def InsertTask_parts Let_def InsertEvent_inv)

lemma InsertTask_other:
  assumes "retrier_inv r" and "get_id wi \<noteq> i"
  shows "retries_of get_id i (snd (InsertTask wi t at r)) = retries_of get_id i r"
proof -
  have "sched_inv (r_sched r)" using assms(1) by (simp add: retrier_inv_def)
  from scheduler.insert_filter_other [OF this, of "\<lambda>e. get_id (tt_instance (payload e)) = i"]
  show ?thesis using assms(2)
    by (simp add: retries_of_def InsertTask_parts Let_def)
qed

lemma InsertTask_own:
  assumes "retrier_inv r" and "get_id wi = i"
  shows "set (retries_of get_id i (snd (InsertTask wi t at r))) =
    insert \<lparr>scheduled_at = at, payload = \<lparr>tt_instance = wi, tt_task = t\<rparr>\<rparr> (set (retries_of get_id i r))"
proof -
  have "sched_inv (r_sched r)" using assms(1) by (simp add: retrier_inv_def)
  from scheduler.insert_set [OF this] show ?thesis using assms(2)
    by (auto simp: retries_of_def InsertTask_parts Let_def)
qed

lemma FlushWorkflowInstance_parts:
  "FlushWorkflowInstance get_id i r =
     (fst (Flush (\<lambda>e. get_id (tt_instance (payload e)) = i) True (r_sched r)),
      fst (snd (Flush (\<lambda>e. get_id (tt_instance (payload e)) = i) True (r_sched r))),
      r\<lparr>filter_workflow_instance_id := i,
        r_sched := snd (snd (Flush (\<lambda>e. get_id (tt_instance (payload e)) = i) True (r_sched r)))\<rparr>)"
  by (simp add: FlushWorkflowInstance_def retrier_flush_filter_def [abs_def] Let_def split: prod.splits)

text \<open>
  Flushing an instance removes from the retrier exactly the retries of that instance,
  in order of date, so that every one of them is restarted at once; the retries of every
  other instance stay as they were, and a second flush finds nothing.
\<close>

theorem FlushWorkflowInstance_exact:
  assumes "retrier_inv r"
  shows "case FlushWorkflowInstance get_id i r of (eff, gone, r') \<Rightarrow>
    gone = retries_of get_id i r \<and> retrier_inv r' \<and> retries_of get_id i r' = [] \<and>
    retries_of get_id j r' = (if j = i then [] else retries_of get_id j r) \<and>
    fst (snd (FlushWorkflowInstance get_id i r')) = []"
proof -
  let ?P = "\<lambda>e. get_id (tt_instance (payload e)) = i"
  have inv: "sched_inv (r_sched r)" using assms by (simp add: retrier_inv_def)
  show ?thesis
    using scheduler.flush_valid [OF inv, of ?P] scheduler.flush_pending [OF inv, of ?P]
      scheduler.flush_removed [OF inv, of ?P] scheduler.flush_twice [OF inv, of ?P]
    by (simp add: FlushWorkflowInstance_parts retrier_inv_def retries_of_def filter_empty_conv)
      (auto intro: filter_cong)
qed

theorem FlushWorkflowInstance_exact_witness:
  "case FlushWorkflowInstance of_nat 7 (snd (InsertTask 8 2 50 (snd (InsertTask 7 1 60 Retrier_new)))) of
     (eff, gone, r') \<Rightarrow> List.map scheduled_at gone = [60] \<and>
       List.map scheduled_at (retries_of of_nat 8 r') = [50]"
  using FlushWorkflowInstance_exact
    [of "snd (InsertTask 8 2 50 (snd (InsertTask 7 1 60 Retrier_new)))" of_nat 7 8]
  by (auto simp: retrier_inv_def InsertTask_parts Retrier_new_def InsertEvent_def Scheduler_new_def
      sched_inv_def retries_of_def Let_def)

end
