(* ===== verification/Cron_Schedule.thy ===== *)
theory Cron_Schedule
  imports Prelude
begin

text \<open>
  The crontab-like schedules of \<open>Schedule.cpp\<close>: the parser of a schedule description, and
  the search for the next date it allows. The C library's \<open>localtime_r\<close> and \<open>mktime\<close>,
  which depend on the machine's time zone, are arguments; \<open>utc_localtime\<close> and \<open>utc_mktime\<close> are
  their values for the zone UTC and the Gregorian calendar.
\<close>

section \<open>Levels\<close>

abbreviation "SCHEDULE_LEVEL_SEC \<equiv> 0 :: nat"
abbreviation "SCHEDULE_LEVEL_MIN \<equiv> 1 :: nat"
abbreviation "SCHEDULE_LEVEL_HOUR \<equiv> 2 :: nat"
abbreviation "SCHEDULE_LEVEL_DAY \<equiv> 3 :: nat"
abbreviation "SCHEDULE_LEVEL_MONTH \<equiv> 4 :: nat"
abbreviation "SCHEDULE_LEVEL_WDAY \<equiv> 5 :: nat"
abbreviation "SCHEDULE_LENGTH \<equiv> 194 :: nat"

definition GetScheduleLength :: "nat \<Rightarrow> int" where
  "GetScheduleLength level =
     (if level = SCHEDULE_LEVEL_SEC then 60
      else if level = SCHEDULE_LEVEL_MIN then 60
      else if level = SCHEDULE_LEVEL_HOUR then 24
      else if level = SCHEDULE_LEVEL_DAY then 31
      else if level = SCHEDULE_LEVEL_MONTH then 12
      else if level = SCHEDULE_LEVEL_WDAY then 7
      else -1)"

definition GetScheduleOffset :: "nat \<Rightarrow> int" where
  "GetScheduleOffset level =
     (if level = SCHEDULE_LEVEL_SEC then 0
      else if level = SCHEDULE_LEVEL_MIN then 60
      else if level = SCHEDULE_LEVEL_HOUR then 120
      else if level = SCHEDULE_LEVEL_DAY then 144
      else if level = SCHEDULE_LEVEL_MONTH then 175
      else if level = SCHEDULE_LEVEL_WDAY then 187
      else -1)"

abbreviation level_length :: "nat \<Rightarrow> nat" where
  "level_length level \<equiv> nat (GetScheduleLength level)"

abbreviation level_offset :: "nat \<Rightarrow> nat" where
  "level_offset level \<equiv> nat (GetScheduleOffset level)"

text \<open>The array \<open>schedule\<close>, one flag for each value of each level, one level after the other.\<close>

type_synonym schedule = "bool list"

section \<open>The parser\<close>

text \<open>
  The inner loop of the constructor: the entries of one level, up to a semicolon or the end.
  Result: the rest of the description, the array, \<open>empty_level\<close> and \<open>min_day\<close>.
\<close>

function parse_level ::
  "nat \<Rightarrow> nat \<Rightarrow> nat \<Rightarrow> string \<Rightarrow> schedule \<Rightarrow> bool \<Rightarrow> int \<Rightarrow> exn + string \<times> schedule \<times> bool \<times> int" where
  "parse_level level offset len s sch empty_level min_day =
     (if s = [] \<or> hd s = CHR '';'' then Inr (s, sch, empty_level, min_day)
      else let (v, consumed) = strtol s in
        if consumed = 0 then Inl (Exception ''Schedule'' ''Non numeric data in schedule offset'')
        else if v < 0 \<or> v \<ge> int len then Inl (Exception ''Schedule'' ''Out of range schedule offset'')
        else let rest = drop consumed s in
          parse_level level offset len
            (if rest \<noteq> [] \<and> hd rest = CHR '','' then tl rest else rest)
            (sch[offset + nat v := True]) False
            (if level = SCHEDULE_LEVEL_DAY \<and> v < min_day then v else min_day))"
  by pat_completeness auto
termination
  by (relation "measure (\<lambda>(level, offset, len, s, sch, e, m). length s)") auto

declare parse_level.simps [simp del]

text \<open>The outer loop: \<open>n\<close> levels remain; \<open>offset\<close> and \<open>len\<close> are those of the level before.\<close>

fun parse_levels ::
  "nat \<Rightarrow> nat \<Rightarrow> nat \<Rightarrow> nat \<Rightarrow> string \<Rightarrow> schedule \<Rightarrow> int \<Rightarrow> exn + string \<times> schedule \<times> int" where
  "parse_levels 0 level offset len s sch min_day = Inr (s, sch, min_day)"
| "parse_levels (Suc n) level offset len s sch min_day =
     (let offset = offset + len; len = level_length level in
      case parse_level level offset len s sch True min_day of
        Inl e \<Rightarrow> Inl e
      | Inr (s, sch, empty_level, min_day) \<Rightarrow>
          let sch = (if empty_level
                     then fold (\<lambda>i sch. sch[i := True]) [offset..<offset + len] sch else sch);
              s = (if s \<noteq> [] \<and> hd s = CHR '';'' then tl s else s)
          in parse_levels n (level + 1) offset len s sch min_day)"

definition impossible_months :: "schedule \<Rightarrow> nat list \<Rightarrow> bool" where
  "impossible_months sch ms \<longleftrightarrow> list_all (\<lambda>m. \<not> sch ! m) ms"

definition Schedule :: "string \<Rightarrow> exn + schedule" where
  "Schedule description =
     (case parse_levels (SCHEDULE_LEVEL_WDAY + 1) 0 0 0 description (replicate SCHEDULE_LENGTH False) 32 of
        Inl e \<Rightarrow> Inl e
      | Inr (s, sch, min_day) \<Rightarrow>
          if s \<noteq> [] then Inl (Exception ''Schedule'' ''Garbage at end of schedule'')
          else if min_day = 29 \<and>
             impossible_months sch [175, 177, 178, 179, 180, 181, 182, 183, 184, 185, 186]
          then Inl (Exception ''Schedule'' ''Schedule constraints are impossible to satisfy'')
          else if min_day = 30 \<and> impossible_months sch [175, 177, 179, 181, 182, 184, 186]
          then Inl (Exception ''Schedule'' ''Schedule constraints are impossible to satisfy'')
          else Inr sch)"

text \<open>A well-formed schedule: the array is complete and every level allows some value.\<close>

definition allowed :: "schedule \<Rightarrow> nat \<Rightarrow> nat \<Rightarrow> bool" where
  "allowed sch level v \<longleftrightarrow> v < level_length level \<and> sch ! (level_offset level + v)"

definition schedule_wf :: "schedule \<Rightarrow> bool" where
  "schedule_wf sch \<longleftrightarrow> length sch = SCHEDULE_LENGTH \<and>
     (\<forall>level < 6. \<exists>v. allowed sch level v)"

section \<open>Dates\<close>

record tm =
  tm_sec :: int
  tm_min :: int
  tm_hour :: int
  tm_mday :: int
  tm_mon :: int
  tm_year :: int
  tm_wday :: int
  tm_isdst :: int

text \<open>
  The search at one level. \<open>now_v\<close> is \<open>time_level_now[level]\<close>, \<open>valid\<close> tells whether the
  present values of all higher levels are allowed, \<open>current\<close> is the remainder of the level below.
  Result: \<open>time_level_first[level]\<close> and the next remainder; \<open>None\<close> when no value is allowed
  (then the code reads an uninitialised variable).
\<close>

definition find_level :: "schedule \<Rightarrow> nat \<Rightarrow> nat \<Rightarrow> bool \<Rightarrow> nat \<Rightarrow> (nat \<times> nat) option" where
  "find_level sch level now_v valid current =
     (let offset = level_offset level; len = level_length level;
          candidate = (\<lambda>i. if valid then (now_v + i + current) mod len else i)
      in case List.find (\<lambda>i. sch ! (offset + candidate i)) [0..<len] of
           None \<Rightarrow> None
         | Some i \<Rightarrow> Some (candidate i,
             if valid \<and> candidate i < now_v + current then 1 else 0))"

definition next_levels_valid :: "schedule \<Rightarrow> nat list \<Rightarrow> nat \<Rightarrow> bool" where
  "next_levels_valid sch time_now level \<longleftrightarrow>
     list_all (\<lambda>k. sch ! (level_offset k + time_now ! k)) [level + 1..<SCHEDULE_LEVEL_MONTH + 1]"

text \<open>The loop over the levels: from level \<open>level\<close> on, \<open>n\<close> of them.\<close>

fun find_first :: "schedule \<Rightarrow> nat list \<Rightarrow> nat list \<Rightarrow> nat \<Rightarrow> (nat list \<times> nat) option" where
  "find_first sch time_now [] current = Some ([], current)"
| "find_first sch time_now (level # levels) current =
     (case find_level sch level (time_now ! level) (next_levels_valid sch time_now level) current of
        None \<Rightarrow> None
      | Some (j, next) \<Rightarrow>
          (case find_first sch time_now levels next of
             None \<Rightarrow> None
           | Some (js, carry) \<Rightarrow> Some (j # js, carry)))"

definition level_now :: "tm \<Rightarrow> nat list" where
  "level_now t = [nat (tm_sec t), nat (tm_min t), nat (tm_hour t), nat (tm_mday t - 1), nat (tm_mon t)]"

definition first_candidate :: "nat list \<Rightarrow> int \<Rightarrow> tm" where
  "first_candidate js year = \<lparr>tm_sec = int (js ! 0), tm_min = int (js ! 1), tm_hour = int (js ! 2),
     tm_mday = int (js ! 3) + 1, tm_mon = int (js ! 4), tm_year = year, tm_wday = 0, tm_isdst = -1\<rparr>"

text \<open>\<open>mktime\<close> returns the time and the normalised date. \<open>None\<close>: the recursion does not end.\<close>

partial_function (option) get_next_time ::
  "(int \<Rightarrow> tm) \<Rightarrow> (tm \<Rightarrow> int \<times> tm) \<Rightarrow> schedule \<Rightarrow> int \<Rightarrow> int option" where
  "get_next_time localtime mktime sch now =
     (case find_first sch (level_now (localtime now)) [0, 1, 2, 3, 4] 0 of
        None \<Rightarrow> None
      | Some (js, carry) \<Rightarrow>
          (let (first, first_t) = mktime (first_candidate js (tm_year (localtime now) + int carry)) in
           if tm_mday first_t \<noteq> int (js ! 3) + 1 \<or> tm_mon first_t \<noteq> int (js ! 4)
           then get_next_time localtime mktime sch first
           else if \<not> sch ! (level_offset SCHEDULE_LEVEL_WDAY + nat (tm_wday first_t))
           then get_next_time localtime mktime sch
             (fst (mktime (first_t\<lparr>tm_min := 0, tm_hour := 0, tm_mday := tm_mday first_t + 1,
                                   tm_isdst := -1\<rparr>)))
           else Some first))"

definition GetNextTime ::
  "(int \<Rightarrow> tm) \<Rightarrow> (tm \<Rightarrow> int \<times> tm) \<Rightarrow> schedule \<Rightarrow> int \<Rightarrow> int option" where
  "GetNextTime localtime mktime sch now =
     map_option (\<lambda>next_time. if next_time \<le> now then now + 86400 * 365 else next_time)
       (get_next_time localtime mktime sch (now + 1))"

section \<open>Accepted schedules are well formed\<close>

lemma level_offset_simps [simp]:
  "level_offset 0 = 0" "level_offset (Suc 0) = 60" "level_offset 2 = 120" "level_offset 3 = 144"
  "level_offset 4 = 175" "level_offset 5 = 187"
  by (simp_all add: GetScheduleOffset_def)

lemma level_length_simps [simp]:
  "level_length 0 = 60" "level_length (Suc 0) = 60" "level_length 2 = 24" "level_length 3 = 31"
  "level_length 4 = 12" "level_length 5 = 7"
  by (simp_all add: GetScheduleLength_def)

lemma less_six: "(l::nat) < 6 \<longleftrightarrow> l \<in> {0, Suc 0, 2, 3, 4, 5}"
  by auto

lemma level_next: "l < 5 \<Longrightarrow> level_offset l + level_length l = level_offset (l + 1)"
  and level_bound: "l < 6 \<Longrightarrow> level_offset l + level_length l \<le> 194"
  by (auto simp: GetScheduleOffset_def GetScheduleLength_def)

lemma level_length_pos: "l < 6 \<Longrightarrow> 0 < level_length l"
  by (auto simp: GetScheduleLength_def)

definition sets_more :: "schedule \<Rightarrow> schedule \<Rightarrow> bool" where
  "sets_more sch sch' \<longleftrightarrow> length sch' = length sch \<and> (\<forall>i < length sch. sch ! i \<longrightarrow> sch' ! i)"

lemma sets_more_trans: "sets_more a b \<Longrightarrow> sets_more b c \<Longrightarrow> sets_more a c"
  by (simp add: sets_more_def)

lemma sets_more_update: "sets_more sch (sch[i := True])"
  by (cases "i < length sch") (auto simp: sets_more_def nth_list_update)

lemma parse_level_entry:
  assumes "parse_level level offset len s sch e md = Inr r" and "\<not> (s = [] \<or> hd s = CHR '';'')"
    and "strtol s = (v, n)"
  shows "n \<noteq> 0" and "0 \<le> v" and "v < int len"
    and "parse_level level offset len
      (if drop n s \<noteq> [] \<and> hd (drop n s) = CHR '','' then tl (drop n s) else drop n s)
      (sch[offset + nat v := True]) False
      (if level = SCHEDULE_LEVEL_DAY \<and> v < md then v else md) = Inr r"
proof -
  have eq: "parse_level level offset len s sch e md =
    (if n = 0 then Inl (Exception ''Schedule'' ''Non numeric data in schedule offset'')
     else if v < 0 \<or> v \<ge> int len then Inl (Exception ''Schedule'' ''Out of range schedule offset'')
     else parse_level level offset len
       (if drop n s \<noteq> [] \<and> hd (drop n s) = CHR '','' then tl (drop n s) else drop n s)
       (sch[offset + nat v := True]) False
       (if level = SCHEDULE_LEVEL_DAY \<and> v < md then v else md))"
    by (subst parse_level.simps) (simp only: assms(2,3) if_False Let_def prod.case)
  show "n \<noteq> 0" using assms(1) unfolding eq by (rule contrapos_pn) simp
  moreover show "0 \<le> v" using assms(1) calculation unfolding eq by (rule_tac ccontr) simp
  moreover show "v < int len" using assms(1) calculation unfolding eq by (rule_tac ccontr) simp
  ultimately show "parse_level level offset len
      (if drop n s \<noteq> [] \<and> hd (drop n s) = CHR '','' then tl (drop n s) else drop n s)
      (sch[offset + nat v := True]) False
      (if level = SCHEDULE_LEVEL_DAY \<and> v < md then v else md) = Inr r"
    using assms(1) unfolding eq by (simp only: if_False not_less [symmetric] simp_thms)
qed

lemma parse_level_result:
  "parse_level level offset len s sch e md = Inr (s', sch', e', md') \<Longrightarrow> offset + len \<le> length sch \<Longrightarrow>
   sets_more sch sch' \<and> (\<not> e' \<longrightarrow> \<not> e \<or> (\<exists>v < len. sch' ! (offset + v)))"
proof (induction level offset len s sch e md rule: parse_level.induct)
  case (1 level offset len s sch e md)
  show ?case
  proof (cases "s = [] \<or> hd s = CHR '';''")
    case True
    with 1(2) show ?thesis by (subst (asm) parse_level.simps) (simp add: sets_more_def)
  next
    case False
    obtain v n where vn: "strtol s = (v, n)" by (cases "strtol s")
    let ?rest = "drop n s"
    let ?sch = "sch[offset + nat v := True]"
    note step = parse_level_entry [OF 1(2) False vn]
    have "sets_more ?sch sch'"
      using 1(1)[OF False vn [symmetric] refl step(1) _ refl step(4)] step(2,3) 1(3) by simp
    moreover have "?sch ! (offset + nat v)" using step(2,3) 1(3) by simp
    ultimately have "sch' ! (offset + nat v)" using step(2,3) 1(3) by (simp add: sets_more_def)
    moreover have "nat v < len" using step(2,3) by simp
    ultimately show ?thesis
      using \<open>sets_more ?sch sch'\<close> sets_more_update sets_more_trans by blast
  qed
qed

lemma fold_set_flags:
  "length (fold (\<lambda>i sch. sch[i := True]) is sch) = length sch \<and>
   sets_more sch (fold (\<lambda>i sch. sch[i := True]) is sch) \<and>
   (\<forall>i \<in> set is. i < length sch \<longrightarrow> fold (\<lambda>i sch. sch[i := True]) is sch ! i)"
proof (induction "is" arbitrary: sch)
  case Nil
  then show ?case by (simp add: sets_more_def)
next
  case (Cons i "is")
  have 1: "sets_more sch (sch[i := True])" by (rule sets_more_update)
  have 2: "i < length sch \<Longrightarrow> (sch[i := True]) ! i" by simp
  from Cons [of "sch[i := True]"] 1 2 show ?case
    by (auto simp: sets_more_def)
qed

definition has_value :: "schedule \<Rightarrow> nat \<Rightarrow> bool" where
  "has_value sch level \<longleftrightarrow> (\<exists>v. allowed sch level v)"

lemma has_value_more:
  assumes "has_value sch l" and "sets_more sch sch'" and "l < 6" and "length sch = 194"
  shows "has_value sch' l"
proof -
  obtain v where v: "v < level_length l" "sch ! (level_offset l + v)"
    using assms(1) by (auto simp: has_value_def allowed_def)
  moreover have "level_offset l + v < length sch" using v(1) level_bound [OF assms(3)] assms(4) by simp
  ultimately show ?thesis using assms(2) by (auto simp: has_value_def allowed_def sets_more_def)
qed

lemma parse_levels_result:
  assumes "parse_levels n level offset len s sch md = Inr (s', sch', md')"
    and "level + n = 6" and "level < 6 \<Longrightarrow> offset + len = level_offset level"
    and "length sch = 194" and "\<forall>l < level. has_value sch l"
  shows "length sch' = 194 \<and> (\<forall>l < 6. has_value sch' l)"
  using assms
proof (induction n arbitrary: level offset len s sch md)
  case 0
  then show ?case by simp
next
  case (Suc n)
  let ?off = "level_offset level" and ?len = "level_length level"
  have lv: "level < 6" using Suc.prems(2) by simp
  have off: "offset + len = ?off" using Suc.prems(3) lv by simp
  have bound: "?off + ?len \<le> length sch" using level_bound [OF lv] Suc.prems(4) by simp
  obtain s1 sch1 e1 md1 where p: "parse_level level ?off ?len s sch True md = Inr (s1, sch1, e1, md1)"
    using Suc.prems(1) off by (auto simp: Let_def split: sum.splits)
  define sch2 where
    "sch2 = (if e1 then fold (\<lambda>i sch. sch[i := True]) [?off..<?off + ?len] sch1 else sch1)"
  have rest: "parse_levels n (level + 1) ?off ?len
      (if s1 \<noteq> [] \<and> hd s1 = CHR '';'' then tl s1 else s1) sch2 md1 = Inr (s', sch', md')"
    using Suc.prems(1) p off by (simp add: Let_def sch2_def)
  have m1: "sets_more sch sch1" and v1: "\<not> e1 \<Longrightarrow> \<exists>v < ?len. sch1 ! (?off + v)"
    using parse_level_result [OF p bound] by auto
  have m2: "sets_more sch1 sch2"
    using fold_set_flags [of "[?off..<?off + ?len]" sch1] by (auto simp: sch2_def sets_more_def)
  have len2: "length sch2 = 194" using m1 m2 Suc.prems(4) by (simp add: sets_more_def)
  have here: "has_value sch2 level"
  proof (cases e1)
    case True
    have "?off < length sch1" using m1 bound level_length_pos [OF lv] by (simp add: sets_more_def)
    then have "sch2 ! (?off + 0)"
      using True fold_set_flags [of "[?off..<?off + ?len]" sch1] level_length_pos [OF lv]
      by (simp add: sch2_def)
    then show ?thesis
      using level_length_pos [OF lv] unfolding has_value_def allowed_def by blast
  next
    case False
    with v1 show ?thesis by (auto simp: sch2_def has_value_def allowed_def)
  qed
  have below: "\<forall>l < level + 1. has_value sch2 l"
    using here Suc.prems(4,5) has_value_more [OF _ sets_more_trans [OF m1 m2]] lv
    by (auto simp: less_Suc_eq)
  show ?case
    by (rule Suc.IH [OF rest _ _ len2 below]) (use Suc.prems(2) level_next [of level] in auto)
qed

text \<open>
  C26. A schedule description that the constructor accepts yields a complete schedule in which
  every level (seconds to days of week) allows at least one value, so that the search for the
  next date finds a value at each level and never reads an uninitialised variable.
\<close>

theorem accepted_schedule_wf:
  assumes "Schedule description = Inr sch"
  shows "schedule_wf sch"
proof -
  from assms obtain md where "parse_levels 6 0 0 0 description (replicate 194 False) 32 = Inr ([], sch, md)"
    by (auto simp: Schedule_def split: sum.splits prod.splits if_splits)
  from parse_levels_result [OF this] show ?thesis
    by (simp add: schedule_wf_def has_value_def)
qed

text \<open>Every day at 03:00:00, the first or the fifteenth of the month.\<close>

definition demo_description :: string where
  "demo_description = ''0;0;3;0,14''"

definition demo_schedule :: schedule where
  "demo_schedule = List.map (\<lambda>i. i \<in> {0, 60, 123, 144, 158} \<or> 175 \<le> i) [0..<194]"

lemma demo_accepted: "Schedule demo_description = Inr demo_schedule"
  by code_simp

lemma demo_schedule_wf: "schedule_wf demo_schedule"
proof -
  have "list_all (\<lambda>l. allowed demo_schedule l (if l = 2 then 3 else 0)) [0..<6]" by code_simp
  then have "allowed demo_schedule l (if l = 2 then 3 else 0)" if "l < 6" for l
    using that by (simp only: list_all_iff set_upt atLeastLessThan_iff) simp
  then show ?thesis unfolding schedule_wf_def demo_schedule_def by auto
qed

theorem accepted_schedule_wf_witness: "\<exists>v. allowed demo_schedule SCHEDULE_LEVEL_HOUR v"
  using accepted_schedule_wf [OF demo_accepted] by (simp add: schedule_wf_def)

section \<open>The search finds the least allowed date\<close>

lemma find_upt:
  "List.find P [0..<n] = Some i \<longleftrightarrow> i < n \<and> P i \<and> (\<forall>j < i. \<not> P j)"
  by (auto simp: find_Some_iff)

lemma find_upt_None: "List.find P [0..<n] = None \<longleftrightarrow> (\<forall>i < n. \<not> P i)"
  by (auto simp: find_None_iff)

lemma find_level_any:
  assumes "has_value sch l"
  shows "\<exists>j. find_level sch l v False c = Some (j, 0) \<and> allowed sch l j \<and> (\<forall>x < j. \<not> allowed sch l x)"
proof -
  let ?P = "\<lambda>i. sch ! (level_offset l + i)"
  obtain x where x: "x < level_length l" "?P x" using assms by (auto simp: has_value_def allowed_def)
  then obtain j where j: "List.find ?P [0..<level_length l] = Some j"
    using find_upt_None [of ?P "level_length l"] by (metis not_None_eq)
  moreover from j have "j < level_length l" "?P j" "\<forall>i < j. \<not> ?P i" by (auto simp: find_upt)
  ultimately show ?thesis by (intro exI [of _ j]) (simp add: find_level_def allowed_def)
qed

text \<open>
  A search that starts at the present value: either it finds the next allowed value of the
  level, or there is none, and it finds the first one and carries 1 into the next level.
\<close>

lemma find_level_from:
  assumes "has_value sch l" and "v < level_length l" and "c \<le> 1"
  shows "\<exists>j d. find_level sch l v True c = Some (j, d) \<and> allowed sch l j \<and>
    (d = 0 \<and> v + c \<le> j \<and> (\<forall>x. v + c \<le> x \<and> x < j \<longrightarrow> \<not> allowed sch l x) \<or>
     d = 1 \<and> (\<forall>x \<ge> v + c. \<not> allowed sch l x) \<and> (\<forall>x < j. \<not> allowed sch l x))"
proof -
  define len where "len = level_length l"
  define f where "f i = (v + i + c) mod len" for i
  have start: "v + c \<le> len" "0 < len" using assms(2,3) by (auto simp: len_def)
  have low: "f i = v + c + i" if "v + c + i < len" for i
    using that by (simp add: f_def add_ac)
  have high: "f i = v + c + i - len" if "len \<le> v + c + i" "i < len" for i
  proof -
    have "v + i + c - len < len" using that start by simp
    with that show ?thesis by (simp add: f_def add_ac le_mod_geq)
  qed
  obtain x where x: "x < len" "sch ! (level_offset l + x)"
    using assms(1) by (auto simp: has_value_def allowed_def len_def)
  have "\<exists>i < len. f i = x"
  proof (cases "v + c \<le> x")
    case True
    with x(1) have "f (x - (v + c)) = x" "x - (v + c) < len" using low [of "x - (v + c)"] by simp_all
    then show ?thesis by blast
  next
    case False
    with x(1) start have "f (len - (v + c) + x) = x" "len - (v + c) + x < len"
      using high [of "len - (v + c) + x"] by simp_all
    then show ?thesis by blast
  qed
  with x(2) obtain i where i: "List.find (\<lambda>i. sch ! (level_offset l + f i)) [0..<len] = Some i"
    using find_upt_None [of "\<lambda>i. sch ! (level_offset l + f i)" len] by (metis not_None_eq)
  then have ilen: "i < len" and sel: "sch ! (level_offset l + f i)"
    and least: "\<forall>j < i. \<not> sch ! (level_offset l + f j)"
    by (auto simp: find_upt)
  have flt: "f i < len" using start(2) by (simp add: f_def)
  have res: "find_level sch l v True c = Some (f i, if f i < v + c then 1 else 0)"
    using i unfolding find_level_def f_def len_def by (simp add: Let_def)
  have al: "allowed sch l (f i)" using sel flt by (simp add: allowed_def len_def)
  show ?thesis
  proof (cases "v + c + i < len")
    case True
    have "\<not> allowed sch l y" if "v + c \<le> y" "y < f i" for y
    proof -
      have "y - (v + c) < i" "f (y - (v + c)) = y" using that True low [of "y - (v + c)"] low [of i] by simp_all
      with least show ?thesis by (auto simp: allowed_def)
    qed
    with res al low [OF True] show ?thesis by auto
  next
    case False
    then have fi: "f i = v + c + i - len" using high ilen by simp
    have "\<not> allowed sch l y" if "v + c \<le> y" for y
    proof (cases "y < len")
      case True
      have "y - (v + c) < i" "f (y - (v + c)) = y" using that True False low [of "y - (v + c)"] by simp_all
      with least show ?thesis by (auto simp: allowed_def)
    qed (simp add: allowed_def len_def)
    moreover have "\<not> allowed sch l y" if "y < f i" for y
    proof -
      have "len - (v + c) + y < i" "f (len - (v + c) + y) = y"
        using that fi start ilen high [of "len - (v + c) + y"] by simp_all
      with least show ?thesis by (auto simp: allowed_def)
    qed
    moreover have "f i < v + c" using fi ilen False by linarith
    ultimately show ?thesis using res al by auto
  qed
qed

text \<open>
  The reference: dates as lists of values, lowest level first, compared from the highest level
  down (\<open>rev\<close> and the lexicographic order on lists). \<open>dates sch n\<close> are the ways to fill the
  lowest \<open>n\<close> levels as the schedule allows.
\<close>

definition dates :: "schedule \<Rightarrow> nat \<Rightarrow> nat list set" where
  "dates sch n = {t. length t = n \<and> (\<forall>k < n. allowed sch k (t ! k))}"

definition earliest_from :: "schedule \<Rightarrow> nat list \<Rightarrow> nat list \<Rightarrow> bool" where
  "earliest_from sch now t \<longleftrightarrow> t \<in> dates sch (length now) \<and> rev now \<le> rev t \<and>
     (\<forall>u \<in> dates sch (length now). rev now \<le> rev u \<longrightarrow> rev t \<le> rev u)"

definition earliest :: "schedule \<Rightarrow> nat \<Rightarrow> nat list \<Rightarrow> bool" where
  "earliest sch n t \<longleftrightarrow> t \<in> dates sch n \<and> (\<forall>u \<in> dates sch n. rev t \<le> rev u)"

definition none_from :: "schedule \<Rightarrow> nat list \<Rightarrow> bool" where
  "none_from sch now \<longleftrightarrow> (\<forall>u \<in> dates sch (length now). rev u < rev now)"

lemma dates_snoc: "t @ [x] \<in> dates sch (Suc n) \<longleftrightarrow> t \<in> dates sch n \<and> allowed sch n x"
  by (auto simp: dates_def nth_append less_Suc_eq)

lemma dates_Suc: "u \<in> dates sch (Suc n) \<Longrightarrow>
    \<exists>t x. u = t @ [x] \<and> t \<in> dates sch n \<and> allowed sch n x"
  using dates_snoc [of "butlast u" "List.last u" sch n]
  by (cases u rule: rev_cases) (auto simp: dates_def dates_snoc)

lemma earliest_snoc:
  assumes "earliest sch n t" and "allowed sch n j" and "\<forall>x < j. \<not> allowed sch n x"
  shows "earliest sch (Suc n) (t @ [j])"
  unfolding earliest_def
proof (intro conjI ballI)
  show "t @ [j] \<in> dates sch (Suc n)" using assms by (simp add: dates_snoc earliest_def)
  fix u assume "u \<in> dates sch (Suc n)"
  then obtain s x where u: "u = s @ [x]" "s \<in> dates sch n" "allowed sch n x" using dates_Suc by blast
  then have "\<not> x < j" "rev t \<le> rev s" using assms by (auto simp: earliest_def)
  then show "rev (t @ [j]) \<le> rev u" using u(1) by (cases "j = x") auto
qed

lemma earliest_from_same:
  assumes "earliest_from sch now t" and "allowed sch (length now) v"
  shows "earliest_from sch (now @ [v]) (t @ [v])"
  unfolding earliest_from_def
proof (intro conjI ballI impI)
  show "t @ [v] \<in> dates sch (length (now @ [v]))" "rev (now @ [v]) \<le> rev (t @ [v])"
    using assms by (simp_all add: dates_snoc earliest_from_def)
  fix u assume "u \<in> dates sch (length (now @ [v]))" and le: "rev (now @ [v]) \<le> rev u"
  then obtain s x where u: "u = s @ [x]" "s \<in> dates sch (length now)" "allowed sch (length now) x"
    using dates_Suc by (metis length_append_singleton)
  with le assms(1) show "rev (t @ [v]) \<le> rev u" by (auto simp: earliest_from_def)
qed

lemma earliest_from_later:
  assumes "earliest sch (length now) t" and "allowed sch (length now) j" and "v < j"
    and "\<forall>x. v < x \<and> x < j \<longrightarrow> \<not> allowed sch (length now) x"
    and "none_from sch now \<or> \<not> allowed sch (length now) v"
  shows "earliest_from sch (now @ [v]) (t @ [j])"
  unfolding earliest_from_def
proof (intro conjI ballI impI)
  show "t @ [j] \<in> dates sch (length (now @ [v]))" "rev (now @ [v]) \<le> rev (t @ [j])"
    using assms(1-3) by (simp_all add: dates_snoc earliest_def)
  fix u assume "u \<in> dates sch (length (now @ [v]))" and le: "rev (now @ [v]) \<le> rev u"
  then obtain s x where u: "u = s @ [x]" "s \<in> dates sch (length now)" "allowed sch (length now) x"
    using dates_Suc by (metis length_append_singleton)
  have "x \<noteq> v"
  proof
    assume "x = v"
    with le u have "rev now \<le> rev s" by simp
    with u \<open>x = v\<close> assms(5) show False by (auto simp: none_from_def)
  qed
  with le u have "v < x" by auto
  with assms(4) u(3) have "j \<le> x" by (meson leI)
  with assms(1) u show "rev (t @ [j]) \<le> rev u" by (auto simp: earliest_def)
qed

lemma none_from_snoc:
  assumes "none_from sch now \<or> \<not> allowed sch (length now) v"
    and "\<forall>x > v. \<not> allowed sch (length now) x"
  shows "none_from sch (now @ [v])"
  unfolding none_from_def
proof
  fix u assume "u \<in> dates sch (length (now @ [v]))"
  then obtain s x where u: "u = s @ [x]" "s \<in> dates sch (length now)" "allowed sch (length now) x"
    using dates_Suc by (metis length_append_singleton)
  then have "x \<le> v" using assms(2) by (meson leI)
  with u assms(1) show "rev u < rev (now @ [v])" by (auto simp: none_from_def)
qed

lemma find_first_snoc:
  "find_first sch now (ls @ [l]) c =
     (case find_first sch now ls c of
        None \<Rightarrow> None
      | Some (js, d) \<Rightarrow>
          (case find_level sch l (now ! l) (next_levels_valid sch now l) d of
             None \<Rightarrow> None
           | Some (j, e) \<Rightarrow> Some (js @ [j], e)))"
  by (induction sch now ls c rule: find_first.induct) (auto split: option.splits prod.splits)

definition now_in_range :: "nat list \<Rightarrow> bool" where
  "now_in_range now \<longleftrightarrow> length now = 5 \<and> (\<forall>k < 5. now ! k < level_length k)"

definition valid_above :: "schedule \<Rightarrow> nat list \<Rightarrow> nat \<Rightarrow> bool" where
  "valid_above sch now n \<longleftrightarrow> (\<forall>k. n \<le> k \<and> k < 5 \<longrightarrow> allowed sch k (now ! k))"

lemma next_levels_valid_above:
  "now_in_range now \<Longrightarrow> next_levels_valid sch now l \<longleftrightarrow> valid_above sch now (Suc l)"
  by (auto simp: next_levels_valid_def valid_above_def list_all_iff allowed_def now_in_range_def)

definition found :: "schedule \<Rightarrow> nat list \<Rightarrow> nat \<Rightarrow> nat list \<Rightarrow> nat \<Rightarrow> bool" where
  "found sch now n js c \<longleftrightarrow>
     (if valid_above sch now n
      then c = 0 \<and> earliest_from sch (take n now) js \<or>
           c = 1 \<and> none_from sch (take n now) \<and> earliest sch n js
      else c = 0 \<and> earliest sch n js)"

lemma found_step:
  assumes "now_in_range now" and "has_value sch n" and "n < 5" and "found sch now n js c"
  shows "\<exists>j d. find_level sch n (now ! n) (next_levels_valid sch now n) c = Some (j, d) \<and>
    found sch now (Suc n) (js @ [j]) d"
proof -
  let ?v = "now ! n"
  have len: "length (take n now) = n" and take: "take (Suc n) now = take n now @ [?v]"
    using assms(1,3) by (simp_all add: now_in_range_def take_Suc_conv_app_nth)
  have here: "valid_above sch now n \<longleftrightarrow> allowed sch n ?v \<and> valid_above sch now (Suc n)"
    using assms(3) unfolding valid_above_def by (metis Suc_le_eq le_neq_implies_less le_refl less_imp_le_nat)
  show ?thesis
  proof (cases "valid_above sch now (Suc n)")
    case False
    obtain j where j: "find_level sch n ?v False c = Some (j, 0)" "allowed sch n j"
      "\<forall>x < j. \<not> allowed sch n x"
      using find_level_any [OF assms(2)] by blast
    have "earliest sch n js" using assms(4) False here by (simp add: found_def)
    with j False show ?thesis
      by (simp add: next_levels_valid_above [OF assms(1)] found_def earliest_snoc)
  next
    case True
    have c: "c \<le> 1" using assms(4) by (auto simp: found_def split: if_splits)
    have v: "?v < level_length n" using assms(1,3) by (simp add: now_in_range_def)
    obtain j d where jd: "find_level sch n ?v True c = Some (j, d)" "allowed sch n j"
      "d = 0 \<and> ?v + c \<le> j \<and> (\<forall>x. ?v + c \<le> x \<and> x < j \<longrightarrow> \<not> allowed sch n x) \<or>
       d = 1 \<and> (\<forall>x \<ge> ?v + c. \<not> allowed sch n x) \<and> (\<forall>x < j. \<not> allowed sch n x)"
      using find_level_from [OF assms(2) v c] by blast
    have "d = 0 \<and> earliest_from sch (take n now @ [?v]) (js @ [j]) \<or>
        d = 1 \<and> none_from sch (take n now @ [?v]) \<and> earliest sch (Suc n) (js @ [j])"
    proof (cases "c = 0 \<and> allowed sch n ?v")
      case True
      then have "earliest_from sch (take n now) js"
        using assms(4) here \<open>valid_above sch now (Suc n)\<close> by (simp add: found_def)
      moreover have "d = 0 \<and> j = ?v"
      proof (cases "d = 0")
        case d0: True
        with jd(3) True have "?v \<le> j" "\<not> ?v < j" by auto
        with d0 show ?thesis by simp
      next
        case False
        with jd(3) True show ?thesis by auto
      qed
      ultimately show ?thesis using earliest_from_same [of sch "take n now" js ?v] True len by simp
    next
      case False
      have el: "earliest sch n js" and nf: "none_from sch (take n now) \<or> \<not> allowed sch n ?v"
        using assms(4) here \<open>valid_above sch now (Suc n)\<close> False
        by (auto simp: found_def split: if_splits)
      from jd(3) show ?thesis
      proof
        assume d: "d = 0 \<and> ?v + c \<le> j \<and> (\<forall>x. ?v + c \<le> x \<and> x < j \<longrightarrow> \<not> allowed sch n x)"
        then have "?v < j" using False jd(2) c by (cases "c = 0") (auto simp: le_less)
        moreover have "\<forall>x. ?v < x \<and> x < j \<longrightarrow> \<not> allowed sch n x" using d c by auto
        ultimately show ?thesis
          using earliest_from_later [of sch "take n now" js j ?v] el nf jd(2) d len by simp
      next
        assume d: "d = 1 \<and> (\<forall>x \<ge> ?v + c. \<not> allowed sch n x) \<and> (\<forall>x < j. \<not> allowed sch n x)"
        then have "\<forall>x > ?v. \<not> allowed sch n x" using c by auto
        then have "none_from sch (take n now @ [?v])"
          using none_from_snoc [of sch "take n now" ?v] nf len by simp
        with d earliest_snoc [OF el jd(2)] show ?thesis by simp
      qed
    qed
    with True jd(1) show ?thesis
      by (simp add: next_levels_valid_above [OF assms(1)] found_def take)
  qed
qed

lemma find_first_found:
  assumes "now_in_range now" and "\<forall>l < 5. has_value sch l" and "n \<le> 5"
  shows "\<exists>js c. find_first sch now [0..<n] 0 = Some (js, c) \<and> found sch now n js c"
  using assms(3)
proof (induction n)
  case 0
  have "dates sch 0 = {[]}" by (auto simp: dates_def)
  then show ?case by (simp add: found_def earliest_from_def earliest_def)
next
  case (Suc n)
  then obtain js c where js: "find_first sch now [0..<n] 0 = Some (js, c)" "found sch now n js c"
    by auto
  obtain j d where "find_level sch n (now ! n) (next_levels_valid sch now n) c = Some (j, d)"
    "found sch now (Suc n) (js @ [j]) d"
    using found_step [OF assms(1) _ _ js(2)] assms(2) Suc.prems by auto
  with js(1) show ?case by (simp add: find_first_snoc)
qed

text \<open>
  C27. The search through the levels is right: for a well-formed schedule and any present
  date, it always ends with a date, and that date is the earliest one the schedule allows that is
  not before the present one in the same year, with no carry into the year; or, exactly when the
  schedule allows no such date this year, the earliest date of a year, with a carry of one year.
\<close>

theorem find_first_earliest:
  assumes "schedule_wf sch" and "now_in_range now"
  shows "\<exists>js carry. find_first sch now [0, 1, 2, 3, 4] 0 = Some (js, carry) \<and>
    (carry = 0 \<and> earliest_from sch now js \<or>
     carry = 1 \<and> none_from sch now \<and> earliest sch 5 js)"
proof -
  have "\<forall>l < 5. has_value sch l" using assms(1) by (simp add: schedule_wf_def has_value_def)
  from find_first_found [OF assms(2) this, of 5] obtain js c where
    "find_first sch now [0..<5] 0 = Some (js, c)" "found sch now 5 js c" by auto
  moreover have "[0..<5] = [0, 1, 2, 3, 4 :: nat]" by (simp add: upt_rec)
  moreover have "take 5 now = now" using assms(2) by (simp add: now_in_range_def)
  moreover have "valid_above sch now 5" by (auto simp: valid_above_def)
  ultimately show ?thesis by (auto simp: found_def)
qed

text \<open>At 04:05:06 on the fifteenth of January the demo schedule next runs on the first of February.\<close>

theorem find_first_earliest_witness:
  "earliest_from demo_schedule [6, 5, 4, 14, 0] [0, 0, 3, 0, 1]"
proof -
  have "now_in_range [6, 5, 4, 14, 0]" by code_simp
  moreover have "find_first demo_schedule [6, 5, 4, 14, 0] [0, 1, 2, 3, 4] 0 = Some ([0, 0, 3, 0, 1], 0)"
    by code_simp
  ultimately show ?thesis
    using find_first_earliest [OF demo_schedule_wf, of "[6, 5, 4, 14, 0]"] by simp
qed

section \<open>The next date\<close>

text \<open>What a date must satisfy to be allowed at every level, day of week included.\<close>

definition allowed_time :: "schedule \<Rightarrow> tm \<Rightarrow> bool" where
  "allowed_time sch t \<longleftrightarrow>
     allowed sch SCHEDULE_LEVEL_SEC (nat (tm_sec t)) \<and> allowed sch SCHEDULE_LEVEL_MIN (nat (tm_min t)) \<and>
     allowed sch SCHEDULE_LEVEL_HOUR (nat (tm_hour t)) \<and> allowed sch SCHEDULE_LEVEL_DAY (nat (tm_mday t - 1)) \<and>
     allowed sch SCHEDULE_LEVEL_MONTH (nat (tm_mon t)) \<and> allowed sch SCHEDULE_LEVEL_WDAY (nat (tm_wday t))"

text \<open>
  What the search relies on in \<open>localtime_r\<close> and \<open>mktime\<close>: \<open>mktime\<close> leaves in its argument
  the local date of the time it returns; a date whose clock part is in range keeps it (there
  is no shift of the clock); the day of week is 0 to 6.
\<close>

locale calendar =
  fixes localtime :: "int \<Rightarrow> tm" and mktime :: "tm \<Rightarrow> int \<times> tm"
  assumes mktime_normalises: "snd (mktime d) = localtime (fst (mktime d))"
    and mktime_clock: "0 \<le> tm_sec d \<Longrightarrow> tm_sec d < 60 \<Longrightarrow> 0 \<le> tm_min d \<Longrightarrow> tm_min d < 60 \<Longrightarrow>
      0 \<le> tm_hour d \<Longrightarrow> tm_hour d < 24 \<Longrightarrow>
      tm_sec (localtime (fst (mktime d))) = tm_sec d \<and>
      tm_min (localtime (fst (mktime d))) = tm_min d \<and>
      tm_hour (localtime (fst (mktime d))) = tm_hour d"
    and localtime_wday: "0 \<le> tm_wday (localtime t)" "tm_wday (localtime t) < 7"

lemma find_level_allowed:
  assumes "find_level sch l v b c = Some (j, d)" and "l < 6"
  shows "allowed sch l j"
proof -
  have "0 < level_length l" by (rule level_length_pos [OF assms(2)])
  with assms(1) show ?thesis
    by (auto simp: find_level_def allowed_def find_upt Let_def split: option.splits if_splits)
qed

lemma find_first_allowed:
  "find_first sch now ls c = Some (js, d) \<Longrightarrow> \<forall>l \<in> set ls. l < 6 \<Longrightarrow>
   list_all2 (allowed sch) ls js"
  by (induction sch now ls c arbitrary: js d rule: find_first.induct)
    (auto split: option.splits prod.splits intro: find_level_allowed)

lemma find_first_five:
  assumes "find_first sch now [0, 1, 2, 3, 4] 0 = Some (js, d)"
  shows "\<forall>k < 5. allowed sch k (js ! k)"
proof -
  have "list_all2 (allowed sch) [0, 1, 2, 3, 4] js" by (rule find_first_allowed [OF assms]) simp
  then show ?thesis by (auto simp: list_all2_Cons1 less_Suc_eq numeral_eq_Suc)
qed

context calendar
begin

lemma candidate_allowed:
  assumes "\<forall>k < 5. allowed sch k (js ! k)"
    and "mktime (first_candidate js y) = (t, d)"
    and "tm_mday d = int (js ! 3) + 1" and "tm_mon d = int (js ! 4)"
    and "sch ! (level_offset SCHEDULE_LEVEL_WDAY + nat (tm_wday d))"
  shows "allowed_time sch (localtime t)"
proof -
  have al: "allowed sch 0 (js ! 0)" "allowed sch (Suc 0) (js ! Suc 0)" "allowed sch 2 (js ! 2)"
    "allowed sch 3 (js ! 3)" "allowed sch 4 (js ! 4)" using assms(1) by simp_all
  then have bounds: "js ! 0 < 60" "js ! Suc 0 < 60" "js ! 2 < 24" by (simp_all add: allowed_def)
  have d: "d = localtime t" using mktime_normalises [of "first_candidate js y"] assms(2) by simp
  have clock: "tm_sec d = int (js ! 0)" "tm_min d = int (js ! Suc 0)" "tm_hour d = int (js ! 2)"
    using mktime_clock [of "first_candidate js y"] assms(2) bounds d
    by (simp_all add: first_candidate_def)
  have "nat (tm_wday d) < 7" using localtime_wday [of t] d by simp
  with assms(5) have "allowed sch 5 (nat (tm_wday d))" by (simp add: allowed_def)
  with al clock assms(3,4) d show ?thesis by (simp add: allowed_time_def)
qed

lemma get_next_time_allowed:
  assumes "get_next_time localtime mktime sch now = Some t"
  shows "allowed_time sch (localtime t)"
proof -
  have "lt = localtime \<longrightarrow> mk = mktime \<longrightarrow> allowed_time s (localtime r)"
    if "get_next_time lt mk s n = Some r" for lt mk s n r
    using that
  proof (rule get_next_time.raw_induct
      [where P = "\<lambda>lt mk s n r. lt = localtime \<longrightarrow> mk = mktime \<longrightarrow> allowed_time s (localtime r)", rotated])
    fix f lt mk s n r
    assume ih: "\<And>lt mk s n r. f lt mk s n = Some r \<Longrightarrow>
        lt = localtime \<longrightarrow> mk = mktime \<longrightarrow> allowed_time s (localtime r)"
      and body: "(case find_first s (level_now (lt n)) [0, 1, 2, 3, 4] 0 of
        None \<Rightarrow> None
      | Some (js, carry) \<Rightarrow>
          (let (first, first_t) = mk (first_candidate js (tm_year (lt n) + int carry)) in
           if tm_mday first_t \<noteq> int (js ! 3) + 1 \<or> tm_mon first_t \<noteq> int (js ! 4)
           then f lt mk s first
           else if \<not> s ! (level_offset SCHEDULE_LEVEL_WDAY + nat (tm_wday first_t))
           then f lt mk s
             (fst (mk (first_t\<lparr>tm_min := 0, tm_hour := 0, tm_mday := tm_mday first_t + 1, tm_isdst := -1\<rparr>)))
           else Some first)) = Some r"
    show "lt = localtime \<longrightarrow> mk = mktime \<longrightarrow> allowed_time s (localtime r)"
    proof (intro impI)
      assume eq: "lt = localtime" "mk = mktime"
      obtain js carry where js: "find_first s (level_now (lt n)) [0, 1, 2, 3, 4] 0 = Some (js, carry)"
        using body by (auto split: option.splits)
      obtain first first_t where mk: "mk (first_candidate js (tm_year (lt n) + int carry)) = (first, first_t)"
        by (cases "mk (first_candidate js (tm_year (lt n) + int carry))")
      consider "f lt mk s first = Some r"
        | "f lt mk s (fst (mk (first_t\<lparr>tm_min := 0, tm_hour := 0, tm_mday := tm_mday first_t + 1, tm_isdst := -1\<rparr>))) = Some r"
        | "first = r" "tm_mday first_t = int (js ! 3) + 1" "tm_mon first_t = int (js ! 4)"
          "s ! (level_offset SCHEDULE_LEVEL_WDAY + nat (tm_wday first_t))"
        using body js mk by (auto simp: Let_def split: if_splits)
      then show "allowed_time s (localtime r)"
        by cases (use ih eq candidate_allowed [OF find_first_five [OF js] mk [unfolded eq]] in blast)+
    qed
  qed
  with assms show ?thesis by blast
qed

end

text \<open>
  The Gregorian calendar in UTC: days are counted from 1970-01-01, years start in March
  inside the computation so that the leap day is the last one.
\<close>

definition days_from_civil :: "int \<Rightarrow> int \<Rightarrow> int \<Rightarrow> int" where
  "days_from_civil y m d =
     (let y = (if m \<le> 2 then y - 1 else y);
          era = y div 400; yoe = y mod 400;
          doy = (153 * (if m > 2 then m - 3 else m + 9) + 2) div 5 + d - 1;
          doe = yoe * 365 + yoe div 4 - yoe div 100 + doy
      in era * 146097 + doe - 719468)"

definition civil_from_days :: "int \<Rightarrow> int \<times> int \<times> int" where
  "civil_from_days z =
     (let z = z + 719468; era = z div 146097; doe = z mod 146097;
          yoe = (doe - doe div 1460 + doe div 36524 - doe div 146096) div 365;
          doy = doe - (365 * yoe + yoe div 4 - yoe div 100);
          mp = (5 * doy + 2) div 153;
          m = (if mp < 10 then mp + 3 else mp - 9)
      in (yoe + era * 400 + (if m \<le> 2 then 1 else 0), m, doy - (153 * mp + 2) div 5 + 1))"

definition utc_localtime :: "int \<Rightarrow> tm" where
  "utc_localtime t =
     (let days = t div 86400; s = t mod 86400; (y, m, d) = civil_from_days days
      in \<lparr>tm_sec = s mod 60, tm_min = s div 60 mod 60, tm_hour = s div 3600, tm_mday = d,
          tm_mon = m - 1, tm_year = y - 1900, tm_wday = (days + 4) mod 7, tm_isdst = 0\<rparr>)"

definition utc_mktime :: "tm \<Rightarrow> int \<times> tm" where
  "utc_mktime d =
     (let y = tm_year d + 1900 + tm_mon d div 12; m = tm_mon d mod 12 + 1;
          t = (days_from_civil y m 1 + tm_mday d - 1) * 86400
              + tm_hour d * 3600 + tm_min d * 60 + tm_sec d
      in (t, utc_localtime t))"

lemma utc_clock:
  "tm_sec (utc_localtime t) = t mod 86400 mod 60"
  "tm_min (utc_localtime t) = t mod 86400 div 60 mod 60"
  "tm_hour (utc_localtime t) = t mod 86400 div 3600"
  "tm_wday (utc_localtime t) = (t div 86400 + 4) mod 7"
  by (simp_all add: utc_localtime_def Let_def split: prod.splits)

lemma clock_arith:
  fixes D h m s :: int
  assumes "0 \<le> s" "s < 60" "0 \<le> m" "m < 60" "0 \<le> h" "h < 24"
  shows "(D * 86400 + h * 3600 + m * 60 + s) mod 86400 mod 60 = s"
    and "(D * 86400 + h * 3600 + m * 60 + s) mod 86400 div 60 mod 60 = m"
    and "(D * 86400 + h * 3600 + m * 60 + s) mod 86400 div 3600 = h"
proof -
  have "(D * 86400 + (h * 3600 + m * 60 + s)) mod 86400 = (h * 3600 + m * 60 + s) mod 86400"
    by (simp only: mod_mult_self3)
  also have "\<dots> = h * 3600 + m * 60 + s" using assms by (intro mod_pos_pos_trivial) auto
  finally have eq: "(D * 86400 + h * 3600 + m * 60 + s) mod 86400 = h * 3600 + m * 60 + s"
    by (simp only: add.assoc)
  show "(D * 86400 + h * 3600 + m * 60 + s) mod 86400 mod 60 = s"
    and "(D * 86400 + h * 3600 + m * 60 + s) mod 86400 div 60 mod 60 = m"
    and "(D * 86400 + h * 3600 + m * 60 + s) mod 86400 div 3600 = h"
  proof -
    have 1: "h * 3600 + m * 60 + s = s + 60 * (60 * h + m)"
      and 2: "h * 3600 + m * 60 + s = (m * 60 + s) + 3600 * h" by simp_all
    have s0: "s mod 60 = s" "s div 60 = 0" using assms by simp_all
    show "(D * 86400 + h * 3600 + m * 60 + s) mod 86400 mod 60 = s"
      unfolding eq 1 by (simp only: mod_mult_self2 s0)
    have "(s + 60 * (60 * h + m)) div 60 = 60 * h + m" using s0 by simp
    moreover have "(60 * h + m) mod 60 = m" using assms by simp
    ultimately show "(D * 86400 + h * 3600 + m * 60 + s) mod 86400 div 60 mod 60 = m"
      unfolding eq 1 by simp
    have "(m * 60 + s) div 3600 = 0" using assms by (intro div_pos_pos_trivial) auto
    then show "(D * 86400 + h * 3600 + m * 60 + s) mod 86400 div 3600 = h"
      unfolding eq 2 by simp
  qed
qed

interpretation utc: calendar utc_localtime utc_mktime
proof unfold_locales
  show "snd (utc_mktime d) = utc_localtime (fst (utc_mktime d))" for d
    by (simp add: utc_mktime_def Let_def)
  show "tm_sec (utc_localtime (fst (utc_mktime d))) = tm_sec d \<and>
      tm_min (utc_localtime (fst (utc_mktime d))) = tm_min d \<and>
      tm_hour (utc_localtime (fst (utc_mktime d))) = tm_hour d"
    if "0 \<le> tm_sec d" "tm_sec d < 60" "0 \<le> tm_min d" "tm_min d < 60" "0 \<le> tm_hour d" "tm_hour d < 24"
    for d
    using clock_arith [OF that] by (simp only: utc_mktime_def Let_def fst_conv utc_clock simp_thms)
  show "0 \<le> tm_wday (utc_localtime t)" "tm_wday (utc_localtime t) < 7" for t
    by (simp_all add: utc_clock)
qed

text \<open>The search with a bound on the number of retries, to evaluate it on concrete dates.\<close>

fun next_time_within ::
  "nat \<Rightarrow> (int \<Rightarrow> tm) \<Rightarrow> (tm \<Rightarrow> int \<times> tm) \<Rightarrow> schedule \<Rightarrow> int \<Rightarrow> int option" where
  "next_time_within 0 localtime mktime sch now = None"
| "next_time_within (Suc n) localtime mktime sch now =
     (case find_first sch (level_now (localtime now)) [0, 1, 2, 3, 4] 0 of
        None \<Rightarrow> None
      | Some (js, carry) \<Rightarrow>
          (let (first, first_t) = mktime (first_candidate js (tm_year (localtime now) + int carry)) in
           if tm_mday first_t \<noteq> int (js ! 3) + 1 \<or> tm_mon first_t \<noteq> int (js ! 4)
           then next_time_within n localtime mktime sch first
           else if \<not> sch ! (level_offset SCHEDULE_LEVEL_WDAY + nat (tm_wday first_t))
           then next_time_within n localtime mktime sch
             (fst (mktime (first_t\<lparr>tm_min := 0, tm_hour := 0, tm_mday := tm_mday first_t + 1,
                                   tm_isdst := -1\<rparr>)))
           else Some first))"

lemma next_time_within_sound:
  "next_time_within n localtime mktime sch now = Some t \<Longrightarrow> get_next_time localtime mktime sch now = Some t"
proof (induction n arbitrary: now)
  case (Suc n)
  show ?case
    by (subst get_next_time.simps)
      (use Suc in \<open>auto simp: Let_def split: option.splits prod.splits if_splits\<close>)
qed simp


text \<open>From 2024-02-10 12:00:00 UTC the demo schedule next runs on 2024-02-15 03:00:00.\<close>

lemma demo_next: "GetNextTime utc_localtime utc_mktime demo_schedule 1707566400 = Some 1707966000"
proof -
  have "next_time_within 1 utc_localtime utc_mktime demo_schedule 1707566401 = Some 1707966000"
    by code_simp
  from next_time_within_sound [OF this] show ?thesis by (simp add: GetNextTime_def)
qed


text \<open>A schedule for the seconds 10 and 50 of every minute of Thursdays (day of week 4).\<close>

definition thursday_schedule :: schedule where
  "thursday_schedule = List.map (\<lambda>i. i \<in> {10, 50, 191} \<or> 60 \<le> i \<and> i < 187) [0..<194]"

text \<open>A schedule for midnight of the second and the thirty-first day of each month.\<close>

definition second_and_last_schedule :: schedule where
  "second_and_last_schedule = List.map (\<lambda>i. i \<in> {0, 60, 120, 145, 174} \<or> 175 \<le> i) [0..<194]"

text \<open>
  The date found is not always the first allowed one. After a wrong day of week the search
  goes on from the next day without resetting the seconds: started on Tuesday 1970-01-06
  00:00:30, the Thursday schedule gives 00:00:50 on Thursday and misses 00:00:10. After an
  invalid date it goes on from the date \<open>mktime\<close> made of it: started on 1970-02-10, the schedule
  for the 2nd and the 31st turns February 31 into March 3, gives March 31 and misses March 2.
\<close>

theorem get_next_time_misses_dates:
  "Schedule ''10,50;;;;;4'' = Inr thursday_schedule \<and>
   get_next_time utc_localtime utc_mktime thursday_schedule 432030 = Some 604850 \<and>
   allowed_time thursday_schedule (utc_localtime 604810) \<and>
   Schedule ''0;0;0;1,30'' = Inr second_and_last_schedule \<and>
   get_next_time utc_localtime utc_mktime second_and_last_schedule 3456000 = Some 7689600 \<and>
   allowed_time second_and_last_schedule (utc_localtime 5184000)"
proof (intro conjI)
  show "Schedule ''10,50;;;;;4'' = Inr thursday_schedule" by code_simp
  show "get_next_time utc_localtime utc_mktime thursday_schedule 432030 = Some 604850"
    by (rule next_time_within_sound [of 3]) code_simp
  show "allowed_time thursday_schedule (utc_localtime 604810)" by code_simp
  show "Schedule ''0;0;0;1,30'' = Inr second_and_last_schedule" by code_simp
  show "get_next_time utc_localtime utc_mktime second_and_last_schedule 3456000 = Some 7689600"
    by (rule next_time_within_sound [of 2]) code_simp
  show "allowed_time second_and_last_schedule (utc_localtime 5184000)" by code_simp
qed

end
