(* ===== verification/Catalogues.thy ===== *)
theory Catalogues
  imports Prelude
begin

text \<open>
  The definitions loaded from the database: tasks (\<open>Tasks.cpp\<close>, \<open>Task.cpp\<close>), workflows
  (\<open>Workflows.cpp\<close>, \<open>Workflow.cpp\<close>) and retry schedules (\<open>RetrySchedules.cpp\<close>,
  \<open>RetrySchedule.cpp\<close>). The three catalogues are the same code over three classes: a map from
  names to definitions behind a mutex, emptied and filled again by \<open>Reload\<close>, and read by a
  copying getter. The database is an argument: the names the listing query returned, and for each
  name the row of the second query, whose fields may be \<open>NULL\<close>.
\<close>

type_synonym row = "string option list"
type_synonym table = "string \<Rightarrow> row option"

section \<open>The three classes\<close>

datatype task_parameters_mode = PM_CMDLINE | PM_ENV | PM_UNKNOWN
datatype task_output_method = OM_XML | OM_TEXT | OM_UNKNOWN

record task_def =
  task_binary :: "string option"
  task_wd :: "string option"
  task_user :: "string option"
  task_host :: "string option"
  parameters_mode :: task_parameters_mode
  output_method :: task_output_method

definition Task_default :: task_def where
  "Task_default = \<lparr>task_binary = None, task_wd = None, task_user = None, task_host = None,
     parameters_mode = PM_UNKNOWN, output_method = OM_UNKNOWN\<rparr>"

text \<open>
  The constructor from the database. \<open>None\<close>: a field the code passes to \<open>strlen\<close> or
  \<open>strcmp\<close> is \<open>NULL\<close>.
\<close>

definition Task_new :: "table \<Rightarrow> string \<Rightarrow> (exn + task_def) option" where
  "Task_new t_task name =
     (case t_task name of
        None \<Rightarrow> Some (Inl (Exception ''Task'' ''Unknown task''))
      | Some r \<Rightarrow>
          (case (r ! 0, r ! 4, r ! 5) of
             (Some binary, Some mode, Some method) \<Rightarrow>
               Some (Inr \<lparr>task_binary = Some binary, task_wd = r ! 1, task_user = r ! 2,
                 task_host = r ! 3,
                 parameters_mode = (if strcmp mode ''ENV'' = 0 then PM_ENV else PM_CMDLINE),
                 output_method = (if strcmp method ''XML'' = 0 then OM_XML else OM_TEXT)\<rparr>)
           | _ \<Rightarrow> None))"

text \<open>\<open>free\<close>, the copy constructor and the assignment, which copies over a freed object.\<close>

definition Task_free :: "task_def \<Rightarrow> task_def" where
  "Task_free t = t\<lparr>task_binary := None, task_wd := None, task_user := None, task_host := None\<rparr>"

definition Task_copy :: "task_def \<Rightarrow> task_def option" where
  "Task_copy t = (case task_binary t of None \<Rightarrow> None
     | Some b \<Rightarrow> Some \<lparr>task_binary = Some b, task_wd = task_wd t, task_user = task_user t,
         task_host = task_host t, parameters_mode = parameters_mode t,
         output_method = output_method t\<rparr>)"

definition Task_assign :: "task_def \<Rightarrow> task_def \<Rightarrow> task_def option" where
  "Task_assign this t =
     (let this = Task_free this in
      case task_binary t of None \<Rightarrow> None
      | Some b \<Rightarrow>
          Some (this\<lparr>task_binary := Some b,
            task_wd := (case task_wd t of None \<Rightarrow> task_wd this | Some w \<Rightarrow> Some w),
            task_user := (case task_user t of None \<Rightarrow> task_user this | Some u \<Rightarrow> Some u),
            task_host := (case task_host t of None \<Rightarrow> task_host this | Some h \<Rightarrow> Some h),
            parameters_mode := parameters_mode t, output_method := output_method t\<rparr>))"

record workflow_def =
  wf_id :: int
  wf_name :: "string option"
  wf_xml :: "string option"

definition Workflow_default :: workflow_def where
  "Workflow_default = \<lparr>wf_id = -1, wf_name = None, wf_xml = None\<rparr>"

text \<open>\<open>GetFieldInt\<close> is \<open>atoi\<close> of the field.\<close>

definition Workflow_new :: "table \<Rightarrow> string \<Rightarrow> (exn + workflow_def) option" where
  "Workflow_new t_workflow name =
     (case t_workflow name of
        None \<Rightarrow> Some (Inl (Exception ''Workflow'' ''Unknown Workflow''))
      | Some r \<Rightarrow>
          (case (r ! 0, r ! 1, r ! 2) of
             (Some i, Some n, Some x) \<Rightarrow>
               Some (Inr \<lparr>wf_id = atoi i, wf_name = Some n, wf_xml = Some x\<rparr>)
           | _ \<Rightarrow> None))"

definition Workflow_free :: "workflow_def \<Rightarrow> workflow_def" where
  "Workflow_free w = w\<lparr>wf_name := None, wf_xml := None\<rparr>"

definition Workflow_copy :: "workflow_def \<Rightarrow> workflow_def option" where
  "Workflow_copy w =
     (case (wf_name w, wf_xml w) of
        (Some n, Some x) \<Rightarrow> Some \<lparr>wf_id = wf_id w, wf_name = Some n, wf_xml = Some x\<rparr>
      | _ \<Rightarrow> None)"

definition Workflow_assign :: "workflow_def \<Rightarrow> workflow_def \<Rightarrow> workflow_def option" where
  "Workflow_assign this w =
     (let this = (Workflow_free this)\<lparr>wf_id := wf_id w\<rparr> in
      case (wf_name w, wf_xml w) of
        (Some n, Some x) \<Rightarrow> Some (this\<lparr>wf_name := Some n, wf_xml := Some x\<rparr>)
      | _ \<Rightarrow> None)"

record retry_schedule_def =
  schedule_xml :: "string option"

definition RetrySchedule_new :: "table \<Rightarrow> string \<Rightarrow> (exn + retry_schedule_def) option" where
  "RetrySchedule_new t_schedule name =
     (case t_schedule name of
        None \<Rightarrow> Some (Inl (Exception ''RetrySchedule'' ''Unknown retry schedule''))
      | Some r \<Rightarrow> map_option (\<lambda>x. Inr \<lparr>schedule_xml = Some x\<rparr>) (r ! 0))"

definition RetrySchedule_free :: "retry_schedule_def \<Rightarrow> retry_schedule_def" where
  "RetrySchedule_free s = s\<lparr>schedule_xml := None\<rparr>"

definition RetrySchedule_copy :: "retry_schedule_def \<Rightarrow> retry_schedule_def option" where
  "RetrySchedule_copy s = map_option (\<lambda>x. \<lparr>schedule_xml = Some x\<rparr>) (schedule_xml s)"

definition RetrySchedule_assign :: "retry_schedule_def \<Rightarrow> retry_schedule_def \<Rightarrow> retry_schedule_def option" where
  "RetrySchedule_assign this s =
     (let this = RetrySchedule_free this
      in map_option (\<lambda>x. this\<lparr>schedule_xml := Some x\<rparr>) (schedule_xml s))"

section \<open>The catalogues\<close>

text \<open>
  A catalogue with its mutex: \<open>cat_locked\<close> says that the mutex was left locked by an
  operation that has returned. An operation on such a catalogue blocks for ever: \<open>None\<close>, as
  for undefined behaviour.
\<close>

record 'v catalogue =
  cat_locked :: bool
  cat_map :: "string \<rightharpoonup> 'v"

text \<open>The loop over the listed names; it stops at the first constructor that throws.\<close>

fun load_rows ::
  "(string \<Rightarrow> (exn + 'v) option) \<Rightarrow> string list \<Rightarrow> (string \<rightharpoonup> 'v) \<Rightarrow> (exn option \<times> (string \<rightharpoonup> 'v)) option" where
  "load_rows new [] m = Some (None, m)"
| "load_rows new (n # ns) m =
     (case new n of
        None \<Rightarrow> None
      | Some (Inl e) \<Rightarrow> Some (Some e, m)
      | Some (Inr v) \<Rightarrow> load_rows new ns (m(n \<mapsto> v)))"

text \<open>An exception leaves \<open>Reload\<close> without unlocking the mutex.\<close>

definition cat_reload ::
  "(string \<Rightarrow> (exn + 'v) option) \<Rightarrow> string list \<Rightarrow> 'v catalogue \<Rightarrow> (exn option \<times> 'v catalogue) option" where
  "cat_reload new names c =
     (if cat_locked c then None
      else case load_rows new names Map.empty of
             None \<Rightarrow> None
           | Some (e, m) \<Rightarrow> Some (e, \<lparr>cat_locked = (e \<noteq> None), cat_map = m\<rparr>))"

definition cat_get ::
  "('v \<Rightarrow> 'v option) \<Rightarrow> exn \<Rightarrow> string \<Rightarrow> 'v catalogue \<Rightarrow> (exn + 'v) option" where
  "cat_get copy unknown name c =
     (if cat_locked c then None
      else case cat_map c name of
             None \<Rightarrow> Some (Inl unknown)
           | Some v \<Rightarrow> map_option Inr (copy v))"

definition Tasks_Reload :: "table \<Rightarrow> string list \<Rightarrow> task_def catalogue \<Rightarrow> (exn option \<times> task_def catalogue) option" where
  "Tasks_Reload t_task names c = cat_reload (Task_new t_task) names c"

definition GetTask :: "string \<Rightarrow> task_def catalogue \<Rightarrow> (exn + task_def) option" where
  "GetTask name c = cat_get Task_copy (Exception ''Tasks'' ''Unable to find task'') name c"

definition Workflows_Reload ::
  "table \<Rightarrow> string list \<Rightarrow> workflow_def catalogue \<Rightarrow> (exn option \<times> workflow_def catalogue) option" where
  "Workflows_Reload t_workflow names c = cat_reload (Workflow_new t_workflow) names c"

definition GetWorkflow :: "string \<Rightarrow> workflow_def catalogue \<Rightarrow> (exn + workflow_def) option" where
  "GetWorkflow name c = cat_get Workflow_copy (Exception ''Workflows'' ''Unable to find workflow'') name c"

definition RetrySchedules_Reload ::
  "table \<Rightarrow> string list \<Rightarrow> retry_schedule_def catalogue \<Rightarrow> (exn option \<times> retry_schedule_def catalogue) option" where
  "RetrySchedules_Reload t_schedule names c = cat_reload (RetrySchedule_new t_schedule) names c"

definition GetRetrySchedule :: "string \<Rightarrow> retry_schedule_def catalogue \<Rightarrow> (exn + retry_schedule_def) option" where
  "GetRetrySchedule name c =
     cat_get RetrySchedule_copy (Exception ''RetrySchedules'' ''Unable to find schedule'') name c"

section \<open>The contract\<close>

text \<open>
  What the users of a catalogue rely on: a reload that returns normally makes the getter
  answer from the rows it read; one that throws was caused by a row that has disappeared since
  the listing, and no later operation returns.
\<close>

locale catalogue_contract =
  fixes new :: "table \<Rightarrow> string \<Rightarrow> (exn + 'v) option"
    and reload :: "table \<Rightarrow> string list \<Rightarrow> 'v catalogue \<Rightarrow> (exn option \<times> 'v catalogue) option"
    and get :: "string \<Rightarrow> 'v catalogue \<Rightarrow> (exn + 'v) option"
    and unknown :: exn
  assumes new_missing: "t n = None \<Longrightarrow> \<exists>e. new t n = Some (Inl e)"
    and new_present: "t n = Some r \<Longrightarrow> new t n \<noteq> Some (Inl e)"
    and reload_generic: "reload t names c = cat_reload (new t) names c"
    and get_loaded: "\<not> cat_locked c \<Longrightarrow> cat_map c n = Some v \<Longrightarrow> new t n = Some (Inr v) \<Longrightarrow>
      get n c = Some (Inr v)"
    and get_unknown: "\<not> cat_locked c \<Longrightarrow> cat_map c n = None \<Longrightarrow> get n c = Some (Inl unknown)"
    and get_locked: "cat_locked c \<Longrightarrow> get n c = None"
begin

lemma load_rows_ok:
  "load_rows (new t) ns m = Some (None, m') \<Longrightarrow>
   m' n = (if n \<in> set ns then (case new t n of Some (Inr v) \<Rightarrow> Some v | _ \<Rightarrow> None) else m n) \<and>
   (n \<in> set ns \<longrightarrow> (\<exists>v. new t n = Some (Inr v)))"
  by (induction ns arbitrary: m) (auto split: option.splits sum.splits if_splits)

lemma load_rows_throws:
  "load_rows (new t) ns m = Some (Some e, m') \<Longrightarrow> \<exists>n \<in> set ns. t n = None"
proof (induction ns arbitrary: m)
  case (Cons n ns)
  show ?case
  proof (cases "t n")
    case (Some r)
    then have "new t n \<noteq> Some (Inl e')" for e' by (rule new_present)
    with Cons show ?thesis by (auto split: option.splits sum.splits)
  qed simp
qed simp

lemma reload_then_get:
  assumes "reload t names c = Some (None, c')"
  shows "get n c' = (if n \<in> set names then new t n else Some (Inl unknown))"
proof -
  from assms have c: "\<not> cat_locked c'" and rows: "load_rows (new t) names Map.empty = Some (None, cat_map c')"
    by (auto simp: reload_generic cat_reload_def split: if_splits option.splits)
  show ?thesis
  proof (cases "n \<in> set names")
    case True
    with load_rows_ok [OF rows, of n] obtain v where "new t n = Some (Inr v)" "cat_map c' n = Some v"
      by auto
    with get_loaded [OF c] True show ?thesis by simp
  next
    case False
    with load_rows_ok [OF rows, of n] get_unknown [OF c] show ?thesis by simp
  qed
qed

lemma reload_throws:
  assumes "reload t names c = Some (Some e, c')"
  shows "(\<exists>n \<in> set names. t n = None) \<and> get n c' = None \<and> reload t' names' c' = None"
proof -
  from assms have c: "cat_locked c'" and rows: "load_rows (new t) names Map.empty = Some (Some e, cat_map c')"
    by (auto simp: reload_generic cat_reload_def split: if_splits option.splits)
  from c load_rows_throws [OF rows] get_locked [OF c] show ?thesis
    by (simp add: reload_generic cat_reload_def)
qed

end

interpretation tasks: catalogue_contract Task_new Tasks_Reload GetTask
  "Exception ''Tasks'' ''Unable to find task''"
proof unfold_locales
  show "GetTask n c = Some (Inr v)"
    if "\<not> cat_locked c" "cat_map c n = Some v" "Task_new t n = Some (Inr v)" for c n v t
    using that by (auto simp: GetTask_def cat_get_def Task_new_def Task_copy_def split: option.splits)
qed (auto simp: Task_new_def Tasks_Reload_def GetTask_def cat_get_def split: option.splits)

interpretation workflows: catalogue_contract Workflow_new Workflows_Reload GetWorkflow
  "Exception ''Workflows'' ''Unable to find workflow''"
proof unfold_locales
  show "GetWorkflow n c = Some (Inr v)"
    if "\<not> cat_locked c" "cat_map c n = Some v" "Workflow_new t n = Some (Inr v)" for c n v t
    using that
    by (auto simp: GetWorkflow_def cat_get_def Workflow_new_def Workflow_copy_def split: option.splits)
qed (auto simp: Workflow_new_def Workflows_Reload_def GetWorkflow_def cat_get_def split: option.splits)

interpretation retry_schedules: catalogue_contract RetrySchedule_new RetrySchedules_Reload GetRetrySchedule
  "Exception ''RetrySchedules'' ''Unable to find schedule''"
proof unfold_locales
  show "GetRetrySchedule n c = Some (Inr v)"
    if "\<not> cat_locked c" "cat_map c n = Some v" "RetrySchedule_new t n = Some (Inr v)" for c n v t
    using that
    by (auto simp: GetRetrySchedule_def cat_get_def RetrySchedule_new_def RetrySchedule_copy_def
        split: option.splits)
qed (auto simp: RetrySchedule_new_def RetrySchedules_Reload_def GetRetrySchedule_def cat_get_def
    split: option.splits)

text \<open>
  Assigning a definition that came from the database is the same as copying it, whatever the
  target held before (the fields that are \<open>NULL\<close> in the source were freed in the target).
\<close>

lemma Task_assign_copy: "Task_assign this t = Task_copy t"
  by (cases t) (auto simp: Task_assign_def Task_copy_def Task_free_def Let_def split: option.splits)

lemma Workflow_assign_copy: "Workflow_assign this w = Workflow_copy w"
  by (cases w) (auto simp: Workflow_assign_def Workflow_copy_def Workflow_free_def Let_def split: option.splits)

lemma RetrySchedule_assign_copy: "RetrySchedule_assign this s = RetrySchedule_copy s"
  by (cases s; cases this; cases "schedule_xml s")
    (auto simp: RetrySchedule_assign_def RetrySchedule_copy_def RetrySchedule_free_def Let_def)

text \<open>
  After a reload of the tasks that returns normally, looking a task up (and assigning
  the result, as its users do) gives the definition built from the row of that name for every
  name the listing returned, and the exception \<open>Unable to find task\<close> for every other name.
\<close>

theorem Tasks_Reload_GetTask:
  assumes "Tasks_Reload t_task names c = Some (None, c')"
  shows "(n \<in> set names \<longrightarrow> (\<exists>t. Task_new t_task n = Some (Inr t) \<and> GetTask n c' = Some (Inr t) \<and>
      Task_assign Task_default t = Some t)) \<and>
    (n \<notin> set names \<longrightarrow> GetTask n c' = Some (Inl (Exception ''Tasks'' ''Unable to find task'')))"
proof (intro conjI impI)
  assume n: "n \<in> set names"
  from assms have "load_rows (Task_new t_task) names Map.empty = Some (None, cat_map c')"
    by (auto simp: Tasks_Reload_def cat_reload_def split: if_splits option.splits)
  from tasks.load_rows_ok [OF this, of n] n obtain t where t: "Task_new t_task n = Some (Inr t)" by auto
  then have "Task_copy t = Some t"
    by (auto simp: Task_new_def Task_copy_def split: option.splits)
  with t n tasks.reload_then_get [OF assms, of n]
  show "\<exists>t. Task_new t_task n = Some (Inr t) \<and> GetTask n c' = Some (Inr t) \<and>
      Task_assign Task_default t = Some t"
    by (auto simp: Task_assign_copy)
next
  assume "n \<notin> set names"
  with tasks.reload_then_get [OF assms, of n]
  show "GetTask n c' = Some (Inl (Exception ''Tasks'' ''Unable to find task''))" by simp
qed

definition demo_tasks :: table where
  "demo_tasks n = (if n = ''ls'' then Some [Some ''/bin/ls'', None, None, None, Some ''CMDLINE'', Some ''TEXT'']
     else None)"

theorem Tasks_Reload_GetTask_witness:
  "\<exists>c t. Tasks_Reload demo_tasks [''ls''] \<lparr>cat_locked = False, cat_map = Map.empty\<rparr> = Some (None, c) \<and>
     GetTask ''ls'' c = Some (Inr t)"
proof -
  define new_map where "new_map = [''ls'' \<mapsto> \<lparr>task_binary = Some ''/bin/ls'', task_wd = None,
    task_user = None, task_host = None, parameters_mode = PM_CMDLINE, output_method = OM_TEXT\<rparr>]"
  have "Tasks_Reload demo_tasks [''ls''] \<lparr>cat_locked = False, cat_map = Map.empty\<rparr> =
      Some (None, \<lparr>cat_locked = False, cat_map = new_map\<rparr>)"
    by (simp add: Tasks_Reload_def cat_reload_def Task_new_def demo_tasks_def new_map_def)
  from Tasks_Reload_GetTask [OF this, of "''ls''"] this show ?thesis by auto
qed

text \<open>
  When a definition disappears between the listing and its own query, \<open>Reload\<close> throws
  and leaves the catalogue's mutex locked: from then on no lookup and no reload returns, in each
  of the three catalogues.
\<close>

theorem failed_reload_blocks:
  "(Tasks_Reload t1 names1 c1 = Some (Some e1, c1') \<longrightarrow>
      GetTask n c1' = None \<and> Tasks_Reload t1' names1' c1' = None) \<and>
   (Workflows_Reload t2 names2 c2 = Some (Some e2, c2') \<longrightarrow>
      GetWorkflow n c2' = None \<and> Workflows_Reload t2' names2' c2' = None) \<and>
   (RetrySchedules_Reload t3 names3 c3 = Some (Some e3, c3') \<longrightarrow>
      GetRetrySchedule n c3' = None \<and> RetrySchedules_Reload t3' names3' c3' = None)"
  by (intro conjI impI)
    (drule tasks.reload_throws workflows.reload_throws retry_schedules.reload_throws; blast)+

definition empty_catalogue :: "'v catalogue" where
  "empty_catalogue = \<lparr>cat_locked = False, cat_map = Map.empty\<rparr>"

theorem failed_reload_blocks_witness:
  "GetTask ''ls'' (snd (the (Tasks_Reload (\<lambda>_. None) [''ls''] empty_catalogue))) = None \<and>
   GetWorkflow ''w'' (snd (the (Workflows_Reload (\<lambda>_. None) [''w''] empty_catalogue))) = None \<and>
   GetRetrySchedule ''r'' (snd (the (RetrySchedules_Reload (\<lambda>_. None) [''r''] empty_catalogue))) = None"
proof -
  let ?locked = "\<lparr>cat_locked = True, cat_map = Map.empty\<rparr>"
  have t: "Tasks_Reload (\<lambda>_. None) [''ls''] empty_catalogue = Some (Some (Exception ''Task'' ''Unknown task''), ?locked)"
    by (simp add: Tasks_Reload_def cat_reload_def Task_new_def empty_catalogue_def)
  have w: "Workflows_Reload (\<lambda>_. None) [''w''] empty_catalogue =
      Some (Some (Exception ''Workflow'' ''Unknown Workflow''), ?locked)"
    by (simp add: Workflows_Reload_def cat_reload_def Workflow_new_def empty_catalogue_def)
  have r: "RetrySchedules_Reload (\<lambda>_. None) [''r''] empty_catalogue =
      Some (Some (Exception ''RetrySchedule'' ''Unknown retry schedule''), ?locked)"
    by (simp add: RetrySchedules_Reload_def cat_reload_def RetrySchedule_new_def empty_catalogue_def)
  note blocked = failed_reload_blocks
  have "GetTask ''ls'' ?locked = None"
    by (rule blocked [THEN conjunct1, rule_format, OF t, THEN conjunct1])
  moreover have "GetWorkflow ''w'' ?locked = None"
    by (rule blocked [THEN conjunct2, THEN conjunct1, rule_format, OF w, THEN conjunct1])
  moreover have "GetRetrySchedule ''r'' ?locked = None"
    by (rule blocked [THEN conjunct2, THEN conjunct2, rule_format, OF r, THEN conjunct1])
  ultimately show ?thesis using t w r by simp
qed

end
