(* ===== verification/Workflow_Scheduler.thy ===== *)
theory Workflow_Scheduler
  imports Event_Scheduler Lookup_Tables Cron_Schedule Workflow_Parameters Catalogues
    "HOL-Library.Multiset"
begin

text \<open>
  The scheduler of workflows: \<open>WorkflowScheduler.cpp\<close> and the scheduled objects of
  \<open>WorkflowSchedule.cpp\<close>. The objects live in a store, so that a deleted object that is used
  again, or a null pointer that is followed, is visible: the operation then gives \<open>None\<close>.
  The next date of a schedule, which depends on the clock and the time zone, is the argument
  \<open>next_date\<close>; it stands for \<open>GetNextTime localtime mktime _ now\<close>.
\<close>

section \<open>Scheduled workflows\<close>

datatype onfailure_behavior = CONTINUE | SUSPEND

record workflow_schedule =
  ws_id :: u32
  ws_name :: string
  ws_onfailure :: "onfailure_behavior option" \<comment> \<open>\<open>None\<close>: never assigned\<close>
  ws_host :: "string option"
  ws_user :: "string option"
  ws_parameters :: parameters
  ws_schedule :: schedule

text \<open>
  The constructor: the row of the first query (\<open>None\<close>: no row) and the parameter rows of the
  second. It throws for an unknown identifier and when the schedule description is refused.
\<close>

definition WorkflowSchedule_new ::
  "u32 \<Rightarrow> row option \<Rightarrow> (string \<times> string) list \<Rightarrow> (exn + workflow_schedule) option" where
  "WorkflowSchedule_new workflow_schedule_id r params =
     (case r of
        None \<Rightarrow> Some (Inl (Exception ''WorkflowSchedule'' ''Unknown schedule ID''))
      | Some r \<Rightarrow>
          (case (r ! 0, r ! 1, r ! 2) of
             (Some name, Some description, Some onfail) \<Rightarrow>
               (case Schedule description of
                  Inl e \<Rightarrow> Some (Inl e)
                | Inr sch \<Rightarrow> Some (Inr \<lparr>ws_id = workflow_schedule_id, ws_name = name,
                    ws_onfailure = (if strcmp onfail ''CONTINUE'' = 0 then Some CONTINUE
                      else if strcmp onfail ''SUSPEND'' = 0 then Some SUSPEND else None),
                    ws_host = r ! 3, ws_user = r ! 4, ws_parameters = add_all params Parameters_new, ws_schedule = sch\<rparr>))
           | _ \<Rightarrow> None))"

type_synonym ws_ref = nat

record wf_scheduler =
  w_sched :: "ws_ref scheduler"
  wfs_ids :: "u32 list"
  wfs_wi_ids :: "u32 list"
  wfs_executing_instances :: "ws_ref option list"
  ws_store :: "ws_ref \<rightharpoonup> workflow_schedule"
  ws_next :: ws_ref

text \<open>\<open>init\<close>: the arrays, from the ordered list of the active schedules' identifiers.\<close>

definition wfs_init :: "u32 list \<Rightarrow> wf_scheduler \<Rightarrow> wf_scheduler" where
  "wfs_init ids s = s\<lparr>wfs_ids := ids, wfs_wi_ids := replicate (length ids) 0,
     wfs_executing_instances := replicate (length ids) None\<rparr>"

definition WorkflowScheduler_new :: "u32 list \<Rightarrow> wf_scheduler" where
  "WorkflowScheduler_new ids = wfs_init ids
     \<lparr>w_sched = Scheduler_new, wfs_ids = [], wfs_wi_ids = [], wfs_executing_instances = [],
      ws_store = Map.empty, ws_next = 0\<rparr>"

definition lookup_wfs :: "wf_scheduler \<Rightarrow> u32 \<Rightarrow> int" where
  "lookup_wfs s i = id_lookup (wfs_ids s) i"

definition ws_new :: "workflow_schedule \<Rightarrow> wf_scheduler \<Rightarrow> ws_ref \<times> wf_scheduler" where
  "ws_new w s = (ws_next s, s\<lparr>ws_store := (ws_store s)(ws_next s \<mapsto> w), ws_next := ws_next s + 1\<rparr>)"

definition ws_delete :: "ws_ref \<Rightarrow> wf_scheduler \<Rightarrow> wf_scheduler" where
  "ws_delete r s = s\<lparr>ws_store := (ws_store s)(r := None)\<rparr>"

definition set_executing :: "nat \<Rightarrow> u32 \<Rightarrow> ws_ref option \<Rightarrow> wf_scheduler \<Rightarrow> wf_scheduler" where
  "set_executing i wi r s = s\<lparr>wfs_wi_ids := (wfs_wi_ids s)[i := wi],
     wfs_executing_instances := (wfs_executing_instances s)[i := r]\<rparr>"

section \<open>Operations\<close>

definition ScheduleWorkflow ::
  "(schedule \<Rightarrow> int option) \<Rightarrow> ws_ref option \<Rightarrow> u32 \<Rightarrow> wf_scheduler \<Rightarrow> wf_scheduler option" where
  "ScheduleWorkflow next_date workflow_schedule workflow_instance_id s =
     (case workflow_schedule of
        None \<Rightarrow> None
      | Some r \<Rightarrow>
          (case ws_store s r of
             None \<Rightarrow> None
           | Some w \<Rightarrow>
               if workflow_instance_id = 0
               then (case next_date (ws_schedule w) of
                       None \<Rightarrow> None
                     | Some t \<Rightarrow> Some (s\<lparr>w_sched :=
                         snd (InsertEvent \<lparr>scheduled_at = t, payload = r\<rparr> (w_sched s))\<rparr>))
               else let i = lookup_wfs s (ws_id w) in
                 Some (if i \<noteq> -1 then set_executing (nat i) workflow_instance_id (Some r) s else s)))"

text \<open>The second result: the schedule to be marked inactive in the database.\<close>

definition ScheduledWorkflowInstanceStop ::
  "(schedule \<Rightarrow> int option) \<Rightarrow> u32 \<Rightarrow> bool \<Rightarrow> wf_scheduler \<Rightarrow> (u32 option \<times> wf_scheduler) option" where
  "ScheduledWorkflowInstanceStop next_date workflow_schedule_id success s =
     (let i = lookup_wfs s workflow_schedule_id in
      if i = -1 then Some (None, s)
      else
        let workflow_schedule = wfs_executing_instances s ! nat i;
            s = set_executing (nat i) 0 None s
        in if success
           then map_option (Pair None) (ScheduleWorkflow next_date workflow_schedule 0 s)
           else
             (case workflow_schedule of
                None \<Rightarrow> None
              | Some r \<Rightarrow>
                  (case ws_store s r of
                     None \<Rightarrow> None
                   | Some w \<Rightarrow>
                       (case ws_onfailure w of
                          None \<Rightarrow> None
                        | Some CONTINUE \<Rightarrow>
                            map_option (Pair None) (ScheduleWorkflow next_date workflow_schedule 0 s)
                        | Some SUSPEND \<Rightarrow> Some (Some (ws_id w), ws_delete r s)))))"

text \<open>
  \<open>event_removed\<close> for an alarm. \<open>inst\<close> is what constructing the instance does: throw, or
  register an instance with that identifier (which is then started).
\<close>

definition wfs_event_alarm :: "ws_ref \<Rightarrow> exn + u32 \<Rightarrow> wf_scheduler \<Rightarrow> wf_scheduler option" where
  "wfs_event_alarm r inst s =
     (case ws_store s r of
        None \<Rightarrow> None
      | Some w \<Rightarrow>
          (case inst of
             Inl e \<Rightarrow> Some (ws_delete r s)
           | Inr wi \<Rightarrow>
               let i = lookup_wfs s (ws_id w) in
               Some (if i \<noteq> -1 then set_executing (nat i) wi (Some r) s else s)))"

definition wfs_event_flush :: "ws_ref \<Rightarrow> wf_scheduler \<Rightarrow> wf_scheduler" where
  "wfs_event_flush r s = ws_delete r s"

text \<open>One alarm of the serving thread: the first due event is removed and handled.\<close>

definition wfs_alarm :: "int \<Rightarrow> (workflow_schedule \<Rightarrow> exn + u32) \<Rightarrow> wf_scheduler \<Rightarrow> wf_scheduler option" where
  "wfs_alarm now inst s =
     (case shift_event now (w_sched s) of
        (None, q) \<Rightarrow> Some (s\<lparr>w_sched := q\<rparr>)
      | (Some e, q) \<Rightarrow>
          (case ws_store s (payload e) of
             None \<Rightarrow> None
           | Some w \<Rightarrow> wfs_event_alarm (payload e) (inst w) (s\<lparr>w_sched := q\<rparr>)))"

text \<open>The loop of \<open>Reload\<close> over the active schedules, with the arrays saved before.\<close>

fun reload_loop ::
  "(schedule \<Rightarrow> int option) \<Rightarrow> (u32 \<Rightarrow> exn + workflow_schedule) \<Rightarrow> u32 list \<Rightarrow> u32 list \<Rightarrow>
   ws_ref option list \<Rightarrow> u32 list \<Rightarrow> wf_scheduler \<Rightarrow> wf_scheduler option" where
  "reload_loop next_date load b_ids b_wi b_exec [] s = Some s"
| "reload_loop next_date load b_ids b_wi b_exec (row # rows) s =
     (case load row of
        Inl e \<Rightarrow> reload_loop next_date load b_ids b_wi b_exec rows s
      | Inr w \<Rightarrow>
          let (r, s) = ws_new w s; i = id_lookup b_ids row in
          (case (if i = -1 \<or> b_exec ! nat i = None
                 then ScheduleWorkflow next_date (Some r) 0 s
                 else ScheduleWorkflow next_date (Some r) (b_wi ! nat i) s) of
             None \<Rightarrow> None
           | Some s \<Rightarrow> reload_loop next_date load b_ids b_wi b_exec rows s))"

definition executing_refs :: "ws_ref option list \<Rightarrow> ws_ref list" where
  "executing_refs = List.map_filter (\<lambda>x. x)"

definition WorkflowScheduler_Reload ::
  "(schedule \<Rightarrow> int option) \<Rightarrow> (u32 \<Rightarrow> exn + workflow_schedule) \<Rightarrow> u32 list \<Rightarrow> u32 list \<Rightarrow>
   wf_scheduler \<Rightarrow> wf_scheduler option" where
  "WorkflowScheduler_Reload next_date load ids rows s =
     (let (eff, gone, q) = Flush flush_filter_default False (w_sched s);
          s = fold (\<lambda>e. wfs_event_flush (payload e)) gone (s\<lparr>w_sched := q\<rparr>);
          backup_wfs_ids = wfs_ids s; backup_wfs_wi_ids = wfs_wi_ids s;
          backup_wfs_executing_instances = wfs_executing_instances s
      in case reload_loop next_date load backup_wfs_ids backup_wfs_wi_ids
                backup_wfs_executing_instances rows (wfs_init ids s) of
           None \<Rightarrow> None
         | Some s \<Rightarrow> Some (fold ws_delete (executing_refs backup_wfs_executing_instances) s))"

text \<open>
  What \<open>SendStatus\<close> reports: the waiting schedules with their dates, then the running
  ones with their instances (\<open>None\<close> in the place of the date).
\<close>

definition wfs_status :: "wf_scheduler \<Rightarrow> (u32 \<times> string \<times> int option \<times> u32 option) option list" where
  "wfs_status s =
     List.map (\<lambda>e. map_option (\<lambda>w. (ws_id w, ws_name w, Some (scheduled_at e), None))
            (ws_store s (payload e))) (first_event (w_sched s)) @
     List.map_filter (\<lambda>i. case wfs_executing_instances s ! i of
         None \<Rightarrow> None
       | Some r \<Rightarrow> Some (map_option (\<lambda>w. (ws_id w, ws_name w, None, Some (wfs_wi_ids s ! i)))
            (ws_store s r))) [0..<length (wfs_ids s)]"

section \<open>The invariant\<close>

text \<open>
  The objects in use: those of the waiting events and those of the executing instances.
  Every one of them is allocated, no schedule is in use twice, and an executing entry belongs to
  the schedule of its index and has an instance.
\<close>

definition used_refs :: "wf_scheduler \<Rightarrow> ws_ref list" where
  "used_refs s = List.map payload (first_event (w_sched s)) @ executing_refs (wfs_executing_instances s)"

definition id_of :: "wf_scheduler \<Rightarrow> ws_ref \<Rightarrow> u32" where
  "id_of s r = ws_id (the (ws_store s r))"

definition used_ids :: "wf_scheduler \<Rightarrow> u32 multiset" where
  "used_ids s = image_mset (id_of s) (mset (used_refs s))"

definition good_ws :: "(schedule \<Rightarrow> int option) \<Rightarrow> workflow_schedule \<Rightarrow> bool" where
  "good_ws next_date w \<longleftrightarrow> next_date (ws_schedule w) \<noteq> None \<and> ws_onfailure w \<noteq> None"

definition wfs_inv :: "(schedule \<Rightarrow> int option) \<Rightarrow> wf_scheduler \<Rightarrow> bool" where
  "wfs_inv next_date s \<longleftrightarrow> sched_inv (w_sched s) \<and> sorted (wfs_ids s) \<and> distinct (wfs_ids s) \<and>
     length (wfs_wi_ids s) = length (wfs_ids s) \<and>
     length (wfs_executing_instances s) = length (wfs_ids s) \<and>
     (\<forall>r w. ws_store s r = Some w \<longrightarrow> r < ws_next s \<and> good_ws next_date w) \<and>
     (\<forall>r \<in> set (used_refs s). ws_store s r \<noteq> None) \<and>
     distinct (List.map (id_of s) (used_refs s)) \<and>
     (\<forall>i < length (wfs_ids s). \<forall>r. wfs_executing_instances s ! i = Some r \<longrightarrow>
        id_of s r = wfs_ids s ! i \<and> wfs_wi_ids s ! i \<noteq> 0)"

lemma executing_refs_simps [simp]:
  "executing_refs [] = []" "executing_refs (None # xs) = executing_refs xs"
  "executing_refs (Some r # xs) = r # executing_refs xs"
  by (simp_all add: executing_refs_def List.map_filter_simps)

lemma executing_refs_append [simp]: "executing_refs (xs @ ys) = executing_refs xs @ executing_refs ys"
  by (simp add: executing_refs_def map_filter_def)

lemma executing_refs_replicate [simp]: "executing_refs (replicate n None) = []"
  by (induction n) simp_all

lemma executing_refs_mem: "r \<in> set (executing_refs xs) \<longleftrightarrow> Some r \<in> set xs"
  by (induction xs) (auto simp: executing_refs_def List.map_filter_simps split: option.splits)

lemma executing_refs_update:
  assumes "i < length xs"
  shows "mset (executing_refs (xs[i := y])) + mset (executing_refs [xs ! i]) =
    mset (executing_refs xs) + mset (executing_refs [y])"
proof -
  have "xs = take i xs @ [xs ! i] @ drop (Suc i) xs" using assms by (simp add: id_take_nth_drop)
  then have 1: "mset (executing_refs xs) =
      mset (executing_refs (take i xs)) + mset (executing_refs [xs ! i]) + mset (executing_refs (drop (Suc i) xs))"
    by (metis add.assoc executing_refs_append mset_append)
  have "executing_refs (xs[i := y]) =
      executing_refs (take i xs @ [y] @ drop (Suc i) xs)" using assms by (simp add: list_update_split)
  then have 2: "mset (executing_refs (xs[i := y])) =
      mset (executing_refs (take i xs)) + mset (executing_refs [y]) + mset (executing_refs (drop (Suc i) xs))"
    by (metis add.assoc executing_refs_append mset_append)
  show ?thesis unfolding 1 2 by simp
qed

lemma used_refs_cong:
  "mset (used_refs s') = mset (used_refs s) \<Longrightarrow> set (used_refs s') = set (used_refs s) \<and>
   (distinct (List.map f (used_refs s')) \<longleftrightarrow> distinct (List.map f (used_refs s)))"
  by (metis mset_eq_imp_distinct_iff mset_eq_setD mset_map)

lemma used_refs_add:
  assumes "mset (used_refs s') = add_mset r (mset (used_refs s))"
  shows "set (used_refs s') = insert r (set (used_refs s)) \<and>
   (distinct (List.map f (used_refs s')) \<longleftrightarrow>
      f r \<notin> f ` set (used_refs s) \<and> distinct (List.map f (used_refs s)))"
proof -
  have m: "mset (used_refs s') = mset (r # used_refs s)" using assms by simp
  then have "distinct (List.map f (used_refs s')) = distinct (List.map f (r # used_refs s))"
    by (metis mset_eq_imp_distinct_iff mset_map)
  with mset_eq_setD [OF m] show ?thesis by simp
qed

lemma lookup_wfs_known:
  assumes "wfs_inv nd s" and "lookup_wfs s j \<noteq> -1"
  shows "nat (lookup_wfs s j) < length (wfs_ids s)" and "wfs_ids s ! nat (lookup_wfs s j) = j"
proof -
  have srt: "sorted (wfs_ids s)" using assms(1) by (simp add: wfs_inv_def)
  then have "j \<in> set (wfs_ids s)"
    using id_table.lookup_fail_iff [of "wfs_ids s" j] assms(2) by (auto simp: lookup_wfs_def)
  from id_table.lookup_hit [OF srt _ this]
  show "nat (lookup_wfs s j) < length (wfs_ids s)" and "wfs_ids s ! nat (lookup_wfs s j) = j"
    by (simp_all add: lookup_wfs_def)
qed

lemma used_ids_set: "ws_store s r = Some w \<Longrightarrow> ws_id w \<in># used_ids s \<longleftrightarrow> id_of s r \<in> id_of s ` set (used_refs s)"
  by (simp add: used_ids_def id_of_def)

lemma executing_none:
  assumes "wfs_inv nd s" and "i < length (wfs_ids s)" and "wfs_ids s ! i \<notin># used_ids s"
  shows "wfs_executing_instances s ! i = None"
proof (rule ccontr)
  assume "wfs_executing_instances s ! i \<noteq> None"
  then obtain r where r: "wfs_executing_instances s ! i = Some r" by blast
  then have "Some r \<in> set (wfs_executing_instances s)"
    using assms(1,2) by (metis nth_mem wfs_inv_def)
  then have "r \<in> set (used_refs s)" by (simp add: used_refs_def executing_refs_mem)
  moreover have "id_of s r = wfs_ids s ! i" using assms(1,2) r by (simp add: wfs_inv_def)
  ultimately have "wfs_ids s ! i \<in> id_of s ` set (used_refs s)" by (metis image_eqI)
  with assms(3) show False by (simp add: used_ids_def)
qed

text \<open>Putting an unused schedule among the waiting ones, or among the executing ones.\<close>

lemma insert_waiting_inv:
  assumes "wfs_inv nd s" and "ws_store s r = Some w" and "ws_id w \<notin># used_ids s"
    and "sched_room (w_sched s)"
  shows "let s' = s\<lparr>w_sched := snd (InsertEvent \<lparr>scheduled_at = t, payload = r\<rparr> (w_sched s))\<rparr>
    in wfs_inv nd s' \<and> mset (used_refs s') = add_mset r (mset (used_refs s))"
proof -
  let ?e = "\<lparr>scheduled_at = t, payload = r\<rparr>"
  define s' where "s' = s\<lparr>w_sched := snd (InsertEvent ?e (w_sched s))\<rparr>"
  have si: "sched_inv (w_sched s)" using assms(1) by (simp add: wfs_inv_def)
  obtain xs ys where ev: "first_event (w_sched s) = xs @ ys"
    "first_event (snd (InsertEvent ?e (w_sched s))) = xs @ ?e # ys"
    using scheduler.insert_pending [OF si] by blast
  then have m: "mset (used_refs s') = add_mset r (mset (used_refs s))"
    by (simp add: used_refs_def s'_def)
  have f: "id_of s' = id_of s" by (simp add: fun_eq_iff id_of_def s'_def)
  have "id_of s r \<notin> id_of s ` set (used_refs s)" using assms(3) used_ids_set [OF assms(2)] by simp
  with used_refs_add [OF m, of "id_of s"] assms(1,2) scheduler.insert_valid [OF si assms(4), of ?e] f
  have "wfs_inv nd s'" by (auto simp: wfs_inv_def s'_def)
  with m show ?thesis by (simp add: s'_def Let_def)
qed

lemma set_executing_inv:
  assumes "wfs_inv nd s" and "ws_store s r = Some w" and "ws_id w \<notin># used_ids s"
    and "i < length (wfs_ids s)" and "wfs_ids s ! i = ws_id w" and "wi \<noteq> 0"
  shows "wfs_inv nd (set_executing i wi (Some r) s) \<and>
    mset (used_refs (set_executing i wi (Some r) s)) = add_mset r (mset (used_refs s))"
proof -
  let ?s = "set_executing i wi (Some r) s"
  have len: "i < length (wfs_executing_instances s)" using assms(1,4) by (simp add: wfs_inv_def)
  have none: "wfs_executing_instances s ! i = None"
    using executing_none [OF assms(1,4)] assms(3,5) by simp
  have m: "mset (used_refs ?s) = add_mset r (mset (used_refs s))"
    using executing_refs_update [OF len, of "Some r"] none by (simp add: used_refs_def set_executing_def)
  have f: "id_of ?s = id_of s" by (simp add: fun_eq_iff id_of_def set_executing_def)
  have "id_of s r \<notin> id_of s ` set (used_refs s)" using assms(3) used_ids_set [OF assms(2)] by simp
  with used_refs_add [OF m, of "id_of s"] assms(1,2) f
  have "distinct (List.map (id_of ?s) (used_refs ?s))" "\<forall>r \<in> set (used_refs ?s). ws_store s r \<noteq> None"
    by (auto simp: wfs_inv_def)
  moreover have "id_of s r = wfs_ids s ! i" using assms(2,5) by (simp add: id_of_def)
  ultimately have "wfs_inv nd ?s"
    using assms(1,4,6) len f by (auto simp: wfs_inv_def set_executing_def nth_list_update)
  with m show ?thesis by blast
qed

lemma clear_executing_inv:
  assumes "wfs_inv nd s" and "i < length (wfs_ids s)" and "wfs_executing_instances s ! i = Some r"
  shows "wfs_inv nd (set_executing i 0 None s) \<and>
    mset (used_refs s) = add_mset r (mset (used_refs (set_executing i 0 None s)))"
proof -
  let ?s = "set_executing i 0 None s"
  have len: "i < length (wfs_executing_instances s)" using assms(1,2) by (simp add: wfs_inv_def)
  have m: "mset (used_refs s) = add_mset r (mset (used_refs ?s))"
    using executing_refs_update [OF len, of None] assms(3) by (simp add: used_refs_def set_executing_def)
  have f: "id_of ?s = id_of s" by (simp add: fun_eq_iff id_of_def set_executing_def)
  from used_refs_add [OF m, of "id_of s"] assms(1) f
  have "distinct (List.map (id_of ?s) (used_refs ?s))" "\<forall>r \<in> set (used_refs ?s). ws_store s r \<noteq> None"
    by (auto simp: wfs_inv_def)
  then have "wfs_inv nd ?s"
    using assms(1,2) len f by (auto simp: wfs_inv_def set_executing_def nth_list_update)
  with m show ?thesis by blast
qed

text \<open>Changing the store outside the objects in use.\<close>

lemma wfs_inv_store:
  assumes "wfs_inv nd s"
    and "w_sched s' = w_sched s" "wfs_ids s' = wfs_ids s" "wfs_wi_ids s' = wfs_wi_ids s"
      "wfs_executing_instances s' = wfs_executing_instances s"
    and keep: "\<And>x. x \<in> set (used_refs s) \<Longrightarrow> ws_store s' x = ws_store s x"
    and good: "\<And>r w. ws_store s' r = Some w \<Longrightarrow> r < ws_next s' \<and> good_ws nd w"
  shows "wfs_inv nd s' \<and> used_refs s' = used_refs s \<and> used_ids s' = used_ids s"
proof -
  have u: "used_refs s' = used_refs s" using assms(2,5) by (simp add: used_refs_def)
  have f: "id_of s' x = id_of s x" if "x \<in> set (used_refs s)" for x
    using keep [OF that] by (simp add: id_of_def)
  then have d: "List.map (id_of s') (used_refs s) = List.map (id_of s) (used_refs s)" by simp
  have ex: "id_of s' r = id_of s r"
    if "i < length (wfs_ids s)" "wfs_executing_instances s ! i = Some r" for i r
  proof (rule f)
    have "Some r \<in> set (wfs_executing_instances s)"
      using that assms(1) by (metis nth_mem wfs_inv_def)
    then show "r \<in> set (used_refs s)" by (simp add: used_refs_def executing_refs_mem)
  qed
  have alloc: "\<forall>r \<in> set (used_refs s). ws_store s' r \<noteq> None"
    using assms(1) keep unfolding wfs_inv_def by metis
  have "wfs_inv nd s'"
    using assms(1) ex alloc good unfolding wfs_inv_def u d assms(2-5) by simp
  moreover have "used_ids s' = used_ids s"
    unfolding used_ids_def u using f by (intro image_mset_cong) simp
  ultimately show ?thesis using u by blast
qed

lemma stored_good: "wfs_inv nd s \<Longrightarrow> ws_store s r = Some w \<Longrightarrow> r < ws_next s \<and> good_ws nd w"
  unfolding wfs_inv_def by blast

lemma used_stored: "wfs_inv nd s \<Longrightarrow> r \<in> set (used_refs s) \<Longrightarrow> \<exists>w. ws_store s r = Some w"
  unfolding wfs_inv_def by blast

lemma ws_delete_inv:
  assumes "wfs_inv nd s" and "r \<notin> set (used_refs s)"
  shows "wfs_inv nd (ws_delete r s) \<and> used_refs (ws_delete r s) = used_refs s \<and>
    used_ids (ws_delete r s) = used_ids s"
  by (rule wfs_inv_store [OF assms(1)])
    (use assms(2) stored_good [OF assms(1)] in \<open>auto simp: ws_delete_def split: if_splits\<close>)

lemma ws_new_inv:
  assumes "wfs_inv nd s" and "good_ws nd w"
  shows "wfs_inv nd (snd (ws_new w s)) \<and> used_refs (snd (ws_new w s)) = used_refs s \<and>
    used_ids (snd (ws_new w s)) = used_ids s"
proof (rule wfs_inv_store [OF assms(1)])
  fix x assume "x \<in> set (used_refs s)"
  then show "ws_store (snd (ws_new w s)) x = ws_store s x"
    using used_stored [OF assms(1)] stored_good [OF assms(1)] by (fastforce simp: ws_new_def)
next
  fix r v assume "ws_store (snd (ws_new w s)) r = Some v"
  then show "r < ws_next (snd (ws_new w s)) \<and> good_ws nd v"
    using stored_good [OF assms(1), of r v] assms(2) by (auto simp: ws_new_def split: if_splits)
qed (simp_all add: ws_new_def)

lemma ws_new_stored: "ws_store (snd (ws_new w s)) (fst (ws_new w s)) = Some w"
  by (simp add: ws_new_def)

text \<open>\<open>ScheduleWorkflow\<close> on an allocated schedule that is not in use.\<close>

lemma ScheduleWorkflow_waiting:
  assumes "wfs_inv nd s" and "ws_store s r = Some w" and "ws_id w \<notin># used_ids s"
    and "sched_room (w_sched s)"
  shows "\<exists>t s'. nd (ws_schedule w) = Some t \<and> ScheduleWorkflow nd (Some r) 0 s = Some s' \<and>
    wfs_inv nd s' \<and> mset (used_refs s') = add_mset r (mset (used_refs s)) \<and>
    s' = s\<lparr>w_sched := snd (InsertEvent \<lparr>scheduled_at = t, payload = r\<rparr> (w_sched s))\<rparr>"
proof -
  obtain t where t: "nd (ws_schedule w) = Some t"
    using stored_good [OF assms(1,2)] by (auto simp: good_ws_def)
  with insert_waiting_inv [OF assms, of t] assms(2) show ?thesis
    by (simp add: ScheduleWorkflow_def Let_def)
qed

lemma ScheduleWorkflow_running:
  assumes "wfs_inv nd s" and "ws_store s r = Some w" and "ws_id w \<notin># used_ids s" and "wi \<noteq> 0"
  shows "\<exists>s'. ScheduleWorkflow nd (Some r) wi s = Some s' \<and> wfs_inv nd s' \<and>
    s' = (if lookup_wfs s (ws_id w) \<noteq> -1
          then set_executing (nat (lookup_wfs s (ws_id w))) wi (Some r) s else s) \<and>
    mset (used_refs s') = (if lookup_wfs s (ws_id w) \<noteq> -1
          then add_mset r (mset (used_refs s)) else mset (used_refs s))"
  using set_executing_inv [OF assms(1-3), of "nat (lookup_wfs s (ws_id w))" wi]
    lookup_wfs_known [OF assms(1), of "ws_id w"] assms
  by (auto simp: ScheduleWorkflow_def Let_def)

section \<open>The operations keep the invariant\<close>

definition stop_possible :: "wf_scheduler \<Rightarrow> u32 \<Rightarrow> bool" where
  "stop_possible s j \<longleftrightarrow> lookup_wfs s j = -1 \<or>
     wfs_executing_instances s ! nat (lookup_wfs s j) \<noteq> None"

lemma used_ids_after_clear:
  assumes "wfs_inv nd s" and "i < length (wfs_ids s)" and "wfs_executing_instances s ! i = Some r"
  shows "\<exists>w. ws_store s r = Some w \<and> ws_id w = wfs_ids s ! i \<and>
    ws_id w \<notin># used_ids (set_executing i 0 None s) \<and> r \<notin> set (used_refs (set_executing i 0 None s))"
proof -
  let ?s = "set_executing i 0 None s"
  have m: "mset (used_refs s) = add_mset r (mset (used_refs ?s))"
    using clear_executing_inv [OF assms] by simp
  have "r \<in> set (used_refs s)" using used_refs_add [OF m, of "id_of s"] by simp
  then obtain w where w: "ws_store s r = Some w" using used_stored [OF assms(1)] by blast
  have d: "distinct (List.map (id_of s) (used_refs s))" using assms(1) by (simp add: wfs_inv_def)
  have new: "id_of s r \<notin> id_of s ` set (used_refs ?s)"
    using used_refs_add [OF m, of "id_of s"] d by simp
  have f: "id_of ?s = id_of s" by (simp add: fun_eq_iff id_of_def set_executing_def)
  have "id_of s r = wfs_ids s ! i" using assms by (simp add: wfs_inv_def)
  then have "ws_id w = wfs_ids s ! i" using w by (simp add: id_of_def)
  moreover have "ws_id w \<notin># used_ids ?s"
    using new f w by (simp add: used_ids_def id_of_def)
  moreover have "r \<notin> set (used_refs ?s)" using new by blast
  ultimately show ?thesis using w by blast
qed

lemma stop_result:
  assumes "wfs_inv nd s" and "lookup_wfs s j = int i" and "wfs_executing_instances s ! i = Some r"
    and "sched_room (w_sched s)"
  shows "\<exists>w t d s'. ws_store s r = Some w \<and> ws_id w = j \<and> nd (ws_schedule w) = Some t \<and>
    ScheduledWorkflowInstanceStop nd j success s = Some (d, s') \<and> wfs_inv nd s' \<and>
    (if success \<or> ws_onfailure w = Some CONTINUE
     then d = None \<and> mset (used_refs s') = mset (used_refs s) \<and>
       s' = (set_executing i 0 None s)\<lparr>w_sched :=
         snd (InsertEvent \<lparr>scheduled_at = t, payload = r\<rparr> (w_sched s))\<rparr>
     else d = Some j \<and> add_mset r (mset (used_refs s')) = mset (used_refs s) \<and>
       s' = ws_delete r (set_executing i 0 None s))"
proof -
  let ?s = "set_executing i 0 None s"
  have i: "i < length (wfs_ids s)" "wfs_ids s ! i = j"
    using lookup_wfs_known [OF assms(1), of j] assms(2) by simp_all
  obtain w where w: "ws_store s r = Some w" "ws_id w = j" "ws_id w \<notin># used_ids ?s"
    "r \<notin> set (used_refs ?s)"
    using used_ids_after_clear [OF assms(1) i(1) assms(3)] i(2) by auto
  have inv: "wfs_inv nd ?s" and m: "mset (used_refs s) = add_mset r (mset (used_refs ?s))"
    using clear_executing_inv [OF assms(1) i(1) assms(3)] by simp_all
  have w': "ws_store ?s r = Some w" and room: "sched_room (w_sched ?s)"
    using w(1) assms(4) by (simp_all add: set_executing_def)
  obtain t s2 where sw: "nd (ws_schedule w) = Some t" "ScheduleWorkflow nd (Some r) 0 ?s = Some s2"
    "wfs_inv nd s2" "mset (used_refs s2) = add_mset r (mset (used_refs ?s))"
    "s2 = ?s\<lparr>w_sched := snd (InsertEvent \<lparr>scheduled_at = t, payload = r\<rparr> (w_sched ?s))\<rparr>"
    using ScheduleWorkflow_waiting [OF inv w' w(3) room] by blast
  have lk: "lookup_wfs s j \<noteq> -1" using assms(2) by simp
  obtain b where b: "ws_onfailure w = Some b"
    using stored_good [OF assms(1) w(1)] by (auto simp: good_ws_def)
  have st: "w_sched ?s = w_sched s" by (simp add: set_executing_def)
  show ?thesis
  proof (cases "success \<or> b = CONTINUE")
    case True
    then have "ScheduledWorkflowInstanceStop nd j success s = Some (None, s2)"
      using lk assms(2,3) sw(2) w' b by (auto simp: ScheduledWorkflowInstanceStop_def Let_def)
    with True w sw m b st show ?thesis by auto
  next
    case False
    then have nb: "b = SUSPEND" "\<not> success" by (cases b; simp)+
    then have "ScheduledWorkflowInstanceStop nd j success s = Some (Some j, ws_delete r ?s)"
      using lk assms(2,3) w' w(2) b by (simp add: ScheduledWorkflowInstanceStop_def Let_def)
    with nb ws_delete_inv [OF inv w(4)] w sw(1) m b show ?thesis by auto
  qed
qed

lemma alarm_shift_inv:
  assumes "wfs_inv nd s" and "shift_event now (w_sched s) = (Some e, q)"
  shows "wfs_inv nd (s\<lparr>w_sched := q\<rparr>) \<and> mset (used_refs s) = add_mset (payload e) (mset (used_refs (s\<lparr>w_sched := q\<rparr>)))"
proof -
  let ?s = "s\<lparr>w_sched := q\<rparr>"
  have ev: "first_event (w_sched s) = e # first_event q"
    using assms(2) by (auto simp: shift_event_def split: list.splits if_splits)
  have q: "sched_inv q" using shift_event_inv [of "w_sched s" now] assms by (simp add: wfs_inv_def)
  have u: "used_refs s = payload e # used_refs ?s" using ev by (simp add: used_refs_def)
  have f: "id_of ?s = id_of s" by (simp add: fun_eq_iff id_of_def)
  have "wfs_inv nd ?s" using assms(1) q f by (simp add: wfs_inv_def u)
  with u show ?thesis by simp
qed

lemma alarm_result:
  assumes "wfs_inv nd s" and "shift_event now (w_sched s) = (Some e, q)"
    and "\<And>w. inst w \<noteq> Inr 0"
  shows "\<exists>w s'. ws_store s (payload e) = Some w \<and> wfs_alarm now inst s = Some s' \<and> wfs_inv nd s' \<and>
    (case inst w of
       Inl x \<Rightarrow> mset (used_refs s) = add_mset (payload e) (mset (used_refs s'))
     | Inr wi \<Rightarrow> if lookup_wfs s (ws_id w) = -1
         then mset (used_refs s) = add_mset (payload e) (mset (used_refs s'))
         else mset (used_refs s') = mset (used_refs s))"
proof -
  let ?s = "s\<lparr>w_sched := q\<rparr>" and ?r = "payload e"
  have inv: "wfs_inv nd ?s" and m: "mset (used_refs s) = add_mset ?r (mset (used_refs ?s))"
    using alarm_shift_inv [OF assms(1,2)] by simp_all
  have "?r \<in> set (used_refs s)" using used_refs_add [OF m, of "id_of s"] by simp
  then obtain w where w: "ws_store s ?r = Some w" using used_stored [OF assms(1)] by blast
  have d: "distinct (List.map (id_of s) (used_refs s))" using assms(1) by (simp add: wfs_inv_def)
  have new: "id_of s ?r \<notin> id_of s ` set (used_refs ?s)"
    using used_refs_add [OF m, of "id_of s"] d by simp
  have f: "id_of ?s = id_of s" by (simp add: fun_eq_iff id_of_def)
  have notin: "?r \<notin> set (used_refs ?s)" using new by blast
  have notused: "ws_id w \<notin># used_ids ?s"
    using new f w by (simp add: used_ids_def id_of_def)
  have w': "ws_store ?s ?r = Some w" using w by simp
  show ?thesis
  proof (cases "inst w")
    case (Inl x)
    then have "wfs_alarm now inst s = Some (ws_delete ?r ?s)"
      using assms(2) w by (simp add: wfs_alarm_def wfs_event_alarm_def)
    with Inl w ws_delete_inv [OF inv notin] m show ?thesis by auto
  next
    case (Inr wi)
    let ?i = "lookup_wfs ?s (ws_id w)"
    have al: "wfs_alarm now inst s = Some (if ?i \<noteq> -1 then set_executing (nat ?i) wi (Some ?r) ?s else ?s)"
      using Inr assms(2) w by (simp add: wfs_alarm_def wfs_event_alarm_def Let_def)
    have "lookup_wfs s (ws_id w) = ?i" by (simp add: lookup_wfs_def)
    moreover have "wi \<noteq> 0" using assms(3) [of w] Inr by auto
    ultimately show ?thesis
      using al Inr w inv m set_executing_inv [OF inv w' notused, of "nat ?i" wi]
        lookup_wfs_known [OF inv, of "ws_id w"]
      by (cases "?i = -1") auto
  qed
qed

definition was_running :: "u32 list \<Rightarrow> ws_ref option list \<Rightarrow> u32 \<Rightarrow> bool" where
  "was_running b_ids b_exec j \<longleftrightarrow> id_lookup b_ids j \<noteq> -1 \<and> b_exec ! nat (id_lookup b_ids j) \<noteq> None"

definition load_ok :: "(schedule \<Rightarrow> int option) \<Rightarrow> (u32 \<Rightarrow> exn + workflow_schedule) \<Rightarrow> u32 list \<Rightarrow> bool" where
  "load_ok nd load rows \<longleftrightarrow> distinct rows \<and> length rows + 1 < 2 ^ 32 \<and>
     (\<forall>j \<in> set rows. \<forall>w. load j = Inr w \<longrightarrow> ws_id w = j \<and> good_ws nd w)"

text \<open>The schedules that are in use after a reload: those that loaded, less a running one that is no longer active.\<close>

definition comes_back :: "(u32 \<Rightarrow> exn + workflow_schedule) \<Rightarrow> u32 list \<Rightarrow> ws_ref option list \<Rightarrow> u32 list \<Rightarrow> u32 \<Rightarrow> bool" where
  "comes_back load b_ids b_exec ids j \<longleftrightarrow> (\<exists>w. load j = Inr w) \<and> (was_running b_ids b_exec j \<longrightarrow> j \<in> set ids)"

definition entry_of :: "wf_scheduler \<Rightarrow> u32 \<Rightarrow> (ws_ref option \<times> u32) option" where
  "entry_of s j = (if lookup_wfs s j = -1 then None
     else Some (wfs_executing_instances s ! nat (lookup_wfs s j), wfs_wi_ids s ! nat (lookup_wfs s j)))"

lemma used_ids_add:
  assumes "mset (used_refs s') = add_mset r (mset (used_refs s))" and "ws_store s' = ws_store s"
    and "ws_store s r = Some w"
  shows "used_ids s' = add_mset (ws_id w) (used_ids s)"
proof -
  have "id_of s' = id_of s" by (simp add: fun_eq_iff id_of_def assms(2))
  with assms(1,3) show ?thesis by (simp add: used_ids_def id_of_def)
qed

lemma lookup_wfs_iff:
  assumes "wfs_inv nd s"
  shows "lookup_wfs s j = -1 \<longleftrightarrow> j \<notin> set (wfs_ids s)"
proof -
  have srt: "sorted (wfs_ids s)" using assms unfolding wfs_inv_def by blast
  show ?thesis
    unfolding lookup_wfs_def by (rule id_table.lookup_fail_iff [OF srt]) (rule TrueI)
qed

lemma lookup_wfs_inj:
  assumes "wfs_inv nd s" and "lookup_wfs s j \<noteq> -1" and "lookup_wfs s k \<noteq> -1"
    and "nat (lookup_wfs s j) = nat (lookup_wfs s k)"
  shows "j = k"
  using lookup_wfs_known(2) [OF assms(1,2)] lookup_wfs_known(2) [OF assms(1,3)] assms(4) by metis

lemma reload_row:
  assumes inv: "wfs_inv nd s" and w: "load j = Inr w" "ws_id w = j" "good_ws nd w"
    and new: "j \<notin># used_ids s" and room: "sched_room (w_sched s)"
    and wi: "was_running b_ids b_exec j \<Longrightarrow> b_wi ! nat (id_lookup b_ids j) \<noteq> 0"
  shows "\<exists>s'. reload_loop nd load b_ids b_wi b_exec (j # rows) s = reload_loop nd load b_ids b_wi b_exec rows s' \<and>
    wfs_inv nd s' \<and> wfs_ids s' = wfs_ids s \<and> ws_next s' = ws_next s + 1 \<and>
    set (used_refs s') \<subseteq> insert (ws_next s) (set (used_refs s)) \<and>
    length (first_event (w_sched s')) \<le> length (first_event (w_sched s)) + 1 \<and>
    used_ids s' = (if comes_back load b_ids b_exec (wfs_ids s) j
      then add_mset j (used_ids s) else used_ids s) \<and>
    (\<forall>k. k \<noteq> j \<longrightarrow> entry_of s' k = entry_of s k) \<and>
    (was_running b_ids b_exec j \<and> j \<in> set (wfs_ids s) \<longrightarrow>
       entry_of s' j = Some (Some (ws_next s), b_wi ! nat (id_lookup b_ids j)))"
proof -
  define s1 where "s1 = snd (ws_new w s)"
  define r where "r = ws_next s"
  have new_eq: "ws_new w s = (r, s1)" by (simp add: ws_new_def s1_def r_def)
  have s1: "wfs_inv nd s1" "used_refs s1 = used_refs s" "used_ids s1 = used_ids s"
    using ws_new_inv [OF inv w(3)] by (simp_all add: s1_def)
  have same: "wfs_ids s1 = wfs_ids s" "w_sched s1 = w_sched s" "ws_next s1 = ws_next s + 1"
    "wfs_executing_instances s1 = wfs_executing_instances s" "wfs_wi_ids s1 = wfs_wi_ids s"
    "lookup_wfs s1 = lookup_wfs s"
    by (simp_all add: s1_def ws_new_def lookup_wfs_def fun_eq_iff)
  have st: "ws_store s1 r = Some w" using ws_new_stored [of w s] new_eq by (simp add: s1_def r_def ws_new_def)
  have new1: "ws_id w \<notin># used_ids s1" using new w(2) s1(3) by simp
  show ?thesis
  proof (cases "was_running b_ids b_exec j")
    case False
    obtain t s2 where s2: "ScheduleWorkflow nd (Some r) 0 s1 = Some s2" "wfs_inv nd s2"
      "mset (used_refs s2) = add_mset r (mset (used_refs s1))"
      "s2 = s1\<lparr>w_sched := snd (InsertEvent \<lparr>scheduled_at = t, payload = r\<rparr> (w_sched s1))\<rparr>"
      using ScheduleWorkflow_waiting [OF s1(1) st new1] room same(2) by auto
    have ids: "used_ids s2 = add_mset j (used_ids s)"
      using used_ids_add [OF s2(3) _ st] s2(4) s1(3) w(2) by simp
    have refs: "set (used_refs s2) = insert r (set (used_refs s))"
      using used_refs_add [OF s2(3), of "id_of s1"] s1(2) by simp
    have "length (first_event (w_sched s2)) \<le> length (first_event (w_sched s)) + 1"
    proof -
      have "sched_inv (w_sched s1)" using s1(1) by (simp add: wfs_inv_def)
      from scheduler.insert_pending [OF this, of "\<lparr>scheduled_at = t, payload = r\<rparr>"]
      show ?thesis using s2(4) same(2) by auto
    qed
    moreover have "reload_loop nd load b_ids b_wi b_exec (j # rows) s = reload_loop nd load b_ids b_wi b_exec rows s2"
      using w(1) new_eq s2(1) False by (simp add: Let_def was_running_def)
    moreover have "entry_of s2 k = entry_of s k" for k
      using s2(4) same by (simp add: entry_of_def lookup_wfs_def)
    ultimately show ?thesis
      using s2(2,4) same ids refs False w(1)
      by (intro exI [of _ s2]) (simp add: comes_back_def r_def)
  next
    case True
    let ?wi = "b_wi ! nat (id_lookup b_ids j)"
    obtain s2 where s2: "ScheduleWorkflow nd (Some r) ?wi s1 = Some s2" "wfs_inv nd s2"
      "s2 = (if lookup_wfs s1 (ws_id w) \<noteq> -1
          then set_executing (nat (lookup_wfs s1 (ws_id w))) ?wi (Some r) s1 else s1)"
      "mset (used_refs s2) = (if lookup_wfs s1 (ws_id w) \<noteq> -1
          then add_mset r (mset (used_refs s1)) else mset (used_refs s1))"
      using ScheduleWorkflow_running [OF s1(1) st new1 wi [OF True]] by blast
    have step: "reload_loop nd load b_ids b_wi b_exec (j # rows) s = reload_loop nd load b_ids b_wi b_exec rows s2"
      using w(1) new_eq s2(1) True by (auto simp: Let_def was_running_def)
    show ?thesis
    proof (cases "j \<in> set (wfs_ids s)")
      case False
      then have "s2 = s1" using s2(3) w(2) same(6) lookup_wfs_iff [OF inv, of j] by simp
      with step s1 s2(2) same False show ?thesis
        by (intro exI [of _ s2]) (auto simp: comes_back_def True entry_of_def)
    next
      case yes: True
      then have lk: "lookup_wfs s j \<noteq> -1" using lookup_wfs_iff [OF inv] by simp
      let ?i = "nat (lookup_wfs s j)"
      have i: "?i < length (wfs_ids s)" using lookup_wfs_known [OF inv lk] by simp
      have s2': "s2 = set_executing ?i ?wi (Some r) s1"
        and m: "mset (used_refs s2) = add_mset r (mset (used_refs s1))"
        using s2(3,4) lk w(2) same(6) by simp_all
      have lens: "?i < length (wfs_executing_instances s)" "?i < length (wfs_wi_ids s)"
        using inv i by (simp_all add: wfs_inv_def)
      have lk2: "lookup_wfs s2 = lookup_wfs s"
        using same by (simp add: s2' set_executing_def lookup_wfs_def fun_eq_iff)
      have "entry_of s2 k = entry_of s k" if "k \<noteq> j" for k
      proof (cases "lookup_wfs s k = -1")
        case False
        with lookup_wfs_inj [OF inv lk, of k] that have "?i \<noteq> nat (lookup_wfs s k)" by blast
        then show ?thesis using same
          by (simp add: entry_of_def lk2) (simp add: s2' set_executing_def)
      qed (simp add: entry_of_def lk2)
      moreover have "entry_of s2 j = Some (Some r, ?wi)"
        using lk lens same by (simp add: entry_of_def lk2) (simp add: s2' set_executing_def)
      moreover have "used_ids s2 = add_mset j (used_ids s)"
        using used_ids_add [OF m _ st] s1(3) w(2) by (simp add: s2' set_executing_def)
      moreover have "set (used_refs s2) = insert r (set (used_refs s))"
        using used_refs_add [OF m, of "id_of s1"] s1(2) by simp
      moreover have "wfs_ids s2 = wfs_ids s" "ws_next s2 = ws_next s + 1" "w_sched s2 = w_sched s"
        using same by (simp_all add: s2' set_executing_def)
      ultimately show ?thesis
        using step s2(2) yes True w(1) by (intro exI [of _ s2]) (simp add: comes_back_def r_def)
    qed
  qed
qed

lemma reload_loop_result:
  assumes "wfs_inv nd s" and "distinct rows"
    and "\<forall>j \<in> set rows. \<forall>w. load j = Inr w \<longrightarrow> ws_id w = j \<and> good_ws nd w"
    and "\<forall>j \<in> set rows. j \<notin># used_ids s"
    and "length (first_event (w_sched s)) + length rows + 1 < 2 ^ 32"
    and wi: "\<And>j. was_running b_ids b_exec j \<Longrightarrow> b_wi ! nat (id_lookup b_ids j) \<noteq> 0"
  shows "\<exists>s'. reload_loop nd load b_ids b_wi b_exec rows s = Some s' \<and> wfs_inv nd s' \<and>
    wfs_ids s' = wfs_ids s \<and>
    used_ids s' = used_ids s + mset (List.filter (comes_back load b_ids b_exec (wfs_ids s)) rows) \<and>
    (\<forall>r \<in> set (used_refs s'). r \<in> set (used_refs s) \<or> ws_next s \<le> r) \<and>
    (\<forall>k. k \<notin> set rows \<longrightarrow> entry_of s' k = entry_of s k) \<and>
    (\<forall>j \<in> set rows. was_running b_ids b_exec j \<and> j \<in> set (wfs_ids s) \<and> (\<exists>w. load j = Inr w) \<longrightarrow>
       (\<exists>r. entry_of s' j = Some (Some r, b_wi ! nat (id_lookup b_ids j))))"
  using assms(1-5)
proof (induction rows arbitrary: s)
  case Nil
  then show ?case by simp
next
  case (Cons j rows)
  show ?case
  proof (cases "load j")
    case (Inl e)
    have step: "reload_loop nd load b_ids b_wi b_exec (j # rows) s = reload_loop nd load b_ids b_wi b_exec rows s"
      using Inl by simp
    have "\<not> comes_back load b_ids b_exec (wfs_ids s) j" using Inl by (simp add: comes_back_def)
    obtain s' where s': "reload_loop nd load b_ids b_wi b_exec rows s = Some s'" "wfs_inv nd s'"
      "wfs_ids s' = wfs_ids s"
      "used_ids s' = used_ids s + mset (List.filter (comes_back load b_ids b_exec (wfs_ids s)) rows)"
      "\<forall>r \<in> set (used_refs s'). r \<in> set (used_refs s) \<or> ws_next s \<le> r"
      "\<forall>k. k \<notin> set rows \<longrightarrow> entry_of s' k = entry_of s k"
      "\<forall>j \<in> set rows. was_running b_ids b_exec j \<and> j \<in> set (wfs_ids s) \<and> (\<exists>w. load j = Inr w) \<longrightarrow>
         (\<exists>r. entry_of s' j = Some (Some r, b_wi ! nat (id_lookup b_ids j)))"
      using Cons.IH [OF Cons.prems(1)] Cons.prems(2-5) by auto
    with Inl \<open>\<not> comes_back load b_ids b_exec (wfs_ids s) j\<close> show ?thesis
      unfolding step by (intro exI [of _ s']) simp
  next
    case (Inr w)
    have w: "ws_id w = j" "good_ws nd w" using Cons.prems(3) Inr by simp_all
    have new: "j \<notin># used_ids s" using Cons.prems(4) by simp
    have room: "sched_room (w_sched s)" using Cons.prems(5) by (simp add: sched_room_def)
    obtain s1 where s1:
      "reload_loop nd load b_ids b_wi b_exec (j # rows) s = reload_loop nd load b_ids b_wi b_exec rows s1"
      "wfs_inv nd s1" "wfs_ids s1 = wfs_ids s" "ws_next s1 = ws_next s + 1"
      "set (used_refs s1) \<subseteq> insert (ws_next s) (set (used_refs s))"
      "length (first_event (w_sched s1)) \<le> length (first_event (w_sched s)) + 1"
      "used_ids s1 = (if comes_back load b_ids b_exec (wfs_ids s) j
        then add_mset j (used_ids s) else used_ids s)"
      "\<forall>k. k \<noteq> j \<longrightarrow> entry_of s1 k = entry_of s k"
      "was_running b_ids b_exec j \<and> j \<in> set (wfs_ids s) \<longrightarrow>
         entry_of s1 j = Some (Some (ws_next s), b_wi ! nat (id_lookup b_ids j))"
      using reload_row [where load = load and j = j and b_wi = b_wi and rows = rows and b_ids = b_ids and b_exec = b_exec,
          OF Cons.prems(1) Inr w new room wi] by blast
    have d: "distinct rows" "j \<notin> set rows" using Cons.prems(2) by simp_all
    have ids1: "\<forall>k \<in> set rows. k \<notin># used_ids s1"
      using s1(7) Cons.prems(4) d(2) by auto
    have len1: "length (first_event (w_sched s1)) + length rows + 1 < 2 ^ 32"
      using s1(6) Cons.prems(5) by simp
    have ld: "\<forall>j \<in> set rows. \<forall>w. load j = Inr w \<longrightarrow> ws_id w = j \<and> good_ws nd w"
      using Cons.prems(3) by simp
    obtain s' where s':
      "reload_loop nd load b_ids b_wi b_exec rows s1 = Some s'" "wfs_inv nd s'" "wfs_ids s' = wfs_ids s1"
      "used_ids s' = used_ids s1 + mset (List.filter (comes_back load b_ids b_exec (wfs_ids s1)) rows)"
      "\<forall>r \<in> set (used_refs s'). r \<in> set (used_refs s1) \<or> ws_next s1 \<le> r"
      "\<forall>k. k \<notin> set rows \<longrightarrow> entry_of s' k = entry_of s1 k"
      "\<forall>j \<in> set rows. was_running b_ids b_exec j \<and> j \<in> set (wfs_ids s1) \<and> (\<exists>w. load j = Inr w) \<longrightarrow>
         (\<exists>r. entry_of s' j = Some (Some r, b_wi ! nat (id_lookup b_ids j)))"
      using Cons.IH [OF s1(2) d(1) ld ids1 len1] by blast
    have "\<forall>r \<in> set (used_refs s'). r \<in> set (used_refs s) \<or> ws_next s \<le> r"
      using s'(5) s1(4,5) by fastforce
    moreover have "used_ids s' = used_ids s +
        mset (List.filter (comes_back load b_ids b_exec (wfs_ids s)) (j # rows))"
      using s'(4) s1(3,7) by simp
    moreover have "\<forall>k. k \<notin> set (j # rows) \<longrightarrow> entry_of s' k = entry_of s k"
      using s'(6) s1(8) by simp
    moreover have "entry_of s' j = entry_of s1 j" using s'(6) d(2) by blast
    ultimately show ?thesis
      using s1(1,3,9) s'(1-3,7) by (intro exI [of _ s']) auto
  qed
qed

lemma ws_delete_all_inv:
  "wfs_inv nd s \<Longrightarrow> set rs \<inter> set (used_refs s) = {} \<Longrightarrow>
   wfs_inv nd (fold ws_delete rs s) \<and> used_refs (fold ws_delete rs s) = used_refs s \<and>
   used_ids (fold ws_delete rs s) = used_ids s \<and> wfs_ids (fold ws_delete rs s) = wfs_ids s \<and>
   entry_of (fold ws_delete rs s) = entry_of s \<and> ws_next (fold ws_delete rs s) = ws_next s"
proof (induction rs arbitrary: s)
  case Nil
  then show ?case by simp
next
  case (Cons r rs)
  have del: "wfs_inv nd (ws_delete r s)" "used_refs (ws_delete r s) = used_refs s"
    "used_ids (ws_delete r s) = used_ids s"
    using ws_delete_inv [OF Cons.prems(1), of r] Cons.prems(2) by simp_all
  have same: "wfs_ids (ws_delete r s) = wfs_ids s" "entry_of (ws_delete r s) = entry_of s"
    "ws_next (ws_delete r s) = ws_next s"
    by (simp_all add: ws_delete_def entry_of_def lookup_wfs_def fun_eq_iff)
  from Cons.IH [OF del(1)] Cons.prems(2) del(2,3) same show ?case by simp
qed

lemma fold_event_flush: "fold (\<lambda>e. wfs_event_flush (payload e)) es s = fold ws_delete (List.map payload es) s"
  by (induction es arbitrary: s) (simp_all add: wfs_event_flush_def)

lemma backup_running:
  assumes "wfs_inv nd s" and "was_running (wfs_ids s) (wfs_executing_instances s) j"
  shows "wfs_wi_ids s ! nat (id_lookup (wfs_ids s) j) \<noteq> 0"
proof -
  have lk: "lookup_wfs s j \<noteq> -1" using assms(2) by (simp add: was_running_def lookup_wfs_def)
  from lookup_wfs_known(1) [OF assms(1) lk] assms show ?thesis
    by (auto simp: wfs_inv_def was_running_def lookup_wfs_def)
qed

lemma reload_result:
  assumes "wfs_inv nd s" and "load_ok nd load rows" and "sorted ids" "distinct ids"
  shows "\<exists>s'. WorkflowScheduler_Reload nd load ids rows s = Some s' \<and> wfs_inv nd s' \<and> wfs_ids s' = ids \<and>
    used_ids s' = mset (List.filter (comes_back load (wfs_ids s) (wfs_executing_instances s) ids) rows) \<and>
    (\<forall>j \<in> set rows. was_running (wfs_ids s) (wfs_executing_instances s) j \<and> j \<in> set ids \<and> (\<exists>w. load j = Inr w) \<longrightarrow>
       (\<exists>r. entry_of s' j = Some (Some r, wfs_wi_ids s ! nat (id_lookup (wfs_ids s) j))))"
proof -
  have si: "sched_inv (w_sched s)" using assms(1) by (simp add: wfs_inv_def)
  let ?gone = "first_event (w_sched s)" and ?ex = "wfs_executing_instances s"
  define q where "q = (w_sched s)\<lparr>first_event := [], number_of_events := 0\<rparr>"
  have flush: "snd (Flush flush_filter_default False (w_sched s)) = (?gone, q)"
    using Flush_result [OF si, of flush_filter_default False] by (simp add: q_def)
  define s1 where "s1 = s\<lparr>w_sched := q\<rparr>"
  define s2 where "s2 = fold ws_delete (List.map payload ?gone) s1"
  have f1: "id_of s1 = id_of s" by (simp add: fun_eq_iff id_of_def s1_def)
  have u: "used_refs s = List.map payload ?gone @ used_refs s1"
    by (simp add: used_refs_def s1_def q_def)
  have qi: "sched_inv q" by (simp add: q_def sched_inv_def)
  have inv1: "wfs_inv nd s1"
    using assms(1) qi u f1 by (simp add: wfs_inv_def s1_def)
  have "distinct (used_refs s)"
    using assms(1) by (simp add: wfs_inv_def distinct_map)
  then have disj: "set (List.map payload ?gone) \<inter> set (used_refs s1) = {}" unfolding u by auto
  note d2 = ws_delete_all_inv [OF inv1 disj, folded s2_def]
  have inv2: "wfs_inv nd s2" and refs2: "used_refs s2 = used_refs s1" using d2 by simp_all
  have keep2: "wfs_ids s2 = wfs_ids s" "wfs_wi_ids s2 = wfs_wi_ids s" "wfs_executing_instances s2 = ?ex"
    "w_sched s2 = q" "ws_next s2 = ws_next s"
  proof -
    have "wfs_ids (fold ws_delete rs x) = wfs_ids x \<and> wfs_wi_ids (fold ws_delete rs x) = wfs_wi_ids x \<and>
        wfs_executing_instances (fold ws_delete rs x) = wfs_executing_instances x \<and>
        w_sched (fold ws_delete rs x) = w_sched x \<and> ws_next (fold ws_delete rs x) = ws_next x" for rs x
      by (induction rs arbitrary: x) (simp_all add: ws_delete_def)
    then show "wfs_ids s2 = wfs_ids s" "wfs_wi_ids s2 = wfs_wi_ids s" "wfs_executing_instances s2 = ?ex"
      "w_sched s2 = q" "ws_next s2 = ws_next s"
      by (simp_all add: s2_def s1_def)
  qed
  define s3 where "s3 = wfs_init ids s2"
  have refs3: "used_refs s3 = []" by (simp add: used_refs_def s3_def wfs_init_def keep2 q_def)
  have inv3: "wfs_inv nd s3"
    using inv2 assms(3,4) refs3 keep2 qi
    by (auto simp: wfs_inv_def s3_def wfs_init_def)
  have len3: "length (first_event (w_sched s3)) + length rows + 1 < 2 ^ 32"
    using assms(2) by (simp add: s3_def wfs_init_def keep2 q_def load_ok_def)
  have ids3: "used_ids s3 = {#}" "wfs_ids s3 = ids"
    using refs3 by (simp_all add: used_ids_def s3_def wfs_init_def)
  have ld: "distinct rows" "\<forall>j \<in> set rows. \<forall>w. load j = Inr w \<longrightarrow> ws_id w = j \<and> good_ws nd w"
    using assms(2) unfolding load_ok_def by blast+
  have unused: "\<forall>j \<in> set rows. j \<notin># used_ids s3" using ids3 by simp
  obtain s4 where s4: "reload_loop nd load (wfs_ids s) (wfs_wi_ids s) ?ex rows s3 = Some s4"
    "wfs_inv nd s4" "wfs_ids s4 = ids"
    "used_ids s4 = mset (List.filter (comes_back load (wfs_ids s) ?ex ids) rows)"
    "\<forall>r \<in> set (used_refs s4). r \<in> set (used_refs s3) \<or> ws_next s3 \<le> r"
    "\<forall>j \<in> set rows. was_running (wfs_ids s) ?ex j \<and> j \<in> set ids \<and> (\<exists>w. load j = Inr w) \<longrightarrow>
       (\<exists>r. entry_of s4 j = Some (Some r, wfs_wi_ids s ! nat (id_lookup (wfs_ids s) j)))"
    using reload_loop_result [where b_ids = "wfs_ids s" and b_exec = ?ex and b_wi = "wfs_wi_ids s",
        OF inv3 ld unused len3 backup_running [OF assms(1)]] ids3 by auto
  have old: "r < ws_next s" if "r \<in> set (executing_refs ?ex)" for r
  proof -
    have "r \<in> set (used_refs s)" using that by (simp add: used_refs_def)
    then show ?thesis using used_stored [OF assms(1)] stored_good [OF assms(1)] by blast
  qed
  have "ws_next s3 = ws_next s" by (simp add: s3_def wfs_init_def keep2)
  with s4(5) refs3 old have disj4: "set (executing_refs ?ex) \<inter> set (used_refs s4) = {}"
    by fastforce
  note d4 = ws_delete_all_inv [OF s4(2) disj4]
  have "WorkflowScheduler_Reload nd load ids rows s = Some (fold ws_delete (executing_refs ?ex) s4)"
  proof (cases "Flush flush_filter_default False (w_sched s)")
    case (fields eff gone' q')
    with flush have "gone' = ?gone" "q' = q" by simp_all
    with fields s4(1) show ?thesis
      by (simp add: WorkflowScheduler_Reload_def fold_event_flush keep2
          flip: s1_def s2_def s3_def)
  qed
  with d4 s4 show ?thesis by (intro exI [of _ "fold ws_delete (executing_refs ?ex) s4"]) simp
qed

section \<open>Sequences of operations\<close>

datatype wfs_op =
    Op_Load workflow_schedule u32
  | Op_Stop u32 bool
  | Op_Alarm int "workflow_schedule \<Rightarrow> exn + u32"
  | Op_Reload "u32 \<Rightarrow> exn + workflow_schedule" "u32 list" "u32 list"

fun wfs_apply :: "(schedule \<Rightarrow> int option) \<Rightarrow> wfs_op \<Rightarrow> wf_scheduler \<Rightarrow> wf_scheduler option" where
  "wfs_apply nd (Op_Load w wi) s = (let (r, s) = ws_new w s in ScheduleWorkflow nd (Some r) wi s)"
| "wfs_apply nd (Op_Stop j success) s = map_option snd (ScheduledWorkflowInstanceStop nd j success s)"
| "wfs_apply nd (Op_Alarm now inst) s = wfs_alarm now inst s"
| "wfs_apply nd (Op_Reload load ids rows) s = WorkflowScheduler_Reload nd load ids rows s"

text \<open>
  When an operation is possible: a schedule is loaded once; an instance that stops belongs to
  an executing entry; instance identifiers are not 0; the listings come from a primary key, and a
  schedule loads under its own identifier with a date and a failure behaviour.
\<close>

fun wfs_possible :: "(schedule \<Rightarrow> int option) \<Rightarrow> wfs_op \<Rightarrow> wf_scheduler \<Rightarrow> bool" where
  "wfs_possible nd (Op_Load w wi) s \<longleftrightarrow>
     good_ws nd w \<and> ws_id w \<notin># used_ids s \<and> sched_room (w_sched s)"
| "wfs_possible nd (Op_Stop j success) s \<longleftrightarrow> stop_possible s j \<and> sched_room (w_sched s)"
| "wfs_possible nd (Op_Alarm now inst) s \<longleftrightarrow> (\<forall>w. inst w \<noteq> Inr 0)"
| "wfs_possible nd (Op_Reload load ids rows) s \<longleftrightarrow> load_ok nd load rows \<and> sorted ids \<and> distinct ids"

fun wfs_run :: "(schedule \<Rightarrow> int option) \<Rightarrow> wfs_op list \<Rightarrow> wf_scheduler \<Rightarrow> wf_scheduler option" where
  "wfs_run nd [] s = Some s"
| "wfs_run nd (op # ops) s = (case wfs_apply nd op s of None \<Rightarrow> None | Some s' \<Rightarrow> wfs_run nd ops s')"

fun wfs_run_possible :: "(schedule \<Rightarrow> int option) \<Rightarrow> wfs_op list \<Rightarrow> wf_scheduler \<Rightarrow> bool" where
  "wfs_run_possible nd [] s \<longleftrightarrow> True"
| "wfs_run_possible nd (op # ops) s \<longleftrightarrow> wfs_possible nd op s \<and>
     (case wfs_apply nd op s of None \<Rightarrow> True | Some s' \<Rightarrow> wfs_run_possible nd ops s')"

lemma wfs_apply_inv:
  assumes "wfs_inv nd s" and "wfs_possible nd op s"
  shows "\<exists>s'. wfs_apply nd op s = Some s' \<and> wfs_inv nd s'"
proof (cases op)
  case (Op_Load w wi)
  let ?s = "snd (ws_new w s)" and ?r = "fst (ws_new w s)"
  have good: "good_ws nd w" using assms(2) Op_Load by simp
  have inv: "wfs_inv nd ?s" and ids: "used_ids ?s = used_ids s"
    using ws_new_inv [OF assms(1) good] by simp_all
  have new: "ws_id w \<notin># used_ids ?s" using assms(2) Op_Load ids by simp
  have room: "sched_room (w_sched ?s)" using assms(2) Op_Load by (simp add: ws_new_def)
  have st: "ws_store ?s ?r = Some w" by (rule ws_new_stored)
  show ?thesis
    using ScheduleWorkflow_waiting [OF inv st new room] ScheduleWorkflow_running [OF inv st new, of wi]
    by (cases "wi = 0") (auto simp: Op_Load split: prod.splits)
next
  case (Op_Stop j success)
  show ?thesis
  proof (cases "lookup_wfs s j = -1")
    case True
    then show ?thesis using assms(1) Op_Stop by (simp add: ScheduledWorkflowInstanceStop_def)
  next
    case False
    have "sorted (wfs_ids s)" using assms(1) unfolding wfs_inv_def by blast
    then have "lookup_wfs s j = int (nat (lookup_wfs s j))"
      using id_table.lookup_hit [of "wfs_ids s" j] id_table.lookup_fail_iff [of "wfs_ids s" j] False
      by (simp add: lookup_wfs_def)
    moreover obtain r where "wfs_executing_instances s ! nat (lookup_wfs s j) = Some r"
      using assms(2) False Op_Stop by (auto simp: stop_possible_def)
    moreover have "sched_room (w_sched s)" using assms(2) Op_Stop by simp
    ultimately obtain d s' where "ScheduledWorkflowInstanceStop nd j success s = Some (d, s')" "wfs_inv nd s'"
      using stop_result [OF assms(1), of j "nat (lookup_wfs s j)"] by blast
    then show ?thesis using Op_Stop by simp
  qed
next
  case (Op_Alarm now inst)
  show ?thesis
  proof (cases "shift_event now (w_sched s)")
    case (Pair e q)
    show ?thesis
    proof (cases e)
      case None
      then have "q = w_sched s" using Pair shift_event_none by blast
      with None Pair assms(1) Op_Alarm show ?thesis by (simp add: wfs_alarm_def)
    next
      case (Some ev)
      with alarm_result [OF assms(1), of now ev q inst] Pair assms(2) Op_Alarm show ?thesis by auto
    qed
  qed
next
  case (Op_Reload load ids rows)
  with reload_result [OF assms(1), of load rows ids] assms(2) show ?thesis by auto
qed

lemma wfs_run_inv:
  "wfs_inv nd s \<Longrightarrow> wfs_run_possible nd ops s \<Longrightarrow> \<exists>s'. wfs_run nd ops s = Some s' \<and> wfs_inv nd s'"
proof (induction ops arbitrary: s)
  case (Cons op ops)
  then obtain s' where "wfs_apply nd op s = Some s'" "wfs_inv nd s'"
    using wfs_apply_inv by (meson wfs_run_possible.simps(2))
  with Cons show ?case by simp
qed simp

lemma WorkflowScheduler_new_inv:
  "sorted ids \<Longrightarrow> distinct ids \<Longrightarrow> wfs_inv nd (WorkflowScheduler_new ids)"
  by (simp add: wfs_inv_def WorkflowScheduler_new_def wfs_init_def used_refs_def)
    (simp add: Scheduler_new_def)


definition demo_ws :: "u32 \<Rightarrow> onfailure_behavior \<Rightarrow> workflow_schedule" where
  "demo_ws i b = \<lparr>ws_id = i, ws_name = ''backup'', ws_onfailure = Some b, ws_host = None, ws_user = None,
     ws_parameters = Parameters_new, ws_schedule = []\<rparr>"

lemma demo_ws_good: "good_ws (\<lambda>_. Some 100) (demo_ws i b)"
  by (simp add: good_ws_def demo_ws_def)

definition demo_ops :: "wfs_op list" where
  "demo_ops = [Op_Load (demo_ws 7 CONTINUE) 0, Op_Alarm 100 (\<lambda>_. Inr 41), Op_Stop 7 True]"

lemma demo_run:
  "wfs_run_possible (\<lambda>_. Some 100) demo_ops (WorkflowScheduler_new [7]) \<and>
   map_option used_refs (wfs_run (\<lambda>_. Some 100) demo_ops (WorkflowScheduler_new [7])) = Some [0]"
  by (simp add: demo_ops_def demo_ws_good WorkflowScheduler_new_def wfs_init_def ws_new_def
      ScheduleWorkflow_def InsertEvent_def Scheduler_new_def used_ids_def used_refs_def sched_room_def
      wfs_alarm_def shift_event_def wfs_event_alarm_def Let_def lookup_wfs_def id_lookup_def
      bsearch.simps table_cmp_def id_compare_def stop_possible_def set_executing_def
      ScheduledWorkflowInstanceStop_def)
    (simp add: demo_ws_def bsearch.simps table_cmp_def id_compare_def)


text \<open>
  When an instance of an executing schedule stops, the schedule leaves the executing array;
  after a success, or a failure it is to continue on, it waits again for its next date; after a
  failure it is to be suspended on, it is marked inactive in the database, deleted, and in use
  no more.
\<close>

theorem stop_reschedules_or_suspends:
  assumes "wfs_inv nd s" and "lookup_wfs s j = int i" and "wfs_executing_instances s ! i = Some r"
    and "sched_room (w_sched s)" and "ws_store s r = Some w"
  shows "\<exists>d s'. ScheduledWorkflowInstanceStop nd j success s = Some (d, s') \<and> wfs_inv nd s' \<and>
    entry_of s' j = Some (None, 0) \<and>
    (if success \<or> ws_onfailure w = Some CONTINUE
     then d = None \<and> (\<exists>e \<in> set (first_event (w_sched s')). payload e = r \<and>
         Some (scheduled_at e) = nd (ws_schedule w))
     else d = Some j \<and> ws_store s' r = None \<and> j \<notin># used_ids s')"
proof -
  have i: "i < length (wfs_ids s)" "wfs_ids s ! i = j"
    using lookup_wfs_known [OF assms(1), of j] assms(2) by simp_all
  have lens: "i < length (wfs_executing_instances s)" "i < length (wfs_wi_ids s)"
    using assms(1) i(1) by (simp_all add: wfs_inv_def)
  have si: "sched_inv (w_sched s)" using assms(1) by (simp add: wfs_inv_def)
  obtain t d s' where st: "nd (ws_schedule w) = Some t" "ws_id w = j"
    "ScheduledWorkflowInstanceStop nd j success s = Some (d, s')" "wfs_inv nd s'"
    and how: "if success \<or> ws_onfailure w = Some CONTINUE
     then d = None \<and> mset (used_refs s') = mset (used_refs s) \<and>
       s' = (set_executing i 0 None s)\<lparr>w_sched :=
         snd (InsertEvent \<lparr>scheduled_at = t, payload = r\<rparr> (w_sched s))\<rparr>
     else d = Some j \<and> add_mset r (mset (used_refs s')) = mset (used_refs s) \<and>
       s' = ws_delete r (set_executing i 0 None s)"
    using stop_result [OF assms(1-4), of success] assms(5) by auto
  have entry: "entry_of s' j = Some (None, 0)"
    using how lens assms(2)
    by (auto simp: entry_of_def lookup_wfs_def set_executing_def ws_delete_def split: if_splits)
  show ?thesis
  proof (cases "success \<or> ws_onfailure w = Some CONTINUE")
    case True
    have "\<lparr>scheduled_at = t, payload = r\<rparr> \<in> set (first_event (w_sched s'))"
      using how True scheduler.insert_set [OF si] by auto
    then have "\<exists>e \<in> set (first_event (w_sched s')). payload e = r \<and> Some (scheduled_at e) = nd (ws_schedule w)"
      using st(1) by (intro bexI [of _ "\<lparr>scheduled_at = t, payload = r\<rparr>"]) auto
    with st entry how True show ?thesis by auto
  next
    case False
    then have s': "s' = ws_delete r (set_executing i 0 None s)" using how by auto
    have clear: "wfs_inv nd (set_executing i 0 None s)"
      using clear_executing_inv [OF assms(1) i(1) assms(3)] by simp
    have "ws_id w \<notin># used_ids (set_executing i 0 None s)" "r \<notin> set (used_refs (set_executing i 0 None s))"
      using used_ids_after_clear [OF assms(1) i(1) assms(3)] assms(5) by auto
    then have "j \<notin># used_ids s'"
      using ws_delete_inv [OF clear, of r] st(2) s' by simp
    moreover have "ws_store s' r = None" by (simp add: s' ws_delete_def)
    ultimately show ?thesis using st entry how False by auto
  qed
qed

definition demo_running :: "onfailure_behavior \<Rightarrow> wf_scheduler" where
  "demo_running b = \<lparr>w_sched = Scheduler_new, wfs_ids = [7], wfs_wi_ids = [41],
     wfs_executing_instances = [Some 0], ws_store = [0 \<mapsto> demo_ws 7 b], ws_next = 1\<rparr>"

lemma demo_running_inv: "wfs_inv (\<lambda>_. Some 100) (demo_running b)"
  using demo_ws_good [of 7 b]
  by (auto simp: wfs_inv_def demo_running_def used_refs_def id_of_def demo_ws_def split: if_splits)
    (simp_all add: Scheduler_new_def)

lemma demo_running_lookup: "lookup_wfs (demo_running b) 7 = int 0"
  by (simp add: lookup_wfs_def demo_running_def id_lookup_def bsearch.simps table_cmp_def id_compare_def)

theorem stop_reschedules_or_suspends_witness:
  "\<exists>s'. ScheduledWorkflowInstanceStop (\<lambda>_. Some 100) 7 False (demo_running SUSPEND) = Some (Some 7, s')"
  using stop_reschedules_or_suspends
    [OF demo_running_inv demo_running_lookup, of SUSPEND 0 "demo_ws 7 SUSPEND" False]
  by (auto simp: demo_running_def sched_room_def Scheduler_new_def demo_ws_def)

text \<open>
  C30. A reload puts exactly the active schedules that load in use, each once; those that were
  executing stay attached to their running instances; nothing dangles.
\<close>

theorem Reload_exact:
  assumes "wfs_inv nd s" and "load_ok nd load rows" and "sorted ids" and "distinct ids"
    and "set rows = set ids"
  shows "\<exists>s'. WorkflowScheduler_Reload nd load ids rows s = Some s' \<and> wfs_inv nd s' \<and>
    used_ids s' = mset (List.filter (\<lambda>j. \<exists>w. load j = Inr w) rows) \<and>
    (\<forall>j \<in> set rows. \<forall>r wi w. entry_of s j = Some (Some r, wi) \<and> load j = Inr w \<longrightarrow>
       (\<exists>r'. entry_of s' j = Some (Some r', wi)))"
proof -
  obtain s' where s': "WorkflowScheduler_Reload nd load ids rows s = Some s'" "wfs_inv nd s'" "wfs_ids s' = ids"
    "used_ids s' = mset (List.filter (comes_back load (wfs_ids s) (wfs_executing_instances s) ids) rows)"
    "\<forall>j \<in> set rows. was_running (wfs_ids s) (wfs_executing_instances s) j \<and> j \<in> set ids \<and> (\<exists>w. load j = Inr w) \<longrightarrow>
       (\<exists>r. entry_of s' j = Some (Some r, wfs_wi_ids s ! nat (id_lookup (wfs_ids s) j)))"
    using reload_result [OF assms(1-4)] by blast
  have "List.filter (comes_back load (wfs_ids s) (wfs_executing_instances s) ids) rows =
      List.filter (\<lambda>j. \<exists>w. load j = Inr w) rows"
    by (rule filter_cong [OF refl]) (use assms(5) in \<open>simp add: comes_back_def\<close>)
  moreover have "\<exists>r'. entry_of s' j = Some (Some r', wi)"
    if "j \<in> set rows" "entry_of s j = Some (Some r, wi)" "load j = Inr w" for j r wi w
    using that s'(5) assms(5)
    by (auto simp: entry_of_def was_running_def lookup_wfs_def split: if_splits)
  ultimately show ?thesis using s'(1,2,4) by (intro exI [of _ s']) auto
qed

theorem Reload_exact_witness:
  "\<exists>s'. WorkflowScheduler_Reload (\<lambda>_. Some 100) (\<lambda>j. Inr (demo_ws j SUSPEND)) [7, 8] [8, 7] (demo_running CONTINUE) = Some s' \<and>
     used_ids s' = {#7, 8#} \<and> (\<exists>r. entry_of s' 7 = Some (Some r, 41))"
proof -
  have "load_ok (\<lambda>_. Some 100) (\<lambda>j. Inr (demo_ws j SUSPEND)) [8, 7]"
    using demo_ws_good by (simp add: load_ok_def demo_ws_def)
  moreover have "entry_of (demo_running CONTINUE) 7 = Some (Some 0, 41)"
    using demo_running_lookup [of CONTINUE] by (simp add: entry_of_def) (simp add: demo_running_def)
  ultimately show ?thesis
    using Reload_exact [OF demo_running_inv, of "\<lambda>j. Inr (demo_ws j SUSPEND)" "[8, 7]" "[7, 8]" CONTINUE]
    by (auto simp: add_mset_commute)
qed

text \<open>
  The two cases outside these sequences. An instance of a schedule that stops while the
  schedule has no executing entry (an instance resumed at startup that ends at once, before the
  schedules are loaded) makes the scheduler follow a null pointer. And a reload between the two
  halves of an alarm (while the instance is being constructed) leaves the same schedule both
  waiting and executing, so that from then on it is scheduled twice.
\<close>

theorem scheduler_gaps:
  "ScheduledWorkflowInstanceStop (\<lambda>_. Some 100) 7 True (WorkflowScheduler_new [7]) = None \<and>
   (\<exists>s1 s2 s3 s4.
      wfs_run (\<lambda>_. Some 100) [Op_Load (demo_ws 7 CONTINUE) 0] (WorkflowScheduler_new [7]) = Some s1 \<and>
      s2 = s1\<lparr>w_sched := snd (shift_event 100 (w_sched s1))\<rparr> \<and>
      WorkflowScheduler_Reload (\<lambda>_. Some 200) (\<lambda>j. Inr (demo_ws j CONTINUE)) [7] [7] s2 = Some s3 \<and>
      wfs_event_alarm 0 (Inr 41) s3 = Some s4 \<and>
      List.map (\<lambda>r. ws_id (the (ws_store s4 r))) (used_refs s4) = [7, 7])"
proof
  show "ScheduledWorkflowInstanceStop (\<lambda>_. Some 100) 7 True (WorkflowScheduler_new [7]) = None"
    by (simp add: ScheduledWorkflowInstanceStop_def WorkflowScheduler_new_def wfs_init_def lookup_wfs_def
        id_lookup_def bsearch.simps table_cmp_def id_compare_def set_executing_def ScheduleWorkflow_def Let_def)
  let ?w = "demo_ws 7 CONTINUE"
  let ?q = "\<lparr>number_of_events = 1, first_event = [\<lparr>scheduled_at = 100, payload = 0\<rparr>], is_shutting_down = False\<rparr>"
  let ?q' = "\<lparr>number_of_events = 1, first_event = [\<lparr>scheduled_at = 200, payload = 1\<rparr>], is_shutting_down = False\<rparr>"
  let ?s1 = "\<lparr>w_sched = ?q, wfs_ids = [7], wfs_wi_ids = [0], wfs_executing_instances = [None],
    ws_store = [0 \<mapsto> ?w], ws_next = 1\<rparr>"
  let ?s3 = "\<lparr>w_sched = ?q', wfs_ids = [7], wfs_wi_ids = [0], wfs_executing_instances = [None],
    ws_store = [0 \<mapsto> ?w, 1 \<mapsto> ?w], ws_next = 2\<rparr>"
  let ?s4 = "?s3\<lparr>wfs_wi_ids := [41], wfs_executing_instances := [Some 0]\<rparr>"
  have lk: "id_lookup [7] 7 = 0" by (simp add: id_lookup_def bsearch.simps table_cmp_def id_compare_def)
  have 1: "wfs_run (\<lambda>_. Some 100) [Op_Load ?w 0] (WorkflowScheduler_new [7]) = Some ?s1"
    by (simp add: WorkflowScheduler_new_def wfs_init_def ws_new_def ScheduleWorkflow_def InsertEvent_def
        Scheduler_new_def)
  have 2: "snd (shift_event 100 ?q) = \<lparr>number_of_events = 0, first_event = [], is_shutting_down = False\<rparr>"
    by (simp add: shift_event_def)
  have 3: "WorkflowScheduler_Reload (\<lambda>_. Some 200) (\<lambda>j. Inr (demo_ws j CONTINUE)) [7] [7]
      (?s1\<lparr>w_sched := snd (shift_event 100 (w_sched ?s1))\<rparr>) = Some ?s3"
    using lk by (simp add: 2 WorkflowScheduler_Reload_def Flush_def wfs_init_def Let_def ws_new_def
        ScheduleWorkflow_def InsertEvent_def)
  have 4: "wfs_event_alarm 0 (Inr 41) ?s3 = Some ?s4"
  proof -
    have "ws_store ?s3 0 = Some ?w" by simp
    moreover have "lookup_wfs ?s3 (ws_id ?w) = 0" using lk by (simp add: lookup_wfs_def demo_ws_def)
    ultimately show ?thesis by (simp add: wfs_event_alarm_def set_executing_def)
  qed
  have 5: "List.map (\<lambda>r. ws_id (the (ws_store ?s4 r))) (used_refs ?s4) = [7, 7]"
    by (simp add: used_refs_def demo_ws_def)
  from 1 3 4 5 show "\<exists>s1 s2 s3 s4.
      wfs_run (\<lambda>_. Some 100) [Op_Load ?w 0] (WorkflowScheduler_new [7]) = Some s1 \<and>
      s2 = s1\<lparr>w_sched := snd (shift_event 100 (w_sched s1))\<rparr> \<and>
      WorkflowScheduler_Reload (\<lambda>_. Some 200) (\<lambda>j. Inr (demo_ws j CONTINUE)) [7] [7] s2 = Some s3 \<and>
      wfs_event_alarm 0 (Inr 41) s3 = Some s4 \<and>
      List.map (\<lambda>r. ws_id (the (ws_store s4 r))) (used_refs s4) = [7, 7]"
    by (intro exI conjI) (assumption, rule refl, assumption+)
qed

end
