(* ===== verification/Workflow_Instances.thy ===== *)
theory Workflow_Instances
  imports Prelude
begin

text \<open>
  The registry of running workflow instances, \<open>WorkflowInstances.cpp\<close>: the map from
  identifiers to instances, and the conditions on which threads wait for the end of an instance.
  Each operation runs under the registry's mutex; \<open>Wait\<close> releases it while it sleeps, so it is
  split into its beginning and its wake-up. \<open>sleepers\<close> lists the sleeping threads with their
  conditions, \<open>allocated\<close> the instances that exist.
\<close>

type_synonym instance_ref = nat
type_synonym cond_ref = nat
type_synonym thread_id = nat

record instances =
  wi :: "u32 \<rightharpoonup> instance_ref"
  wi_wait :: "u32 \<rightharpoonup> cond_ref"
  next_cond :: cond_ref
  sleepers :: "(thread_id \<times> cond_ref) list"
  allocated :: "instance_ref set"

definition WorkflowInstances_new :: instances where
  "WorkflowInstances_new = \<lparr>wi = Map.empty, wi_wait = Map.empty, next_cond = 0, sleepers = [],
     allocated = {}\<rparr>"

definition instances_Add :: "u32 \<Rightarrow> instance_ref \<Rightarrow> instances \<Rightarrow> instances" where
  "instances_Add i p s = s\<lparr>wi := (wi s)(i \<mapsto> p)\<rparr>"

text \<open>\<open>Remove\<close>: the broadcast wakes every thread that sleeps on the condition.\<close>

definition instances_Remove :: "u32 \<Rightarrow> instances \<Rightarrow> instances" where
  "instances_Remove i s =
     (let s = s\<lparr>wi := (wi s)(i := None)\<rparr> in
      case wi_wait s i of
        None \<Rightarrow> s
      | Some c \<Rightarrow> s\<lparr>sleepers := List.filter (\<lambda>(t, d). d \<noteq> c) (sleepers s),
          wi_wait := (wi_wait s)(i := None)\<rparr>)"

text \<open>
  \<open>Cancel\<close>, \<open>KillTask\<close> and the status of one instance: find the instance and call its
  method \<open>act\<close> while the mutex is held. \<open>None\<close>: the registered pointer is dangling.
\<close>

definition instances_call :: "(instance_ref \<Rightarrow> 's \<Rightarrow> 's) \<Rightarrow> u32 \<Rightarrow> instances \<times> 's \<Rightarrow> (bool \<times> 's) option" where
  "instances_call act i x =
     (case x of (s, \<sigma>) \<Rightarrow>
        (case wi s i of
           None \<Rightarrow> Some (False, \<sigma>)
         | Some p \<Rightarrow> if p \<in> allocated s then Some (True, act p \<sigma>) else None))"

definition instances_Cancel :: "(instance_ref \<Rightarrow> 's \<Rightarrow> 's) \<Rightarrow> u32 \<Rightarrow> instances \<times> 's \<Rightarrow> (bool \<times> 's) option" where
  "instances_Cancel cancel i x = instances_call cancel i x"

text \<open>The result of the instance's \<open>KillTask\<close>, whether a task was found, is dropped.\<close>

definition instances_KillTask ::
  "(instance_ref \<Rightarrow> int \<Rightarrow> 's \<Rightarrow> 's) \<Rightarrow> u32 \<Rightarrow> int \<Rightarrow> instances \<times> 's \<Rightarrow> (bool \<times> 's) option" where
  "instances_KillTask kill i pid x = instances_call (\<lambda>p. kill p pid) i x"

definition instances_SendStatus :: "(instance_ref \<Rightarrow> string) \<Rightarrow> u32 \<Rightarrow> instances \<Rightarrow> (bool \<times> string) option" where
  "instances_SendStatus xml i s = instances_call (\<lambda>p out. out @ xml p) i (s, [])"

text \<open>The loops over the whole map, in the order of the identifiers.\<close>

definition registered :: "instances \<Rightarrow> u32 list \<Rightarrow> bool" where
  "registered s is \<longleftrightarrow> sorted is \<and> distinct is \<and> set is = dom (wi s)"

definition instances_SendStatus_all :: "(instance_ref \<Rightarrow> string) \<Rightarrow> u32 list \<Rightarrow> instances \<Rightarrow> string" where
  "instances_SendStatus_all xml is s =
     ''<workflows>'' @ concat (List.map (\<lambda>i. xml (the (wi s i))) is) @ ''</workflows>''"

definition instances_RecordSavepoint :: "(instance_ref \<Rightarrow> 's \<Rightarrow> 's) \<Rightarrow> u32 list \<Rightarrow> instances \<Rightarrow> 's \<Rightarrow> 's" where
  "instances_RecordSavepoint save is s \<sigma> = fold (\<lambda>i. save (the (wi s i))) is \<sigma>"

text \<open>
  The beginning of \<open>Wait\<close>: \<open>False\<close> when there is no such instance; otherwise the thread
  sleeps on the instance's condition, made if nobody waits yet.
\<close>

definition instances_Wait :: "thread_id \<Rightarrow> u32 \<Rightarrow> instances \<Rightarrow> bool \<times> instances" where
  "instances_Wait t i s =
     (case wi s i of
        None \<Rightarrow> (False, s)
      | Some p \<Rightarrow>
          (case wi_wait s i of
             None \<Rightarrow> (True, s\<lparr>wi_wait := (wi_wait s)(i \<mapsto> next_cond s), next_cond := next_cond s + 1,
                 sleepers := sleepers s @ [(t, next_cond s)]\<rparr>)
           | Some c \<Rightarrow> (True, s\<lparr>sleepers := sleepers s @ [(t, c)]\<rparr>)))"

definition sleeping :: "thread_id \<Rightarrow> instances \<Rightarrow> bool" where
  "sleeping t s \<longleftrightarrow> t \<in> fst ` set (sleepers s)"

text \<open>
  The steps: an instance is constructed and registered under a fresh identifier; its
  destructor unregisters it, and then frees it; a thread starts to wait; a sleeping thread wakes
  up spuriously, and returns from \<open>Wait\<close>.
\<close>

inductive instances_step :: "instances \<Rightarrow> instances \<Rightarrow> bool" where
  ins_construct: "p \<notin> allocated s \<Longrightarrow> wi s i = None \<Longrightarrow>
     instances_step s (instances_Add i p (s\<lparr>allocated := insert p (allocated s)\<rparr>))"
| ins_destruct: "wi s i = Some p \<Longrightarrow>
     instances_step s (let s' = instances_Remove i s in s'\<lparr>allocated := allocated s' - {p}\<rparr>)"
| ins_wait: "\<not> sleeping t s \<Longrightarrow> instances_step s (snd (instances_Wait t i s))"
| ins_spurious: "(t, c) \<in> set (sleepers s) \<Longrightarrow>
     instances_step s (s\<lparr>sleepers := List.filter (\<lambda>x. x \<noteq> (t, c)) (sleepers s)\<rparr>)"

inductive instances_reachable :: "instances \<Rightarrow> bool" where
  ins_start: "instances_reachable WorkflowInstances_new"
| ins_next: "instances_reachable s \<Longrightarrow> instances_step s s' \<Longrightarrow> instances_reachable s'"

definition waits_for :: "thread_id \<Rightarrow> u32 \<Rightarrow> instances \<Rightarrow> bool" where
  "waits_for t i s \<longleftrightarrow> (\<exists>c. wi_wait s i = Some c \<and> (t, c) \<in> set (sleepers s))"

definition inj_map :: "('a \<rightharpoonup> 'b) \<Rightarrow> bool" where
  "inj_map m \<longleftrightarrow> (\<forall>i j x. m i = Some x \<longrightarrow> m j = Some x \<longrightarrow> i = j)"

lemma inj_map_upd: "inj_map m \<Longrightarrow> x \<notin> ran m \<Longrightarrow> inj_map (m(i \<mapsto> x))"
  by (auto simp: inj_map_def ran_def)

lemma inj_map_remove: "inj_map m \<Longrightarrow> inj_map (m(i := None))"
  by (auto simp: inj_map_def)

lemma ran_remove: "inj_map m \<Longrightarrow> m i = Some x \<Longrightarrow> ran (m(i := None)) = ran m - {x}"
  unfolding inj_map_def ran_def by (auto, metis option.inject)

definition instances_inv :: "instances \<Rightarrow> bool" where
  "instances_inv s \<longleftrightarrow> ran (wi s) \<subseteq> allocated s \<and> inj_map (wi s) \<and>
     dom (wi_wait s) \<subseteq> dom (wi s) \<and> inj_map (wi_wait s) \<and>
     (\<forall>c \<in> ran (wi_wait s). c < next_cond s) \<and>
     (\<forall>(t, c) \<in> set (sleepers s). c \<in> ran (wi_wait s))"

lemma instances_construct_inv:
  assumes "instances_inv s" and "p \<notin> allocated s" and "wi s i = None"
  shows "instances_inv (instances_Add i p (s\<lparr>allocated := insert p (allocated s)\<rparr>))"
proof -
  have "p \<notin> ran (wi s)" using assms(1,2) by (auto simp: instances_inv_def)
  with assms show ?thesis
    by (auto simp: instances_inv_def instances_Add_def inj_map_upd)
qed

lemma instances_remove_inv:
  assumes "instances_inv s" and "wi s i = Some p"
  shows "instances_inv (let s' = instances_Remove i s in s'\<lparr>allocated := allocated s' - {p}\<rparr>)"
proof -
  have inj: "inj_map (wi s)" "inj_map (wi_wait s)" using assms(1) by (simp_all add: instances_inv_def)
  note wi = inj_map_remove [OF inj(1), of i] ran_remove [OF inj(1) assms(2)]
  show ?thesis
  proof (cases "wi_wait s i")
    case None
    with assms(1) wi show ?thesis
      by (auto simp: instances_inv_def instances_Remove_def)
  next
    case (Some c)
    note inj_map_remove [OF inj(2), of i] ran_remove [OF inj(2) Some]
    with assms(1) wi Some show ?thesis
      by (auto simp: instances_inv_def instances_Remove_def)
  qed
qed

lemma instances_wait_inv:
  assumes "instances_inv s"
  shows "instances_inv (snd (instances_Wait t i s))"
proof (cases "wi s i")
  case None
  with assms show ?thesis by (simp add: instances_Wait_def)
next
  case (Some p)
  show ?thesis
  proof (cases "wi_wait s i")
    case None
    have new: "next_cond s \<notin> ran (wi_wait s)" using assms by (auto simp: instances_inv_def)
    with assms Some None show ?thesis
      by (auto simp: instances_inv_def instances_Wait_def less_Suc_eq inj_map_upd)
  next
    case wait: (Some c)
    with assms Some show ?thesis
      by (auto simp: instances_inv_def instances_Wait_def intro: ranI)
  qed
qed

lemma instances_step_inv: "instances_step s s' \<Longrightarrow> instances_inv s \<Longrightarrow> instances_inv s'"
proof (induction rule: instances_step.induct)
  case (ins_construct p s i)
  then show ?case by (simp add: instances_construct_inv)
next
  case (ins_destruct s i p)
  then show ?case by (simp add: instances_remove_inv)
next
  case (ins_wait t s i)
  then show ?case by (simp add: instances_wait_inv)
next
  case (ins_spurious t c s)
  then show ?case by (auto simp: instances_inv_def)
qed

lemma instances_reachable_inv: "instances_reachable s \<Longrightarrow> instances_inv s"
proof (induction rule: instances_reachable.induct)
  case ins_start
  then show ?case by (simp add: instances_inv_def WorkflowInstances_new_def inj_map_def)
next
  case (ins_next s s')
  then show ?case using instances_step_inv by blast
qed

lemma no_waiter_after_remove:
  assumes "instances_inv s"
  shows "\<not> waits_for t i (instances_Remove i s)"
  by (cases "wi_wait s i") (auto simp: waits_for_def instances_Remove_def)

text \<open>
  C31. In every reachable state, every sleeping thread waits for an instance that is still
  registered, so the destructor of that instance will wake it: nobody waits for an instance that
  has gone. And every registered pointer is to an allocated instance: the calls made on it under
  the registry's mutex never touch a freed one.
\<close>

theorem waiters_and_pointers_live:
  assumes "instances_reachable s"
  shows "(\<forall>(t, c) \<in> set (sleepers s). \<exists>i p. waits_for t i s \<and> wi s i = Some p) \<and>
    \<not> waits_for t i (instances_Remove i s) \<and>
    instances_Cancel cancel i (s, \<sigma>) =
      (case wi s i of None \<Rightarrow> Some (False, \<sigma>) | Some p \<Rightarrow> Some (True, cancel p \<sigma>))"
proof -
  have inv: "instances_inv s" by (rule instances_reachable_inv [OF assms])
  have "\<exists>i p. waits_for t i s \<and> wi s i = Some p" if "(t, c) \<in> set (sleepers s)" for t c
  proof -
    from inv that obtain i where i: "wi_wait s i = Some c" by (fastforce simp: instances_inv_def ran_def)
    with inv obtain p where "wi s i = Some p" by (auto simp: instances_inv_def)
    with i that show ?thesis by (auto simp: waits_for_def)
  qed
  moreover have "p \<in> allocated s" if "wi s i = Some p" for p
    using inv that by (auto simp: instances_inv_def ran_def)
  ultimately show ?thesis
    using no_waiter_after_remove [OF inv]
    by (auto simp: instances_Cancel_def instances_call_def split: option.splits)
qed

definition demo_instances :: instances where
  "demo_instances = snd (instances_Wait 3 41 (instances_Add 41 0
     (WorkflowInstances_new\<lparr>allocated := insert 0 (allocated WorkflowInstances_new)\<rparr>)))"

lemma demo_instances_reachable: "instances_reachable demo_instances"
  unfolding demo_instances_def
  by (rule ins_next [OF ins_next [OF ins_start ins_construct] ins_wait])
    (simp_all add: WorkflowInstances_new_def sleeping_def instances_Add_def)

theorem waiters_and_pointers_live_witness:
  "(3, 0) \<in> set (sleepers demo_instances) \<and> (\<exists>i p. waits_for 3 i demo_instances \<and> wi demo_instances i = Some p)"
proof -
  have mem: "(3, 0) \<in> set (sleepers demo_instances)"
    by (simp add: demo_instances_def instances_Wait_def instances_Add_def WorkflowInstances_new_def)
  with waiters_and_pointers_live [OF demo_instances_reachable] show ?thesis by fastforce
qed

end
