(* ===== verification/Socket_Query.thy ===== *)
theory Socket_Query
  imports Workflow_Parameters
begin

text \<open>
  The parser of client queries, \<open>SocketQuerySAX2Handler.cpp\<close>: a SAX handler that turns
  the events of the XML parser into a query. The XML parser is not part of the program: the
  events are the input. Its number parser \<open>XMLString::parseInt\<close> is the argument \<open>parse_int\<close>,
  with \<open>None\<close> for the exception it throws on text that is no number.
\<close>

datatype query_type =
    QUERY_WORKFLOW_LAUNCH | QUERY_WORKFLOW_INFO | QUERY_QUEUE_STATS | QUERY_GLOBAL_STATS
  | QUERY_WORKFLOWS_STATUS | QUERY_SCHEDULER_STATUS | QUERY_WORKFLOW_CANCEL
  | QUERY_WORKFLOW_WAIT | QUERY_WORKFLOW_KILLTASK | RESET_GLOBAL_STATS | PING

datatype query_mode = MODE_SYNCHRONOUS | MODE_ASYNCHRONOUS

text \<open>
  The handler. \<open>None\<close> in \<open>query_type\<close>, \<open>query_options\<close>, \<open>workflow_id\<close> and \<open>task_pid\<close> is a field
  the constructor left uninitialised, in the other fields a null pointer.
\<close>

record handler =
  query_type :: "query_type option"
  query_options :: "query_mode option"
  workflow_id :: "int option"
  task_pid :: "int option"
  workflow_name :: "string option"
  workflow_host :: "string option"
  workflow_user :: "string option"
  ready :: bool
  level :: int
  query_params :: parameters

definition handler_new :: handler where
  "handler_new = \<lparr>query_type = None, query_options = None, workflow_id = None, task_pid = None,
     workflow_name = None, workflow_host = None, workflow_user = None, ready = False, level = 0,
     query_params = Parameters_new\<rparr>"

text \<open>
  What leaves the handler: an \<open>Exception\<close>, the number parser's exception, or the integer
  thrown when the document is complete.
\<close>

datatype sax_exit = Sax_Exception exn | Sax_Number | Sax_Complete handler

type_synonym attributes = "string \<rightharpoonup> string"

abbreviation sax_throw :: "string \<Rightarrow> sax_exit + 'a" where
  "sax_throw msg \<equiv> Inl (Sax_Exception (Exception ''SocketQuerySAX2Handler'' msg))"

definition PARAMETER_NAME_MAX_LEN :: nat where "PARAMETER_NAME_MAX_LEN = 64"

definition name_char :: "char \<Rightarrow> bool" where
  "name_char c \<longleftrightarrow> isalnum c \<or> c = CHR ''_''"

text \<open>\<open>XMLString::compareString(\<dots>)==0\<close> and \<open>strcmp(\<dots>)==0\<close>.\<close>

definition xml_eq :: "string \<Rightarrow> string \<Rightarrow> bool" where
  "xml_eq a b \<longleftrightarrow> a = b"

definition root_statistics :: "attributes \<Rightarrow> handler \<Rightarrow> sax_exit + handler" where
  "root_statistics attrs h =
     (case attrs ''type'' of
        None \<Rightarrow> sax_throw ''Missing type attribute on node statistics''
      | Some t \<Rightarrow>
          if xml_eq t ''global'' then
            (case attrs ''action'' of
               None \<Rightarrow> Inr (h\<lparr>query_type := Some QUERY_GLOBAL_STATS\<rparr>)
             | Some a \<Rightarrow>
                 if xml_eq a ''query'' then Inr (h\<lparr>query_type := Some QUERY_GLOBAL_STATS\<rparr>)
                 else if xml_eq a ''reset'' then Inr (h\<lparr>query_type := Some RESET_GLOBAL_STATS\<rparr>)
                 else sax_throw ''Unknown statistics action'')
          else if xml_eq t ''queue'' then Inr (h\<lparr>query_type := Some QUERY_QUEUE_STATS\<rparr>)
          else sax_throw ''Unknown statistics type'')"

definition root_status :: "attributes \<Rightarrow> handler \<Rightarrow> sax_exit + handler" where
  "root_status attrs h =
     (case attrs ''type'' of
        None \<Rightarrow> sax_throw ''Missing type attribute on node statistics''
      | Some t \<Rightarrow>
          if xml_eq t ''scheduler'' then Inr (h\<lparr>query_type := Some QUERY_SCHEDULER_STATUS\<rparr>)
          else if xml_eq t ''workflows'' then Inr (h\<lparr>query_type := Some QUERY_WORKFLOWS_STATUS\<rparr>)
          else sax_throw ''Unknown statistics type'')"

definition root_launch :: "string \<Rightarrow> attributes \<Rightarrow> handler \<Rightarrow> sax_exit + handler" where
  "root_launch name attrs h =
     (let h = h\<lparr>query_type := Some QUERY_WORKFLOW_LAUNCH, workflow_name := Some name\<rparr> in
      if \<not> list_all name_char name then sax_throw ''Invalid workflow name''
      else
        let h = (case attrs ''mode'' of
                   None \<Rightarrow> h\<lparr>query_options := Some MODE_ASYNCHRONOUS\<rparr>
                 | Some m \<Rightarrow>
                     if xml_eq m ''asynchronous'' then h\<lparr>query_options := Some MODE_ASYNCHRONOUS\<rparr>
                     else if xml_eq m ''synchronous'' then h\<lparr>query_options := Some MODE_SYNCHRONOUS\<rparr>
                     else h);
            h = (case attrs ''host'' of None \<Rightarrow> h | Some x \<Rightarrow> h\<lparr>workflow_host := Some x\<rparr>);
            h = (case attrs ''user'' of None \<Rightarrow> h | Some x \<Rightarrow> h\<lparr>workflow_user := Some x\<rparr>)
        in Inr h)"

definition root_instance ::
  "(string \<Rightarrow> int option) \<Rightarrow> string \<Rightarrow> attributes \<Rightarrow> handler \<Rightarrow> sax_exit + handler" where
  "root_instance parse_int wid attrs h =
     (case parse_int wid of
        None \<Rightarrow> Inl Sax_Number
      | Some n \<Rightarrow>
          let h = h\<lparr>workflow_id := Some n\<rparr> in
          (case attrs ''action'' of
             None \<Rightarrow> Inr (h\<lparr>query_type := Some QUERY_WORKFLOW_INFO\<rparr>)
           | Some a \<Rightarrow>
               if xml_eq a ''info'' then Inr (h\<lparr>query_type := Some QUERY_WORKFLOW_INFO\<rparr>)
               else if xml_eq a ''cancel'' then Inr (h\<lparr>query_type := Some QUERY_WORKFLOW_CANCEL\<rparr>)
               else if xml_eq a ''wait'' then Inr (h\<lparr>query_type := Some QUERY_WORKFLOW_WAIT\<rparr>)
               else if xml_eq a ''killtask'' then
                 let h = h\<lparr>query_type := Some QUERY_WORKFLOW_KILLTASK\<rparr> in
                 (case attrs ''pid'' of
                    None \<Rightarrow> sax_throw ''Action killtask requires a PID''
                  | Some p \<Rightarrow>
                      (case parse_int p of
                         None \<Rightarrow> Inl Sax_Number
                       | Some m \<Rightarrow> Inr (h\<lparr>task_pid := Some m\<rparr>)))
               else Inr h))"

definition root_element ::
  "(string \<Rightarrow> int option) \<Rightarrow> string \<Rightarrow> attributes \<Rightarrow> handler \<Rightarrow> sax_exit + handler" where
  "root_element parse_int node attrs h =
     (if xml_eq node ''ping'' then Inr (h\<lparr>query_type := Some PING\<rparr>)
      else if xml_eq node ''statistics'' then root_statistics attrs h
      else if xml_eq node ''status'' then root_status attrs h
      else if xml_eq node ''workflow'' then
        (case (attrs ''name'', attrs ''id'') of
           (Some name, _) \<Rightarrow> root_launch name attrs h
         | (None, Some wid) \<Rightarrow> root_instance parse_int wid attrs h
         | (None, None) \<Rightarrow> sax_throw ''Missing name or id attribute on node workflow'')
      else sax_throw (''Invalid root node name, expecting '' @ [CHR 0x27] @ ''workflow'' @ [CHR 0x27] @
        '' or '' @ [CHR 0x27] @ ''statistics'' @ [CHR 0x27]))"

definition parameter_element :: "string \<Rightarrow> attributes \<Rightarrow> handler \<Rightarrow> sax_exit + handler" where
  "parameter_element node attrs h =
     (if \<not> xml_eq node ''parameter'' then sax_throw ''Expecting parameter node''
      else case (attrs ''name'', attrs ''value'') of
        (Some name, Some v) \<Rightarrow>
          if length name > PARAMETER_NAME_MAX_LEN then sax_throw ''Parameter name is too long''
          else if \<not> list_all name_char name then sax_throw ''Invalid parameter name''
          else let (added, ps) = param_Add name v (query_params h) in
            if \<not> added then sax_throw ''Duplicate parameter name''
            else Inr (h\<lparr>query_params := ps\<rparr>)
      | _ \<Rightarrow> sax_throw ''Invalue parameter node, missing name or value attributes'')"

definition no_subnodes :: "query_type option \<Rightarrow> bool" where
  "no_subnodes q \<longleftrightarrow> q \<in> {Some QUERY_WORKFLOW_INFO, Some QUERY_QUEUE_STATS, Some QUERY_GLOBAL_STATS,
     Some QUERY_SCHEDULER_STATUS}"

definition startElement ::
  "(string \<Rightarrow> int option) \<Rightarrow> string \<Rightarrow> attributes \<Rightarrow> handler \<Rightarrow> sax_exit + handler" where
  "startElement parse_int node attrs h =
     (let h = h\<lparr>level := level h + 1\<rparr> in
      case (if level h = 1 then root_element parse_int node attrs h else Inr h) of
        Inl e \<Rightarrow> Inl e
      | Inr h \<Rightarrow>
          if no_subnodes (query_type h) \<and> level h \<ge> 2 then sax_throw ''Unexpected subnode''
          else
            (case (if query_type h = Some QUERY_WORKFLOW_LAUNCH \<and> level h = 2
                   then parameter_element node attrs h else Inr h) of
               Inl e \<Rightarrow> Inl e
             | Inr h \<Rightarrow>
                 if query_type h = Some QUERY_WORKFLOW_LAUNCH \<and> level h > 2
                 then sax_throw ''parameter node does not accept subnodes'' else Inr h))"

definition endElement :: "handler \<Rightarrow> sax_exit + handler" where
  "endElement h =
     (let h = h\<lparr>level := level h - 1\<rparr> in
      if level h = 0 then Inl (Sax_Complete (h\<lparr>ready := True\<rparr>)) else Inr h)"

definition endDocument :: "handler \<Rightarrow> handler" where
  "endDocument h = h\<lparr>ready := True\<rparr>"

text \<open>The events of the parser, and the loop that feeds them to the handler.\<close>

datatype sax_event = Start string "(string \<times> string) list" | End

fun sax_run :: "(string \<Rightarrow> int option) \<Rightarrow> sax_event list \<Rightarrow> handler \<Rightarrow> sax_exit + handler" where
  "sax_run parse_int [] h = Inr (endDocument h)"
| "sax_run parse_int (ev # evs) h =
     (case (case ev of Start node attrs \<Rightarrow> startElement parse_int node (map_of attrs) h
                     | End \<Rightarrow> endElement h) of
        Inl e \<Rightarrow> Inl e
      | Inr h \<Rightarrow> sax_run parse_int evs h)"

section \<open>Properties\<close>

text \<open>A launch request, as a client writes it, and the query it stands for.\<close>

definition parameter_events :: "(string \<times> string) list \<Rightarrow> sax_event list" where
  "parameter_events ps =
     concat (List.map (\<lambda>(n, v). [Start ''parameter'' [(''name'', n), (''value'', v)], End]) ps)"

definition launch_events :: "string \<Rightarrow> bool \<Rightarrow> (string \<times> string) list \<Rightarrow> sax_event list" where
  "launch_events name sync ps =
     Start ''workflow'' [(''name'', name), (''mode'', if sync then ''synchronous'' else ''asynchronous'')]
     # parameter_events ps @ [End]"

definition valid_name :: "string \<Rightarrow> bool" where
  "valid_name n \<longleftrightarrow> list_all name_char n \<and> length n \<le> PARAMETER_NAME_MAX_LEN"

lemma no_subnodes_launch [simp]: "\<not> no_subnodes (Some QUERY_WORKFLOW_LAUNCH)"
  by (simp add: no_subnodes_def)

lemma parameter_step:
  assumes "query_type h = Some QUERY_WORKFLOW_LAUNCH" and "level h = 1" and "valid_name n"
    and "n \<notin> fst ` set (first_parameter (query_params h))"
  shows "sax_run pint (Start ''parameter'' [(''name'', n), (''value'', v)] # End # evs) h =
    sax_run pint evs (h\<lparr>query_params := (query_params h)\<lparr>first_parameter := (n, v) # first_parameter (query_params h)\<rparr>\<rparr>)"
proof -
  have add: "param_Add n v (query_params h) =
      (True, (query_params h)\<lparr>first_parameter := (n, v) # first_parameter (query_params h)\<rparr>)"
    using assms(4) by (auto simp: param_Add_def list_ex_iff)
  have name: "\<not> length n > PARAMETER_NAME_MAX_LEN" "list_all name_char n"
    using assms(3) by (simp_all add: valid_name_def)
  have attrs: "map_of [(''name'', n), (''value'', v)] ''name'' = Some n"
    "map_of [(''name'', n), (''value'', v)] ''value'' = Some v" by simp_all
  have start: "startElement pint ''parameter'' (map_of [(''name'', n), (''value'', v)]) h =
      Inr (h\<lparr>level := 2, query_params := (query_params h)\<lparr>first_parameter := (n, v) # first_parameter (query_params h)\<rparr>\<rparr>)"
    using assms(1,2) add name
    by (simp add: startElement_def parameter_element_def xml_eq_def attrs Let_def del: map_of.simps)
  have stop: "endElement (h\<lparr>level := 2, query_params := ps\<rparr>) = Inr (h\<lparr>query_params := ps\<rparr>)" for ps
  proof -
    have "h\<lparr>query_params := ps, level := 1\<rparr> = h\<lparr>query_params := ps\<rparr>" using assms(2) by (cases h) simp
    then show ?thesis using assms(2) by (simp add: endElement_def Let_def)
  qed
  show ?thesis by (simp only: sax_run.simps sax_event.case start stop sum.case)
qed

lemma parameters_run:
  "query_type h = Some QUERY_WORKFLOW_LAUNCH \<Longrightarrow> level h = 1 \<Longrightarrow> list_all (valid_name \<circ> fst) ps \<Longrightarrow>
   distinct (List.map fst ps) \<Longrightarrow> fst ` set ps \<inter> fst ` set (first_parameter (query_params h)) = {} \<Longrightarrow>
   sax_run pint (parameter_events ps @ evs) h =
   sax_run pint evs (h\<lparr>query_params := (query_params h)\<lparr>first_parameter := rev ps @ first_parameter (query_params h)\<rparr>\<rparr>)"
proof (induction ps arbitrary: h)
  case Nil
  then show ?case by (cases h) (simp add: parameter_events_def)
next
  case (Cons p ps)
  obtain n v where p: "p = (n, v)" by (cases p)
  let ?h = "h\<lparr>query_params := (query_params h)\<lparr>first_parameter := (n, v) # first_parameter (query_params h)\<rparr>\<rparr>"
  have ev: "parameter_events (p # ps) @ evs =
      Start ''parameter'' [(''name'', n), (''value'', v)] # End # parameter_events ps @ evs"
    by (simp add: parameter_events_def p)
  have step: "sax_run pint (parameter_events (p # ps) @ evs) h = sax_run pint (parameter_events ps @ evs) ?h"
    unfolding ev by (rule parameter_step) (use Cons.prems p in auto)
  have "sax_run pint (parameter_events ps @ evs) ?h = sax_run pint evs
      (?h\<lparr>query_params := (query_params ?h)\<lparr>first_parameter := rev ps @ first_parameter (query_params ?h)\<rparr>\<rparr>)"
    by (rule Cons.IH) (use Cons.prems p in auto)
  with step show ?case by (simp add: p)
qed

text \<open>
  C32. Launch requests round trip: for a name and parameter names of letters, digits and
  underscores (parameter names distinct and at most 64 long), the handler reads a request
  written with them as the launch query of that workflow, in the requested mode, with exactly
  those parameters and values (last one first), and stops at the end of the root element.
\<close>

theorem launch_query_roundtrip:
  assumes "list_all name_char name" and "list_all (valid_name \<circ> fst) ps" and "distinct (List.map fst ps)"
  shows "\<exists>h. sax_run pint (launch_events name sync ps) handler_new = Inl (Sax_Complete h) \<and>
    query_type h = Some QUERY_WORKFLOW_LAUNCH \<and> workflow_name h = Some name \<and>
    query_options h = Some (if sync then MODE_SYNCHRONOUS else MODE_ASYNCHRONOUS) \<and>
    workflow_host h = None \<and> workflow_user h = None \<and> ready h \<and>
    fst (param_loop (param_SeekStart (query_params h))) = rev ps"
proof -
  define h1 where "h1 = handler_new\<lparr>level := 1, query_type := Some QUERY_WORKFLOW_LAUNCH,
    workflow_name := Some name, query_options := Some (if sync then MODE_SYNCHRONOUS else MODE_ASYNCHRONOUS)\<rparr>"
  define mode where "mode = (if sync then ''synchronous'' else ''asynchronous'')"
  let ?attrs = "map_of [(''name'', name), (''mode'', mode)]"
  have attrs: "?attrs ''name'' = Some name" "?attrs ''mode'' = Some mode" "?attrs ''host'' = None"
    "?attrs ''user'' = None" by simp_all
  have root: "root_element pint ''workflow'' ?attrs h = root_launch name ?attrs h" for h
    by (simp add: root_element_def xml_eq_def attrs del: map_of.simps)
  have launch: "root_launch name ?attrs (handler_new\<lparr>level := 1\<rparr>) = Inr h1"
    using assms(1) attrs
    by (cases sync) (simp_all add: root_launch_def xml_eq_def Let_def handler_new_def h1_def mode_def del: map_of.simps)
  have q0: "level handler_new + 1 = 1" "level h1 = 1" "query_type h1 = Some QUERY_WORKFLOW_LAUNCH"
    by (simp_all add: handler_new_def h1_def)
  have start: "startElement pint ''workflow'' ?attrs handler_new = Inr h1"
    unfolding startElement_def Let_def q0(1)
    by (simp add: root launch q0 del: map_of.simps)
  have q1: "query_type h1 = Some QUERY_WORKFLOW_LAUNCH" "level h1 = 1"
    "first_parameter (query_params h1) = []"
    by (simp_all add: h1_def handler_new_def Parameters_new_def)
  let ?h2 = "h1\<lparr>query_params := (query_params h1)\<lparr>first_parameter := rev ps\<rparr>\<rparr>"
  have "sax_run pint (launch_events name sync ps) handler_new =
      sax_run pint (parameter_events ps @ [End]) h1"
    by (simp only: launch_events_def sax_run.simps sax_event.case start sum.case flip: mode_def)
  also have "\<dots> = sax_run pint [End] ?h2"
    using parameters_run [OF q1(1,2) assms(2,3), of pint "[End]"] q1(3) by simp
  also have "\<dots> = Inl (Sax_Complete (?h2\<lparr>level := 0, ready := True\<rparr>))"
    by (simp add: endElement_def Let_def h1_def)
  finally have run: "sax_run pint (launch_events name sync ps) handler_new =
    Inl (Sax_Complete (?h2\<lparr>level := 0, ready := True\<rparr>))" .
  have "fst (param_loop p) = current_parameter p" for p
    by (induction p rule: param_loop.induct)
      (subst param_loop.simps, auto simp: param_Get_def split: list.splits)
  then have "fst (param_loop (param_SeekStart (query_params ?h2))) = rev ps"
    by (simp add: param_SeekStart_def)
  with run show ?thesis by (simp add: h1_def handler_new_def)
qed

theorem launch_query_roundtrip_witness:
  "\<exists>h. sax_run (\<lambda>_. None) (launch_events ''backup'' True [(''disk'', ''sda''), (''day'', ''mon'')]) handler_new =
     Inl (Sax_Complete h) \<and> fst (param_loop (param_SeekStart (query_params h))) = [(''day'', ''mon''), (''disk'', ''sda'')]"
proof -
  have "list_all name_char ''backup''" by code_simp
  moreover have "list_all (valid_name \<circ> fst) [(''disk'', ''sda''), (''day'', ''mon'')]" by code_simp
  ultimately show ?thesis
    using launch_query_roundtrip [of "''backup''" "[(''disk'', ''sda''), (''day'', ''mon'')]" "\<lambda>_. None" True]
    by auto
qed

text \<open>What the rest of the program relies on in a query.\<close>

definition handler_inv :: "handler \<Rightarrow> bool" where
  "handler_inv h \<longleftrightarrow>
     (query_type h = Some QUERY_WORKFLOW_LAUNCH \<longrightarrow> (\<exists>n. workflow_name h = Some n \<and> list_all name_char n)) \<and>
     list_all (valid_name \<circ> fst) (first_parameter (query_params h)) \<and> params_inv (query_params h) \<and>
     (query_type h \<in> {Some QUERY_WORKFLOW_INFO, Some QUERY_WORKFLOW_CANCEL, Some QUERY_WORKFLOW_WAIT,
        Some QUERY_WORKFLOW_KILLTASK} \<longrightarrow> workflow_id h \<noteq> None) \<and>
     (query_type h = Some QUERY_WORKFLOW_KILLTASK \<longrightarrow> task_pid h \<noteq> None)"

lemma handler_inv_updates:
  assumes "handler_inv h"
  shows "q \<notin> {QUERY_WORKFLOW_LAUNCH, QUERY_WORKFLOW_INFO, QUERY_WORKFLOW_CANCEL, QUERY_WORKFLOW_WAIT,
      QUERY_WORKFLOW_KILLTASK} \<Longrightarrow> handler_inv (h\<lparr>query_type := Some q\<rparr>)"
    and "list_all name_char n \<Longrightarrow>
      handler_inv (h\<lparr>query_type := Some QUERY_WORKFLOW_LAUNCH, workflow_name := Some n\<rparr>)"
    and "handler_inv (h\<lparr>query_options := m\<rparr>)" "handler_inv (h\<lparr>workflow_host := x\<rparr>)"
      "handler_inv (h\<lparr>workflow_user := x\<rparr>)" "handler_inv (h\<lparr>workflow_id := Some i\<rparr>)"
    and "q' \<in> {QUERY_WORKFLOW_INFO, QUERY_WORKFLOW_CANCEL, QUERY_WORKFLOW_WAIT} \<Longrightarrow>
      handler_inv (h\<lparr>workflow_id := Some i, query_type := Some q'\<rparr>)"
    and "handler_inv (h\<lparr>workflow_id := Some i, query_type := Some QUERY_WORKFLOW_KILLTASK, task_pid := Some k\<rparr>)"
  using assms by (auto simp: handler_inv_def)

lemma root_statistics_inv: "Inr h' = root_statistics attrs h \<Longrightarrow> handler_inv h \<Longrightarrow> handler_inv h'"
  unfolding root_statistics_def by (simp split: option.splits if_splits; simp add: handler_inv_updates)

lemma root_status_inv: "Inr h' = root_status attrs h \<Longrightarrow> handler_inv h \<Longrightarrow> handler_inv h'"
  unfolding root_status_def by (simp split: option.splits if_splits; simp add: handler_inv_updates)

lemma root_launch_inv: "Inr h' = root_launch name attrs h \<Longrightarrow> handler_inv h \<Longrightarrow> handler_inv h'"
  unfolding root_launch_def Let_def
  by (simp split: option.splits if_splits; simp add: handler_inv_updates)

lemma root_instance_inv: "Inr h' = root_instance pint wid attrs h \<Longrightarrow> handler_inv h \<Longrightarrow> handler_inv h'"
  unfolding root_instance_def Let_def
  by (simp split: option.splits if_splits; simp add: handler_inv_updates)

lemma root_element_inv:
  assumes "Inr h' = root_element pint node attrs h" and "handler_inv h"
  shows "handler_inv h'"
proof -
  have "handler_inv (h\<lparr>query_type := Some PING\<rparr>)" using assms(2) by (simp add: handler_inv_updates)
  with assms show ?thesis
    unfolding root_element_def
    by (simp split: option.splits if_splits)
      (blast intro: root_statistics_inv root_status_inv root_launch_inv root_instance_inv)+
qed

lemma parameter_element_inv:
  assumes "parameter_element node attrs h = Inr h'" and "handler_inv h"
  shows "handler_inv h'"
proof -
  from assms(1) obtain n v where n: "length n \<le> PARAMETER_NAME_MAX_LEN" "list_all name_char n"
    and add: "param_Add n v (query_params h) = (True, query_params h')" and h': "h' = h\<lparr>query_params := query_params h'\<rparr>"
    by (auto simp: parameter_element_def split: option.splits if_splits prod.splits) (metis not_less)
  have "params_inv (query_params h')"
    using param_Add_inv [of "query_params h" n v] add assms(2) by (simp add: handler_inv_def)
  moreover have "first_parameter (query_params h') = (n, v) # first_parameter (query_params h)"
    using arg_cong [OF add [symmetric], of "first_parameter \<circ> snd"] arg_cong [OF add, of fst]
    by (simp add: param_Add_def split: if_splits)
  ultimately have "params_inv (query_params h') \<and> list_all (valid_name \<circ> fst) (first_parameter (query_params h'))"
    using n assms(2) by (simp add: handler_inv_def valid_name_def)
  with assms(2) show ?thesis by (subst h') (simp add: handler_inv_def)
qed

lemma handler_inv_level: "handler_inv (h\<lparr>level := l\<rparr>) = handler_inv h" "handler_inv (h\<lparr>ready := r\<rparr>) = handler_inv h"
  by (simp_all add: handler_inv_def)

lemma startElement_inv:
  assumes "startElement pint node attrs h = Inr h'" and "handler_inv h"
  shows "handler_inv h'"
proof -
  let ?h = "h\<lparr>level := level h + 1\<rparr>"
  have inv: "handler_inv ?h" using assms(2) by (simp add: handler_inv_level)
  from assms(1) obtain h1 where h1: "(if level ?h = 1 then root_element pint node attrs ?h else Inr ?h) = Inr h1"
    "(if query_type h1 = Some QUERY_WORKFLOW_LAUNCH \<and> level h1 = 2 then parameter_element node attrs h1 else Inr h1) = Inr h'"
    unfolding startElement_def Let_def by (auto split: sum.splits if_splits)
  from h1(1) inv have "handler_inv h1" using root_element_inv [of h1 pint node attrs ?h] by (simp split: if_splits)
  with h1(2) show ?thesis using parameter_element_inv [of node attrs h1 h'] by (simp split: if_splits)
qed

lemma sax_run_inv: "sax_run pint evs h = Inl (Sax_Complete h') \<Longrightarrow> handler_inv h \<Longrightarrow> handler_inv h'"
proof (induction evs arbitrary: h)
  case Nil
  then show ?case by simp
next
  case (Cons ev evs)
  show ?case
  proof (cases ev)
    case (Start node attrs)
    obtain h1 where "startElement pint node (map_of attrs) h = Inr h1" "sax_run pint evs h1 = Inl (Sax_Complete h')"
    proof (cases "startElement pint node (map_of attrs) h")
      case (Inl e)
      have "e \<noteq> Sax_Complete g" for g
        using Inl by (auto simp: startElement_def root_element_def root_statistics_def root_status_def root_launch_def
            root_instance_def parameter_element_def Let_def split: if_splits option.splits sum.splits prod.splits)
      with Inl Cons.prems(1) Start show ?thesis by simp
    next
      case (Inr h1)
      with Cons.prems(1) Start that show ?thesis by simp
    qed
    with Cons.IH startElement_inv Cons.prems(2) show ?thesis by blast
  next
    case End
    with Cons show ?thesis
      by (auto simp: endElement_def Let_def handler_inv_level split: if_splits)
  qed
qed


lemma cancel_query:
  "\<exists>h. sax_run (\<lambda>_. Some 7) [Start ''workflow'' [(''id'', ''7''), (''action'', ''cancel'')], End] handler_new =
     Inl (Sax_Complete h) \<and> query_type h = Some QUERY_WORKFLOW_CANCEL"
  by (simp add: startElement_def root_element_def root_instance_def xml_eq_def endElement_def handler_new_def Let_def
      no_subnodes_def)


text \<open>
  An unknown action on an instance and an unknown launch mode are not refused: the query
  completes with an uninitialised type, or mode.
\<close>

theorem unknown_attributes_accepted:
  "(\<exists>h. sax_run (\<lambda>_. Some 7) [Start ''workflow'' [(''id'', ''7''), (''action'', ''pause'')], End] handler_new =
      Inl (Sax_Complete h) \<and> query_type h = None) \<and>
   (\<exists>h. sax_run (\<lambda>_. Some 7) [Start ''workflow'' [(''name'', ''w''), (''mode'', ''sync'')], End] handler_new =
      Inl (Sax_Complete h) \<and> query_type h = Some QUERY_WORKFLOW_LAUNCH \<and> query_options h = None)"
proof
  show "\<exists>h. sax_run (\<lambda>_. Some 7) [Start ''workflow'' [(''id'', ''7''), (''action'', ''pause'')], End] handler_new =
      Inl (Sax_Complete h) \<and> query_type h = None"
    by (simp add: startElement_def root_element_def root_instance_def xml_eq_def endElement_def handler_new_def Let_def
      no_subnodes_def)
  have "list_all name_char ''w''" by code_simp
  then show "\<exists>h. sax_run (\<lambda>_. Some 7) [Start ''workflow'' [(''name'', ''w''), (''mode'', ''sync'')], End] handler_new =
      Inl (Sax_Complete h) \<and> query_type h = Some QUERY_WORKFLOW_LAUNCH \<and> query_options h = None"
    by (simp add: startElement_def root_element_def root_launch_def xml_eq_def endElement_def handler_new_def Let_def)
qed

end
