(* ===== verification/Document.thy ===== *)
theory Document
  imports Prelude
begin

text \<open>
  The XML document of a workflow instance. The program manipulates it through the Document
  Object Model of Xerces and the XPath engine of XQilla; this theory holds what it uses of them,
  on a store of nodes. The paths fixed in the code (\<open>tasks/task\<close>, \<open>subjobs/job\<close> and so on) have
  their standard meaning; expressions written by the user are arguments of the definitions that
  evaluate them.
\<close>

type_synonym node = nat

record element =
  tag :: string
  attrs :: "string \<rightharpoonup> string"
  kids :: "node list"
  parent :: "node option"
  own_text :: string \<comment> \<open>the text of a text node\<close>

record document =
  el :: "node \<Rightarrow> element"
  fresh :: node
  root :: node

definition empty_element :: "string \<Rightarrow> element" where
  "empty_element t = \<lparr>tag = t, attrs = Map.empty, kids = [], parent = None, own_text = []\<rparr>"

definition upd :: "node \<Rightarrow> (element \<Rightarrow> element) \<Rightarrow> document \<Rightarrow> document" where
  "upd n f d = d\<lparr>el := (el d)(n := f (el d n))\<rparr>"

section \<open>Attributes\<close>

text \<open>\<open>getAttribute\<close> gives the empty string for a missing attribute; \<open>getNamedItem\<close> gives null.\<close>

definition getNamedItem :: "document \<Rightarrow> node \<Rightarrow> string \<Rightarrow> string option" where
  "getNamedItem d n a = attrs (el d n) a"

definition getAttribute :: "document \<Rightarrow> node \<Rightarrow> string \<Rightarrow> string" where
  "getAttribute d n a = (case attrs (el d n) a of None \<Rightarrow> [] | Some v \<Rightarrow> v)"

definition setAttribute :: "node \<Rightarrow> string \<Rightarrow> string \<Rightarrow> document \<Rightarrow> document" where
  "setAttribute n a v d = upd n (\<lambda>e. e\<lparr>attrs := (attrs e)(a \<mapsto> v)\<rparr>) d"

definition removeAttribute :: "node \<Rightarrow> string \<Rightarrow> document \<Rightarrow> document" where
  "removeAttribute n a d = upd n (\<lambda>e. e\<lparr>attrs := (attrs e)(a := None)\<rparr>) d"

section \<open>Nodes\<close>

definition createElement :: "string \<Rightarrow> document \<Rightarrow> node \<times> document" where
  "createElement t d = (fresh d, d\<lparr>el := (el d)(fresh d := empty_element t), fresh := fresh d + 1\<rparr>)"

definition createTextNode :: "string \<Rightarrow> document \<Rightarrow> node \<times> document" where
  "createTextNode s d = (fresh d,
     d\<lparr>el := (el d)(fresh d := (empty_element ''#text'')\<lparr>own_text := s\<rparr>), fresh := fresh d + 1\<rparr>)"

definition appendChild :: "node \<Rightarrow> node \<Rightarrow> document \<Rightarrow> document" where
  "appendChild p c d = upd c (\<lambda>e. e\<lparr>parent := Some p\<rparr>) (upd p (\<lambda>e. e\<lparr>kids := kids e @ [c]\<rparr>) d)"

definition removeChild :: "node \<Rightarrow> node \<Rightarrow> document \<Rightarrow> document" where
  "removeChild p c d =
     upd c (\<lambda>e. e\<lparr>parent := None\<rparr>) (upd p (\<lambda>e. e\<lparr>kids := List.filter (\<lambda>k. k \<noteq> c) (kids e)\<rparr>) d)"

fun insert_before :: "node \<Rightarrow> node \<Rightarrow> node list \<Rightarrow> node list" where
  "insert_before c r [] = []"
| "insert_before c r (k # ks) = (if k = r then c # k # ks else k # insert_before c r ks)"

definition insertBefore :: "node \<Rightarrow> node \<Rightarrow> node \<Rightarrow> document \<Rightarrow> document" where
  "insertBefore p c r d =
     upd c (\<lambda>e. e\<lparr>parent := Some p\<rparr>) (upd p (\<lambda>e. e\<lparr>kids := insert_before c r (kids e)\<rparr>) d)"

definition replaceChild :: "node \<Rightarrow> node \<Rightarrow> node \<Rightarrow> document \<Rightarrow> document" where
  "replaceChild p c r d = removeChild p r (insertBefore p c r d)"

text \<open>\<open>cloneNode(true)\<close>; the fuel bounds the depth of the tree.\<close>

fun clone :: "nat \<Rightarrow> node \<Rightarrow> document \<Rightarrow> node \<times> document"
  and clone_list :: "nat \<Rightarrow> node list \<Rightarrow> document \<Rightarrow> node list \<times> document" where
  "clone 0 n d = (fresh d, d\<lparr>el := (el d)(fresh d := (el d n)\<lparr>kids := [], parent := None\<rparr>), fresh := fresh d + 1\<rparr>)"
| "clone (Suc f) n d =
     (let c = fresh d;
          d = d\<lparr>el := (el d)(c := (el d n)\<lparr>kids := [], parent := None\<rparr>), fresh := c + 1\<rparr>;
          (cs, d) = clone_list f (kids (el d n)) d
      in (c, fold (appendChild c) cs d))"
| "clone_list f [] d = ([], d)"
| "clone_list f (k # ks) d =
     (let (c, d) = clone f k d; (cs, d) = clone_list f ks d in (c # cs, d))"

definition cloneNode :: "node \<Rightarrow> document \<Rightarrow> node \<times> document" where
  "cloneNode n d = clone (fresh d) n d"

text \<open>The descendants of a node in document order, and the text of a node.\<close>

fun descendants :: "nat \<Rightarrow> document \<Rightarrow> node \<Rightarrow> node list" where
  "descendants 0 d n = []"
| "descendants (Suc f) d n = concat (List.map (\<lambda>k. k # descendants f d k) (kids (el d n)))"

definition getTextContent :: "document \<Rightarrow> node \<Rightarrow> string" where
  "getTextContent d n = own_text (el d n) @ concat (List.map (\<lambda>k. own_text (el d k)) (descendants (fresh d) d n))"

definition setTextContent :: "node \<Rightarrow> string \<Rightarrow> document \<Rightarrow> document" where
  "setTextContent n s d =
     (let (t, d) = createTextNode s (upd n (\<lambda>e. e\<lparr>kids := []\<rparr>) d) in appendChild n t d)"

section \<open>Fixed paths\<close>

definition children_named :: "string \<Rightarrow> document \<Rightarrow> node \<Rightarrow> node list" where
  "children_named t d n = List.filter (\<lambda>k. tag (el d k) = t) (kids (el d n))"

definition path2 :: "string \<Rightarrow> string \<Rightarrow> document \<Rightarrow> node \<Rightarrow> node list" where
  "path2 a b d n = concat (List.map (children_named b d) (children_named a d n))"

definition all_named :: "string \<Rightarrow> document \<Rightarrow> node list" where
  "all_named t d = List.filter (\<lambda>k. tag (el d k) = t) (root d # descendants (fresh d) d (root d))"

definition below_named :: "string \<Rightarrow> document \<Rightarrow> node \<Rightarrow> node list" where
  "below_named t d n = List.filter (\<lambda>k. tag (el d k) = t) (descendants (fresh d) d n)"

section \<open>Decimal numbers\<close>

text \<open>\<open>sprintf("%d")\<close>.\<close>

fun show_nat :: "nat \<Rightarrow> string" where
  "show_nat n = (if n < 10 then [char_of (48 + n)] else show_nat (n div 10) @ [char_of (48 + n mod 10)])"

declare show_nat.simps [simp del]

definition show_int :: "int \<Rightarrow> string" where
  "show_int i = (if i < 0 then CHR ''-'' # show_nat (nat (- i)) else show_nat (nat i))"

definition show_u32 :: "u32 \<Rightarrow> string" where
  "show_u32 w = show_int (sint w)"

lemma digit_char: "n < 10 \<Longrightarrow> isdigit (char_of (48 + n)) \<and> digit_value (char_of (48 + n)) = int n"
  by (simp add: isdigit_def digit_value_def Let_def)

lemma number_value_snoc: "number_value (ds @ [c]) = 10 * number_value ds + digit_value c"
  by (simp add: number_value_def)

lemma show_nat_value: "number_value (show_nat n) = int n \<and> list_all isdigit (show_nat n) \<and> show_nat n \<noteq> []"
proof (induction n rule: show_nat.induct)
  case (1 n)
  show ?case
  proof (cases "n < 10")
    case True
    then show ?thesis using digit_char [of n]
      by (subst (1 2 3) show_nat.simps) (simp add: number_value_def)
  next
    case False
    with 1 have ih: "number_value (show_nat (n div 10)) = int (n div 10)" "list_all isdigit (show_nat (n div 10))"
      by simp_all
    have "int n = 10 * int (n div 10) + int (n mod 10)" by presburger
    with False ih digit_char [of "n mod 10"] show ?thesis
      by (subst (1 2 3) show_nat.simps) (simp add: number_value_snoc)
  qed
qed

text \<open>\<open>XMLString::parseInt\<close> of a number printed by the program gives the number back.\<close>

definition parse_decimal :: "string \<Rightarrow> int option" where
  "parse_decimal s =
     (let ds = (if s \<noteq> [] \<and> hd s = CHR ''-'' then tl s else s)
      in if ds = [] \<or> \<not> list_all isdigit ds then None
         else Some (if s \<noteq> [] \<and> hd s = CHR ''-'' then - number_value ds else number_value ds))"

lemma parse_show: "parse_decimal (show_int i) = Some i"
proof (cases "i < 0")
  case True
  then show ?thesis using show_nat_value [of "nat (- i)"] by (simp add: parse_decimal_def show_int_def)
next
  case False
  let ?s = "show_nat (nat i)"
  have s: "?s \<noteq> []" "list_all isdigit ?s" "number_value ?s = i"
    using show_nat_value [of "nat i"] False by simp_all
  then have "isdigit (hd ?s)" by (cases ?s) simp_all
  then have "hd ?s \<noteq> CHR ''-''" by (auto simp: isdigit_def)
  with s False show ?thesis by (simp add: parse_decimal_def show_int_def)
qed

section \<open>Attribute lemmas\<close>

lemma setAttribute_same [simp]: "getNamedItem (setAttribute n a v d) n a = Some v"
  by (simp add: getNamedItem_def setAttribute_def upd_def)

lemma setAttribute_other [simp]:
  "m \<noteq> n \<or> b \<noteq> a \<Longrightarrow> getNamedItem (setAttribute n a v d) m b = getNamedItem d m b"
  by (auto simp: getNamedItem_def setAttribute_def upd_def)

lemma removeAttribute_same [simp]: "getNamedItem (removeAttribute n a d) n a = None"
  by (simp add: getNamedItem_def removeAttribute_def upd_def)

lemma removeAttribute_other [simp]:
  "m \<noteq> n \<or> b \<noteq> a \<Longrightarrow> getNamedItem (removeAttribute n a d) m b = getNamedItem d m b"
  by (auto simp: getNamedItem_def removeAttribute_def upd_def)

lemma getAttribute_named: "getAttribute d n a = (case getNamedItem d n a of None \<Rightarrow> [] | Some v \<Rightarrow> v)"
  by (simp add: getAttribute_def getNamedItem_def)

lemma attribute_root [simp]: "root (setAttribute n a v d) = root d" "root (removeAttribute n a d) = root d"
  by (simp_all add: setAttribute_def removeAttribute_def upd_def)

lemma element_setAttribute [simp]:
  "tag (el (setAttribute n a v d) k) = tag (el d k)" "kids (el (setAttribute n a v d) k) = kids (el d k)"
  "parent (el (setAttribute n a v d) k) = parent (el d k)" "own_text (el (setAttribute n a v d) k) = own_text (el d k)"
  "fresh (setAttribute n a v d) = fresh d"
  by (simp_all add: setAttribute_def upd_def)

lemma element_removeAttribute [simp]:
  "tag (el (removeAttribute n a d) k) = tag (el d k)" "kids (el (removeAttribute n a d) k) = kids (el d k)"
  "parent (el (removeAttribute n a d) k) = parent (el d k)" "own_text (el (removeAttribute n a d) k) = own_text (el d k)"
  "fresh (removeAttribute n a d) = fresh d"
  by (simp_all add: removeAttribute_def upd_def)

lemma children_setAttribute [simp]: "children_named t (setAttribute n a v d) m = children_named t d m"
  by (simp add: children_named_def)

lemma path2_setAttribute [simp]: "path2 t u (setAttribute n a v d) m = path2 t u d m"
proof -
  have "children_named t (setAttribute n a v d) = children_named t d" for t by (rule ext) simp
  then show ?thesis by (simp add: path2_def)
qed

end
