(* ===== verification/Workflow_Instance.thy ===== *)
theory Workflow_Instance
  imports Document Catalogues Settings Cron_Schedule Workflow_Parameters "HOL-Library.Monad_Syntax"
begin

text \<open>
  A running workflow (\<open>WorkflowInstance.cpp\<close>). The instance keeps its XML document, in which
  the state of every task is an attribute, and three counters: tasks queued or executing, tasks
  waiting for a retry, tasks in error. Its operations are called by the forker
  (\<open>TaskExecute\<close>), the gatherer (\<open>TaskStop\<close>), the retrier (\<open>TaskRestart\<close>) and the
  connections (\<open>Start\<close>, \<open>Cancel\<close>, \<open>KillTask\<close>), each of which holds the lock of the
  instance from start to end, so each is one state transformer.

  The calls made on other components are recorded, in order, in the field \<open>calls\<close>. What the
  code obtains from elsewhere is in the record \<open>env\<close>: the clock and \<open>localtime\<close>, the number
  parser and the XML parser and serialiser of Xerces, the evaluation of the expressions written by
  the user, the answers of the catalogue and of the queue pool, and the outcome of the attempts
  to write to the database.

  An operation gives \<open>None\<close> when it does not return: undefined behaviour, an exception nobody
  catches (number format, XQilla outside the protected evaluations), or an endless loop.
\<close>

section \<open>State\<close>

datatype save =
    Update_Savepoint string u32
  | Update_Terminated string u32 u32
  | Insert_Instance u32 u32 u32 "string option" string string string u32 string

datatype call =
    Call_Enqueue node string         \<comment> \<open>\<open>QueuePool::EnqueueTask\<close>\<close>
  | Call_Execute node string int     \<comment> \<open>\<open>QueuePool::ExecuteTask\<close>, on resume\<close>
  | Call_Retry node int              \<comment> \<open>\<open>Retrier::InsertTask\<close>\<close>
  | Call_Save save bool              \<comment> \<open>one attempt to write the savepoint, and its outcome\<close>
  | Call_IncErrors                   \<comment> \<open>\<open>Statistics::IncWorkflowInstanceErrors\<close>\<close>
  | Call_Errlog string string        \<comment> \<open>output saved in a file with that prefix\<close>
  | Call_Kill int                    \<comment> \<open>\<open>kill(pid,SIGTERM)\<close>\<close>
  | Call_Insert u32 "u32 option" "string option"  \<comment> \<open>the new row of \<open>t_workflow_instance\<close>\<close>
  | Call_Save_Parameter u32 string string
  | Call_Mark_Terminated u32
  | Call_Add u32 | Call_Remove u32   \<comment> \<open>\<open>WorkflowInstances\<close>\<close>
  | Call_IncExecuting | Call_DecExecuting
  | Call_Schedule_Stop u32 bool      \<comment> \<open>\<open>ScheduledWorkflowInstanceStop\<close>\<close>

record wf_instance =
  workflow_id :: u32
  workflow_instance_id :: u32
  running_tasks :: u32
  retrying_tasks :: u32
  error_tasks :: u32
  workflow_schedule_id :: u32
  is_cancelling :: bool
  xmldoc :: document
  logs_directory :: string
  errlogs :: bool
  errlogs_directory :: string
  tasks_directory :: string
  monitor_path :: string
  saveparameters :: bool
  savepoint_level :: int
  savepoint_retry :: bool
  savepoint_retry_times :: u32
  savepoint_retry_wait :: u32
  calls :: "call list"

record env =
  e_now :: int
  e_localtime :: "int \<Rightarrow> tm"
  e_parse_int :: "string \<Rightarrow> int option"
  e_parse :: "string \<Rightarrow> document option"
  e_import :: "string \<Rightarrow> document \<Rightarrow> (node \<times> document) option" \<comment> \<open>parse, then \<open>importNode\<close>\<close>
  e_serialize :: "document \<Rightarrow> node \<Rightarrow> string"
  e_text :: "document \<Rightarrow> node \<Rightarrow> string \<Rightarrow> string option option"
  e_nodes :: "document \<Rightarrow> node \<Rightarrow> string \<Rightarrow> node list option"
  e_int :: "document \<Rightarrow> node \<Rightarrow> string \<Rightarrow> int option option"
  e_queue :: "string \<Rightarrow> bool"
  e_task :: "string \<Rightarrow> exn + task_def"
  e_config :: config
  e_environ :: "string \<rightharpoonup> string"
  e_db :: "nat \<Rightarrow> bool"

text \<open>
  The three evaluations of user expressions, on the document and a context node: \<open>e_text\<close> is the
  text of the first node found, \<open>e_nodes\<close> all nodes found, \<open>e_int\<close> the integer value. The
  outer \<open>None\<close> is an \<open>XQillaException\<close> of the evaluation; the inner one of \<open>e_text\<close> says
  that no node was found, that of \<open>e_int\<close> that \<open>getIntegerValue\<close> throws.
\<close>

definition put :: "node \<Rightarrow> string \<Rightarrow> string \<Rightarrow> wf_instance \<Rightarrow> wf_instance" where
  "put n a v s = s\<lparr>xmldoc := setAttribute n a v (xmldoc s)\<rparr>"

definition put_root :: "string \<Rightarrow> string \<Rightarrow> wf_instance \<Rightarrow> wf_instance" where
  "put_root a v s = put (root (xmldoc s)) a v s"

definition emit :: "call \<Rightarrow> wf_instance \<Rightarrow> wf_instance" where
  "emit c s = s\<lparr>calls := calls s @ [c]\<rparr>"

definition set_doc :: "document \<Rightarrow> wf_instance \<Rightarrow> wf_instance" where
  "set_doc d s = s\<lparr>xmldoc := d\<rparr>"

abbreviation count_error :: "wf_instance \<Rightarrow> wf_instance" where
  "count_error s \<equiv> s\<lparr>error_tasks := error_tasks s + 1\<rparr>"

text \<open>A task is marked as aborted, with a reason, and counted as an error.\<close>

definition abort_task :: "node \<Rightarrow> string \<Rightarrow> wf_instance \<Rightarrow> wf_instance" where
  "abort_task n reason s = count_error (put n ''error'' reason (put n ''status'' ''ABORTED'' s))"

text \<open>\<open>format_datetime\<close>, and the format of \<open>strftime\<close> used for retries, which agree.\<close>

definition pad2 :: "int \<Rightarrow> string" where
  "pad2 i = (let s = show_int i in if length s < 2 then CHR ''0'' # s else s)"

definition format_datetime :: "tm \<Rightarrow> string" where
  "format_datetime t = show_int (1900 + tm_year t) @ ''-'' @ pad2 (tm_mon t + 1) @ ''-'' @
     pad2 (tm_mday t) @ '' '' @ pad2 (tm_hour t) @ '':'' @ pad2 (tm_min t) @ '':'' @ pad2 (tm_sec t)"

abbreviation datetime :: "env \<Rightarrow> int \<Rightarrow> string" where
  "datetime E t \<equiv> format_datetime (e_localtime E t)"

section \<open>Savepoints and termination\<close>

text \<open>
  The loop over the attempts to save, from attempt \<open>tries\<close> on. With the retries enabled and
  their number 0, it goes on until an attempt succeeds.
\<close>

partial_function (option) save_tries :: "env \<Rightarrow> save \<Rightarrow> nat \<Rightarrow> wf_instance \<Rightarrow> wf_instance option" where
  "save_tries E q tries s =
     (let s = emit (Call_Save q (e_db E tries)) s in
      if e_db E tries then Some s
      else if savepoint_retry s \<and>
        (savepoint_retry_times s = 0 \<or> tries + 1 \<le> unat (savepoint_retry_times s))
      then save_tries E q (tries + 1) s
      else Some s)"

definition save_query :: "env \<Rightarrow> wf_instance \<Rightarrow> save" where
  "save_query E s =
     (let d = xmldoc s; r = root d; savepoint = e_serialize E d r in
      if 2 \<le> savepoint_level s
      then if getAttribute d r ''status'' \<noteq> ''TERMINATED'' then Update_Savepoint savepoint (workflow_instance_id s)
           else Update_Terminated savepoint (error_tasks s) (workflow_instance_id s)
      else Insert_Instance (workflow_instance_id s) (workflow_id s) (workflow_schedule_id s) (getNamedItem d r ''host'') (getAttribute d r ''start_time'')
        (case getNamedItem d r ''end_time'' of Some v \<Rightarrow> v | None \<Rightarrow> ''0000-00-00 00:00:00'')
        (getAttribute d r ''status'') (error_tasks s) savepoint)"

definition record_savepoint :: "env \<Rightarrow> bool \<Rightarrow> wf_instance \<Rightarrow> wf_instance option" where
  "record_savepoint E force s =
     (if getAttribute (xmldoc s) (root (xmldoc s)) ''status'' = ''TERMINATED''
      then if savepoint_level s = 0 then Some s
           else (let s = put_root ''end_time'' (datetime E (e_now E)) s;
                     s = put_root ''errors'' (show_u32 (error_tasks s)) s
                 in save_tries E (save_query E s) 0 s)
      else if \<not> force \<and> savepoint_level s \<le> 2 then Some s
      else save_tries E (save_query E s) 0 s)"

definition RecordSavepoint :: "env \<Rightarrow> wf_instance \<Rightarrow> wf_instance option" where
  "RecordSavepoint E s = record_savepoint E True s"

definition workflow_ended :: "wf_instance \<Rightarrow> bool \<times> wf_instance" where
  "workflow_ended s =
     (if running_tasks s = 0 \<and> retrying_tasks s = 0
      then let s = put_root ''status'' ''TERMINATED'' s
           in (True, if 0 < error_tasks s
                     then emit Call_IncErrors (put_root ''errors'' (show_u32 (error_tasks s)) s) else s)
      else (False, s))"

text \<open>The end every operation shares: the value of \<open>*workflow_terminated\<close>, then the savepoint.\<close>

definition finish :: "env \<Rightarrow> wf_instance \<Rightarrow> (bool \<times> wf_instance) option" where
  "finish E s = (let (ended, s) = workflow_ended s in map_option (Pair ended) (record_savepoint E False s))"

section \<open>Queueing and retrying a task\<close>

definition enqueue_task :: "env \<Rightarrow> node \<Rightarrow> wf_instance \<Rightarrow> wf_instance option" where
  "enqueue_task E task s =
     (if is_cancelling s then Some (abort_task task ''Aborted on user request'' s)
      else
        case getNamedItem (xmldoc s) task ''name'' of
          None \<Rightarrow> None
        | Some task_name \<Rightarrow>
            (let queue_name = getAttribute (xmldoc s) task ''queue'';
                 s = put task ''status'' ''QUEUED'' s
             in if \<not> e_queue E queue_name then Some (abort_task task ''Unknown queue name'' s)
                else let s = emit (Call_Enqueue task queue_name) s
                     in Some (s\<lparr>running_tasks := running_tasks s + 1\<rparr>)))"

text \<open>
  \<open>schedule_update\<close> writes \<open>*retry_delay\<close> and \<open>*retry_times\<close>, or leaves them as they were;
  \<open>None\<close> in these is an uninitialised variable. Names that do not fit the buffer, or hold a
  quote and so change the expression, are outside the model.
\<close>

definition quotable_name :: "nat \<Rightarrow> string \<Rightarrow> bool" where
  "quotable_name room n \<longleftrightarrow> length n \<le> room \<and> CHR 0x27 \<notin> set n"

definition find_named :: "string \<Rightarrow> string \<Rightarrow> string \<Rightarrow> document \<Rightarrow> node option" where
  "find_named a b n d = List.find (\<lambda>k. getNamedItem d k ''name'' = Some n) (path2 a b d (root d))"

type_synonym retry_info = "int option \<times> int option"

definition schedule_update ::
  "env \<Rightarrow> node \<Rightarrow> string \<Rightarrow> retry_info \<Rightarrow> wf_instance \<Rightarrow> (retry_info \<times> wf_instance) option" where
  "schedule_update E task schedule_name info s =
     (if \<not> quotable_name 227 schedule_name then None
      else case find_named ''schedules'' ''schedule'' schedule_name (xmldoc s) of
        None \<Rightarrow> Some (info, s)
      | Some schedule \<Rightarrow>
          (let levels = children_named ''level'' (xmldoc s) schedule;
               schedule_levels = int (length levels)
           in do {
             level \<leftarrow> (case getNamedItem (xmldoc s) task ''retry_schedule_level'' of
                 None \<Rightarrow> Some 0 | Some v \<Rightarrow> e_parse_int E v);
             let level = level + 1;
             let s = put task ''retry_schedule_level'' (show_int level) s;
             if schedule_levels < level then Some ((Some 0, Some 0), s)
             else if level < 1 then None
             else do {
               let schedule_level = levels ! nat (level - 1);
               let delay_str = getAttribute (xmldoc s) schedule_level ''retry_delay'';
               let times_str = getAttribute (xmldoc s) schedule_level ''retry_times'';
               let s = put task ''retry_times'' times_str (put task ''retry_delay'' delay_str s);
               delay \<leftarrow> e_parse_int E delay_str;
               retries \<leftarrow> e_parse_int E times_str;
               Some ((Some delay, Some retries), s) }}))"

text \<open>The first part of \<open>retry_task\<close>; an inner \<open>None\<close> is the return for a missing attribute.\<close>

definition retry_attributes :: "env \<Rightarrow> node \<Rightarrow> wf_instance \<Rightarrow> (retry_info option \<times> wf_instance) option" where
  "retry_attributes E task s =
     (case getNamedItem (xmldoc s) task ''retry_delay'' of
        None \<Rightarrow> Some (None, s)
      | Some d \<Rightarrow> do {
          delay \<leftarrow> e_parse_int E d;
          case getNamedItem (xmldoc s) task ''retry_times'' of
            None \<Rightarrow> Some (None, s)
          | Some t \<Rightarrow> map_option (\<lambda>retries. (Some (Some delay, Some retries), s)) (e_parse_int E t) })"

definition retry_begin :: "env \<Rightarrow> node \<Rightarrow> wf_instance \<Rightarrow> (retry_info option \<times> wf_instance) option" where
  "retry_begin E task s = do {
     schedule_level \<leftarrow> (case getNamedItem (xmldoc s) task ''retry_schedule_level'' of
       None \<Rightarrow> Some 0 | Some v \<Rightarrow> e_parse_int E v);
     case getNamedItem (xmldoc s) task ''retry_schedule'' of
       Some n \<Rightarrow>
         if schedule_level = 0
         then map_option (\<lambda>(info, s). (Some info, s)) (schedule_update E task n (None, None) s)
         else retry_attributes E task s
     | None \<Rightarrow> retry_attributes E task s }"

text \<open>
  The end of the level's retries: with \<open>retry_times\<close> at 0 the next level of the schedule is taken.
\<close>

definition retry_next_level :: "env \<Rightarrow> node \<Rightarrow> retry_info \<Rightarrow> wf_instance \<Rightarrow> (retry_info \<times> wf_instance) option" where
  "retry_next_level E task info s =
     (case getNamedItem (xmldoc s) task ''retry_schedule'' of
        None \<Rightarrow> Some (info, s)
      | Some n \<Rightarrow> do {
          retries \<leftarrow> snd info;
          if retries = 0 then schedule_update E task n info s else Some (info, s) })"

text \<open>\<open>retry_retval\<close>, when present, restricts the retries to that exit code.\<close>

definition retval_excluded :: "env \<Rightarrow> node \<Rightarrow> wf_instance \<Rightarrow> bool option" where
  "retval_excluded E task s =
     (case getNamedItem (xmldoc s) task ''retry_retval'' of
        None \<Rightarrow> Some False
      | Some v \<Rightarrow> do {
          wanted \<leftarrow> e_parse_int E v;
          retval \<leftarrow> e_parse_int E (getAttribute (xmldoc s) task ''retval'');
          Some (wanted \<noteq> retval) })"

definition schedule_retry :: "env \<Rightarrow> node \<Rightarrow> int \<Rightarrow> int \<Rightarrow> wf_instance \<Rightarrow> wf_instance" where
  "schedule_retry E task delay retries s =
     (let s = put task ''retry_at'' (datetime E (e_now E + delay)) s;
          s = put task ''retry_times'' (show_int (retries - 1)) s;
          s = emit (Call_Retry task (e_now E + delay)) s
      in s\<lparr>retrying_tasks := retrying_tasks s + 1\<rparr>)"

definition retry_task :: "env \<Rightarrow> node \<Rightarrow> wf_instance \<Rightarrow> wf_instance option" where
  "retry_task E task s = do {
     (begun, s) \<leftarrow> retry_begin E task s;
     case begun of
       None \<Rightarrow> Some (count_error s)
     | Some info \<Rightarrow> do {
         (info, s) \<leftarrow> retry_next_level E task info s;
         delay \<leftarrow> fst info;
         retries \<leftarrow> snd info;
         if delay = 0 \<or> retries = 0 then Some (count_error s)
         else do {
           excluded \<leftarrow> retval_excluded E task s;
           if excluded then Some s else Some (schedule_retry E task delay retries s) }}}"

section \<open>Expanding and running jobs\<close>

text \<open>
  A state transformer that may throw: \<open>None\<close>, or the exception thrown, if any, with the state.
  \<open>andthen\<close> is the sequence.
\<close>

type_synonym outcome = "(exn option \<times> wf_instance) option"

definition andthen :: "outcome \<Rightarrow> (wf_instance \<Rightarrow> outcome) \<Rightarrow> outcome" where
  "andthen r f = (case r of
       None \<Rightarrow> None
     | Some (None, s) \<Rightarrow> f s
     | Some (Some e, s) \<Rightarrow> Some (Some e, s))"

definition no_throw :: "wf_instance option \<Rightarrow> outcome" where
  "no_throw r = map_option (Pair None) r"

text \<open>
  \<open>replace_value\<close>: \<open>value\<close> nodes become the text their expression selects, \<open>copy\<close> nodes become
  copies of the nodes it selects. A \<open>value\<close> inside a \<open>value\<close> already replaced has been released.
\<close>

definition replace_one :: "env \<Rightarrow> node \<Rightarrow> node \<Rightarrow> node \<Rightarrow> wf_instance \<Rightarrow> outcome" where
  "replace_one E task context_node v s =
     (if v \<notin> set (descendants (fresh (xmldoc s)) (xmldoc s) task) then None
      else case (getNamedItem (xmldoc s) v ''select'', parent (el (xmldoc s) v)) of
        (Some select, Some p) \<Rightarrow>
          (case e_text E (xmldoc s) context_node select of
             None \<Rightarrow> Some (Some (Exception ''WorkflowInstance'' ''Error computing input values''), s)
           | Some None \<Rightarrow> Some (None, s)
           | Some (Some txt) \<Rightarrow>
               (let (t, d) = createTextNode txt (xmldoc s)
                in Some (None, set_doc (replaceChild p t v d) s)))
      | _ \<Rightarrow> None)"

fun replace_values :: "env \<Rightarrow> node \<Rightarrow> node \<Rightarrow> node list \<Rightarrow> wf_instance \<Rightarrow> outcome" where
  "replace_values E task context_node [] s = Some (None, s)"
| "replace_values E task context_node (v # vs) s =
     andthen (replace_one E task context_node v s) (replace_values E task context_node vs)"

fun insert_copies :: "node \<Rightarrow> node \<Rightarrow> node list \<Rightarrow> document \<Rightarrow> document" where
  "insert_copies p v [] d = d"
| "insert_copies p v (r # rs) d =
     (let (c, d) = cloneNode r d in insert_copies p v rs (insertBefore p c v d))"

definition copy_one :: "env \<Rightarrow> node \<Rightarrow> node \<Rightarrow> wf_instance \<Rightarrow> outcome" where
  "copy_one E context_node v s =
     (case (getNamedItem (xmldoc s) v ''select'', parent (el (xmldoc s) v)) of
        (Some select, Some p) \<Rightarrow>
          (case e_nodes E (xmldoc s) context_node select of
             None \<Rightarrow> Some (Some (Exception ''WorkflowInstance'' ''Error computing input values''), s)
           | Some rs \<Rightarrow> Some (None, set_doc (removeChild p v (insert_copies p v rs (xmldoc s))) s))
      | _ \<Rightarrow> None)"

fun copy_values :: "env \<Rightarrow> node \<Rightarrow> node list \<Rightarrow> wf_instance \<Rightarrow> outcome" where
  "copy_values E context_node [] s = Some (None, s)"
| "copy_values E context_node (v # vs) s = andthen (copy_one E context_node v s) (copy_values E context_node vs)"

definition replace_value :: "env \<Rightarrow> node \<Rightarrow> node \<Rightarrow> wf_instance \<Rightarrow> outcome" where
  "replace_value E task context_node s =
     andthen (replace_values E task context_node (below_named ''value'' (xmldoc s) task) s)
       (\<lambda>s. copy_values E context_node (below_named ''copy'' (xmldoc s) task) s)"

text \<open>A task that is not looped: its values are computed and it is queued.\<close>

definition launch_task :: "env \<Rightarrow> node \<Rightarrow> node \<Rightarrow> wf_instance \<Rightarrow> outcome" where
  "launch_task E task context_node s =
     andthen (replace_value E task context_node s) (\<lambda>s. no_throw (enqueue_task E task s))"

text \<open>One copy of a looped task or job, appended after its siblings.\<close>

definition append_clone :: "node \<Rightarrow> wf_instance \<Rightarrow> (node \<times> wf_instance) option" where
  "append_clone n s =
     (case parent (el (xmldoc s) n) of
        None \<Rightarrow> None
      | Some p \<Rightarrow> (let (c, d) = cloneNode n (xmldoc s) in Some (c, set_doc (appendChild p c d) s)))"

definition remove_node :: "node \<Rightarrow> wf_instance \<Rightarrow> outcome" where
  "remove_node n s =
     (case parent (el (xmldoc s) n) of
        None \<Rightarrow> None
      | Some p \<Rightarrow> Some (None, set_doc (removeChild p n (xmldoc s)) s))"

fun expand_tasks :: "env \<Rightarrow> node \<Rightarrow> node list \<Rightarrow> wf_instance \<Rightarrow> outcome" where
  "expand_tasks E task [] s = remove_node task s"
| "expand_tasks E task (m # ms) s =
     (case append_clone task s of
        None \<Rightarrow> None
      | Some (task_clone, s) \<Rightarrow> andthen (launch_task E task_clone m s) (expand_tasks E task ms))"

definition loop_error :: exn where
  "loop_error = Exception ''WorkflowInstance'' ''Exception in workflow instance''"

text \<open>An expression of the workflow that cannot be evaluated: mark its element, throw.\<close>

definition expression_error :: "node \<Rightarrow> string \<Rightarrow> wf_instance \<Rightarrow> outcome" where
  "expression_error n details s =
     Some (Some loop_error, put n ''details'' details (put n ''status'' ''ABORTED'' s))"

text \<open>
  The loop of \<open>run\<close> over the tasks of a job. \<open>matching_nodes_index\<close> is one variable for all
  of them: it starts at 0 for the first looped task and goes on from where it stopped for the next.
\<close>

definition next_index :: "nat \<Rightarrow> nat \<Rightarrow> nat" where
  "next_index i n = max i n + 1"

fun run_tasks :: "env \<Rightarrow> node \<Rightarrow> nat \<Rightarrow> node list \<Rightarrow> wf_instance \<Rightarrow> outcome" where
  "run_tasks E context_node matching_nodes_index [] s = Some (None, s)"
| "run_tasks E context_node matching_nodes_index (task # tasks) s =
     (if getNamedItem (xmldoc s) task ''status'' = Some ''TERMINATED''
      then run_tasks E context_node matching_nodes_index tasks s
      else case getNamedItem (xmldoc s) task ''loop'' of
        Some loop_xpath \<Rightarrow>
          (let s = s\<lparr>xmldoc := removeAttribute task ''loop'' (xmldoc s)\<rparr> in
           case e_nodes E (xmldoc s) context_node loop_xpath of
             None \<Rightarrow> expression_error task ''Error while evaluating loop'' s
           | Some matching_nodes \<Rightarrow>
               andthen (expand_tasks E task (drop matching_nodes_index matching_nodes) s)
                 (run_tasks E context_node (next_index matching_nodes_index (length matching_nodes)) tasks))
      | None \<Rightarrow> andthen (launch_task E task context_node s)
          (run_tasks E context_node matching_nodes_index tasks))"

definition run :: "env \<Rightarrow> node \<Rightarrow> node \<Rightarrow> wf_instance \<Rightarrow> outcome" where
  "run E job context_node s =
     run_tasks E context_node 0 (path2 ''tasks'' ''task'' (xmldoc s) job) s"

fun expand_jobs :: "env \<Rightarrow> node \<Rightarrow> node list \<Rightarrow> wf_instance \<Rightarrow> outcome" where
  "expand_jobs E subjob [] s = remove_node subjob s"
| "expand_jobs E subjob (m # ms) s =
     (case append_clone subjob s of
        None \<Rightarrow> None
      | Some (subjob_clone, s) \<Rightarrow> andthen (run E subjob_clone m s) (expand_jobs E subjob ms))"

text \<open>The condition of a job: \<open>Inl\<close> the outcome that ends it, \<open>Inr\<close> whether it is to be run.\<close>

definition job_condition :: "env \<Rightarrow> node \<Rightarrow> node \<Rightarrow> wf_instance \<Rightarrow> outcome + bool" where
  "job_condition E job subjob s =
     (case getNamedItem (xmldoc s) subjob ''condition'' of
        None \<Rightarrow> Inr True
      | Some xpath \<Rightarrow>
          (case e_int E (xmldoc s) job xpath of
             None \<Rightarrow> Inl (expression_error subjob ''Error while evaluating condition'' s)
           | Some None \<Rightarrow> Inl (expression_error subjob ''Condition evaluation returned no result'' s)
           | Some (Some test_value) \<Rightarrow> Inr (test_value \<noteq> 0)))"

text \<open>The handler around the loop: the job at which the exception came is marked, and counted.\<close>

definition job_failed :: "node \<Rightarrow> outcome \<Rightarrow> outcome" where
  "job_failed subjob r = (case r of
       Some (Some e, s) \<Rightarrow>
         Some (Some e, count_error (put subjob ''details'' (exn_error e) (put subjob ''status'' ''ABORTED'' s)))
     | _ \<Rightarrow> r)"

text \<open>
  The loop of \<open>run_subjobs\<close>; the same index for all looped jobs. The body for one job is its
  expansion or its run, guarded by the handler.
\<close>

definition run_job ::
  "env \<Rightarrow> node \<Rightarrow> nat \<Rightarrow> node \<Rightarrow> wf_instance \<Rightarrow> nat \<times> outcome" where
  "run_job E job matching_nodes_index subjob s =
     (case getNamedItem (xmldoc s) subjob ''loop'' of
        Some loop_xpath \<Rightarrow>
          (let s = s\<lparr>xmldoc := removeAttribute subjob ''loop'' (xmldoc s)\<rparr> in
           case e_nodes E (xmldoc s) job loop_xpath of
             None \<Rightarrow> (matching_nodes_index, expression_error subjob ''Error while evaluating loop'' s)
           | Some matching_nodes \<Rightarrow>
               (next_index matching_nodes_index (length matching_nodes),
                expand_jobs E subjob (drop matching_nodes_index matching_nodes) s))
      | None \<Rightarrow> (matching_nodes_index, run E subjob job s))"

definition skip_job :: "node \<Rightarrow> wf_instance \<Rightarrow> wf_instance" where
  "skip_job subjob s = put subjob ''details'' ''Condition evaluates to false'' (put subjob ''status'' ''SKIPPED'' s)"

fun subjobs_loop :: "env \<Rightarrow> node \<Rightarrow> nat \<Rightarrow> node list \<Rightarrow> wf_instance \<Rightarrow> outcome" where
  "subjobs_loop E job i [] s = Some (None, s)"
| "subjobs_loop E job i (subjob # subjobs) s =
     (case job_condition E job subjob s of
        Inl failure \<Rightarrow> job_failed subjob failure
      | Inr False \<Rightarrow> subjobs_loop E job i subjobs (skip_job subjob s)
      | Inr True \<Rightarrow>
          (let (i, r) = run_job E job i subjob s
           in andthen (job_failed subjob r) (subjobs_loop E job i subjobs)))"

definition run_subjobs :: "env \<Rightarrow> node \<Rightarrow> wf_instance \<Rightarrow> outcome" where
  "run_subjobs E job s = subjobs_loop E job 0 (path2 ''subjobs'' ''job'' (xmldoc s) job) s"

text \<open>The callers ignore the exception: running tasks go on, and the instance ends by itself.\<close>

definition try_subjobs :: "env \<Rightarrow> node \<Rightarrow> wf_instance \<Rightarrow> wf_instance option" where
  "try_subjobs E job s = map_option snd (run_subjobs E job s)"

section \<open>Operations\<close>

text \<open>
  \<open>Start\<close>. The identifier is printed into a buffer of ten characters, which holds nine digits.
\<close>

definition Start :: "env \<Rightarrow> wf_instance \<Rightarrow> (bool \<times> wf_instance) option" where
  "Start E s =
     (let i = show_u32 (workflow_instance_id s) in
      if 9 < length i then None
      else do {
        let s = put_root ''start_time'' (datetime E (e_now E))
                  (put_root ''status'' ''EXECUTING'' (put_root ''id'' i s));
        s \<leftarrow> try_subjobs E (root (xmldoc s)) s;
        finish E s })"

text \<open>\<open>Resume\<close>, task by task: queued again, registered as executing, or retried.\<close>

definition resumable :: "document \<Rightarrow> node \<Rightarrow> bool" where
  "resumable d task \<longleftrightarrow>
     getNamedItem d task ''status'' \<in> {Some ''QUEUED'', Some ''EXECUTING'', Some ''TERMINATED''}"

definition resume_task :: "env \<Rightarrow> node \<Rightarrow> wf_instance \<Rightarrow> wf_instance option" where
  "resume_task E task s =
     (let status = getAttribute (xmldoc s) task ''status'' in
      if status = ''QUEUED'' then enqueue_task E task s
      else if status = ''EXECUTING'' then do {
        let queue_name = getAttribute (xmldoc s) task ''queue'';
        task_id \<leftarrow> e_parse_int E (getAttribute (xmldoc s) task ''tid'');
        let s = emit (Call_Execute task queue_name task_id) s;
        Some (s\<lparr>running_tasks := running_tasks s + 1\<rparr>) }
      else if status = ''TERMINATED'' \<and> getAttribute (xmldoc s) task ''retval'' \<noteq> ''0''
      then retry_task E task s
      else Some s)"

fun resume_tasks :: "env \<Rightarrow> node list \<Rightarrow> wf_instance \<Rightarrow> wf_instance option" where
  "resume_tasks E [] s = Some s"
| "resume_tasks E (task # tasks) s = Option.bind (resume_task E task s) (resume_tasks E tasks)"

definition Resume :: "env \<Rightarrow> wf_instance \<Rightarrow> (bool \<times> wf_instance) option" where
  "Resume E s = do {
     s \<leftarrow> resume_tasks E (List.filter (resumable (xmldoc s)) (all_named ''task'' (xmldoc s))) s;
     finish E s }"

definition Cancel :: "wf_instance \<Rightarrow> wf_instance" where
  "Cancel s = s\<lparr>is_cancelling := True\<rparr>"

definition TaskRestart :: "env \<Rightarrow> node \<Rightarrow> wf_instance \<Rightarrow> (bool \<times> wf_instance) option" where
  "TaskRestart E task s = do {
     s \<leftarrow> enqueue_task E task s;
     finish E (s\<lparr>retrying_tasks := retrying_tasks s - 1\<rparr>) }"

text \<open>
  \<open>TaskStop\<close>: record the exit code; on success store the output as the task's output method says,
  on failure store it as text and retry; when every task of the job has succeeded, run the jobs
  below.
\<close>

definition output_text :: "node \<Rightarrow> node \<Rightarrow> string \<Rightarrow> wf_instance \<Rightarrow> wf_instance" where
  "output_text task output_element output s =
     (let s = put output_element ''method'' ''text'' s;
          (t, d) = createTextNode output (xmldoc s)
      in set_doc (appendChild task output_element (appendChild output_element t d)) s)"

definition output_xml :: "env \<Rightarrow> node \<Rightarrow> node \<Rightarrow> string \<Rightarrow> wf_instance \<Rightarrow> wf_instance" where
  "output_xml E task output_element output s =
     (case e_import E output (xmldoc s) of
        Some (imported, d) \<Rightarrow>
          (let s = put output_element ''method'' ''xml'' (set_doc d s)
           in set_doc (appendChild task output_element (appendChild output_element imported (xmldoc s))) s)
      | None \<Rightarrow>
          (let s = (if errlogs s
            then emit (Call_Errlog (errlogs_directory s @ ''/'' @ show_u32 (workflow_instance_id s) @ ''-'') output) s
            else s)
           in abort_task task ''Invalid XML returned'' s))"

definition stop_success :: "env \<Rightarrow> node \<Rightarrow> node \<Rightarrow> string \<Rightarrow> wf_instance \<Rightarrow> wf_instance" where
  "stop_success E task output_element output s =
     (case e_task E (getAttribute (xmldoc s) task ''name'') of
        Inl e \<Rightarrow> abort_task task ''Task has vanished'' s
      | Inr t \<Rightarrow>
          (case output_method t of
             OM_XML \<Rightarrow> output_xml E task output_element output s
           | OM_TEXT \<Rightarrow> output_text task output_element output s
           | OM_UNKNOWN \<Rightarrow> s))"

definition stop_failure :: "env \<Rightarrow> node \<Rightarrow> node \<Rightarrow> string \<Rightarrow> wf_instance \<Rightarrow> wf_instance option" where
  "stop_failure E task output_element output s =
     (let s = output_text task output_element output s in
      if is_cancelling s
      then Some (put task ''error'' (''Won'' @ CHR 0x27 # ''t retry because workflow is cancelling'') s)
      else retry_task E task s)"

text \<open>The mark of a stopped task and its output element.\<close>

definition mark_stopped :: "env \<Rightarrow> node \<Rightarrow> int \<Rightarrow> wf_instance \<Rightarrow> node \<times> wf_instance" where
  "mark_stopped E task retval s =
     (let s = put task ''retval'' (show_int retval) (put task ''status'' ''TERMINATED'' s);
          d = removeAttribute task ''pid'' (removeAttribute task ''tid'' (xmldoc s));
          (output_element, d) = createElement ''output'' d;
          d = setAttribute output_element ''retval'' (show_int retval) d;
          d = setAttribute output_element ''execution_time'' (getAttribute d task ''execution_time'') d;
          d = setAttribute output_element ''exit_time'' (datetime E (e_now E)) d
      in (output_element, set_doc d s))"

definition successful :: "document \<Rightarrow> node \<Rightarrow> bool" where
  "successful d task \<longleftrightarrow> getNamedItem d task ''status'' = Some ''TERMINATED'' \<and>
     (case getNamedItem d task ''retval'' of None \<Rightarrow> False | Some v \<Rightarrow> parse_decimal v = Some 0)"

text \<open>\<open>../task\<close>: the tasks of the same job; without a parent the code dereferences null.\<close>

definition job_of :: "document \<Rightarrow> node \<Rightarrow> node option" where
  "job_of d task = Option.bind (parent (el d task)) (\<lambda>p. parent (el d p))"

definition continue_job :: "env \<Rightarrow> node \<Rightarrow> wf_instance \<Rightarrow> wf_instance option" where
  "continue_job E task s =
     (case parent (el (xmldoc s) task) of
        None \<Rightarrow> None
      | Some p \<Rightarrow>
          (let siblings = children_named ''task'' (xmldoc s) p in
           if length siblings = length (List.filter (successful (xmldoc s)) siblings)
           then case job_of (xmldoc s) task of
                  None \<Rightarrow> None
                | Some job \<Rightarrow> try_subjobs E job s
           else Some s))"

definition TaskStop :: "env \<Rightarrow> node \<Rightarrow> int \<Rightarrow> string \<Rightarrow> wf_instance \<Rightarrow> (bool \<times> wf_instance) option" where
  "TaskStop E task_node retval output s = do {
     let (output_element, s) = mark_stopped E task_node retval s;
     s \<leftarrow> (if retval = 0 then Some (stop_success E task_node output_element output s)
            else stop_failure E task_node output_element output s);
     s \<leftarrow> continue_job E task_node s;
     finish E (s\<lparr>running_tasks := running_tasks s - 1\<rparr>) }"

text \<open>
  \<open>TaskExecute\<close> in the engine: \<open>forked\<close> is what \<open>fork\<close> returned. The child is \<open>child_process\<close>
  below.
\<close>

definition drop_task :: "env \<Rightarrow> node \<Rightarrow> string \<Rightarrow> wf_instance \<Rightarrow> (bool \<times> wf_instance) option" where
  "drop_task E task reason s =
     (let s = abort_task task reason s in finish E (s\<lparr>running_tasks := running_tasks s - 1\<rparr>))"

definition mark_executing :: "env \<Rightarrow> node \<Rightarrow> int \<Rightarrow> int \<Rightarrow> wf_instance \<Rightarrow> wf_instance" where
  "mark_executing E task pid tid s =
     put task ''execution_time'' (datetime E (e_now E))
       (put task ''tid'' (show_int tid) (put task ''pid'' (show_int pid) (put task ''status'' ''EXECUTING'' s)))"

definition TaskExecute ::
  "env \<Rightarrow> node \<Rightarrow> int \<Rightarrow> int \<Rightarrow> wf_instance \<Rightarrow> (int \<times> bool \<times> wf_instance) option" where
  "TaskExecute E task_node tid forked s =
     (if is_cancelling s
      then map_option (Pair (-1)) (drop_task E task_node ''Aborted on user request'' s)
      else case e_task E (getAttribute (xmldoc s) task_node ''name'') of
        Inl e \<Rightarrow> map_option (Pair (-1)) (drop_task E task_node ''Unknown task name'' s)
      | Inr t \<Rightarrow>
          if 0 < forked
          then map_option (Pair forked) (finish E (mark_executing E task_node forked tid s))
          else map_option (Pair forked) (drop_task E task_node ''Unable to fork'' s))"

definition KillTask :: "int \<Rightarrow> wf_instance \<Rightarrow> bool \<times> wf_instance" where
  "KillTask pid s =
     (let tasks = List.filter (\<lambda>t. getNamedItem (xmldoc s) t ''status'' = Some ''EXECUTING'' \<and>
            getNamedItem (xmldoc s) t ''pid'' = Some (show_int pid)) (all_named ''task'' (xmldoc s))
      in (tasks \<noteq> [], fold (\<lambda>t. emit (Call_Kill pid)) tasks s))"

definition SendStatus :: "env \<Rightarrow> wf_instance \<Rightarrow> string" where
  "SendStatus E s = e_serialize E (xmldoc s) (root (xmldoc s))"

definition TASK_NAME_MAX_LEN :: nat where
  "TASK_NAME_MAX_LEN = 64"

definition CheckTaskName :: "string \<Rightarrow> bool" where
  "CheckTaskName task_name \<longleftrightarrow> length task_name \<le> TASK_NAME_MAX_LEN \<and>
     list_all (\<lambda>c. isalnum c \<or> c = CHR ''_'') task_name"

section \<open>The child of \<open>TaskExecute\<close>\<close>

text \<open>
  Between \<open>fork\<close> and \<open>exec\<close>: the environment, the files behind the standard streams, and the
  command line. \<open>None\<close>: a null string is used. \<open>setenv\<close> refuses names that are empty or hold
  an equals sign, and the code ignores that.
\<close>

record child =
  child_args :: "string list"
  child_env :: "string \<rightharpoonup> string"
  child_output :: string
  child_input :: "string option"

definition setenv :: "string \<Rightarrow> string \<Rightarrow> (string \<rightharpoonup> string) \<Rightarrow> (string \<rightharpoonup> string)" where
  "setenv name v env = (if name = [] \<or> CHR ''='' \<in> set name then env else env(name \<mapsto> v))"

definition task_parameters :: "document \<Rightarrow> node \<Rightarrow> (string option \<times> string) list" where
  "task_parameters d task =
     List.map (\<lambda>k. (getNamedItem d k ''name'', getTextContent d k)) (children_named ''input'' d task)"

definition task_stdin :: "env \<Rightarrow> document \<Rightarrow> node \<Rightarrow> string option" where
  "task_stdin E d task =
     (case children_named ''stdin'' d task of
        [] \<Rightarrow> None
      | k # _ \<Rightarrow> Some (if getNamedItem d k ''mode'' = Some ''text'' then getTextContent d k
          else e_serialize E d k))"

definition ssh_target :: "task_def \<Rightarrow> document \<Rightarrow> (string \<rightharpoonup> string) \<Rightarrow> (string \<rightharpoonup> string)" where
  "ssh_target t d env =
     (let with_user = (\<lambda>u env. case u of None \<Rightarrow> env | Some u \<Rightarrow> setenv ''EVQUEUE_SSH_USER'' u env) in
      case task_host t of
        Some h \<Rightarrow> with_user (task_user t) (setenv ''EVQUEUE_SSH_HOST'' h env)
      | None \<Rightarrow>
          (case getNamedItem d (root d) ''host'' of
             Some h \<Rightarrow> with_user (getNamedItem d (root d) ''user'') (setenv ''EVQUEUE_SSH_HOST'' h env)
           | None \<Rightarrow> env))"

definition ssh_config :: "config \<Rightarrow> (string \<rightharpoonup> string) \<Rightarrow> (string \<rightharpoonup> string) option" where
  "ssh_config c env =
     (if env ''EVQUEUE_SSH_HOST'' = None then Some env
      else do {
        ssh_path \<leftarrow> config_Get ''processmanager.monitor.ssh_path'' c;
        ssh_key \<leftarrow> config_Get ''processmanager.monitor.ssh_key'' c;
        let env = setenv ''EVQUEUE_SSH_PATH'' ssh_path env;
        Some (if ssh_key = [] then env else setenv ''EVQUEUE_SSH_KEY'' ssh_key env) })"

definition env_parameters :: "(string option \<times> string) list \<Rightarrow> (string \<rightharpoonup> string) \<Rightarrow> (string \<rightharpoonup> string)" where
  "env_parameters ps env =
     fold (\<lambda>(n, v). setenv (case n of Some n \<Rightarrow> n | None \<Rightarrow> ''DEFAULT_PARAMETER_NAME'') v) ps env"

definition child_process :: "env \<Rightarrow> node \<Rightarrow> int \<Rightarrow> task_def \<Rightarrow> wf_instance \<Rightarrow> child option" where
  "child_process E task_node tid t s = do {
     binary \<leftarrow> task_binary t;
     let task_filename = (if hd (binary @ [CHR 0x00]) = CHR ''/'' then binary
           else tasks_directory s @ ''/'' @ binary);
     let env = (case task_wd t of None \<Rightarrow> e_environ E
           | Some wd \<Rightarrow> setenv ''EVQUEUE_WORKING_DIRECTORY'' wd (e_environ E));
     let env = ssh_target t (xmldoc s) env;
     env \<leftarrow> ssh_config (e_config E) env;
     let parameters = task_parameters (xmldoc s) task_node;
     (args, env) \<leftarrow> (case parameters_mode t of
         PM_CMDLINE \<Rightarrow> Some (List.map snd parameters, env)
       | PM_ENV \<Rightarrow> Some ([], env_parameters parameters env)
       | PM_UNKNOWN \<Rightarrow> None);
     Some \<lparr>child_args = monitor_path s # task_filename # show_int tid # args, child_env = env,
       child_output = logs_directory s @ ''/'' @ show_int tid @ ''.log'',
       child_input = task_stdin E (xmldoc s) task_node\<rparr> }"

section \<open>Construction and destruction\<close>

text \<open>\<open>init\<close>: \<open>None\<close> when an entry of the configuration is missing.\<close>

definition wi_init :: "config \<Rightarrow> wf_instance \<Rightarrow> wf_instance option" where
  "wi_init c s = do {
     logs \<leftarrow> config_Get ''processmanager.logs.directory'' c;
     errl \<leftarrow> config_GetBool ''processmanager.errlogs.enable'' c;
     errl_dir \<leftarrow> config_Get ''processmanager.errlogs.directory'' c;
     tasks \<leftarrow> config_Get ''processmanager.tasks.directory'' c;
     monitor \<leftarrow> config_Get ''processmanager.monitor.path'' c;
     save \<leftarrow> config_GetBool ''workflowinstance.saveparameters'' c;
     let level = config_GetInt ''workflowinstance.savepoint.level'' c;
     retry \<leftarrow> config_GetBool ''workflowinstance.savepoint.retry.enable'' c;
     let s = s\<lparr>logs_directory := logs, errlogs := errl, errlogs_directory := errl_dir, tasks_directory := tasks, monitor_path := monitor,
       saveparameters := save, savepoint_level := (if level < 0 \<or> 3 < level then 0 else level),
       savepoint_retry := retry, is_cancelling := False, running_tasks := 0, retrying_tasks := 0,
       error_tasks := 0\<rparr>;
     Some (if retry
       then s\<lparr>savepoint_retry_times := word_of_int (config_GetInt ''workflowinstance.savepoint.retry.times'' c),
              savepoint_retry_wait := word_of_int (config_GetInt ''workflowinstance.savepoint.retry.wait'' c)\<rparr>
       else s) }"

definition no_document :: document where
  "no_document = \<lparr>el = (\<lambda>n. empty_element []), fresh = 0, root = 0\<rparr>"

text \<open>A fresh object, before \<open>init\<close>; the values the code leaves uninitialised are arbitrary.\<close>

definition blank :: wf_instance where
  "blank = \<lparr>workflow_id = 0, workflow_instance_id = 0, running_tasks = 0, retrying_tasks = 0,
     error_tasks = 0, workflow_schedule_id = 0, is_cancelling = False, xmldoc = no_document, logs_directory = [],
     errlogs = False, errlogs_directory = [], tasks_directory = [], monitor_path = [], saveparameters = False,
     savepoint_level = 0, savepoint_retry = False, savepoint_retry_times = 0,
     savepoint_retry_wait = 0, calls = []\<rparr>"

text \<open>
  The parameters are written into the document; \<open>Inl\<close> is the exception. All of the template's
  parameters must have been passed.
\<close>

fun set_parameters :: "(string \<times> string) list \<Rightarrow> document \<Rightarrow> (exn + document) option" where
  "set_parameters [] d = Some (Inr d)"
| "set_parameters ((n, v) # ps) d =
     (if \<not> quotable_name 287 n then None
      else case List.find (\<lambda>k. getNamedItem d k ''name'' = Some n) (path2 ''parameters'' ''parameter'' d (root d)) of
        None \<Rightarrow> Some (Inl (Exception ''WorkflowInstance'' (''Unknown parameter : '' @ n)))
      | Some k \<Rightarrow> set_parameters ps (setTextContent k v d))"

definition check_count :: "nat \<Rightarrow> document \<Rightarrow> exn + document" where
  "check_count passed d =
     (let expected = length (path2 ''parameters'' ''parameter'' d (root d)) in
      if expected \<noteq> passed
      then Inl (Exception ''WorkflowInstance'' (''Invalid number of parameters passed to workflow (passed '' @
             show_int (int passed) @ '', expected '' @ show_int (int expected) @ '')''))
      else Inr d)"

text \<open>The retry schedules the tasks refer to, when not in the document, are imported.\<close>

definition schedules_node :: "document \<Rightarrow> node \<times> document" where
  "schedules_node d =
     (case children_named ''schedules'' d (root d) of
        k # _ \<Rightarrow> (k, d)
      | [] \<Rightarrow> (let (k, d) = createElement ''schedules'' d in (k, appendChild (root d) k d)))"

definition import_schedule ::
  "env \<Rightarrow> (string \<Rightarrow> (exn + retry_schedule_def) option) \<Rightarrow> string \<Rightarrow> document \<Rightarrow> (exn + document) option" where
  "import_schedule E get_schedule n d =
     (if \<not> quotable_name 289 n then None
      else case find_named ''schedules'' ''schedule'' n d of
        Some k \<Rightarrow> Some (Inr d)
      | None \<Rightarrow> do {
          found \<leftarrow> get_schedule n;
          case found of
            Inl e \<Rightarrow> Some (Inl e)
          | Inr rs \<Rightarrow> do {
              xml \<leftarrow> schedule_xml rs;
              (imported, d) \<leftarrow> e_import E xml d;
              let (k, d) = schedules_node d;
              Some (Inr (appendChild k imported d)) }})"

fun import_schedules ::
  "env \<Rightarrow> (string \<Rightarrow> (exn + retry_schedule_def) option) \<Rightarrow> node list \<Rightarrow> document \<Rightarrow> (exn + document) option" where
  "import_schedules E get_schedule [] d = Some (Inr d)"
| "import_schedules E get_schedule (task # tasks) d = do {
     r \<leftarrow> import_schedule E get_schedule (getAttribute d task ''retry_schedule'') d;
     case r of Inl e \<Rightarrow> Some (Inl e) | Inr d \<Rightarrow> import_schedules E get_schedule tasks d }"

text \<open>
  The constructor from a workflow. \<open>get_workflow\<close> and \<open>get_schedule\<close> are the catalogues,
  \<open>inserted\<close> is the identifier the database gives (or the exception it throws), \<open>next_id\<close> the one
  of the generator, used at the lower savepoint levels.
\<close>

definition instance_document ::
  "env \<Rightarrow> (string \<Rightarrow> (exn + retry_schedule_def) option) \<Rightarrow> string \<Rightarrow> string option \<Rightarrow> string option \<Rightarrow>
   (string \<times> string) list \<Rightarrow> document \<Rightarrow> (exn + document) option" where
  "instance_document E get_schedule workflow_name host user ps d = do {
     let d = setAttribute (root d) ''name'' workflow_name d;
     let d = (case host of None \<Rightarrow> d
       | Some h \<Rightarrow> (let d = setAttribute (root d) ''host'' h d in
           case user of None \<Rightarrow> d | Some u \<Rightarrow> setAttribute (root d) ''user'' u d));
     written \<leftarrow> set_parameters ps d;
     case written of
       Inl e \<Rightarrow> Some (Inl e)
     | Inr d \<Rightarrow>
         (case check_count (length ps) d of
            Inl e \<Rightarrow> Some (Inl e)
          | Inr d \<Rightarrow> import_schedules E get_schedule
              (List.filter (\<lambda>t. getNamedItem d t ''retry_schedule'' \<noteq> None) (all_named ''task'' d)) d) }"

definition register_instance ::
  "env \<Rightarrow> (exn + u32) \<Rightarrow> u32 \<Rightarrow> string option \<Rightarrow> (string \<times> string) list \<Rightarrow> wf_instance \<Rightarrow>
   (exn + wf_instance) option" where
  "register_instance E inserted next_id host ps s =
     (case (if 2 \<le> savepoint_level s
            then map_sum (\<lambda>e. e) (\<lambda>i. s\<lparr>workflow_instance_id := i,
                calls := calls s @
                  Call_Insert (workflow_id s) (if workflow_schedule_id s = 0 then None else Some (workflow_schedule_id s)) host #
                  (if saveparameters s then List.map (\<lambda>(n, v). Call_Save_Parameter i n v) ps else [])\<rparr>)
              inserted
            else Inr (s\<lparr>workflow_instance_id := next_id\<rparr>)) of
        Inl e \<Rightarrow> Some (Inl e)
      | Inr s \<Rightarrow> do {
          s \<leftarrow> record_savepoint E False s;
          Some (Inr (emit Call_IncExecuting (emit (Call_Add (workflow_instance_id s)) s))) })"

definition WORKFLOW_NAME_MAXLEN :: nat where
  "WORKFLOW_NAME_MAXLEN = 64"

definition WorkflowInstance_new ::
  "env \<Rightarrow> (string \<Rightarrow> (exn + workflow_def) option) \<Rightarrow> (string \<Rightarrow> (exn + retry_schedule_def) option) \<Rightarrow>
   (exn + u32) \<Rightarrow> u32 \<Rightarrow> string \<Rightarrow> parameters \<Rightarrow> u32 \<Rightarrow> string option \<Rightarrow> string option \<Rightarrow>
   (exn + wf_instance) option" where
  "WorkflowInstance_new E get_workflow get_schedule inserted next_id workflow_name ps sid host user =
     Option.bind (wi_init (e_config E) blank) (\<lambda>s.
      if WORKFLOW_NAME_MAXLEN < length workflow_name
      then Some (Inl (Exception ''WorkflowInstance'' ''Workflow name is too long''))
      else do {
        workflow \<leftarrow> get_workflow workflow_name;
        case workflow of
          Inl e \<Rightarrow> Some (Inl e)
        | Inr w \<Rightarrow> do {
            xml \<leftarrow> wf_xml w;
            d \<leftarrow> e_parse E xml;
            let ps = fst (param_loop (param_SeekStart ps));
            r \<leftarrow> instance_document E get_schedule workflow_name host user ps d;
            case r of
              Inl e \<Rightarrow> Some (Inl e)
            | Inr d \<Rightarrow>
                register_instance E inserted next_id host ps
                  (s\<lparr>workflow_id := word_of_int (wf_id w), workflow_schedule_id := sid, xmldoc := d\<rparr>) }})"

text \<open>
  The constructor from a savepoint, used at startup: \<open>row\<close> is what the database has for the
  identifier (savepoint, schedule, workflow). An empty savepoint is marked as terminated.
\<close>

definition WorkflowInstance_resume ::
  "env \<Rightarrow> u32 \<Rightarrow> (string option \<times> u32 \<times> u32) option \<Rightarrow> ((exn \<times> call list) + wf_instance) option" where
  "WorkflowInstance_resume E i row =
     (case row of
        None \<Rightarrow> Some (Inl (Exception ''WorkflowInstance'' ''Unknown workflow instance'', []))
      | Some (savepoint, sid, wid) \<Rightarrow>
          if savepoint = None \<or> savepoint = Some []
          then Some (Inl (Exception ''WorkflowInstance'' ''Could not resume workflow : empty savepoint'',
                 [Call_Mark_Terminated i]))
          else do {
            s \<leftarrow> wi_init (e_config E) blank;
            d \<leftarrow> e_parse E (the savepoint);
            Some (Inr (emit Call_IncExecuting (emit (Call_Add i)
              (s\<lparr>workflow_instance_id := i, xmldoc := d, workflow_schedule_id := sid, workflow_id := wid\<rparr>)))) })"

text \<open>The destructor; a scheduled workflow counts as failed when a task was counted as an error.\<close>

definition WorkflowInstance_delete :: "wf_instance \<Rightarrow> call list" where
  "WorkflowInstance_delete s =
     Call_Remove (workflow_instance_id s) #
     (if workflow_schedule_id s \<noteq> 0 then [Call_Schedule_Stop (workflow_schedule_id s) (error_tasks s = 0)] else []) @
     [Call_DecExecuting]"

end
