(* ===== verification/Instance_Lifecycle.thy ===== *)
theory Instance_Lifecycle
  imports Workflow_Instance "HOL-Library.Multiset"
begin

text \<open>
  The life of an instance between the components that hold its tasks. A task the instance has
  handed out is in a queue, or executing, or with the retrier; each of these will call the
  instance back once for it. The counters of the instance are to tell how many such calls are
  still to come, since the instance is deleted when an operation reports that they are both zero.
\<close>

section \<open>A frame for the expansion of jobs\<close>

text \<open>
  Everything between \<open>run_subjobs\<close> and \<open>enqueue_task\<close> only edits the document, counts errors
  and queues tasks: a reflexive and transitive relation that these three respect holds across it.
\<close>

locale job_frame =
  fixes E :: env and R :: "wf_instance \<Rightarrow> wf_instance \<Rightarrow> bool"
  assumes refl: "R s s"
    and trans: "R s t \<Longrightarrow> R t u \<Longrightarrow> R s u"
    and document: "R s (s\<lparr>xmldoc := d\<rparr>)"
    and error: "R s (s\<lparr>error_tasks := error_tasks s + 1\<rparr>)"
    and enqueue: "enqueue_task E task s = Some s' \<Longrightarrow> R s s'"
begin

definition across :: "wf_instance \<Rightarrow> outcome \<Rightarrow> bool" where
  "across s r \<longleftrightarrow> (\<forall>e s'. r = Some (e, s') \<longrightarrow> R s s')"

lemma acrossI: "(\<And>e s'. r = Some (e, s') \<Longrightarrow> R s s') \<Longrightarrow> across s r"
  by (auto simp: across_def)

lemma across_simps [simp]: "across s None" "across s (Some (e, s')) = R s s'"
  by (auto simp: across_def)

lemma across_trans: "R s t \<Longrightarrow> across t r \<Longrightarrow> across s r"
  by (auto simp: across_def intro: trans)

lemma across_andthen:
  assumes "across s r" and "\<And>t. across t (f t)"
  shows "across s (andthen r f)"
proof (cases r)
  case None
  then show ?thesis by (simp add: andthen_def)
next
  case (Some x)
  obtain e t where x: "x = (e, t)" by fastforce
  with Some assms(1) have "R s t" by simp
  with Some x assms(2) [of t] show ?thesis
    by (cases e) (auto simp: andthen_def intro: across_trans)
qed

lemma set_doc: "R s (set_doc d s)"
  unfolding set_doc_def by (rule document)

lemma put: "R s (put n a v s)"
  unfolding put_def by (rule document)

lemma put2: "R s (put n a v (put m b w s))"
  by (rule trans [OF put put])

lemma expression_error: "across s (expression_error n details s)"
  unfolding expression_error_def by (simp add: put2)

lemma enqueue_across: "across s (no_throw (enqueue_task E task s))"
  by (rule acrossI) (auto simp: no_throw_def intro: enqueue)

lemma replace_one: "across s (replace_one E task c v s)"
  unfolding replace_one_def
  by (auto simp: refl set_doc split: option.splits prod.splits if_splits)

lemma replace_values: "across s (replace_values E task c vs s)"
  by (induction vs arbitrary: s) (auto simp: refl intro: across_andthen replace_one)

lemma copy_one: "across s (copy_one E c v s)"
  unfolding copy_one_def by (auto simp: refl set_doc split: option.splits)

lemma copy_values: "across s (copy_values E c vs s)"
  by (induction vs arbitrary: s) (auto simp: refl intro: across_andthen copy_one)

lemma launch_task: "across s (launch_task E task c s)"
  unfolding launch_task_def replace_value_def
  by (intro across_andthen replace_values copy_values enqueue_across)

lemma remove_node: "across s (remove_node n s)"
  unfolding remove_node_def by (auto simp: set_doc split: option.splits)

lemma append_clone: "append_clone n s = Some (c, s') \<Longrightarrow> R s s'"
  unfolding append_clone_def by (auto simp: set_doc split: option.splits prod.splits)

lemma expand_tasks: "across s (expand_tasks E task ms s)"
proof (induction ms arbitrary: s)
  case Nil
  then show ?case by (simp add: remove_node)
next
  case (Cons m ms)
  show ?case
  proof (cases "append_clone task s")
    case None
    then show ?thesis by simp
  next
    case (Some x)
    obtain c s1 where x: "x = (c, s1)" by fastforce
    have "across s1 (andthen (launch_task E c m s1) (expand_tasks E task ms))"
      by (intro across_andthen launch_task Cons.IH)
    with Some x append_clone [of task s c s1] show ?thesis by (simp add: across_trans)
  qed
qed

lemma run_tasks: "across s (run_tasks E c i tasks s)"
proof (induction tasks arbitrary: i s)
  case Nil
  then show ?case by (simp add: refl)
next
  case (Cons task tasks)
  let ?s = "s\<lparr>xmldoc := removeAttribute task ''loop'' (xmldoc s)\<rparr>"
  have "across ?s (andthen (expand_tasks E task ms ?s) (run_tasks E c j tasks))" for ms j
    by (intro across_andthen expand_tasks Cons.IH)
  then have loop: "across s (andthen (expand_tasks E task ms ?s) (run_tasks E c j tasks))" for ms j
    by (rule across_trans [OF document])
  have failed: "across s (expression_error task details ?s)" for details
    by (rule across_trans [OF document expression_error])
  have "across s (andthen (launch_task E task c s) (run_tasks E c i tasks))"
    by (intro across_andthen launch_task Cons.IH)
  with loop failed Cons.IH show ?case by (auto simp: Let_def split: option.splits)
qed

lemma run: "across s (run E job c s)"
  unfolding run_def by (rule run_tasks)

lemma expand_jobs: "across s (expand_jobs E job ms s)"
proof (induction ms arbitrary: s)
  case Nil
  then show ?case by (simp add: remove_node)
next
  case (Cons m ms)
  show ?case
  proof (cases "append_clone job s")
    case None
    then show ?thesis by simp
  next
    case (Some x)
    obtain c s1 where x: "x = (c, s1)" by fastforce
    have "across s1 (andthen (run E c m s1) (expand_jobs E job ms))"
      by (intro across_andthen run Cons.IH)
    with Some x append_clone [of job s c s1] show ?thesis by (simp add: across_trans)
  qed
qed

lemma job_failed:
  assumes "across s r"
  shows "across s (job_failed job r)"
proof -
  have "R t (put n a v (put m b w t)\<lparr>error_tasks := error_tasks (put n a v (put m b w t)) + 1\<rparr>)"
    for t n a v m b w
    by (rule trans [OF put2 error])
  with assms show ?thesis
    unfolding job_failed_def by (auto simp: put_def across_def intro: trans split: option.splits)
qed

lemma run_job: "across s (snd (run_job E job i subjob s))"
proof -
  let ?s = "s\<lparr>xmldoc := removeAttribute subjob ''loop'' (xmldoc s)\<rparr>"
  have "across s (expression_error subjob details ?s)" "across s (expand_jobs E subjob ms ?s)" for details ms
    by (rule across_trans [OF document], rule expression_error expand_jobs)+
  with run show ?thesis unfolding run_job_def by (auto simp: Let_def split: option.splits)
qed

lemma job_condition: "job_condition E job subjob s = Inl r \<Longrightarrow> across s r"
  unfolding job_condition_def by (auto simp: expression_error split: option.splits)

lemma subjobs_loop: "across s (subjobs_loop E job i subjobs s)"
proof (induction subjobs arbitrary: i s)
  case Nil
  then show ?case by (simp add: refl)
next
  case (Cons subjob subjobs)
  show ?case
  proof (cases "job_condition E job subjob s")
    case (Inl r)
    then show ?thesis by (simp add: job_failed job_condition)
  next
    case (Inr b)
    obtain j r where r: "run_job E job i subjob s = (j, r)" by fastforce
    with run_job [of s job i subjob] have "across s r" by simp
    then have "across s (andthen (job_failed subjob r) (subjobs_loop E job j subjobs))"
      by (intro across_andthen job_failed Cons.IH)
    moreover have "across s (subjobs_loop E job i subjobs (skip_job subjob s))"
      unfolding skip_job_def by (rule across_trans [OF put2 Cons.IH])
    ultimately show ?thesis using Inr r by (cases b) simp_all
  qed
qed

lemma try_subjobs: "try_subjobs E job s = Some s' \<Longrightarrow> R s s'"
  using subjobs_loop by (auto simp: try_subjobs_def run_subjobs_def across_def)

end

section \<open>The calls an operation makes\<close>

definition enqueues :: "call list \<Rightarrow> node list" where
  "enqueues cs = concat (List.map (\<lambda>c. case c of Call_Enqueue n q \<Rightarrow> [n] | _ \<Rightarrow> []) cs)"

definition executions :: "call list \<Rightarrow> node list" where
  "executions cs = concat (List.map (\<lambda>c. case c of Call_Execute n q i \<Rightarrow> [n] | _ \<Rightarrow> []) cs)"

definition retries :: "call list \<Rightarrow> node list" where
  "retries cs = concat (List.map (\<lambda>c. case c of Call_Retry n t \<Rightarrow> [n] | _ \<Rightarrow> []) cs)"

lemma handed_out_append [simp]:
  "enqueues (cs @ ds) = enqueues cs @ enqueues ds" "executions (cs @ ds) = executions cs @ executions ds"
  "retries (cs @ ds) = retries cs @ retries ds"
  by (simp_all add: enqueues_def executions_def retries_def)

lemma handed_out_nil [simp]: "enqueues [] = []" "executions [] = []" "retries [] = []"
  by (simp_all add: enqueues_def executions_def retries_def)

lemma handed_out_one [simp]:
  "enqueues [Call_Enqueue n q] = [n]" "executions [Call_Enqueue n q] = []" "retries [Call_Enqueue n q] = []"
  "enqueues [Call_Execute n q i] = []" "executions [Call_Execute n q i] = [n]" "retries [Call_Execute n q i] = []"
  "enqueues [Call_Retry n t] = []" "executions [Call_Retry n t] = []" "retries [Call_Retry n t] = [n]"
  "enqueues [Call_Save u b] = []" "executions [Call_Save u b] = []" "retries [Call_Save u b] = []"
  "enqueues [Call_IncErrors] = []" "executions [Call_IncErrors] = []" "retries [Call_IncErrors] = []"
  "enqueues [Call_Errlog f l] = []" "executions [Call_Errlog f l] = []" "retries [Call_Errlog f l] = []"
  "enqueues [Call_Kill p] = []" "executions [Call_Kill p] = []" "retries [Call_Kill p] = []"
  by (simp_all add: enqueues_def executions_def retries_def)

text \<open>
  \<open>accounts s cs s'\<close>: from \<open>s\<close> to \<open>s'\<close> the calls \<open>cs\<close> were made and the counters went up by
  the tasks handed out in them; whether the instance is being cancelled did not change.
\<close>

definition accounts :: "wf_instance \<Rightarrow> call list \<Rightarrow> wf_instance \<Rightarrow> bool" where
  "accounts s cs s' \<longleftrightarrow> calls s' = calls s @ cs \<and> is_cancelling s' = is_cancelling s \<and>
     running_tasks s' = running_tasks s + of_nat (length (enqueues cs) + length (executions cs)) \<and>
     retrying_tasks s' = retrying_tasks s + of_nat (length (retries cs))"

lemma accounts_refl [simp]: "accounts s [] s"
  by (simp add: accounts_def)

lemma accounts_trans: "accounts s cs t \<Longrightarrow> accounts t ds u \<Longrightarrow> accounts s (cs @ ds) u"
  by (simp add: accounts_def ac_simps)

text \<open>\<open>queues_only\<close>: nothing but queued tasks was handed out, and nothing when cancelling.\<close>

definition queues_only :: "wf_instance \<Rightarrow> wf_instance \<Rightarrow> bool" where
  "queues_only s s' \<longleftrightarrow> (\<exists>cs. accounts s cs s' \<and> executions cs = [] \<and> retries cs = [] \<and>
     (is_cancelling s \<longrightarrow> enqueues cs = []))"

lemma queues_only_silent:
  assumes "calls s' = calls s @ cs" and "is_cancelling s' = is_cancelling s"
    and "running_tasks s' = running_tasks s" and "retrying_tasks s' = retrying_tasks s"
    and "enqueues cs = []" "executions cs = []" "retries cs = []"
  shows "queues_only s s'"
  using assms by (auto simp: queues_only_def accounts_def)

lemma queues_only_trans: "queues_only s t \<Longrightarrow> queues_only t u \<Longrightarrow> queues_only s u"
proof -
  assume "queues_only s t" "queues_only t u"
  then obtain cs ds where cs: "accounts s cs t" "executions cs = []" "retries cs = []"
      "is_cancelling s \<longrightarrow> enqueues cs = []"
    and ds: "accounts t ds u" "executions ds = []" "retries ds = []" "is_cancelling t \<longrightarrow> enqueues ds = []"
    unfolding queues_only_def by blast
  have "is_cancelling t = is_cancelling s" using cs(1) by (simp add: accounts_def)
  with cs ds accounts_trans [OF cs(1) ds(1)] show ?thesis
    unfolding queues_only_def by (intro exI [of _ "cs @ ds"]) simp
qed

lemma counters_put [simp]:
  "calls (put n a v s) = calls s" "running_tasks (put n a v s) = running_tasks s"
  "retrying_tasks (put n a v s) = retrying_tasks s" "is_cancelling (put n a v s) = is_cancelling s"
  "error_tasks (put n a v s) = error_tasks s"
  by (simp_all add: put_def)

lemma xmldoc_put [simp]: "xmldoc (put n a v s) = setAttribute n a v (xmldoc s)"
  by (simp add: put_def)

lemma xmldoc_set_doc [simp]: "xmldoc (set_doc d s) = d"
  by (simp add: set_doc_def)

lemma counters_set_doc [simp]:
  "calls (set_doc d s) = calls s" "running_tasks (set_doc d s) = running_tasks s"
  "retrying_tasks (set_doc d s) = retrying_tasks s" "is_cancelling (set_doc d s) = is_cancelling s"
  "error_tasks (set_doc d s) = error_tasks s"
  by (simp_all add: set_doc_def)

lemma counters_emit [simp]:
  "calls (emit c s) = calls s @ [c]" "running_tasks (emit c s) = running_tasks s"
  "retrying_tasks (emit c s) = retrying_tasks s" "is_cancelling (emit c s) = is_cancelling s"
  "error_tasks (emit c s) = error_tasks s" "xmldoc (emit c s) = xmldoc s"
  by (simp_all add: emit_def)

lemma counters_abort [simp]:
  "calls (abort_task n r s) = calls s" "running_tasks (abort_task n r s) = running_tasks s"
  "retrying_tasks (abort_task n r s) = retrying_tasks s" "is_cancelling (abort_task n r s) = is_cancelling s"
  "error_tasks (abort_task n r s) = error_tasks s + 1"
  by (simp_all add: abort_task_def)

lemma counters_put_root [simp]:
  "calls (put_root a v s) = calls s" "running_tasks (put_root a v s) = running_tasks s"
  "retrying_tasks (put_root a v s) = retrying_tasks s" "is_cancelling (put_root a v s) = is_cancelling s"
  "error_tasks (put_root a v s) = error_tasks s"
  by (simp_all add: put_root_def)

lemma enqueue_task_queues:
  assumes "enqueue_task E task s = Some s'"
  shows "queues_only s s'"
proof -
  consider (same) "calls s' = calls s" "running_tasks s' = running_tasks s" |
    (queued) q where "calls s' = calls s @ [Call_Enqueue task q]" "running_tasks s' = running_tasks s + 1"
      "\<not> is_cancelling s"
    using assms unfolding enqueue_task_def
    by (auto simp: Let_def split: if_splits option.splits)
  moreover have "is_cancelling s' = is_cancelling s" "retrying_tasks s' = retrying_tasks s"
    using assms unfolding enqueue_task_def
    by (auto simp: Let_def split: if_splits option.splits)
  ultimately show ?thesis
  proof cases
    case same
    with \<open>is_cancelling s' = _\<close> \<open>retrying_tasks s' = _\<close> show ?thesis
      by (intro queues_only_silent [where cs = "[]"]) simp_all
  next
    case (queued q)
    with \<open>is_cancelling s' = _\<close> \<open>retrying_tasks s' = _\<close> show ?thesis
      unfolding queues_only_def
      by (intro exI [of _ "[Call_Enqueue task q]"]) (simp add: accounts_def)
  qed
qed

interpretation queueing: job_frame E queues_only for E
proof
  show "queues_only s s" for s by (rule queues_only_silent [where cs = "[]"]) simp_all
  show "queues_only s (s\<lparr>xmldoc := d\<rparr>)" for s d by (rule queues_only_silent [where cs = "[]"]) simp_all
  show "queues_only s (count_error s)" for s by (rule queues_only_silent [where cs = "[]"]) simp_all
qed (fact queues_only_trans, fact enqueue_task_queues)

section \<open>Savepoints hand nothing out\<close>

definition silent :: "wf_instance \<Rightarrow> wf_instance \<Rightarrow> bool" where
  "silent s s' \<longleftrightarrow> (\<exists>cs. calls s' = calls s @ cs \<and> enqueues cs = [] \<and> executions cs = [] \<and> retries cs = []) \<and>
     is_cancelling s' = is_cancelling s \<and> running_tasks s' = running_tasks s \<and>
     retrying_tasks s' = retrying_tasks s \<and> error_tasks s' = error_tasks s"

lemma silent_trans: "silent s t \<Longrightarrow> silent t u \<Longrightarrow> silent s u"
proof -
  assume "silent s t" "silent t u"
  moreover from this obtain cs ds where "calls t = calls s @ cs" "calls u = calls t @ ds"
      "enqueues cs = []" "executions cs = []" "retries cs = []"
      "enqueues ds = []" "executions ds = []" "retries ds = []"
    unfolding silent_def by blast
  ultimately show ?thesis unfolding silent_def by (auto intro: exI [of _ "cs @ ds"])
qed

lemma silent_put [simp]: "silent s (put n a v s)" "silent s (put_root a v s)" "silent s s"
  by (simp_all add: silent_def)

lemma silent_emit: "enqueues [c] = [] \<Longrightarrow> executions [c] = [] \<Longrightarrow> retries [c] = [] \<Longrightarrow> silent s (emit c s)"
  by (simp add: silent_def)

lemma silent_queues: "silent s s' \<Longrightarrow> queues_only s s'"
  unfolding silent_def by (auto intro: queues_only_silent)

lemma save_tries_silent: "save_tries E q k s = Some s' \<Longrightarrow> silent s s'"
proof (rule save_tries.raw_induct [where P = "\<lambda>E q k s s'. silent s s'", rotated])
  show "save_tries E q k s = Some s' \<Longrightarrow> save_tries E q k s = Some s'" .
next
  fix rec E q k s s'
  assume ih: "\<And>E q k s s'. rec E q k s = Some s' \<Longrightarrow> silent s s'"
    and s': "(let s = emit (Call_Save q (e_db E k)) s
       in if e_db E k then Some s
          else if savepoint_retry s \<and> (savepoint_retry_times s = 0 \<or> k + 1 \<le> unat (savepoint_retry_times s))
               then rec E q (k + 1) s else Some s) = Some s'"
  let ?t = "emit (Call_Save q (e_db E k)) s"
  have "silent s ?t" by (rule silent_emit) simp_all
  moreover have "s' = ?t \<or> silent ?t s'"
    using s' ih by (auto simp: Let_def split: if_splits)
  ultimately show "silent s s'" using silent_trans by blast
qed

lemma record_savepoint_silent:
  assumes "record_savepoint E force s = Some s'"
  shows "silent s s'"
proof -
  let ?t = "put_root ''end_time'' (datetime E (e_now E)) s"
  let ?u = "put_root ''errors'' (show_u32 (error_tasks ?t)) ?t"
  have "silent s ?u" by (rule silent_trans [OF silent_put(2) silent_put(2)])
  moreover have "s' = s \<or> silent ?u s' \<or> silent s s'"
    using assms unfolding record_savepoint_def Let_def
    by (auto split: if_splits dest: save_tries_silent)
  ultimately show ?thesis using silent_trans silent_put(3) by blast
qed

lemma workflow_ended_cases:
  assumes "workflow_ended s = (b, s')"
  shows "b = (running_tasks s = 0 \<and> retrying_tasks s = 0)" and "silent s s'"
proof -
  let ?t = "put_root ''status'' ''TERMINATED'' s"
  let ?u = "put_root ''errors'' (show_u32 (error_tasks ?t)) ?t"
  show "b = (running_tasks s = 0 \<and> retrying_tasks s = 0)"
    using assms unfolding workflow_ended_def by (auto simp: Let_def split: if_splits)
  have "silent s ?u" by (rule silent_trans [OF silent_put(2) silent_put(2)])
  moreover have "silent ?u (emit Call_IncErrors ?u)" by (rule silent_emit) simp_all
  moreover have "s' = s \<or> s' = ?t \<or> s' = emit Call_IncErrors ?u"
    using assms unfolding workflow_ended_def by (auto simp: Let_def split: if_splits)
  ultimately show "silent s s'" using silent_put(2,3) by (elim disjE) (auto intro: silent_trans)
qed

lemma finish_cases:
  assumes "finish E s = Some (b, s')"
  shows "b = (running_tasks s = 0 \<and> retrying_tasks s = 0)" and "silent s s'"
proof -
  obtain t where t: "workflow_ended s = (b, t)" "record_savepoint E False t = Some s'"
    using assms unfolding finish_def by (auto split: prod.splits)
  show "b = (running_tasks s = 0 \<and> retrying_tasks s = 0)" by (rule workflow_ended_cases(1) [OF t(1)])
  show "silent s s'"
    by (rule silent_trans [OF workflow_ended_cases(2) [OF t(1)] record_savepoint_silent [OF t(2)]])
qed

section \<open>What each operation hands out\<close>

definition retries_only :: "node \<Rightarrow> wf_instance \<Rightarrow> wf_instance \<Rightarrow> bool" where
  "retries_only task s s' \<longleftrightarrow> (\<exists>cs. accounts s cs s' \<and> enqueues cs = [] \<and> executions cs = [] \<and> retries cs \<in> {[], [task]})"

lemma schedule_update_silent: "schedule_update E task n info s = Some (info', s') \<Longrightarrow> silent s s'"
  unfolding schedule_update_def Let_def
  by (auto simp: silent_def bind_eq_Some_conv split: if_splits option.splits)

lemma retry_begin_silent:
  assumes "retry_begin E task s = Some (begun, s')"
  shows "silent s s'"
proof -
  have attributes: "silent s s'" if "retry_attributes E task s = Some (begun, s')"
    using that unfolding retry_attributes_def
    by (auto simp: bind_eq_Some_conv split: option.splits)
  from assms show ?thesis unfolding retry_begin_def
    by (auto simp: bind_eq_Some_conv split: option.splits if_splits prod.splits
        intro: attributes schedule_update_silent)
qed

lemma retry_next_level_silent: "retry_next_level E task info s = Some (info', s') \<Longrightarrow> silent s s'"
  unfolding retry_next_level_def
  by (auto simp: bind_eq_Some_conv split: option.splits if_splits dest: schedule_update_silent)

lemma silent_accounts: "silent s s' \<Longrightarrow> \<exists>cs. accounts s cs s' \<and> enqueues cs = [] \<and> executions cs = [] \<and> retries cs = []"
  unfolding silent_def accounts_def by auto

lemma retry_task_retries:
  assumes "retry_task E task s = Some s'"
  shows "retries_only task s s'"
proof -
  obtain begun t where t: "retry_begin E task s = Some (begun, t)"
    using assms unfolding retry_task_def by (auto simp: bind_eq_Some_conv)
  obtain u where u: "silent t u" and
    s': "s' = u \<or> s' = count_error u \<or> (\<exists>delay n. s' = schedule_retry E task delay n u)"
  proof (cases begun)
    case None
    with assms t that [of t] show ?thesis unfolding retry_task_def by simp
  next
    case (Some info)
    with assms t obtain info' v where v: "retry_next_level E task info t = Some (info', v)"
      unfolding retry_task_def by (auto simp: bind_eq_Some_conv)
    with assms t Some have "s' = v \<or> s' = count_error v \<or> (\<exists>delay n. s' = schedule_retry E task delay n v)"
      unfolding retry_task_def by (auto simp: bind_eq_Some_conv split: if_splits)
    with that retry_next_level_silent [OF v] show ?thesis by blast
  qed
  have "silent s u" by (rule silent_trans [OF retry_begin_silent [OF t] u])
  from silent_accounts [OF this] obtain cs where
    cs: "accounts s cs u" "enqueues cs = []" "executions cs = []" "retries cs = []" by blast
  have "accounts u [] (count_error u)" by (simp add: accounts_def)
  moreover have "accounts u [Call_Retry task (e_now E + delay)] (schedule_retry E task delay n u)" for delay n
    by (simp add: accounts_def schedule_retry_def Let_def)
  ultimately have "accounts u [] s' \<or> (\<exists>t. accounts u [Call_Retry task t] s')" using s' by auto
  then obtain ds where "accounts u ds s'" "enqueues ds = []" "executions ds = []" "retries ds \<in> {[], [task]}"
  proof
    assume "\<exists>t. accounts u [Call_Retry task t] s'"
    then obtain t where "accounts u [Call_Retry task t] s'" ..
    then show thesis by (rule that) simp_all
  qed (rule that [of "[]"], simp_all)
  with cs accounts_trans [OF cs(1)] show ?thesis
    unfolding retries_only_def by (intro exI [of _ "cs @ ds"]) simp
qed

text \<open>
  The effect of a whole operation that was called for \<open>r\<close> queued or executing tasks and \<open>w\<close>
  tasks waiting for a retry, and reported \<open>b\<close>.
\<close>

definition new_calls :: "wf_instance \<Rightarrow> wf_instance \<Rightarrow> call list" where
  "new_calls s s' = drop (length (calls s)) (calls s')"

definition effect :: "nat \<Rightarrow> nat \<Rightarrow> wf_instance \<Rightarrow> wf_instance \<Rightarrow> bool \<Rightarrow> bool" where
  "effect r w s s' b \<longleftrightarrow> (let cs = new_calls s s' in
     is_cancelling s' = is_cancelling s \<and>
     running_tasks s' + of_nat r = running_tasks s + of_nat (length (enqueues cs) + length (executions cs)) \<and>
     retrying_tasks s' + of_nat w = retrying_tasks s + of_nat (length (retries cs)) \<and>
     b = (running_tasks s' = 0 \<and> retrying_tasks s' = 0))"

definition hands_out_nothing :: "wf_instance \<Rightarrow> wf_instance \<Rightarrow> bool" where
  "hands_out_nothing s s' \<longleftrightarrow> (let cs = new_calls s s' in enqueues cs = [] \<and> executions cs = [] \<and> retries cs = [])"

lemma finish_effect:
  assumes "accounts s cs t"
    and "finish E (t\<lparr>running_tasks := running_tasks t - of_nat r, retrying_tasks := retrying_tasks t - of_nat w\<rparr>)
      = Some (b, s')"
  shows "effect r w s s' b \<and> enqueues (new_calls s s') = enqueues cs \<and>
    executions (new_calls s s') = executions cs \<and> retries (new_calls s s') = retries cs"
proof -
  let ?t = "t\<lparr>running_tasks := running_tasks t - of_nat r, retrying_tasks := retrying_tasks t - of_nat w\<rparr>"
  have fin: "b = (running_tasks ?t = 0 \<and> retrying_tasks ?t = 0)" "silent ?t s'"
    by (rule finish_cases [OF assms(2)])+
  then obtain ds where "calls s' = calls s @ cs @ ds" "enqueues ds = []" "executions ds = []" "retries ds = []"
    using assms(1) unfolding silent_def accounts_def by auto
  then have "new_calls s s' = cs @ ds" "enqueues ds = []" "executions ds = []" "retries ds = []"
    by (simp_all add: new_calls_def)
  with fin assms(1) show ?thesis by (simp add: effect_def accounts_def silent_def Let_def)
qed

lemma finish_effect_none:
  "accounts s cs t \<Longrightarrow> finish E t = Some (b, s') \<Longrightarrow>
   effect 0 0 s s' b \<and> enqueues (new_calls s s') = enqueues cs \<and>
   executions (new_calls s s') = executions cs \<and> retries (new_calls s s') = retries cs"
  using finish_effect [where r = 0 and w = 0 and t = t] by simp

lemma finish_effect_running:
  "accounts s cs t \<Longrightarrow> finish E (t\<lparr>running_tasks := running_tasks t - 1\<rparr>) = Some (b, s') \<Longrightarrow>
   effect 1 0 s s' b \<and> enqueues (new_calls s s') = enqueues cs \<and>
   executions (new_calls s s') = executions cs \<and> retries (new_calls s s') = retries cs"
  using finish_effect [where r = 1 and w = 0 and t = t] by simp

lemma finish_effect_retrying:
  "accounts s cs t \<Longrightarrow> finish E (t\<lparr>retrying_tasks := retrying_tasks t - 1\<rparr>) = Some (b, s') \<Longrightarrow>
   effect 0 1 s s' b \<and> enqueues (new_calls s s') = enqueues cs \<and>
   executions (new_calls s s') = executions cs \<and> retries (new_calls s s') = retries cs"
  using finish_effect [where r = 0 and w = 1 and t = t] by simp

lemma queues_only_accounts:
  assumes "queues_only s t"
  obtains cs where "accounts s cs t" "executions cs = []" "retries cs = []" "is_cancelling s \<longrightarrow> enqueues cs = []"
  using assms unfolding queues_only_def by blast

lemma Start_queues:
  assumes "Start E s = Some (b, s')"
  obtains cs t where "accounts s cs t" and "executions cs = []" and "retries cs = []" and "finish E t = Some (b, s')"
proof -
  let ?t = "put_root ''start_time'' (datetime E (e_now E))
    (put_root ''status'' ''EXECUTING'' (put_root ''id'' (show_u32 (workflow_instance_id s)) s))"
  obtain t where t: "try_subjobs E (root (xmldoc ?t)) ?t = Some t" "finish E t = Some (b, s')"
    using assms unfolding Start_def Let_def by (auto simp: bind_eq_Some_conv split: if_splits)
  have "silent s ?t" using silent_trans silent_put(2) by blast
  then have "queues_only s t"
    using queues_only_trans silent_queues queueing.try_subjobs [OF t(1)] by blast
  with t(2) that show thesis by (blast elim: queues_only_accounts)
qed

lemma Start_effect:
  assumes "Start E s = Some (b, s')"
  shows "effect 0 0 s s' b" and "executions (new_calls s s') = []" and "retries (new_calls s s') = []"
proof -
  obtain cs t where t: "accounts s cs t" "executions cs = []" "retries cs = []" "finish E t = Some (b, s')"
    using assms by (rule Start_queues)
  from finish_effect_none [OF t(1,4)] t(2,3)
  show "effect 0 0 s s' b" "executions (new_calls s s') = []" "retries (new_calls s s') = []" by simp_all
qed

lemma TaskRestart_effect:
  assumes "TaskRestart E task s = Some (b, s')"
  shows "effect 0 1 s s' b" and "is_cancelling s \<Longrightarrow> hands_out_nothing s s'"
    and "executions (new_calls s s') = []" and "retries (new_calls s s') = []"
    and "enqueues (new_calls s s') \<in> {[], [task]}"
proof -
  obtain t where t: "enqueue_task E task s = Some t"
    "finish E (t\<lparr>retrying_tasks := retrying_tasks t - 1\<rparr>) = Some (b, s')"
    using assms unfolding TaskRestart_def by (auto simp: bind_eq_Some_conv)
  from enqueue_task_queues [OF t(1)] obtain cs where cs: "accounts s cs t" "executions cs = []"
    "retries cs = []" "is_cancelling s \<longrightarrow> enqueues cs = []" by (rule queues_only_accounts)
  have eff: "effect 0 1 s s' b \<and> enqueues (new_calls s s') = enqueues cs \<and>
    executions (new_calls s s') = executions cs \<and> retries (new_calls s s') = retries cs"
    by (rule finish_effect_retrying [OF cs(1) t(2)])
  then show "effect 0 1 s s' b" "executions (new_calls s s') = []" "retries (new_calls s s') = []" using cs(2,3) by simp_all
  have "calls t = calls s \<or> (\<exists>q. calls t = calls s @ [Call_Enqueue task q])"
    using t(1) unfolding enqueue_task_def by (auto simp: Let_def split: if_splits option.splits)
  then have "enqueues cs \<in> {[], [task]}" using cs(1) by (auto simp: accounts_def)
  then show "enqueues (new_calls s s') \<in> {[], [task]}" using eff by simp
  show "is_cancelling s \<Longrightarrow> hands_out_nothing s s'"
    using eff cs by (simp add: hands_out_nothing_def)
qed

lemma drop_task_effect:
  assumes "drop_task E task reason s = Some (b, s')"
  shows "effect 1 0 s s' b" and "hands_out_nothing s s'"
proof -
  let ?t = "abort_task task reason s"
  have "accounts s [] ?t" by (simp add: accounts_def)
  moreover have "finish E (?t\<lparr>running_tasks := running_tasks ?t - 1\<rparr>) = Some (b, s')"
    using assms by (simp add: drop_task_def Let_def)
  ultimately have "effect 1 0 s s' b \<and> enqueues (new_calls s s') = enqueues [] \<and>
    executions (new_calls s s') = executions [] \<and> retries (new_calls s s') = retries []"
    by (rule finish_effect_running)
  then show "effect 1 0 s s' b" "hands_out_nothing s s'" by (simp_all add: hands_out_nothing_def)
qed

lemma TaskExecute_effect:
  assumes "TaskExecute E task tid forked s = Some (pid, b, s')"
  shows "effect (if 0 < pid then 0 else 1) 0 s s' b" and "hands_out_nothing s s'"
    and "is_cancelling s \<Longrightarrow> \<not> 0 < pid"
proof -
  consider (dropped) reason where "drop_task E task reason s = Some (b, s')" "\<not> 0 < pid" |
    (executed) "finish E (mark_executing E task forked tid s) = Some (b, s')" "0 < pid" "\<not> is_cancelling s"
    using assms unfolding TaskExecute_def by (auto split: if_splits sum.splits)
  note cases = this
  show "is_cancelling s \<Longrightarrow> \<not> 0 < pid" using cases by cases simp_all
  have "accounts s [] (mark_executing E task forked tid s)"
    by (simp add: accounts_def mark_executing_def)
  note marked = finish_effect_none [OF this]
  from cases have "effect (if 0 < pid then 0 else 1) 0 s s' b \<and> hands_out_nothing s s'"
  proof cases
    case dropped
    with drop_task_effect [OF dropped(1)] show ?thesis by simp
  next
    case executed
    with marked [OF executed(1)] show ?thesis by (simp add: hands_out_nothing_def)
  qed
  then show "effect (if 0 < pid then 0 else 1) 0 s s' b" "hands_out_nothing s s'" by blast+
qed

lemma mark_stopped_silent: "mark_stopped E task retval s = (n, t) \<Longrightarrow> silent s t"
  unfolding mark_stopped_def Let_def by (auto simp: silent_def split: prod.splits)

lemma output_text_silent: "silent s (output_text task n out s)"
  unfolding output_text_def Let_def by (auto simp: silent_def split: prod.splits)

lemma stop_success_queues: "queues_only s (stop_success E task n out s)"
proof -
  have abort: "queues_only t (abort_task task r t)" for t r
    by (rule queues_only_silent [where cs = "[]"]) simp_all
  have log: "queues_only s (emit (Call_Errlog f out) s)" for f
    by (rule silent_queues [OF silent_emit]) simp_all
  note logged = queues_only_trans [OF log abort]
  note stored = queues_only_trans [OF queues_only_trans [OF queueing.set_doc queueing.put] queueing.set_doc]
  have "queues_only s (output_xml E task n out s)"
    unfolding output_xml_def Let_def
    by (split option.split prod.split if_split)+ (blast intro: logged abort stored)
  then show ?thesis
    unfolding stop_success_def
    using abort silent_queues [OF output_text_silent] queueing.refl
    by (auto split: sum.splits task_output_method.splits)
qed

lemma retries_only_accounts:
  assumes "retries_only task s t"
  obtains cs where "accounts s cs t" "enqueues cs = []" "executions cs = []" "retries cs \<in> {[], [task]}"
  using assms unfolding retries_only_def by blast

lemma stop_failure_retries:
  assumes "stop_failure E task n out s = Some s'"
  shows "retries_only task s s'" and "is_cancelling s \<Longrightarrow> queues_only s s'"
proof -
  let ?t = "output_text task n out s"
  have t: "silent s ?t" by (rule output_text_silent)
  then have cancelling: "is_cancelling ?t = is_cancelling s" by (simp add: silent_def)
  show "is_cancelling s \<Longrightarrow> queues_only s s'"
    using assms cancelling queues_only_trans [OF silent_queues [OF t] queueing.put]
    unfolding stop_failure_def by (auto simp: Let_def)
  show "retries_only task s s'"
  proof (cases "is_cancelling s")
    case True
    with assms cancelling have "s' = put task ''error'' (''Won'' @ CHR 0x27 # ''t retry because workflow is cancelling'') ?t"
      unfolding stop_failure_def by (simp add: Let_def)
    with silent_trans [OF t silent_put(1)] have "silent s s'" by simp
    from silent_accounts [OF this] show ?thesis unfolding retries_only_def by blast
  next
    case False
    with assms cancelling have "retry_task E task ?t = Some s'"
      unfolding stop_failure_def by (simp add: Let_def)
    from retry_task_retries [OF this] obtain ds where
      ds: "accounts ?t ds s'" "enqueues ds = []" "executions ds = []" "retries ds \<in> {[], [task]}"
      by (rule retries_only_accounts)
    from silent_accounts [OF t] obtain cs where
      cs: "accounts s cs ?t" "enqueues cs = []" "executions cs = []" "retries cs = []"
      by blast
    from accounts_trans [OF cs(1) ds(1)] cs ds show ?thesis
      unfolding retries_only_def by (intro exI [of _ "cs @ ds"]) simp
  qed
qed

lemma continue_job_queues: "continue_job E task s = Some s' \<Longrightarrow> queues_only s s'"
  unfolding continue_job_def
  by (auto simp: Let_def intro: queueing.refl queueing.try_subjobs split: option.splits if_splits)

lemma TaskStop_effect:
  assumes "TaskStop E task retval out s = Some (b, s')"
  shows "effect 1 0 s s' b" and "executions (new_calls s s') = []"
    and "is_cancelling s \<Longrightarrow> hands_out_nothing s s'" and "retries (new_calls s s') \<in> {[], [task]}"
proof -
  obtain n t0 where t0: "mark_stopped E task retval s = (n, t0)" by fastforce
  obtain t1 t2 where t1: "t1 = stop_success E task n out t0 \<or> stop_failure E task n out t0 = Some t1"
    and t2: "continue_job E task t1 = Some t2"
    and s': "finish E (t2\<lparr>running_tasks := running_tasks t2 - 1\<rparr>) = Some (b, s')"
    using assms t0 unfolding TaskStop_def by (auto simp: bind_eq_Some_conv Let_def split: if_splits)
  from silent_accounts [OF mark_stopped_silent [OF t0]]
  obtain as where as: "accounts s as t0" "enqueues as = []" "executions as = []" "retries as = []" by blast
  obtain cs where cs: "accounts t0 cs t1" "executions cs = []"
    "is_cancelling t0 \<longrightarrow> enqueues cs = [] \<and> retries cs = []" "retries cs \<in> {[], [task]}"
  proof (cases "queues_only t0 t1")
    case True
    then show ?thesis by (rule queues_only_accounts) (rule that, auto)
  next
    case False
    with t1 have failed: "stop_failure E task n out t0 = Some t1" and "\<not> is_cancelling t0"
      using stop_success_queues stop_failure_retries(2) by blast+
    from stop_failure_retries(1) [OF failed] that \<open>\<not> is_cancelling t0\<close> show ?thesis
      by (auto elim: retries_only_accounts)
  qed
  from continue_job_queues [OF t2] obtain ds where ds: "accounts t1 ds t2" "executions ds = []"
    "retries ds = []" "is_cancelling t1 \<longrightarrow> enqueues ds = []" by (rule queues_only_accounts)
  have "accounts s (as @ cs @ ds) t2"
    using accounts_trans [OF as(1) accounts_trans [OF cs(1) ds(1)]] .
  from finish_effect_running [OF this s'] have
    eff: "effect 1 0 s s' b" "enqueues (new_calls s s') = enqueues cs @ enqueues ds"
      "executions (new_calls s s') = []" "retries (new_calls s s') = retries cs"
    using as cs ds by simp_all
  then show "effect 1 0 s s' b" "executions (new_calls s s') = []" by simp_all
  show "retries (new_calls s s') \<in> {[], [task]}" using eff(4) cs(4) by simp
  show "is_cancelling s \<Longrightarrow> hands_out_nothing s s'"
    using eff as cs ds by (simp add: hands_out_nothing_def accounts_def)
qed

lemma bind_Some_image: "Option.bind r (\<lambda>i. Some (g i)) = Some y \<Longrightarrow> \<exists>i. y = g i"
  by (auto simp: bind_eq_Some_conv)

lemma if_branches:
  "(if P then a else if Q then b else if R then c else d) = x \<Longrightarrow> a = x \<or> b = x \<or> c = x \<or> d = x"
  by (auto split: if_splits)

lemma resume_task_accounts:
  assumes "resume_task E task s = Some s'"
  shows "\<exists>cs. accounts s cs s'"
  using if_branches [OF assms [unfolded resume_task_def Let_def]]
proof (elim disjE)
  assume "enqueue_task E task s = Some s'"
  from enqueue_task_queues [OF this] show ?thesis by (auto elim: queues_only_accounts)
next
  assume "retry_task E task s = Some s'"
  from retry_task_retries [OF this] show ?thesis by (auto elim: retries_only_accounts)
next
  assume "Some s = Some s'"
  then show ?thesis by (auto intro!: exI [of _ "[]"])
next
  have execute: "accounts s [Call_Execute task q i]
    (emit (Call_Execute task q i) s\<lparr>running_tasks := running_tasks (emit (Call_Execute task q i) s) + 1\<rparr>)" for q i
    by (simp add: accounts_def)
  assume "Option.bind (e_parse_int E (getAttribute (xmldoc s) task ''tid''))
    (\<lambda>task_id. Some (emit (Call_Execute task (getAttribute (xmldoc s) task ''queue'') task_id) s
      \<lparr>running_tasks := running_tasks (emit (Call_Execute task (getAttribute (xmldoc s) task ''queue'') task_id) s) + 1\<rparr>))
    = Some s'"
  from bind_Some_image [OF this] execute show ?thesis by blast
qed

lemma resume_tasks_accounts: "resume_tasks E tasks s = Some s' \<Longrightarrow> \<exists>cs. accounts s cs s'"
proof (induction tasks arbitrary: s)
  case Nil
  then show ?case by (auto intro!: exI [of _ "[]"])
next
  case (Cons task tasks)
  then obtain t where "resume_task E task s = Some t" "resume_tasks E tasks t = Some s'"
    by (auto simp: bind_eq_Some_conv)
  with Cons.IH resume_task_accounts accounts_trans show ?case by blast
qed

lemma Resume_effect:
  assumes "Resume E s = Some (b, s')"
  shows "effect 0 0 s s' b"
proof -
  obtain t where t: "resume_tasks E (List.filter (resumable (xmldoc s)) (all_named ''task'' (xmldoc s))) s = Some t"
    "finish E t = Some (b, s')"
    using assms unfolding Resume_def by (auto simp: bind_eq_Some_conv)
  from resume_tasks_accounts [OF t(1)] obtain cs where "accounts s cs t" by blast
  from finish_effect_none [OF this t(2)] show ?thesis by blast
qed

section \<open>The life of an instance\<close>

text \<open>
  The tasks of the instance that are in a queue, executing, or waiting with the retrier, and
  whether an operation has reported the end, after which the caller deletes the instance.
\<close>

record life =
  inst :: wf_instance
  in_queue :: "node multiset"
  in_execution :: "node multiset"
  in_retry :: "node multiset"
  ended :: bool

definition pending :: "life \<Rightarrow> nat" where
  "pending l = size (in_queue l) + size (in_execution l) + size (in_retry l)"

text \<open>The state after an operation, given what is left of the tasks it was called for.\<close>

definition absorb :: "wf_instance \<Rightarrow> wf_instance \<Rightarrow> bool \<Rightarrow> node multiset \<Rightarrow> node multiset \<Rightarrow> node multiset \<Rightarrow> life" where
  "absorb s s' b q e w = (let cs = new_calls s s' in
     \<lparr>inst = s', in_queue = q + mset (enqueues cs), in_execution = e + mset (executions cs),
      in_retry = w + mset (retries cs), ended = b\<rparr>)"

text \<open>
  The steps of an instance that has not ended; the first argument says whether the step serves
  one of the pending tasks. Each step has its own environment: time passes, expressions are
  evaluated on the present document, the database may fail.
\<close>

inductive life_step :: "bool \<Rightarrow> life \<Rightarrow> life \<Rightarrow> bool" where
  execute: "\<not> ended l \<Longrightarrow> t \<in># in_queue l \<Longrightarrow> TaskExecute E t tid forked (inst l) = Some (pid, b, s') \<Longrightarrow>
    life_step True l (absorb (inst l) s' b (in_queue l - {#t#})
      (in_execution l + (if 0 < pid then {#t#} else {#})) (in_retry l))"
| stop: "\<not> ended l \<Longrightarrow> t \<in># in_execution l \<Longrightarrow> TaskStop E t retval out (inst l) = Some (b, s') \<Longrightarrow>
    life_step True l (absorb (inst l) s' b (in_queue l) (in_execution l - {#t#}) (in_retry l))"
| restart: "\<not> ended l \<Longrightarrow> t \<in># in_retry l \<Longrightarrow> TaskRestart E t (inst l) = Some (b, s') \<Longrightarrow>
    life_step True l (absorb (inst l) s' b (in_queue l) (in_execution l) (in_retry l - {#t#}))"
| cancel: "\<not> ended l \<Longrightarrow> life_step False l (l\<lparr>inst := Cancel (inst l)\<rparr>)"
| savepoint: "\<not> ended l \<Longrightarrow> RecordSavepoint E (inst l) = Some s' \<Longrightarrow> life_step False l (l\<lparr>inst := s'\<rparr>)"
| kill: "\<not> ended l \<Longrightarrow> life_step False l (l\<lparr>inst := snd (KillTask p (inst l))\<rparr>)"

text \<open>
  An instance begins with its counters at zero, as both constructors leave them
  (\<open>constructors_fresh\<close>), perhaps cancelled already, and is started or resumed.
\<close>

definition unstarted :: "wf_instance \<Rightarrow> bool" where
  "unstarted s \<longleftrightarrow> running_tasks s = 0 \<and> retrying_tasks s = 0"

inductive life_reachable :: "life \<Rightarrow> bool" where
  started: "unstarted s \<Longrightarrow> Start E s = Some (b, s') \<Longrightarrow> life_reachable (absorb s s' b {#} {#} {#})"
| resumed: "unstarted s \<Longrightarrow> Resume E s = Some (b, s') \<Longrightarrow> life_reachable (absorb s s' b {#} {#} {#})"
| step: "life_reachable l \<Longrightarrow> life_step c l l' \<Longrightarrow> life_reachable l'"

lemma wi_init_unstarted: "wi_init c s = Some s' \<Longrightarrow> unstarted s'"
  unfolding wi_init_def by (auto simp: bind_eq_Some_conv unstarted_def Let_def)

lemma silent_unstarted: "silent s s' \<Longrightarrow> unstarted s \<Longrightarrow> unstarted s'"
  by (simp add: silent_def unstarted_def)

lemma register_unstarted:
  assumes "register_instance E ins nid h ps s = Some (Inr s')" and "unstarted s"
  shows "unstarted s'"
proof -
  obtain t u where t: "unstarted t" and u: "record_savepoint E False t = Some u"
    and s': "s' = emit Call_IncExecuting (emit (Call_Add (workflow_instance_id u)) u)"
  proof (cases "2 \<le> savepoint_level s")
    case True
    with assms(1) obtain i where "ins = Inr i" unfolding register_instance_def by (cases ins) auto
    let ?t = "s\<lparr>workflow_instance_id := i, calls := calls s @
      Call_Insert (workflow_id s) (if workflow_schedule_id s = 0 then None else Some (workflow_schedule_id s)) h #
      (if saveparameters s then List.map (\<lambda>(n, v). Call_Save_Parameter i n v) ps else [])\<rparr>"
    from assms that [of ?t] True \<open>ins = Inr i\<close> show ?thesis
      unfolding register_instance_def by (auto simp: bind_eq_Some_conv unstarted_def)
  next
    case False
    with assms that [of "s\<lparr>workflow_instance_id := nid\<rparr>"] show ?thesis
      unfolding register_instance_def by (auto simp: bind_eq_Some_conv unstarted_def)
  qed
  have "unstarted u" using silent_unstarted [OF record_savepoint_silent [OF u] t] .
  then show ?thesis by (simp add: s' unstarted_def)
qed

lemma caught_Inr: "case_sum (\<lambda>e. Some (Inl e)) f r = Some (Inr y) \<longleftrightarrow> (\<exists>x. r = Inr x \<and> f x = Some (Inr y))"
  by (cases r) simp_all

lemma constructors_fresh:
  "WorkflowInstance_new E gw gs ins nid name ps sid host user = Some (Inr s) \<Longrightarrow> unstarted s"
  "WorkflowInstance_resume E i row = Some (Inr s) \<Longrightarrow> unstarted s"
proof -
  show "unstarted s" if new: "WorkflowInstance_new E gw gs ins nid name ps sid host user = Some (Inr s)"
  proof -
    obtain t where t: "wi_init (e_config E) blank = Some t"
      using new unfolding WorkflowInstance_new_def by (auto simp: bind_eq_Some_conv)
    with new obtain h ps' w d where
      "register_instance E ins nid h ps' (t\<lparr>workflow_id := w, workflow_schedule_id := sid, xmldoc := d\<rparr>) = Some (Inr s)"
      unfolding WorkflowInstance_new_def
      by (auto simp: bind_eq_Some_conv Let_def caught_Inr split: if_split_asm)
    moreover have "unstarted (t\<lparr>workflow_id := w, workflow_schedule_id := sid, xmldoc := d\<rparr>)"
      using wi_init_unstarted [OF t] by (simp add: unstarted_def)
    ultimately show ?thesis by (rule register_unstarted)
  qed
  show "unstarted s" if resume: "WorkflowInstance_resume E i row = Some (Inr s)"
    using resume wi_init_unstarted [of "e_config E" blank] unfolding WorkflowInstance_resume_def
    by (auto simp: bind_eq_Some_conv unstarted_def split: if_splits option.splits)
qed

text \<open>The invariant.\<close>

definition life_counted :: "life \<Rightarrow> bool" where
  "life_counted l \<longleftrightarrow>
     running_tasks (inst l) = of_nat (size (in_queue l) + size (in_execution l)) \<and>
     retrying_tasks (inst l) = of_nat (size (in_retry l)) \<and>
     ended l = (running_tasks (inst l) = 0 \<and> retrying_tasks (inst l) = 0)"

lemma effect_counted:
  assumes "effect r w s s' b"
    and "running_tasks s = of_nat (r + (size q + size e))" and "retrying_tasks s = of_nat (w + size v)"
  shows "life_counted (absorb s s' b q e v)"
proof -
  let ?cs = "new_calls s s'"
  have "running_tasks s' + of_nat r =
      of_nat r + of_nat (size q + size e + (length (enqueues ?cs) + length (executions ?cs)))"
    using assms(1,2) by (simp add: effect_def Let_def)
  then have run: "running_tasks s' = of_nat (size q + size e + (length (enqueues ?cs) + length (executions ?cs)))"
    by (metis add.commute add_left_cancel)
  have "retrying_tasks s' + of_nat w = of_nat w + of_nat (size v + length (retries ?cs))"
    using assms(1,3) by (simp add: effect_def Let_def)
  then have "retrying_tasks s' = of_nat (size v + length (retries ?cs))"
    by (metis add.commute add_left_cancel)
  with run assms(1) show ?thesis
    by (simp add: life_counted_def absorb_def effect_def Let_def algebra_simps)
qed

lemma silent_counted:
  assumes "life_counted l" and "running_tasks s' = running_tasks (inst l)"
    and "retrying_tasks s' = retrying_tasks (inst l)"
  shows "life_counted (l\<lparr>inst := s'\<rparr>)"
  using assms by (simp add: life_counted_def)

lemma KillTask_silent: "silent s (snd (KillTask p s))"
proof -
  have "silent s (fold (\<lambda>t. emit (Call_Kill p)) ts s)" for ts :: "node list"
  proof (induction ts arbitrary: s)
    case (Cons t ts)
    have "silent s (emit (Call_Kill p) s)" by (rule silent_emit) simp_all
    from silent_trans [OF this Cons.IH] show ?case by simp
  qed simp
  then show ?thesis by (simp add: KillTask_def Let_def)
qed

lemma life_step_counted:
  assumes "life_step c l l'" and "life_counted l"
  shows "life_counted l'"
  using assms
proof cases
  case (execute t E tid forked pid b s')
  have sz: "size (in_queue l) = Suc (size (in_queue l - {#t#}))"
    using execute(4) by (metis size_Diff_singleton insert_DiffM size_add_mset)
  note eff = TaskExecute_effect(1) [OF execute(5)]
  show ?thesis unfolding execute(2)
    by (rule effect_counted [OF eff]) (use assms(2) sz in \<open>simp_all add: life_counted_def\<close>)
next
  case (stop t E retval out b s')
  have sz: "size (in_execution l) = Suc (size (in_execution l - {#t#}))"
    using stop(4) by (metis insert_DiffM size_add_mset)
  show ?thesis unfolding stop(2)
    by (rule effect_counted [OF TaskStop_effect(1) [OF stop(5)]])
      (use assms(2) sz in \<open>simp_all add: life_counted_def\<close>)
next
  case (restart t E b s')
  have sz: "size (in_retry l) = Suc (size (in_retry l - {#t#}))"
    using restart(4) by (metis insert_DiffM size_add_mset)
  show ?thesis unfolding restart(2)
    by (rule effect_counted [OF TaskRestart_effect(1) [OF restart(5)]])
      (use assms(2) sz in \<open>simp_all add: life_counted_def\<close>)
next
  case cancel
  with assms(2) show ?thesis by (auto simp: Cancel_def intro: silent_counted)
next
  case (savepoint E s')
  then have "silent (inst l) s'" by (auto simp: RecordSavepoint_def dest: record_savepoint_silent)
  with savepoint assms(2) show ?thesis by (auto simp: silent_def intro: silent_counted)
next
  case (kill p)
  with assms(2) KillTask_silent [of "inst l" p] show ?thesis by (auto simp: silent_def intro: silent_counted)
qed

lemma reachable_counted: "life_reachable l \<Longrightarrow> life_counted l"
proof (induction rule: life_reachable.induct)
  case (started s E b s')
  show ?case
    by (rule effect_counted [OF Start_effect(1) [OF started(2)]])
      (use started(1) in \<open>simp_all add: unstarted_def\<close>)
next
  case (resumed s E b s')
  show ?case
    by (rule effect_counted [OF Resume_effect [OF resumed(2)]])
      (use resumed(1) in \<open>simp_all add: unstarted_def\<close>)
next
  case (step l c l')
  then show ?case using life_step_counted by blast
qed

section \<open>Properties\<close>

lemma live_instance_pending:
  assumes "life_counted l" and "\<not> ended l"
  shows "in_queue l + in_execution l \<noteq> {#} \<or> in_retry l \<noteq> {#}"
proof (rule ccontr)
  assume "\<not> ?thesis"
  then have "in_queue l = {#}" "in_execution l = {#}" "in_retry l = {#}" by simp_all
  with assms show False by (auto simp: life_counted_def)
qed

lemma of_nat_u32_zero:
  assumes "n < 2 ^ 32"
  shows "(of_nat n :: u32) = 0 \<longleftrightarrow> n = 0"
proof
  assume "(of_nat n :: u32) = 0"
  then have "unat (of_nat n :: u32) = 0" by (simp only: unat_0)
  then show "n = 0" by (simp only: unat_of_nat_u32 [OF assms])
qed simp

lemma ended_instance_free:
  assumes "life_counted l" and "ended l" and "pending l < 2 ^ 32"
  shows "pending l = 0"
proof -
  have "size (in_queue l) + size (in_execution l) < 2 ^ 32" "size (in_retry l) < 2 ^ 32"
    using assms(3) by (simp_all add: pending_def)
  moreover have "(of_nat (size (in_queue l) + size (in_execution l)) :: u32) = 0" "(of_nat (size (in_retry l)) :: u32) = 0"
    using assms(1,2) unfolding life_counted_def by metis+
  ultimately show ?thesis by (simp only: of_nat_u32_zero pending_def)
qed

text \<open>A small workflow: one job with one task, and a database that always answers.\<close>

definition node_of :: "string \<Rightarrow> (string \<times> string) list \<Rightarrow> node list \<Rightarrow> node option \<Rightarrow> element" where
  "node_of t a k p = \<lparr>tag = t, attrs = map_of a, kids = k, parent = p, own_text = []\<rparr>"

definition document_of :: "element list \<Rightarrow> document" where
  "document_of es = \<lparr>el = (\<lambda>n. if n < length es then es ! n else empty_element []),
     fresh = length es, root = 0\<rparr>"

definition demo_document :: document where
  "demo_document = document_of
     [node_of ''workflow'' [] [1] None, node_of ''subjobs'' [] [2] (Some 0),
      node_of ''job'' [] [3] (Some 1), node_of ''tasks'' [] [4] (Some 2),
      node_of ''task'' [(''name'', ''t''), (''queue'', ''q'')] [] (Some 3)]"

definition demo_env :: env where
  "demo_env = \<lparr>e_now = 0,
     e_localtime = (\<lambda>_. \<lparr>tm_sec = 0, tm_min = 0, tm_hour = 0, tm_mday = 1, tm_mon = 0, tm_year = 70,
       tm_wday = 4, tm_isdst = 0\<rparr>),
     e_parse_int = parse_decimal, e_parse = (\<lambda>_. None), e_import = (\<lambda>_ _. None),
     e_serialize = (\<lambda>_ _. ''xml''), e_text = (\<lambda>_ _ _. Some None), e_nodes = (\<lambda>d n _. Some [n]),
     e_int = (\<lambda>_ _ _. Some (Some 1)), e_queue = (\<lambda>q. q = ''q''),
     e_task = (\<lambda>_. Inr \<lparr>task_binary = Some ''/bin/t'', task_wd = None, task_user = None, task_host = None,
       parameters_mode = PM_CMDLINE, output_method = OM_TEXT\<rparr>),
     e_config = \<lparr>entries = [], cvalues = []\<rparr>, e_environ = Map.empty, e_db = (\<lambda>_. True)\<rparr>"

definition demo_instance :: wf_instance where
  "demo_instance = blank\<lparr>xmldoc := demo_document, workflow_instance_id := 7, savepoint_level := 0\<rparr>"

lemma demo_start:
  "map_option (\<lambda>(b, s). (b, new_calls demo_instance s, running_tasks s, retrying_tasks s, is_cancelling s))
     (Start demo_env demo_instance) = Some (False, [Call_Enqueue 4 ''q''], 1, 0, False)"
  by code_simp

definition demo_started :: wf_instance where
  "demo_started = snd (the (Start demo_env demo_instance))"

lemma demo_started_calls:
  "Start demo_env demo_instance = Some (False, demo_started)"
  "new_calls demo_instance demo_started = [Call_Enqueue 4 ''q'']"
  "is_cancelling demo_started = False"
  using demo_start unfolding demo_started_def by auto

definition demo_life :: life where
  "demo_life = \<lparr>inst = demo_started, in_queue = {#4#}, in_execution = {#}, in_retry = {#}, ended = False\<rparr>"

lemma demo_life_reachable: "life_reachable demo_life"
proof -
  have "unstarted demo_instance" by (simp add: unstarted_def demo_instance_def blank_def)
  from started [OF this demo_started_calls(1)] show ?thesis
    by (simp add: absorb_def demo_started_calls(2) demo_life_def enqueues_def executions_def retries_def)
qed

text \<open>
  C9. In every reachable state of an instance, whatever the interleaving of its operations, the
  results of its tasks and the failures of the database: \<open>running_tasks\<close> is the number of its
  tasks in queues or executing, \<open>retrying_tasks\<close> the number with the retrier, and the end is
  reported exactly when there are none. So an instance is never deleted while a queue, a process
  or the retrier still refers to it, and an instance that has not ended is always going to be
  called back.
\<close>

theorem instance_counts_pending:
  assumes "life_reachable l" and "pending l < 2 ^ 32"
  shows "unat (running_tasks (inst l)) = size (in_queue l) + size (in_execution l) \<and>
    unat (retrying_tasks (inst l)) = size (in_retry l) \<and> (ended l \<longleftrightarrow> pending l = 0)"
proof -
  have inv: "life_counted l" by (rule reachable_counted [OF assms(1)])
  have "size (in_queue l) + size (in_execution l) < 2 ^ 32" "size (in_retry l) < 2 ^ 32"
    using assms(2) by (simp_all add: pending_def)
  then have "unat (running_tasks (inst l)) = size (in_queue l) + size (in_execution l)"
    "unat (retrying_tasks (inst l)) = size (in_retry l)"
    using inv unfolding life_counted_def by (simp_all only: unat_of_nat_u32)
  moreover have "pending l = 0 \<Longrightarrow> ended l"
    using live_instance_pending [OF inv] by (auto simp: pending_def)
  ultimately show ?thesis using ended_instance_free [OF inv _ assms(2)] by blast
qed

theorem instance_counts_pending_witness:
  "life_reachable demo_life \<and> unat (running_tasks (inst demo_life)) = 1 \<and> ended demo_life = False"
  using instance_counts_pending [OF demo_life_reachable] demo_life_reachable
  by (simp add: demo_life_def pending_def)

text \<open>Runs, with the number of pending tasks they serve.\<close>

inductive life_run :: "nat \<Rightarrow> life \<Rightarrow> life \<Rightarrow> bool" where
  none: "life_run 0 l l"
| more: "life_step c l l' \<Longrightarrow> life_run n l' l'' \<Longrightarrow> life_run (n + (if c then 1 else 0)) l l''"

lemma size_remove: "t \<in># M \<Longrightarrow> Suc (size (M - {#t#})) = size M"
  by (metis insert_DiffM size_add_mset)

lemma cancelled_step:
  assumes "life_step c l l'" and "is_cancelling (inst l)"
  shows "is_cancelling (inst l') \<and> pending l' + (if c then 1 else 0) = pending l"
  using assms
proof cases
  case (execute t E tid forked pid b s')
  from TaskExecute_effect [OF execute(5)] assms(2) size_remove [OF execute(4)] show ?thesis
    by (simp add: execute(1,2) pending_def absorb_def hands_out_nothing_def effect_def Let_def)
next
  case (stop t E retval out b s')
  from TaskStop_effect [OF stop(5)] assms(2) size_remove [OF stop(4)] show ?thesis
    by (simp add: stop(1,2) pending_def absorb_def hands_out_nothing_def effect_def Let_def)
next
  case (restart t E b s')
  from TaskRestart_effect [OF restart(5)] assms(2) size_remove [OF restart(4)] show ?thesis
    by (simp add: restart(1,2) pending_def absorb_def hands_out_nothing_def effect_def Let_def)
next
  case cancel
  with assms(2) show ?thesis by (simp add: pending_def Cancel_def)
next
  case (savepoint E s')
  then have "silent (inst l) s'" by (auto simp: RecordSavepoint_def dest: record_savepoint_silent)
  with savepoint assms(2) show ?thesis by (simp add: silent_def pending_def)
next
  case (kill p)
  with KillTask_silent [of "inst l" p] assms(2) show ?thesis by (simp add: silent_def pending_def)
qed

lemma cancelled_run_pending:
  "life_run n l l' \<Longrightarrow> is_cancelling (inst l) \<Longrightarrow> pending l' + n = pending l"
proof (induction rule: life_run.induct)
  case (more c l l' n l'')
  then show ?case using cancelled_step [OF more.hyps(1)] by simp
qed simp

lemma reachable_run: "life_run n l l' \<Longrightarrow> life_reachable l \<Longrightarrow> life_reachable l'"
  by (induction rule: life_run.induct) (auto intro: life_reachable.step)

text \<open>
  C10. A cancelled instance ends: from then on no operation queues a task or schedules a retry,
  each callback for a pending task removes it, and the instance has ended exactly when all of the
  tasks pending at that time have been called back once.
\<close>

theorem cancelled_instance_ends:
  assumes "life_reachable l" and "is_cancelling (inst l)" and "pending l < 2 ^ 32" and "life_run n l l'"
  shows "n \<le> pending l \<and> pending l' = pending l - n \<and> (ended l' \<longleftrightarrow> n = pending l)"
proof -
  have n: "pending l' + n = pending l" by (rule cancelled_run_pending [OF assms(4,2)])
  have "life_counted l'" by (rule reachable_counted [OF reachable_run [OF assms(4,1)]])
  with n assms(3) live_instance_pending ended_instance_free have "ended l' \<longleftrightarrow> pending l' = 0"
    by (fastforce simp: pending_def)
  with n show ?thesis by auto
qed

definition demo_cancelled :: life where
  "demo_cancelled = demo_life\<lparr>inst := Cancel demo_started\<rparr>"

lemma demo_cancelled_execute:
  "map_option (\<lambda>(p, b, s). (p, b)) (TaskExecute demo_env 4 1 100 (Cancel demo_started)) = Some (-1, True)"
  by code_simp

theorem cancelled_instance_ends_witness:
  "\<exists>l'. life_reachable demo_cancelled \<and> pending demo_cancelled = 1 \<and> life_run 1 demo_cancelled l' \<and>
     pending l' = 0 \<and> ended l'"
proof -
  have "life_step False demo_life demo_cancelled"
    using life_step.cancel [of demo_life] by (simp add: demo_cancelled_def demo_life_def)
  then have reach: "life_reachable demo_cancelled" by (rule life_reachable.step [OF demo_life_reachable])
  have one: "pending demo_cancelled = 1" "is_cancelling (inst demo_cancelled)"
    by (simp_all add: pending_def demo_cancelled_def demo_life_def Cancel_def)
  obtain s' where "TaskExecute demo_env 4 1 100 (Cancel demo_started) = Some (-1, True, s')"
    using demo_cancelled_execute by auto
  then have "\<exists>l'. life_step True demo_cancelled l'"
    using life_step.execute [of demo_cancelled 4 demo_env 1 100 "-1" True s']
    by (auto simp: demo_cancelled_def demo_life_def)
  then obtain l' where run: "life_run 1 demo_cancelled l'"
    using life_run.more [OF _ life_run.none] by fastforce
  with cancelled_instance_ends [OF reach one(2) _ run] one reach show ?thesis by auto
qed

end
