(* ===== verification/Instance_Retry.thy ===== *)
theory Instance_Retry
  imports Instance_Lifecycle
begin

text \<open>
  The retries of a failing task. The code keeps the position in the retry schedule in four
  attributes of the task and advances it at each failure; the reference here is the plain list of
  the delays of the schedule, each as often as its level says.
\<close>

section \<open>The reference\<close>

definition level_delays :: "env \<Rightarrow> document \<Rightarrow> node \<Rightarrow> int list" where
  "level_delays E d k =
     (case (getNamedItem d k ''retry_delay'', getNamedItem d k ''retry_times'') of
        (Some a, Some b) \<Rightarrow>
          (case (e_parse_int E a, e_parse_int E b) of
             (Some delay, Some n) \<Rightarrow> replicate (nat n) delay
           | _ \<Rightarrow> [])
      | _ \<Rightarrow> [])"

definition present_level :: "env \<Rightarrow> document \<Rightarrow> node \<Rightarrow> int option" where
  "present_level E d task =
     (case getNamedItem d task ''retry_schedule_level'' of None \<Rightarrow> Some 0 | Some v \<Rightarrow> e_parse_int E v)"

definition schedule_levels :: "document \<Rightarrow> string \<Rightarrow> node list" where
  "schedule_levels d n = (case find_named ''schedules'' ''schedule'' n d of
     None \<Rightarrow> [] | Some k \<Rightarrow> children_named ''level'' d k)"

definition retry_plan :: "env \<Rightarrow> document \<Rightarrow> node \<Rightarrow> int list" where
  "retry_plan E d task =
     (case getNamedItem d task ''retry_schedule'' of
        None \<Rightarrow> level_delays E d task
      | Some n \<Rightarrow>
          (let l = nat (the (present_level E d task)) in
           (if l = 0 then [] else level_delays E d task) @
           concat (List.map (level_delays E d) (drop l (schedule_levels d n)))))"

text \<open>
  What is assumed of the task: numbers that parse, delays that are not zero, levels that retry at
  least once, no restriction to an exit code. \<open>reads_numbers\<close> is the documented behaviour of
  \<open>XMLString::parseInt\<close> on the numbers the program prints.
\<close>

definition reads_numbers :: "env \<Rightarrow> bool" where
  "reads_numbers E \<longleftrightarrow> (\<forall>i. - (2 ^ 31) \<le> i \<and> i < 2 ^ 31 \<longrightarrow> e_parse_int E (show_int i) = Some i)"

definition level_ok :: "env \<Rightarrow> document \<Rightarrow> int \<Rightarrow> node \<Rightarrow> bool" where
  "level_ok E d least k \<longleftrightarrow> (\<exists>a b delay n.
     getNamedItem d k ''retry_delay'' = Some a \<and> getNamedItem d k ''retry_times'' = Some b \<and>
     e_parse_int E a = Some delay \<and> e_parse_int E b = Some n \<and> delay \<noteq> 0 \<and> least \<le> n \<and> n < 2 ^ 31)"

definition retry_ready :: "env \<Rightarrow> node \<Rightarrow> wf_instance \<Rightarrow> bool" where
  "retry_ready E task s \<longleftrightarrow> (let d = xmldoc s in
     getNamedItem d task ''retry_retval'' = None \<and>
     (case getNamedItem d task ''retry_schedule'' of
        None \<Rightarrow> present_level E d task \<noteq> None \<and> level_ok E d 0 task
      | Some n \<Rightarrow>
          quotable_name 227 n \<and> find_named ''schedules'' ''schedule'' n d \<noteq> None \<and>
          list_all (level_ok E d 1) (schedule_levels d n) \<and> task \<notin> set (schedule_levels d n) \<and>
          (\<exists>l. present_level E d task = Some (int l) \<and> l \<le> length (schedule_levels d n) \<and>
             (l = 0 \<or> level_ok E d 0 task)) \<and> length (schedule_levels d n) < 2 ^ 31 - 1))"

section \<open>One failure\<close>

lemma find_named_setAttribute [simp]:
  "a \<noteq> ''name'' \<Longrightarrow> find_named t u n (setAttribute k a v d) = find_named t u n d"
  by (simp add: find_named_def)

lemma schedule_levels_setAttribute [simp]:
  "a \<noteq> ''name'' \<Longrightarrow> schedule_levels (setAttribute k a v d) n = schedule_levels d n"
  by (simp add: schedule_levels_def split: option.splits)

lemma level_delays_cong:
  "getNamedItem d' k ''retry_delay'' = getNamedItem d k ''retry_delay'' \<Longrightarrow>
   getNamedItem d' k ''retry_times'' = getNamedItem d k ''retry_times'' \<Longrightarrow>
   level_delays E d' k = level_delays E d k \<and> level_ok E d' m k = level_ok E d m k"
  by (simp add: level_delays_def level_ok_def)

text \<open>What the attributes of the task are after the update, in terms of those before.\<close>

definition marks :: "document \<Rightarrow> node \<Rightarrow> string option \<times> string option \<times> string option \<times> string option \<times> string option" where
  "marks d task = (getNamedItem d task ''retry_schedule'', getNamedItem d task ''retry_schedule_level'',
     getNamedItem d task ''retry_delay'', getNamedItem d task ''retry_times'', getNamedItem d task ''retry_retval'')"

text \<open>Edits of the task alone, which leave the schedules as they are.\<close>

definition edits :: "node \<Rightarrow> document \<Rightarrow> document \<Rightarrow> bool" where
  "edits task d d' \<longleftrightarrow> (\<forall>k a. k \<noteq> task \<longrightarrow> getNamedItem d' k a = getNamedItem d k a) \<and>
     (\<forall>n. find_named ''schedules'' ''schedule'' n d' = find_named ''schedules'' ''schedule'' n d) \<and>
     schedule_levels d' = schedule_levels d"

lemma edits_setAttribute: "a \<noteq> ''name'' \<Longrightarrow> edits task d (setAttribute task a v d)"
  by (simp add: edits_def fun_eq_iff)

lemma edits_refl: "edits task d d"
  by (simp add: edits_def)

lemma edits_trans: "edits task d e \<Longrightarrow> edits task e f \<Longrightarrow> edits task d f"
  by (simp add: edits_def)

lemma edits_level: "edits task d d' \<Longrightarrow> k \<noteq> task \<Longrightarrow>
    level_delays E d' k = level_delays E d k \<and> level_ok E d' m k = level_ok E d m k"
  by (rule level_delays_cong) (simp_all add: edits_def)

lemma edits_levels:
  assumes "edits task d d'" and "task \<notin> set ks"
  shows "List.map (level_delays E d') ks = List.map (level_delays E d) ks"
    and "list_all (level_ok E d' m) ks = list_all (level_ok E d m) ks"
proof -
  have eq: "level_delays E d' k = level_delays E d k \<and> level_ok E d' m k = level_ok E d m k"
    if "k \<in> set ks" for k
    using that assms by (intro edits_level) auto
  then show "List.map (level_delays E d') ks = List.map (level_delays E d) ks"
    "list_all (level_ok E d' m) ks = list_all (level_ok E d m) ks"
    by (simp_all add: list_all_iff)
qed

lemma level_okE:
  assumes "level_ok E d m k"
  obtains a b x n where "getNamedItem d k ''retry_delay'' = Some a" "getNamedItem d k ''retry_times'' = Some b"
    "e_parse_int E a = Some x" "e_parse_int E b = Some n" "x \<noteq> 0" "m \<le> n" "n < 2 ^ 31"
    "level_delays E d k = replicate (nat n) x"
  using assms unfolding level_ok_def level_delays_def by fastforce

text \<open>The two outcomes of \<open>schedule_update\<close>: the next level, or none.\<close>

lemma schedule_update_end:
  assumes "quotable_name 227 name" and "find_named ''schedules'' ''schedule'' name (xmldoc s) \<noteq> None"
    and "present_level E (xmldoc s) task = Some l" and "int (length (schedule_levels (xmldoc s) name)) \<le> l"
  shows "schedule_update E task name info s =
    Some ((Some 0, Some 0), put task ''retry_schedule_level'' (show_int (l + 1)) s)"
  using assms unfolding schedule_update_def present_level_def schedule_levels_def
  by (auto simp: Let_def)

definition take_level :: "node \<Rightarrow> int \<Rightarrow> string \<Rightarrow> string \<Rightarrow> wf_instance \<Rightarrow> wf_instance" where
  "take_level task l a b s = put task ''retry_times'' b (put task ''retry_delay'' a
     (put task ''retry_schedule_level'' (show_int l) s))"

lemma schedule_update_next:
  assumes "quotable_name 227 name" and "find_named ''schedules'' ''schedule'' name (xmldoc s) \<noteq> None"
    and "present_level E (xmldoc s) task = Some (int l)"
    and "l < length (schedule_levels (xmldoc s) name)" and "schedule_levels (xmldoc s) name ! l \<noteq> task"
    and "getNamedItem (xmldoc s) (schedule_levels (xmldoc s) name ! l) ''retry_delay'' = Some a"
    and "getNamedItem (xmldoc s) (schedule_levels (xmldoc s) name ! l) ''retry_times'' = Some b"
    and "e_parse_int E a = Some x" and "e_parse_int E b = Some n"
  shows "schedule_update E task name info s = Some ((Some x, Some n), take_level task (int l + 1) a b s)"
  using assms unfolding schedule_update_def present_level_def schedule_levels_def take_level_def
  by (auto simp: Let_def getAttribute_named nat_add_distrib)

lemma retry_task_scheduled:
  assumes "retry_begin E task s = Some (Some info, t)"
    and "retry_next_level E task info t = Some ((Some x, Some n), u)" and "x \<noteq> 0" and "n \<noteq> 0"
    and "getNamedItem (xmldoc u) task ''retry_retval'' = None"
  shows "retry_task E task s = Some (schedule_retry E task x n u)"
  using assms unfolding retry_task_def retval_excluded_def by simp

lemma retry_task_given_up:
  assumes "retry_begin E task s = Some (Some info, t)"
    and "retry_next_level E task info t = Some ((Some x, Some n), u)" and "x = 0 \<or> n = 0"
  shows "retry_task E task s = Some (count_error u)"
  using assms unfolding retry_task_def by simp

text \<open>The state a retry leaves: one use of the level is gone.\<close>

lemma schedule_retry_state:
  assumes "reads_numbers E" and "1 \<le> n" and "n < 2 ^ 31"
  shows "getNamedItem (xmldoc (schedule_retry E task x n s)) task ''retry_times'' = Some (show_int (n - 1))"
    and "e_parse_int E (show_int (n - 1)) = Some (n - 1)"
    and "a \<notin> {''retry_times'', ''retry_at''} \<Longrightarrow>
      getNamedItem (xmldoc (schedule_retry E task x n s)) task a = getNamedItem (xmldoc s) task a"
    and "edits task (xmldoc s) (xmldoc (schedule_retry E task x n s))"
    and "new_calls s (schedule_retry E task x n s) = [Call_Retry task (e_now E + x)]"
    and "error_tasks (schedule_retry E task x n s) = error_tasks s"
proof -
  show "e_parse_int E (show_int (n - 1)) = Some (n - 1)"
    using assms by (simp add: reads_numbers_def)
  have "edits task (xmldoc s) (setAttribute task ''retry_times'' v (setAttribute task ''retry_at'' w (xmldoc s)))" for v w
    by (rule edits_trans [OF edits_setAttribute edits_setAttribute]) simp_all
  then show "edits task (xmldoc s) (xmldoc (schedule_retry E task x n s))"
    by (simp add: schedule_retry_def Let_def)
qed (auto simp: schedule_retry_def Let_def new_calls_def)

definition gives_up :: "env \<Rightarrow> node \<Rightarrow> wf_instance \<Rightarrow> bool" where
  "gives_up E task s \<longleftrightarrow> (\<exists>s'. retry_task E task s = Some s' \<and> new_calls s s' = [] \<and>
     error_tasks s' = error_tasks s + 1)"

definition retries_with :: "env \<Rightarrow> node \<Rightarrow> wf_instance \<Rightarrow> int \<Rightarrow> int list \<Rightarrow> bool" where
  "retries_with E task s x xs \<longleftrightarrow> (\<exists>s'. retry_task E task s = Some s' \<and>
     new_calls s s' = [Call_Retry task (e_now E + x)] \<and> error_tasks s' = error_tasks s \<and>
     retry_ready E task s' \<and> retry_plan E (xmldoc s') task = xs)"

definition retry_stepped :: "env \<Rightarrow> node \<Rightarrow> wf_instance \<Rightarrow> bool" where
  "retry_stepped E task s \<longleftrightarrow>
     (case retry_plan E (xmldoc s) task of [] \<Rightarrow> gives_up E task s | x # xs \<Rightarrow> retries_with E task s x xs)"

lemma level_delays_value:
  "getNamedItem d k ''retry_delay'' = Some a \<Longrightarrow> getNamedItem d k ''retry_times'' = Some b \<Longrightarrow>
   e_parse_int E a = Some x \<Longrightarrow> e_parse_int E b = Some n \<Longrightarrow> level_delays E d k = replicate (nat n) x"
  by (simp add: level_delays_def)

lemma replicate_pos: "1 \<le> n \<Longrightarrow> replicate (nat n) x = x # replicate (nat (n - 1)) x"
  by (cases "nat n") (auto simp: nat_diff_distrib)

text \<open>A task without a schedule.\<close>

lemma step_unscheduled:
  assumes rn: "reads_numbers E" and ready: "retry_ready E task s"
    and none: "getNamedItem (xmldoc s) task ''retry_schedule'' = None"
  shows "retry_stepped E task s"
proof -
  let ?d = "xmldoc s"
  obtain l where l: "present_level E ?d task = Some l" and ok: "level_ok E ?d 0 task"
    and retval: "getNamedItem ?d task ''retry_retval'' = None"
    using ready none unfolding retry_ready_def by (auto simp: Let_def)
  from ok obtain a b x n where ab: "getNamedItem ?d task ''retry_delay'' = Some a"
    "getNamedItem ?d task ''retry_times'' = Some b" "e_parse_int E a = Some x" "e_parse_int E b = Some n"
    "x \<noteq> 0" "0 \<le> n" "n < 2 ^ 31" and plan: "level_delays E ?d task = replicate (nat n) x" by (rule level_okE)
  have bg: "retry_begin E task s = Some (Some (Some x, Some n), s)"
    using l none ab unfolding retry_begin_def retry_attributes_def present_level_def
    by (auto split: option.splits)
  have nx: "retry_next_level E task (Some x, Some n) s = Some ((Some x, Some n), s)"
    using none by (simp add: retry_next_level_def)
  have rp: "retry_plan E ?d task = replicate (nat n) x" using none plan by (simp add: retry_plan_def)
  show ?thesis
  proof (cases "n = 0")
    case True
    then have "gives_up E task s"
      using retry_task_given_up [OF bg nx] by (simp add: gives_up_def new_calls_def)
    with rp True show ?thesis by (simp add: retry_stepped_def)
  next
    case False
    with ab have n: "1 \<le> n" "n < 2 ^ 31" by simp_all
    let ?s = "schedule_retry E task x n s"
    note st = schedule_retry_state [OF rn n]
    have go: "retry_task E task s = Some ?s"
      by (rule retry_task_scheduled [OF bg nx ab(5) False retval])
    have attr: "getNamedItem (xmldoc ?s) task ''retry_delay'' = Some a"
      "getNamedItem (xmldoc ?s) task ''retry_schedule'' = None"
      "getNamedItem (xmldoc ?s) task ''retry_retval'' = None"
      "present_level E (xmldoc ?s) task = Some l"
      using st(3) ab none retval l by (simp_all add: present_level_def)
    have "level_ok E (xmldoc ?s) 0 task"
      unfolding level_ok_def using attr(1) st(1,2) ab n by fastforce
    with attr have "retry_ready E task ?s" by (simp add: retry_ready_def Let_def)
    moreover have "retry_plan E (xmldoc ?s) task = replicate (nat (n - 1)) x"
      using attr level_delays_value [OF attr(1) st(1) ab(3) st(2)] by (simp add: retry_plan_def)
    ultimately have "retries_with E task s x (replicate (nat (n - 1)) x)"
      unfolding retries_with_def using go st(5,6) by blast
    then show ?thesis unfolding retry_stepped_def rp replicate_pos [OF n(1)] by simp
  qed
qed

text \<open>
  A task with a schedule: all cases come down to using level \<open>l\<close> of it, in a state \<open>u\<close> whose
  attributes already are those of that level.
\<close>

lemma use_level:
  assumes rn: "reads_numbers E" and ready: "retry_ready E task s"
    and name: "getNamedItem (xmldoc s) task ''retry_schedule'' = Some name"
    and ed: "edits task (xmldoc s) (xmldoc u)"
    and kept: "getNamedItem (xmldoc u) task ''retry_schedule'' = Some name"
      "getNamedItem (xmldoc u) task ''retry_retval'' = None"
    and level: "present_level E (xmldoc u) task = Some (int l)" "1 \<le> l"
      "l \<le> length (schedule_levels (xmldoc s) name)"
    and delay: "getNamedItem (xmldoc u) task ''retry_delay'' = Some a" "e_parse_int E a = Some x" "x \<noteq> 0"
    and n: "1 \<le> n" "n < 2 ^ 31"
    and bg: "retry_begin E task s = Some (Some info, t)"
    and nx: "retry_next_level E task info t = Some ((Some x, Some n), u)"
    and quiet: "calls u = calls s" "error_tasks u = error_tasks s"
  shows "retries_with E task s x (replicate (nat (n - 1)) x @
    concat (List.map (level_delays E (xmldoc s)) (drop l (schedule_levels (xmldoc s) name))))"
proof -
  let ?s = "schedule_retry E task x n u"
  let ?levels = "schedule_levels (xmldoc s) name"
  note st = schedule_retry_state [OF rn n]
  have go: "retry_task E task s = Some ?s"
    by (rule retry_task_scheduled [OF bg nx delay(3) _ kept(2)]) (use n in simp)
  have ed': "edits task (xmldoc s) (xmldoc ?s)" by (rule edits_trans [OF ed st(4)])
  have attr: "getNamedItem (xmldoc ?s) task ''retry_delay'' = Some a"
    "getNamedItem (xmldoc ?s) task ''retry_schedule'' = Some name"
    "getNamedItem (xmldoc ?s) task ''retry_retval'' = None"
    "present_level E (xmldoc ?s) task = Some (int l)"
    using st(3) delay kept level(1) by (simp_all add: present_level_def)
  have levels: "schedule_levels (xmldoc ?s) = schedule_levels (xmldoc s)"
    "find_named ''schedules'' ''schedule'' name (xmldoc ?s) = find_named ''schedules'' ''schedule'' name (xmldoc s)"
    using ed' by (simp_all add: edits_def)
  have fixed: "quotable_name 227 name" "find_named ''schedules'' ''schedule'' name (xmldoc s) \<noteq> None"
    "list_all (level_ok E (xmldoc s) 1) ?levels" "task \<notin> set ?levels" "length ?levels < 2 ^ 31 - 1"
    using ready name by (simp_all add: retry_ready_def Let_def)
  have "level_ok E (xmldoc ?s) 0 task"
    unfolding level_ok_def using attr(1) st(1,2) delay n by fastforce
  with attr levels fixed level edits_levels(2) [OF ed' fixed(4)]
  have ready': "retry_ready E task ?s" by (auto simp: retry_ready_def Let_def)
  have "task \<notin> set (drop l ?levels)" using fixed(4) by (meson in_set_dropD)
  note same = edits_levels(1) [OF ed' this]
  have "retry_plan E (xmldoc ?s) task = level_delays E (xmldoc ?s) task @
      concat (List.map (level_delays E (xmldoc ?s)) (drop l ?levels))"
    using attr(2,4) level(2) levels(1) by (simp add: retry_plan_def Let_def)
  then have plan': "retry_plan E (xmldoc ?s) task = replicate (nat (n - 1)) x @
      concat (List.map (level_delays E (xmldoc s)) (drop l ?levels))"
    unfolding same level_delays_value [OF attr(1) st(1) delay(2) st(2)] .
  have "new_calls s ?s = [Call_Retry task (e_now E + x)]"
    using st(5) [of u task x] quiet(1) by (simp add: new_calls_def)
  with ready' plan' go st(6) quiet(2) show ?thesis unfolding retries_with_def by auto
qed

lemma concat_levels:
  "l < length ks \<Longrightarrow> concat (List.map f (drop l ks)) = f (ks ! l) @ concat (List.map f (drop (l + 1) ks))"
  by (simp add: Cons_nth_drop_Suc [symmetric])

lemma take_level_state:
  "xmldoc (take_level task i a b s) = setAttribute task ''retry_times'' b (setAttribute task ''retry_delay'' a
     (setAttribute task ''retry_schedule_level'' (show_int i) (xmldoc s)))"
  "calls (take_level task i a b s) = calls s" "error_tasks (take_level task i a b s) = error_tasks s"
  "edits task (xmldoc s) (xmldoc (take_level task i a b s))"
proof -
  show doc: "xmldoc (take_level task i a b s) = setAttribute task ''retry_times'' b (setAttribute task ''retry_delay'' a
     (setAttribute task ''retry_schedule_level'' (show_int i) (xmldoc s)))"
    by (simp add: take_level_def)
  show "edits task (xmldoc s) (xmldoc (take_level task i a b s))"
    unfolding doc
    by (rule edits_trans [OF edits_trans [OF edits_setAttribute edits_setAttribute] edits_setAttribute]) simp_all
qed (simp_all add: take_level_def)

text \<open>Going on to level \<open>l\<close>, counted from 0, from a state in which it is the next one.\<close>

lemma next_level:
  assumes rn: "reads_numbers E" and ready: "retry_ready E task s"
    and name: "getNamedItem (xmldoc s) task ''retry_schedule'' = Some name"
    and level: "present_level E (xmldoc s) task = Some (int l)" "l < length (schedule_levels (xmldoc s) name)"
  obtains x n u where "\<And>info. schedule_update E task name info s = Some ((Some x, Some n), u)" and "1 \<le> n"
    and "(\<And>info t. retry_begin E task s = Some (Some info, t) \<Longrightarrow>
        retry_next_level E task info t = Some ((Some x, Some n), u) \<Longrightarrow>
        retries_with E task s x (replicate (nat (n - 1)) x @
          concat (List.map (level_delays E (xmldoc s)) (drop (l + 1) (schedule_levels (xmldoc s) name)))))"
    and "level_delays E (xmldoc s) (schedule_levels (xmldoc s) name ! l) = x # replicate (nat (n - 1)) x"
    and "getNamedItem (xmldoc u) task ''retry_schedule'' = Some name"
proof -
  let ?levels = "schedule_levels (xmldoc s) name"
  let ?k = "?levels ! l"
  have fixed: "quotable_name 227 name" "find_named ''schedules'' ''schedule'' name (xmldoc s) \<noteq> None"
    "list_all (level_ok E (xmldoc s) 1) ?levels" "task \<notin> set ?levels" "length ?levels < 2 ^ 31 - 1"
    "getNamedItem (xmldoc s) task ''retry_retval'' = None"
    using ready name by (simp_all add: retry_ready_def Let_def)
  have "?k \<in> set ?levels" using level(2) by simp
  then have k: "level_ok E (xmldoc s) 1 ?k" "?k \<noteq> task"
    using fixed(3,4) by (auto simp: list_all_iff)
  from k(1) obtain a b x n where ab: "getNamedItem (xmldoc s) ?k ''retry_delay'' = Some a"
    "getNamedItem (xmldoc s) ?k ''retry_times'' = Some b" "e_parse_int E a = Some x" "e_parse_int E b = Some n"
    "x \<noteq> 0" "1 \<le> n" "n < 2 ^ 31" and plan: "level_delays E (xmldoc s) ?k = replicate (nat n) x"
    by (rule level_okE)
  let ?u = "take_level task (int l + 1) a b s"
  have "e_parse_int E (show_int (int l + 1)) = Some (int (l + 1))"
    using rn level(2) fixed(5) unfolding reads_numbers_def by auto
  then have pl: "present_level E (xmldoc ?u) task = Some (int (l + 1))"
    by (simp add: present_level_def take_level_state(1))
  have attr: "getNamedItem (xmldoc ?u) task ''retry_schedule'' = Some name"
    "getNamedItem (xmldoc ?u) task ''retry_retval'' = None" "getNamedItem (xmldoc ?u) task ''retry_delay'' = Some a"
    using name fixed(6) by (simp_all add: take_level_state(1))
  show ?thesis
  proof (rule that)
    show "schedule_update E task name info s = Some ((Some x, Some n), ?u)" for info
      by (rule schedule_update_next [OF fixed(1,2) level k(2) ab(1,2,3,4)])
    show "retries_with E task s x (replicate (nat (n - 1)) x @
        concat (List.map (level_delays E (xmldoc s)) (drop (l + 1) ?levels)))"
      if "retry_begin E task s = Some (Some info, t)" "retry_next_level E task info t = Some ((Some x, Some n), ?u)"
      for info t
      by (rule use_level [OF rn ready name take_level_state(4) attr(1,2) pl _ _ attr(3) ab(3,5,6,7) that])
        (use level(2) in \<open>simp_all add: take_level_state\<close>)
    show "level_delays E (xmldoc s) ?k = x # replicate (nat (n - 1)) x"
      using plan replicate_pos [OF ab(6)] by simp
  qed (fact ab(6), fact attr(1))
qed

text \<open>The end of the schedule.\<close>

lemma last_level:
  assumes ready: "retry_ready E task s"
    and name: "getNamedItem (xmldoc s) task ''retry_schedule'' = Some name"
    and level: "present_level E (xmldoc s) task = Some (int (length (schedule_levels (xmldoc s) name)))"
    and start: "retry_begin E task s = Some (Some (Some x, Some 0), s)"
  shows "gives_up E task s"
proof -
  have fixed: "quotable_name 227 name" "find_named ''schedules'' ''schedule'' name (xmldoc s) \<noteq> None"
    using ready name by (simp_all add: retry_ready_def Let_def)
  have "retry_next_level E task (Some x, Some 0) s = Some ((Some 0, Some 0), put task ''retry_schedule_level''
      (show_int (int (length (schedule_levels (xmldoc s) name)) + 1)) s)"
    using name schedule_update_end [OF fixed level] by (simp add: retry_next_level_def)
  from retry_task_given_up [OF start this] show ?thesis
    by (simp add: gives_up_def new_calls_def)
qed

lemma step_scheduled:
  assumes rn: "reads_numbers E" and ready: "retry_ready E task s"
    and name: "getNamedItem (xmldoc s) task ''retry_schedule'' = Some name"
  shows "retry_stepped E task s"
proof -
  let ?levels = "schedule_levels (xmldoc s) name"
  let ?rest = "\<lambda>l. concat (List.map (level_delays E (xmldoc s)) (drop l ?levels))"
  obtain l where level: "present_level E (xmldoc s) task = Some (int l)" and l: "l \<le> length ?levels"
    and own: "l = 0 \<or> level_ok E (xmldoc s) 0 task"
    and fixed: "quotable_name 227 name" "find_named ''schedules'' ''schedule'' name (xmldoc s) \<noteq> None"
      "getNamedItem (xmldoc s) task ''retry_retval'' = None"
    using ready name by (auto simp: retry_ready_def Let_def)
  have plan: "retry_plan E (xmldoc s) task = (if l = 0 then [] else level_delays E (xmldoc s) task) @ ?rest l"
    using name level by (simp add: retry_plan_def Let_def)
  show ?thesis
  proof (cases "l = 0")
    case True
    have start: "retry_begin E task s = map_option (\<lambda>(info, s). (Some info, s)) (schedule_update E task name (None, None) s)"
      using name level True unfolding retry_begin_def present_level_def by simp
    show ?thesis
    proof (cases "?levels = []")
      case True
      let ?s = "put task ''retry_schedule_level'' (show_int 1) s"
      have "retry_begin E task s = Some (Some (Some 0, Some 0), ?s)"
        using start schedule_update_end [OF fixed(1,2) level] True \<open>l = 0\<close> by simp
      moreover have "present_level E (xmldoc ?s) task = Some 1"
        using rn by (simp add: present_level_def reads_numbers_def)
      then have "retry_next_level E task (Some 0, Some 0) ?s =
          Some ((Some 0, Some 0), put task ''retry_schedule_level'' (show_int (1 + 1)) ?s)"
        using schedule_update_end [of name ?s E task 1] fixed name True by (simp add: retry_next_level_def)
      ultimately have "gives_up E task s"
        using retry_task_given_up by (simp add: gives_up_def new_calls_def)
      with plan True \<open>l = 0\<close> show ?thesis by (simp add: retry_stepped_def)
    next
      case False
      then have "0 < length ?levels" by simp
      from next_level [OF rn ready name level [unfolded True] this] obtain x n u where
        u: "\<And>info. schedule_update E task name info s = Some ((Some x, Some n), u)" and n: "1 \<le> n"
        and go: "\<And>info t. retry_begin E task s = Some (Some info, t) \<Longrightarrow>
          retry_next_level E task info t = Some ((Some x, Some n), u) \<Longrightarrow>
          retries_with E task s x (replicate (nat (n - 1)) x @ ?rest (0 + 1))"
        and first: "level_delays E (xmldoc s) (?levels ! 0) = x # replicate (nat (n - 1)) x"
        and kept: "getNamedItem (xmldoc u) task ''retry_schedule'' = Some name" by metis
      have "retry_next_level E task (Some x, Some n) u = Some ((Some x, Some n), u)"
        using kept n by (simp add: retry_next_level_def)
      with go [of "(Some x, Some n)" u] start u
      have "retries_with E task s x (replicate (nat (n - 1)) x @ ?rest (0 + 1))" by simp
      with plan True concat_levels [OF \<open>0 < length ?levels\<close>, of "level_delays E (xmldoc s)"] first
      show ?thesis by (simp add: retry_stepped_def)
    qed
  next
    case False
    with own have "level_ok E (xmldoc s) 0 task" by simp
    then obtain a b x n where ab: "getNamedItem (xmldoc s) task ''retry_delay'' = Some a"
      "getNamedItem (xmldoc s) task ''retry_times'' = Some b" "e_parse_int E a = Some x" "e_parse_int E b = Some n"
      "x \<noteq> 0" "0 \<le> n" "n < 2 ^ 31" and mine: "level_delays E (xmldoc s) task = replicate (nat n) x"
      by (rule level_okE)
    have start: "retry_begin E task s = Some (Some (Some x, Some n), s)"
      using name level False ab unfolding retry_begin_def retry_attributes_def present_level_def by simp
    show ?thesis
    proof (cases "n = 0")
      case False
      with ab have n: "1 \<le> n" "n < 2 ^ 31" by simp_all
      have "retry_next_level E task (Some x, Some n) s = Some ((Some x, Some n), s)"
        using name False by (simp add: retry_next_level_def)
      from use_level [OF rn ready name edits_refl name fixed(3) level _ l ab(1,3,5) n start this] \<open>l \<noteq> 0\<close>
      have "retries_with E task s x (replicate (nat (n - 1)) x @ ?rest l)" by simp
      with plan \<open>l \<noteq> 0\<close> mine replicate_pos [OF n(1), of x] show ?thesis by (simp add: retry_stepped_def)
    next
      case True
      show ?thesis
      proof (cases "l < length ?levels")
        case True
        from next_level [OF rn ready name level this] obtain y m u where
          u: "\<And>info. schedule_update E task name info s = Some ((Some y, Some m), u)"
          and go: "\<And>info t. retry_begin E task s = Some (Some info, t) \<Longrightarrow>
            retry_next_level E task info t = Some ((Some y, Some m), u) \<Longrightarrow>
            retries_with E task s y (replicate (nat (m - 1)) y @ ?rest (l + 1))"
          and first: "level_delays E (xmldoc s) (?levels ! l) = y # replicate (nat (m - 1)) y" by metis
        have "retry_next_level E task (Some x, Some n) s = Some ((Some y, Some m), u)"
          using name u \<open>n = 0\<close> by (simp add: retry_next_level_def)
        from go [OF start this] plan \<open>l \<noteq> 0\<close> \<open>n = 0\<close> mine first
          concat_levels [OF True, of "level_delays E (xmldoc s)"]
        show ?thesis by (simp add: retry_stepped_def)
      next
        case False
        with l level have "present_level E (xmldoc s) task = Some (int (length ?levels))" by simp
        from last_level [OF ready name this] start \<open>n = 0\<close> have "gives_up E task s" by simp
        with plan \<open>l \<noteq> 0\<close> \<open>n = 0\<close> mine l False show ?thesis by (simp add: retry_stepped_def)
      qed
    qed
  qed
qed

lemma retry_step: "reads_numbers E \<Longrightarrow> retry_ready E task s \<Longrightarrow> retry_stepped E task s"
  using step_unscheduled step_scheduled by (cases "getNamedItem (xmldoc s) task ''retry_schedule''") blast+

section \<open>All failures of a task\<close>

text \<open>The failures at the times \<open>ts\<close>, one after the other.\<close>

fun retry_all :: "env \<Rightarrow> node \<Rightarrow> int list \<Rightarrow> wf_instance \<Rightarrow> wf_instance option" where
  "retry_all E task [] s = Some s"
| "retry_all E task (t # ts) s = Option.bind (retry_task (E\<lparr>e_now := t\<rparr>) task s) (retry_all E task ts)"

lemma clock_irrelevant [simp]:
  "reads_numbers (E\<lparr>e_now := t\<rparr>) = reads_numbers E"
  "retry_ready (E\<lparr>e_now := t\<rparr>) task s = retry_ready E task s"
  "retry_plan (E\<lparr>e_now := t\<rparr>) d task = retry_plan E d task"
proof -
  have same: "level_delays (E\<lparr>e_now := t\<rparr>) = level_delays E" "level_ok (E\<lparr>e_now := t\<rparr>) = level_ok E"
    "present_level (E\<lparr>e_now := t\<rparr>) = present_level E"
    by (simp_all add: fun_eq_iff level_delays_def level_ok_def present_level_def split: option.splits)
  show "reads_numbers (E\<lparr>e_now := t\<rparr>) = reads_numbers E" by (simp add: reads_numbers_def)
  show "retry_ready (E\<lparr>e_now := t\<rparr>) task s = retry_ready E task s" unfolding retry_ready_def same ..
  show "retry_plan (E\<lparr>e_now := t\<rparr>) d task = retry_plan E d task" unfolding retry_plan_def same ..
qed

lemma retry_all_plan:
  assumes "reads_numbers E"
  shows "retry_ready E task s \<Longrightarrow> length ts \<le> length (retry_plan E (xmldoc s) task) \<Longrightarrow>
    \<exists>s'. retry_all E task ts s = Some s' \<and> error_tasks s' = error_tasks s \<and>
      calls s' = calls s @ List.map2 (\<lambda>t d. Call_Retry task (t + d)) ts (retry_plan E (xmldoc s) task) \<and>
      retry_ready E task s' \<and> retry_plan E (xmldoc s') task = drop (length ts) (retry_plan E (xmldoc s) task)"
proof (induction ts arbitrary: s)
  case Nil
  then show ?case by simp
next
  case (Cons t ts)
  then obtain x xs where plan: "retry_plan E (xmldoc s) task = x # xs"
    by (cases "retry_plan E (xmldoc s) task") auto
  have "retry_stepped (E\<lparr>e_now := t\<rparr>) task s" using assms Cons.prems by (intro retry_step) simp_all
  with plan obtain u where u: "retry_task (E\<lparr>e_now := t\<rparr>) task s = Some u"
    "new_calls s u = [Call_Retry task (t + x)]" "error_tasks u = error_tasks s"
    "retry_ready E task u" "retry_plan E (xmldoc u) task = xs"
    unfolding retry_stepped_def retries_with_def by auto
  obtain cs where "calls u = calls s @ cs"
    using retry_task_retries [OF u(1)] by (auto simp: retries_only_def accounts_def)
  with u(2) have "calls u = calls s @ [Call_Retry task (t + x)]" by (simp add: new_calls_def)
  with Cons.IH [OF u(4)] Cons.prems plan u show ?case by auto
qed

text \<open>
  C12. The retries of a failing task follow its schedule: the failures at the times \<open>ts\<close> schedule
  retries after exactly the delays of the reference list, in order, without counting an error; when
  the list is used up, the next failure, whenever it comes, schedules nothing and counts one.
\<close>

theorem retries_follow_schedule:
  assumes "reads_numbers E" and "retry_ready E task s" and "length ts \<le> length (retry_plan E (xmldoc s) task)"
  shows "\<exists>s'. retry_all E task ts s = Some s' \<and> error_tasks s' = error_tasks s \<and>
      calls s' = calls s @ List.map2 (\<lambda>t d. Call_Retry task (t + d)) ts (retry_plan E (xmldoc s) task) \<and>
      (if length ts = length (retry_plan E (xmldoc s) task)
       then gives_up (E\<lparr>e_now := t\<rparr>) task s' else \<not> gives_up (E\<lparr>e_now := t\<rparr>) task s')"
proof -
  from retry_all_plan [OF assms(1,2,3)] obtain s' where s': "retry_all E task ts s = Some s'"
    "error_tasks s' = error_tasks s"
    "calls s' = calls s @ List.map2 (\<lambda>t d. Call_Retry task (t + d)) ts (retry_plan E (xmldoc s) task)"
    "retry_ready E task s'" "retry_plan E (xmldoc s') task = drop (length ts) (retry_plan E (xmldoc s) task)"
    by blast
  have "retry_stepped (E\<lparr>e_now := t\<rparr>) task s'" using assms(1) s'(4) by (intro retry_step) simp_all
  with s'(5) assms(3) have "if length ts = length (retry_plan E (xmldoc s) task)
      then gives_up (E\<lparr>e_now := t\<rparr>) task s' else \<not> gives_up (E\<lparr>e_now := t\<rparr>) task s'"
    by (cases "drop (length ts) (retry_plan E (xmldoc s) task)")
      (auto simp: retry_stepped_def retries_with_def gives_up_def)
  with s' show ?thesis by blast
qed

text \<open>A schedule of one retry after 5 seconds and two after 60.\<close>

definition retry_document :: document where
  "retry_document = document_of
     [node_of ''workflow'' [] [1, 5] None, node_of ''schedules'' [] [2] (Some 0),
      node_of ''schedule'' [(''name'', ''r'')] [3, 4] (Some 1),
      node_of ''level'' [(''retry_delay'', ''5''), (''retry_times'', ''1'')] [] (Some 2),
      node_of ''level'' [(''retry_delay'', ''60''), (''retry_times'', ''2'')] [] (Some 2),
      node_of ''task'' [(''name'', ''t''), (''retry_schedule'', ''r'')] [] (Some 0)]"

definition retry_instance :: wf_instance where
  "retry_instance = blank\<lparr>xmldoc := retry_document\<rparr>"

lemma demo_reads_numbers: "reads_numbers demo_env"
  by (simp add: reads_numbers_def demo_env_def parse_show)

lemma retry_document_plan:
  "retry_plan demo_env retry_document 5 = [5, 60, 60]" "schedule_levels retry_document ''r'' = [3, 4]"
  "find_named ''schedules'' ''schedule'' ''r'' retry_document = Some 2"
  "getNamedItem retry_document 5 ''retry_retval'' = None" "getNamedItem retry_document 5 ''retry_schedule'' = Some ''r''"
  "quotable_name 227 ''r''" "present_level demo_env retry_document 5 = Some 0"
  by code_simp+

lemma retry_document_levels: "list_all (level_ok demo_env retry_document 1) [3, 4]"
proof -
  have "map_option (\<lambda>a. e_parse_int demo_env a) (getNamedItem retry_document 3 ''retry_delay'') = Some (Some 5)"
    "map_option (\<lambda>a. e_parse_int demo_env a) (getNamedItem retry_document 3 ''retry_times'') = Some (Some 1)"
    "map_option (\<lambda>a. e_parse_int demo_env a) (getNamedItem retry_document 4 ''retry_delay'') = Some (Some 60)"
    "map_option (\<lambda>a. e_parse_int demo_env a) (getNamedItem retry_document 4 ''retry_times'') = Some (Some 2)"
    by code_simp+
  then show ?thesis by (auto simp: level_ok_def)
qed

theorem retries_follow_schedule_witness:
  "\<exists>s'. retry_all demo_env 5 [100, 200, 300] retry_instance = Some s' \<and>
     calls s' = [Call_Retry 5 105, Call_Retry 5 260, Call_Retry 5 360] \<and>
     gives_up (demo_env\<lparr>e_now := 400\<rparr>) 5 s'"
proof -
  have doc: "xmldoc retry_instance = retry_document" "calls retry_instance = []"
    by (simp_all add: retry_instance_def blank_def)
  have "retry_ready demo_env 5 retry_instance"
    using retry_document_levels by (simp add: retry_ready_def Let_def doc retry_document_plan)
  from retries_follow_schedule [OF demo_reads_numbers this, of "[100, 200, 300]" 400]
  show ?thesis by (auto simp: doc retry_document_plan)
qed

end
