(* ===== verification/Instance_Savepoint.thy ===== *)
theory Instance_Savepoint
  imports Instance_Lifecycle
begin

text \<open>
  The savepoints: which changes of the instance are written to the database at which level, how
  often a write is attempted, and when \<open>record_savepoint\<close> does not return.
\<close>

section \<open>When a savepoint is due\<close>

definition terminated :: "wf_instance \<Rightarrow> bool" where
  "terminated s \<longleftrightarrow> getAttribute (xmldoc s) (root (xmldoc s)) ''status'' = ''TERMINATED''"

definition savepoint_due :: "bool \<Rightarrow> wf_instance \<Rightarrow> bool" where
  "savepoint_due force s \<longleftrightarrow>
     (if terminated s then savepoint_level s \<noteq> 0 else force \<or> 2 < savepoint_level s)"

text \<open>What the loop over the attempts promises, from attempt \<open>k\<close> on.\<close>

definition endless :: "wf_instance \<Rightarrow> bool" where
  "endless s \<longleftrightarrow> savepoint_retry s \<and> savepoint_retry_times s = 0"

definition attempt_limit :: "wf_instance \<Rightarrow> nat" where
  "attempt_limit s = (if savepoint_retry s then unat (savepoint_retry_times s) + 1 else 1)"

definition attempted :: "env \<Rightarrow> save \<Rightarrow> nat \<Rightarrow> nat \<Rightarrow> call list" where
  "attempted E q k n = List.map (\<lambda>j. Call_Save q (e_db E j)) [k..<n]"

definition tried :: "env \<Rightarrow> save \<Rightarrow> nat \<Rightarrow> wf_instance \<Rightarrow> wf_instance \<Rightarrow> bool" where
  "tried E q k s s' \<longleftrightarrow> (\<exists>n > k. calls s' = calls s @ attempted E q k n \<and>
     (\<forall>j. k \<le> j \<and> j < n - 1 \<longrightarrow> \<not> e_db E j) \<and>
     (e_db E (n - 1) \<or> \<not> endless s \<and> attempt_limit s \<le> n) \<and>
     (endless s \<or> n \<le> max (k + 1) (attempt_limit s)))"

lemma attempted_first: "k < n \<Longrightarrow> attempted E q k n = Call_Save q (e_db E k) # attempted E q (k + 1) n"
  by (simp add: attempted_def upt_conv_Cons)

lemma emit_fields [simp]:
  "savepoint_retry (emit c s) = savepoint_retry s" "savepoint_retry_times (emit c s) = savepoint_retry_times s"
  "endless (emit c s) = endless s" "attempt_limit (emit c s) = attempt_limit s"
  by (simp_all add: emit_def endless_def attempt_limit_def)

lemma again_iff:
  "savepoint_retry s \<and> (savepoint_retry_times s = 0 \<or> k + 1 \<le> unat (savepoint_retry_times s)) \<longleftrightarrow>
   endless s \<or> k + 1 < attempt_limit s"
  by (auto simp: endless_def attempt_limit_def)

lemma save_tries_unfold:
  "save_tries E q k s =
     (let s = emit (Call_Save q (e_db E k)) s in
      if e_db E k then Some s
      else if endless s \<or> k + 1 < attempt_limit s then save_tries E q (k + 1) s else Some s)"
  by (subst save_tries.simps) (simp only: again_iff Let_def)

lemma tried_later:
  assumes "tried E q (k + 1) (emit (Call_Save q (e_db E k)) s) s'" and "\<not> e_db E k"
    and "endless s \<or> k + 1 < attempt_limit s"
  shows "tried E q k s s'"
proof -
  from assms(1) obtain n where n: "k + 1 < n" "calls s' = calls s @ Call_Save q (e_db E k) # attempted E q (k + 1) n"
    "\<forall>j. k + 1 \<le> j \<and> j < n - 1 \<longrightarrow> \<not> e_db E j"
    "e_db E (n - 1) \<or> \<not> endless s \<and> attempt_limit s \<le> n" "endless s \<or> n \<le> max (k + 1 + 1) (attempt_limit s)"
    unfolding tried_def by auto
  have "\<not> e_db E j" if "k \<le> j" "j < n - 1" for j
    using n(3) assms(2) that by (cases "j = k") auto
  moreover have "calls s' = calls s @ attempted E q k n"
    using n(1,2) by (simp add: attempted_first)
  moreover have "endless s \<or> n \<le> max (k + 1) (attempt_limit s)" using n(5) assms(3) by auto
  ultimately show ?thesis unfolding tried_def using n(1,4) by (intro exI [of _ n]) auto
qed

lemma tried_once:
  assumes "e_db E k \<or> \<not> endless s \<and> attempt_limit s \<le> k + 1"
  shows "tried E q k s (emit (Call_Save q (e_db E k)) s)"
  unfolding tried_def
  by (rule exI [of _ "k + 1"]) (use assms in \<open>auto simp: attempted_def\<close>)

text \<open>A run that returns did what it promises.\<close>

lemma save_tries_tried: "save_tries E q k s = Some s' \<Longrightarrow> tried E q k s s'"
proof (rule save_tries.raw_induct [where P = "\<lambda>E q k s s'. tried E q k s s'", rotated])
  show "save_tries E q k s = Some s' \<Longrightarrow> save_tries E q k s = Some s'" .
next
  fix rec E q k s s'
  assume ih: "\<And>E q k s s'. rec E q k s = Some s' \<Longrightarrow> tried E q k s s'"
    and s': "(let s = emit (Call_Save q (e_db E k)) s
       in if e_db E k then Some s
          else if savepoint_retry s \<and> (savepoint_retry_times s = 0 \<or> k + 1 \<le> unat (savepoint_retry_times s))
               then rec E q (k + 1) s else Some s) = Some s'"
  show "tried E q k s s'"
  proof (cases "e_db E k")
    case True
    with s' have "s' = emit (Call_Save q (e_db E k)) s" by (simp add: Let_def)
    then show ?thesis using True tried_once by blast
  next
    case False
    show ?thesis
    proof (cases "endless s \<or> k + 1 < attempt_limit s")
      case True
      with s' False have "rec E q (k + 1) (emit (Call_Save q (e_db E k)) s) = Some s'"
        unfolding again_iff by (simp add: Let_def)
      from tried_later [OF ih [OF this] False True] show ?thesis .
    next
      case stop: False
      with s' False have "s' = emit (Call_Save q (e_db E k)) s"
        unfolding again_iff by (auto simp: Let_def)
      then show ?thesis using stop tried_once [of E k s q] by simp
    qed
  qed
qed

text \<open>It returns when the attempts are limited, or one of them succeeds.\<close>

lemma save_tries_limited:
  "\<not> endless s \<Longrightarrow> \<exists>s'. save_tries E q k s = Some s'"
proof (induction "attempt_limit s - k" arbitrary: k s rule: less_induct)
  case less
  show ?case
  proof (cases "\<not> e_db E k \<and> k + 1 < attempt_limit s")
    case True
    let ?t = "emit (Call_Save q (e_db E k)) s"
    have "attempt_limit ?t - (k + 1) < attempt_limit s - k" using True by auto
    with less.prems less.hyps [of ?t "k + 1"] have "\<exists>s'. save_tries E q (k + 1) ?t = Some s'" by simp
    with True show ?thesis by (subst save_tries_unfold) (simp add: Let_def)
  next
    case False
    with less.prems show ?thesis by (subst save_tries_unfold) (auto simp: Let_def)
  qed
qed

lemma save_tries_succeeds: "e_db E j \<Longrightarrow> k \<le> j \<Longrightarrow> \<exists>s'. save_tries E q k s = Some s'"
proof (induction "j - k" arbitrary: k s)
  case 0
  then have "k = j" by simp
  with 0 show ?case by (subst save_tries_unfold) (simp add: Let_def)
next
  case (Suc m)
  then have "\<exists>s'. save_tries E q (k + 1) t = Some s'" for t by (intro Suc.hyps(1)) simp_all
  then show ?case by (subst save_tries_unfold) (auto simp: Let_def)
qed

lemma record_savepoint_due:
  assumes "savepoint_due force s"
  obtains q t where "record_savepoint E force s = save_tries E q 0 t" and "calls t = calls s"
    and "endless t = endless s" and "attempt_limit t = attempt_limit s"
proof (cases "terminated s")
  case True
  let ?t = "put_root ''errors'' (show_u32 (error_tasks (put_root ''end_time'' (datetime E (e_now E)) s)))
    (put_root ''end_time'' (datetime E (e_now E)) s)"
  have "record_savepoint E force s = save_tries E (save_query E ?t) 0 ?t"
    using True assms by (simp add: record_savepoint_def savepoint_due_def terminated_def Let_def)
  then show ?thesis
    by (rule that) (simp_all add: endless_def attempt_limit_def put_root_def put_def)
next
  case False
  with assms have "record_savepoint E force s = save_tries E (save_query E s) 0 s"
    by (auto simp: record_savepoint_def savepoint_due_def terminated_def)
  then show ?thesis by (rule that) simp_all
qed

text \<open>
  C14. A savepoint that is due is written by the first attempt that succeeds, and the attempts
  before it failed. Without retries there is one attempt, with \<open>n\<close> retries at most \<open>n + 1\<close>, after
  which the savepoint is given up; with the number of retries set to 0 the loop ends only by a
  success, and if the database never answers the operation does not return (it holds the lock of
  the instance). A savepoint that is not due makes no attempt and changes nothing.
\<close>

theorem savepoint_attempts:
  assumes "savepoint_due force s"
  shows "case record_savepoint E force s of
      None \<Rightarrow> endless s \<and> (\<forall>k. \<not> e_db E k)
    | Some s' \<Rightarrow> \<exists>q n. 0 < n \<and> calls s' = calls s @ attempted E q 0 n \<and> (\<forall>k < n - 1. \<not> e_db E k) \<and>
        (e_db E (n - 1) \<or> \<not> endless s \<and> n = attempt_limit s) \<and> (endless s \<or> n \<le> attempt_limit s)"
proof -
  obtain q t where t: "record_savepoint E force s = save_tries E q 0 t" "calls t = calls s"
    "endless t = endless s" "attempt_limit t = attempt_limit s"
    by (rule record_savepoint_due [OF assms])
  have pos: "1 \<le> attempt_limit s" by (simp add: attempt_limit_def)
  show ?thesis
  proof (cases "save_tries E q 0 t")
    case None
    with save_tries_limited [of t E q 0] save_tries_succeeds [of E _ 0 q t] t show ?thesis by auto
  next
    case (Some s')
    from save_tries_tried [OF this] obtain n where n: "0 < n" "calls s' = calls s @ attempted E q 0 n"
      "\<forall>j. j < n - 1 \<longrightarrow> \<not> e_db E j" "e_db E (n - 1) \<or> \<not> endless s \<and> attempt_limit s \<le> n"
      "endless s \<or> n \<le> max 1 (attempt_limit s)"
      unfolding tried_def t by auto
    with pos have "e_db E (n - 1) \<or> \<not> endless s \<and> n = attempt_limit s" "endless s \<or> n \<le> attempt_limit s"
      by auto
    with n Some t(1) show ?thesis by auto
  qed
qed

theorem savepoint_attempts_witness:
  "\<exists>s'. record_savepoint (demo_env\<lparr>e_db := (\<lambda>k. k = 2)\<rparr>) True
      (demo_instance\<lparr>savepoint_retry := True, savepoint_retry_times := 5\<rparr>) = Some s' \<and> length (calls s') = 3"
proof -
  let ?E = "demo_env\<lparr>e_db := (\<lambda>k. k = 2)\<rparr>"
  let ?s = "demo_instance\<lparr>savepoint_retry := True, savepoint_retry_times := 5\<rparr>"
  have due: "savepoint_due True ?s" by code_simp
  have s: "\<not> endless ?s" "attempt_limit ?s = 6" "calls ?s = []"
    by (simp_all add: endless_def attempt_limit_def demo_instance_def blank_def)
  from savepoint_attempts [OF due, of ?E] s obtain s' q n where
    r: "record_savepoint ?E True ?s = Some s'" "0 < n" "calls s' = attempted ?E q 0 n"
      "\<forall>k < n - 1. k \<noteq> 2" "n - 1 = 2 \<or> n = 6"
    by (auto split: option.splits)
  have "n \<noteq> 6" using r(4) [rule_format, of 2] by auto
  with r show ?thesis by (auto simp: attempted_def)
qed

end
