(* ===== verification/Instance_Jobs.thy ===== *)
theory Instance_Jobs
  imports Instance_Lifecycle
begin

text \<open>
  What running a job does: which tasks are queued, in which order, and three places where the
  outcome is not what the workflow says: loops after the first one, and failures that the
  instance does not count.
\<close>

section \<open>Editing attributes does not move nodes\<close>

lemma descendants_setAttribute [simp]: "descendants f (setAttribute n a v d) m = descendants f d m"
  by (induction f arbitrary: m) simp_all

lemma below_setAttribute [simp]: "below_named t (setAttribute n a v d) m = below_named t d m"
  by (simp add: below_named_def)

section \<open>A job without loops\<close>

text \<open>A task with a name, no loop and no values to compute.\<close>

definition plain_task :: "document \<Rightarrow> node \<Rightarrow> bool" where
  "plain_task d t \<longleftrightarrow> getNamedItem d t ''loop'' = None \<and> getNamedItem d t ''name'' \<noteq> None \<and>
     below_named ''value'' d t = [] \<and> below_named ''copy'' d t = []"

definition not_done :: "document \<Rightarrow> node \<Rightarrow> bool" where
  "not_done d t \<longleftrightarrow> getNamedItem d t ''status'' \<noteq> Some ''TERMINATED''"

text \<open>The state after the task \<open>t\<close>: queued, or refused by the queue pool.\<close>

definition queued_task :: "env \<Rightarrow> node \<Rightarrow> wf_instance \<Rightarrow> wf_instance" where
  "queued_task E t s =
     (let q = getAttribute (xmldoc s) t ''queue''; s = put t ''status'' ''QUEUED'' s
      in if e_queue E q
         then (emit (Call_Enqueue t q) s)\<lparr>running_tasks := running_tasks s + 1\<rparr>
         else abort_task t ''Unknown queue name'' s)"

lemma launch_plain:
  assumes "plain_task (xmldoc s) t" and "\<not> is_cancelling s"
  shows "launch_task E t c s = Some (None, queued_task E t s)"
  using assms
  by (auto simp: plain_task_def launch_task_def replace_value_def andthen_def no_throw_def
      enqueue_task_def queued_task_def Let_def)

lemma queued_task_state:
  "is_cancelling (queued_task E t s) = is_cancelling s"
  "calls (queued_task E t s) = calls s @
     (if e_queue E (getAttribute (xmldoc s) t ''queue'') then [Call_Enqueue t (getAttribute (xmldoc s) t ''queue'')] else [])"
  "error_tasks (queued_task E t s) =
     error_tasks s + (if e_queue E (getAttribute (xmldoc s) t ''queue'') then 0 else 1)"
  "u \<noteq> t \<Longrightarrow> getNamedItem (xmldoc (queued_task E t s)) u a = getNamedItem (xmldoc s) u a"
  "below_named x (xmldoc (queued_task E t s)) u = below_named x (xmldoc s) u"
  by (simp_all add: queued_task_def Let_def abort_task_def emit_def put_def)

lemma plain_task_kept:
  "u \<noteq> t \<Longrightarrow> plain_task (xmldoc (queued_task E t s)) u = plain_task (xmldoc s) u"
  by (simp add: plain_task_def queued_task_state)

lemma run_plain_tasks:
  assumes "distinct ts" and "\<forall>t \<in> set ts. not_done (xmldoc s) t \<longrightarrow> plain_task (xmldoc s) t"
    and "\<not> is_cancelling s"
  shows "\<exists>s'. run_tasks E c i ts s = Some (None, s') \<and>
    calls s' = calls s @ List.map (\<lambda>t. Call_Enqueue t (getAttribute (xmldoc s) t ''queue''))
      (List.filter (\<lambda>t. not_done (xmldoc s) t \<and> e_queue E (getAttribute (xmldoc s) t ''queue'')) ts) \<and>
    error_tasks s' = error_tasks s + of_nat (length
      (List.filter (\<lambda>t. not_done (xmldoc s) t \<and> \<not> e_queue E (getAttribute (xmldoc s) t ''queue'')) ts))"
  using assms
proof (induction ts arbitrary: s)
  case Nil
  then show ?case by simp
next
  case (Cons t ts)
  show ?case
  proof (cases "not_done (xmldoc s) t")
    case False
    with Cons.IH [of s] Cons.prems show ?thesis by (simp add: not_done_def)
  next
    case True
    let ?s = "queued_task E t s"
    have plain: "plain_task (xmldoc s) t" using True Cons.prems by simp
    have other: "getNamedItem (xmldoc ?s) u a = getNamedItem (xmldoc s) u a" if "u \<in> set ts" for u a
      using that Cons.prems(1) by (intro queued_task_state(4)) auto
    then have attr: "not_done (xmldoc ?s) u = not_done (xmldoc s) u"
      "getAttribute (xmldoc ?s) u a = getAttribute (xmldoc s) u a" if "u \<in> set ts" for u a
      using that by (simp_all add: not_done_def getAttribute_named)
    have "plain_task (xmldoc ?s) u = plain_task (xmldoc s) u" if "u \<in> set ts" for u
      using that Cons.prems(1) by (intro plain_task_kept) auto
    with attr Cons.prems have "\<forall>u \<in> set ts. not_done (xmldoc ?s) u \<longrightarrow> plain_task (xmldoc ?s) u"
      "\<not> is_cancelling ?s" "distinct ts" by (simp_all add: queued_task_state(1))
    from Cons.IH [OF this(3,1,2)] obtain s' where s': "run_tasks E c i ts ?s = Some (None, s')"
      "calls s' = calls ?s @ List.map (\<lambda>u. Call_Enqueue u (getAttribute (xmldoc ?s) u ''queue''))
        (List.filter (\<lambda>u. not_done (xmldoc ?s) u \<and> e_queue E (getAttribute (xmldoc ?s) u ''queue'')) ts)"
      "error_tasks s' = error_tasks ?s + of_nat (length
        (List.filter (\<lambda>u. not_done (xmldoc ?s) u \<and> \<not> e_queue E (getAttribute (xmldoc ?s) u ''queue'')) ts))"
      by blast
    have filters: "List.filter (\<lambda>u. not_done (xmldoc ?s) u \<and> P (getAttribute (xmldoc ?s) u ''queue'')) ts =
        List.filter (\<lambda>u. not_done (xmldoc s) u \<and> P (getAttribute (xmldoc s) u ''queue'')) ts" for P
      by (rule filter_cong) (simp_all add: attr)
    have maps: "List.map (\<lambda>u. Call_Enqueue u (getAttribute (xmldoc ?s) u ''queue'')) (List.filter Q ts) =
        List.map (\<lambda>u. Call_Enqueue u (getAttribute (xmldoc s) u ''queue'')) (List.filter Q ts)" for Q
      by (rule map_cong) (simp_all add: attr)
    have "run_tasks E c i (t # ts) s = run_tasks E c i ts ?s"
      using True plain launch_plain [OF plain Cons.prems(3), of E c]
      by (simp add: not_done_def plain_task_def andthen_def)
    with s' filters [of "e_queue E"] filters [of "\<lambda>q. \<not> e_queue E q"] maps True show ?thesis
      by (simp add: queued_task_state)
  qed
qed


definition three_tasks :: document where
  "three_tasks = document_of
     [node_of ''job'' [] [1] None, node_of ''tasks'' [] [2, 3, 4] (Some 0),
      node_of ''task'' [(''name'', ''t''), (''queue'', ''q'')] [] (Some 1),
      node_of ''task'' [(''name'', ''t''), (''queue'', ''nowhere'')] [] (Some 1),
      node_of ''task'' [(''name'', ''t''), (''queue'', ''q''), (''status'', ''TERMINATED'')] [] (Some 1)]"


section \<open>Loops\<close>

definition loops_document :: document where
  "loops_document = document_of
     [node_of ''workflow'' [] [1] None, node_of ''subjobs'' [] [2] (Some 0), node_of ''job'' [] [3] (Some 1),
      node_of ''tasks'' [] [4, 5] (Some 2),
      node_of ''task'' [(''name'', ''a''), (''queue'', ''q''), (''loop'', ''x'')] [] (Some 3),
      node_of ''task'' [(''name'', ''b''), (''queue'', ''q''), (''loop'', ''x'')] [] (Some 3)]"

text \<open>
  Only the first loop of a job is expanded in full: the index into the matching nodes is not
  reset. With two looped tasks whose expressions each select one node, one copy of the first is
  queued and the second disappears from the document without a copy; its instance then ends, without
  an error, when the first has run.
\<close>

theorem second_loop_lost:
  "map_option (\<lambda>(b, s). (b, new_calls (demo_instance\<lparr>xmldoc := loops_document\<rparr>) s,
       List.map (\<lambda>n. getAttribute (xmldoc s) n ''name'') (kids (el (xmldoc s) 3)), error_tasks s))
     (Start demo_env (demo_instance\<lparr>xmldoc := loops_document\<rparr>)) =
   Some (False, [Call_Enqueue 6 ''q''], [''a''], 0)"
  by code_simp

section \<open>Failures that are not counted\<close>

definition one_task :: "(string \<times> string) list \<Rightarrow> wf_instance" where
  "one_task a = demo_instance\<lparr>running_tasks := 1, workflow_schedule_id := 9, xmldoc := document_of
     [node_of ''workflow'' [] [1] None, node_of ''subjobs'' [] [2] (Some 0), node_of ''job'' [] [3] (Some 1),
      node_of ''tasks'' [] [4] (Some 2), node_of ''task'' a [] (Some 3)]\<rparr>"

section \<open>Failures that are not counted\<close>

lemma getNamedItem_nodes [simp]:
  "getNamedItem (appendChild p c d) n a = getNamedItem d n a"
  "n \<noteq> fresh d \<Longrightarrow> getNamedItem (snd (createElement t d)) n a = getNamedItem d n a"
  "n \<noteq> fresh d \<Longrightarrow> getNamedItem (snd (createTextNode t d)) n a = getNamedItem d n a"
  by (simp_all add: getNamedItem_def appendChild_def upd_def createElement_def createTextNode_def)

lemma element_nodes [simp]:
  "tag (el (appendChild p c d) n) = tag (el d n)"
  "n \<noteq> fresh d \<Longrightarrow> el (snd (createElement t d)) n = el d n"
  "n \<noteq> fresh d \<Longrightarrow> el (snd (createTextNode t d)) n = el d n"
  "n \<noteq> c \<Longrightarrow> parent (el (appendChild p c d) n) = parent (el d n)"
  "n \<noteq> p \<Longrightarrow> kids (el (appendChild p c d) n) = kids (el d n)"
  "fst (createElement t d) = fresh d" "fst (createTextNode t d) = fresh d"
  "fresh (snd (createElement t d)) = fresh d + 1" "fresh (snd (createTextNode t d)) = fresh d + 1"
  "fresh (appendChild p c d) = fresh d"
  by (simp_all add: appendChild_def upd_def createElement_def createTextNode_def)

text \<open>
  A task of a job, and what the operations on it keep: its place, and the attributes that say it
  has failed.
\<close>

definition in_job :: "document \<Rightarrow> node \<Rightarrow> node \<Rightarrow> bool" where
  "in_job d task p \<longleftrightarrow> parent (el d task) = Some p \<and> task \<in> set (kids (el d p)) \<and> tag (el d task) = ''task'' \<and>
     task \<noteq> p \<and> task < fresh d \<and> p < fresh d"

definition failed_task :: "document \<Rightarrow> node \<Rightarrow> int \<Rightarrow> bool" where
  "failed_task d task retval \<longleftrightarrow> getNamedItem d task ''retval'' = Some (show_int retval) \<and> retval \<noteq> 0"

lemma continue_job_failed:
  assumes "in_job (xmldoc s) task p" and "failed_task (xmldoc s) task retval"
  shows "continue_job E task s = Some s"
proof -
  let ?ts = "children_named ''task'' (xmldoc s) p"
  have "task \<in> set ?ts" using assms(1) by (simp add: in_job_def children_named_def)
  moreover have "\<not> successful (xmldoc s) task"
    using assms(2) by (simp add: successful_def failed_task_def parse_show)
  ultimately have "length (List.filter (successful (xmldoc s)) ?ts) < length ?ts"
    by (rule length_filter_less)
  with assms(1) show ?thesis by (simp add: continue_job_def in_job_def Let_def)
qed

text \<open>The state when a failing task has been marked and its output stored.\<close>

lemma stopped_state:
  assumes "mark_stopped E task retval s = (n, t)" and "in_job (xmldoc s) task p" and "retval \<noteq> 0"
  shows "in_job (xmldoc (output_text task n out t)) task p"
    and "failed_task (xmldoc (output_text task n out t)) task retval"
    and "a \<notin> {''status'', ''retval'', ''tid'', ''pid''} \<Longrightarrow>
      getNamedItem (xmldoc (output_text task n out t)) task a = getNamedItem (xmldoc s) task a"
proof -
  have j: "task < fresh (xmldoc s)" "p < fresh (xmldoc s)" "task \<noteq> p" using assms(2) by (simp_all add: in_job_def)
  let ?d = "removeAttribute task ''pid'' (removeAttribute task ''tid'' (setAttribute task ''retval'' (show_int retval)
    (setAttribute task ''status'' ''TERMINATED'' (xmldoc s))))"
  have n: "n = fresh (xmldoc s)"
    using assms(1) by (simp add: mark_stopped_def Let_def case_prod_beta)
  obtain ti dt where t: "xmldoc t = setAttribute n ''exit_time'' dt (setAttribute n ''execution_time'' ti
      (setAttribute n ''retval'' (show_int retval) (snd (createElement ''output'' ?d))))"
    using assms(1) by (auto simp: mark_stopped_def Let_def case_prod_beta)
  obtain u where u: "xmldoc (output_text task n out t) = appendChild task n (appendChild n u
      (snd (createTextNode out (setAttribute n ''method'' ''text'' (xmldoc t)))))"
    "u = fresh (xmldoc s) + 1"
    using t n by (auto simp: output_text_def Let_def case_prod_beta)
  have fr: "fresh (setAttribute n ''method'' ''text'' (xmldoc t)) = fresh (xmldoc s) + 1"
    using t by simp
  show "in_job (xmldoc (output_text task n out t)) task p"
    using assms(2) j n fr unfolding u in_job_def by (simp add: t)
  show "failed_task (xmldoc (output_text task n out t)) task retval"
    using j n fr assms(3) unfolding u failed_task_def by (simp add: t)
  show "a \<notin> {''status'', ''retval'', ''tid'', ''pid''} \<Longrightarrow>
      getNamedItem (xmldoc (output_text task n out t)) task a = getNamedItem (xmldoc s) task a"
    using j n fr unfolding u by (simp add: t)
qed

text \<open>
  The two reasons for which the code lets a failed task be: the instance is being cancelled, or the
  task may be retried but only for another exit code.
\<close>

definition other_retval :: "env \<Rightarrow> document \<Rightarrow> node \<Rightarrow> int \<Rightarrow> bool" where
  "other_retval E d task retval \<longleftrightarrow> getNamedItem d task ''retry_schedule'' = None \<and>
     getNamedItem d task ''retry_schedule_level'' = None \<and>
     (\<exists>a b v x n w. getNamedItem d task ''retry_delay'' = Some a \<and> getNamedItem d task ''retry_times'' = Some b \<and>
        getNamedItem d task ''retry_retval'' = Some v \<and> e_parse_int E a = Some x \<and> e_parse_int E b = Some n \<and>
        e_parse_int E v = Some w \<and> x \<noteq> 0 \<and> n \<noteq> 0 \<and> w \<noteq> retval \<and>
        e_parse_int E (show_int retval) = Some retval)"

lemma retry_task_other_retval:
  assumes "other_retval E (xmldoc s) task retval" and "failed_task (xmldoc s) task retval"
  shows "retry_task E task s = Some s"
  using assms
  unfolding other_retval_def failed_task_def retry_task_def retry_begin_def retry_attributes_def
    retry_next_level_def retval_excluded_def
  by (auto simp: getAttribute_named)

text \<open>
  A failing task that is neither retried nor counted: when the instance is being cancelled, or
  the exit code is not the one of \<open>retry_retval\<close>, \<open>TaskStop\<close> hands out nothing and leaves the
  number of errors as it is; so if this was the last task and no other had been counted, the schedule
  of the instance is told of a success.
\<close>

theorem uncounted_failures:
  assumes stop: "TaskStop E task retval out s = Some (b, s')"
    and failed: "retval \<noteq> 0" and job: "in_job (xmldoc s) task p"
    and why: "is_cancelling s \<or> other_retval E (xmldoc s) task retval"
  shows "hands_out_nothing s s' \<and> error_tasks s' = error_tasks s \<and>
    (error_tasks s = 0 \<and> workflow_schedule_id s' \<noteq> 0 \<longrightarrow>
       Call_Schedule_Stop (workflow_schedule_id s') True \<in> set (WorkflowInstance_delete s'))"
proof -
  obtain n t0 where t0: "mark_stopped E task retval s = (n, t0)" by fastforce
  let ?t = "output_text task n out t0"
  note st = stopped_state [OF t0 job failed, where out = out]
  have quiet: "silent s ?t" using silent_trans [OF mark_stopped_silent [OF t0] output_text_silent] .
  then have cancelling: "is_cancelling ?t = is_cancelling s" by (simp add: silent_def)
  obtain t1 t2 where t1: "stop_failure E task n out t0 = Some t1" and t2: "continue_job E task t1 = Some t2"
    and s': "finish E (t2\<lparr>running_tasks := running_tasks t2 - 1\<rparr>) = Some (b, s')"
    using stop t0 failed unfolding TaskStop_def by (auto simp: bind_eq_Some_conv Let_def)
  have t1': "t1 = ?t \<or> t1 = put task ''error'' (''Won'' @ CHR 0x27 # ''t retry because workflow is cancelling'') ?t"
  proof (cases "is_cancelling s")
    case True
    with t1 cancelling show ?thesis by (simp add: stop_failure_def Let_def)
  next
    case False
    with why st(3) have "other_retval E (xmldoc ?t) task retval" by (simp add: other_retval_def)
    from retry_task_other_retval [OF this st(2)] t1 cancelling False show ?thesis
      by (simp add: stop_failure_def Let_def)
  qed
  then have "in_job (xmldoc t1) task p" "failed_task (xmldoc t1) task retval"
    using st(1,2) by (auto simp: in_job_def failed_task_def)
  from continue_job_failed [OF this] t2 have "t2 = t1" by simp
  moreover have "silent s t1" using t1' quiet silent_trans [OF quiet silent_put(1)] by auto
  ultimately have quiet2: "silent s t2" by simp
  then obtain cs where cs: "accounts s cs t2" "enqueues cs = []" "executions cs = []" "retries cs = []"
    using silent_accounts by blast
  from finish_effect_running [OF cs(1) s'] cs have idle: "hands_out_nothing s s'"
    by (simp add: hands_out_nothing_def)
  have errors: "error_tasks s' = error_tasks s"
    using finish_cases(2) [OF s'] quiet2 by (simp add: silent_def)
  then have "error_tasks s = 0 \<and> workflow_schedule_id s' \<noteq> 0 \<longrightarrow>
      Call_Schedule_Stop (workflow_schedule_id s') True \<in> set (WorkflowInstance_delete s')"
    by (simp add: WorkflowInstance_delete_def)
  with idle errors show ?thesis by blast
qed

definition cancelled_task :: wf_instance where
  "cancelled_task = demo_instance\<lparr>running_tasks := 1, workflow_schedule_id := 9, is_cancelling := True,
     xmldoc := document_of [node_of ''job'' [] [1] None, node_of ''tasks'' [] [2] (Some 0),
       node_of ''task'' [(''name'', ''t'')] [] (Some 1)]\<rparr>"

text \<open>With no savepoints due, every operation's end returns.\<close>

lemma finish_returns:
  assumes "savepoint_level s = 0"
  shows "finish E s \<noteq> None"
proof -
  obtain b t where t: "workflow_ended s = (b, t)" by fastforce
  then have "savepoint_level t = 0" using assms
    by (auto simp: workflow_ended_def Let_def put_root_def put_def emit_def split: if_splits)
  then show ?thesis using t by (simp add: finish_def record_savepoint_def)
qed

theorem uncounted_failures_witness:
  "\<exists>b s'. TaskStop demo_env 2 1 ''err'' cancelled_task = Some (b, s') \<and> error_tasks s' = 0 \<and> workflow_schedule_id cancelled_task = 9"
proof -
  have job: "in_job (xmldoc cancelled_task) 2 1" by code_simp
  have s: "is_cancelling cancelled_task" "error_tasks cancelled_task = 0" "savepoint_level cancelled_task = 0"
    "workflow_schedule_id cancelled_task = 9"
    by (simp_all add: cancelled_task_def demo_instance_def blank_def)
  obtain n t0 where t0: "mark_stopped demo_env 2 1 cancelled_task = (n, t0)" by fastforce
  let ?t = "put 2 ''error'' (''Won'' @ CHR 0x27 # ''t retry because workflow is cancelling'') (output_text 2 n ''err'' t0)"
  note st = stopped_state [OF t0 job, where out = "''err''"]
  have "silent cancelled_task (output_text 2 n ''err'' t0)"
    using silent_trans [OF mark_stopped_silent [OF t0] output_text_silent] .
  then have "stop_failure demo_env 2 n ''err'' t0 = Some ?t"
    using s(1) by (simp add: stop_failure_def Let_def silent_def)
  moreover have "continue_job demo_env 2 ?t = Some ?t"
    using st(1,2) by (intro continue_job_failed [where p = 1 and retval = 1]) (auto simp: in_job_def failed_task_def)
  moreover have "savepoint_level (?t\<lparr>running_tasks := running_tasks ?t - 1\<rparr>) = 0"
    using t0 s(3) by (auto simp: mark_stopped_def output_text_def Let_def case_prod_beta put_def set_doc_def)
  then obtain r where "finish demo_env (?t\<lparr>running_tasks := running_tasks ?t - 1\<rparr>) = Some r"
    using finish_returns by (metis not_None_eq)
  ultimately have "TaskStop demo_env 2 1 ''err'' cancelled_task = Some r"
    unfolding TaskStop_def using t0 by simp
  moreover obtain b s' where "r = (b, s')" by fastforce
  ultimately have stop: "TaskStop demo_env 2 1 ''err'' cancelled_task = Some (b, s')" by simp
  from uncounted_failures [OF stop _ job] s stop show ?thesis by auto
qed

text \<open>
  A restart forgets the errors counted so far: an instance whose tasks are all aborted or
  done is resumed with no error, ends at once, and reports a success to its schedule.
\<close>

theorem resume_forgets_errors:
  "(let s = demo_instance\<lparr>workflow_schedule_id := 9, xmldoc := document_of
       [node_of ''workflow'' [(''status'', ''EXECUTING'')] [1] None,
        node_of ''task'' [(''name'', ''t''), (''status'', ''ABORTED'')] [] (Some 0)]\<rparr>
    in map_option (\<lambda>(b, s). (b, error_tasks s, WorkflowInstance_delete s)) (Resume demo_env s)) =
   Some (True, 0, [Call_Remove 7, Call_Schedule_Stop 9 True, Call_DecExecuting])"
  by code_simp

end
