(* ===== verification/Monitor.thy ===== *)
theory Monitor
  imports Workflow_Instance
begin

text \<open>
  The task monitor (\<open>evqueue_monitor.cpp\<close>): the process between the engine and the task. It
  builds the command line of the task, runs it, locally or through SSH, and sends its exit code
  to the engine. Arguments are the monitor's own (\<open>argv\<close>) and its environment.
\<close>

section \<open>The command line\<close>

text \<open>An argument for the remote shell, and the room the code allocates for it.\<close>

definition quote_char :: "char \<Rightarrow> string" where
  "quote_char c = (if c = CHR 0x27 then [CHR 0x5C, CHR 0x27] else [c])"

definition quote_arg :: "string \<Rightarrow> string" where
  "quote_arg s = CHR 0x27 # concat (List.map quote_char s) @ [CHR 0x27]"

definition quote_room :: "string \<Rightarrow> nat" where
  "quote_room s = 2 * length s + 3"

text \<open>\<open>ssh_nargs\<close>: the number of arguments counted for SSH, the task's binary included.\<close>

definition ssh_nargs :: "(string \<rightharpoonup> string) \<Rightarrow> nat" where
  "ssh_nargs env =
     (let n = (if env ''EVQUEUE_SSH_HOST'' \<noteq> None then 1 else 0) +
            (if env ''EVQUEUE_SSH_KEY'' \<noteq> None then 2 else 0);
          n = n + (if 0 < n \<and> env ''EVQUEUE_WORKING_DIRECTORY'' \<noteq> None then 1 else 0)
      in if 0 < n then n + 1 else n)"

definition argv_room :: "(string \<rightharpoonup> string) \<Rightarrow> string list \<Rightarrow> nat" where
  "argv_room env argv = 1 + ssh_nargs env + (length argv - 3) + 1"

text \<open>\<open>None\<close>: \<open>strlen\<close> is applied to a variable that is not set.\<close>

definition ssh_argv :: "(string \<rightharpoonup> string) \<Rightarrow> string \<Rightarrow> string list option" where
  "ssh_argv env binary = do {
     path \<leftarrow> env ''EVQUEUE_SSH_PATH'';
     let key = (case env ''EVQUEUE_SSH_KEY'' of None \<Rightarrow> [] | Some k \<Rightarrow> [''-i'', k]);
     host \<leftarrow> env ''EVQUEUE_SSH_HOST'';
     let target = (case env ''EVQUEUE_SSH_USER'' of None \<Rightarrow> host | Some u \<Rightarrow> u @ ''@'' @ host);
     let wd = (case env ''EVQUEUE_WORKING_DIRECTORY'' of None \<Rightarrow> [] | Some d \<Rightarrow> [''cd '' @ d @ '';'']);
     Some (path # key @ target # wd @ [binary]) }"

definition task_argv :: "(string \<rightharpoonup> string) \<Rightarrow> string list \<Rightarrow> string list option" where
  "task_argv env argv =
     (let binary = argv ! 1; parameters = drop 3 argv in
      if 0 < ssh_nargs env
      then map_option (\<lambda>a. a @ List.map quote_arg parameters) (ssh_argv env binary)
      else Some (binary # parameters))"

text \<open>The directory the child changes to before \<open>execv\<close>.\<close>

definition task_directory :: "(string \<rightharpoonup> string) \<Rightarrow> string option" where
  "task_directory env = (if ssh_nargs env = 0 then env ''EVQUEUE_WORKING_DIRECTORY'' else None)"

section \<open>The exit code\<close>

text \<open>
  \<open>retcode\<close> is a \<open>char\<close>, signed on the platforms the engine is built for: the exit code of the
  task, a byte, is read as a signed one. A task that did not exit, but was killed, gives -1.
\<close>

definition retcode_of :: "8 word option \<Rightarrow> int" where
  "retcode_of status = (case status of Some w \<Rightarrow> sint w | None \<Rightarrow> -1)"

text \<open>
  \<open>main\<close>: with too few arguments, or without the message queue, nothing is run and no message is
  sent; otherwise the message holds the monitor's own process, the task identifier and the code.
\<close>

definition monitor_main ::
  "bool \<Rightarrow> int \<Rightarrow> (string list option \<Rightarrow> 8 word option) \<Rightarrow> (string \<rightharpoonup> string) \<Rightarrow> string list \<Rightarrow>
   int \<times> (int \<times> int \<times> int) option" where
  "monitor_main queue_ok self execute env argv =
     (if length argv \<le> 2 \<or> \<not> queue_ok then (-1, None)
      else let retcode = retcode_of (execute (task_argv env argv))
           in (retcode, Some (self, atoi (argv ! 2), retcode)))"

section \<open>Properties\<close>

lemma quote_char_length: "length (quote_char c) \<le> 2"
  by (simp add: quote_char_def)

lemma quote_chars_length: "length (concat (List.map quote_char s)) \<le> 2 * length s"
proof (induction s)
  case (Cons c s)
  with quote_char_length [of c] show ?case by simp
qed simp

lemma ssh_argv_length:
  assumes "ssh_argv env binary = Some a"
  shows "length a = 1 + ssh_nargs env"
  using assms unfolding ssh_argv_def
  by (auto simp: bind_eq_Some_conv ssh_nargs_def Let_def split: option.splits)

text \<open>
  C34. The monitor never writes past its buffers: whenever it gets to \<open>execv\<close>, the arguments and
  the final null pointer fill exactly the array it allocated, and every quoted argument, with its
  terminating character, fits the room computed for it.
\<close>

theorem monitor_buffers:
  assumes "task_argv env argv = Some a" and "3 \<le> length argv"
  shows "length a + 1 = argv_room env argv \<and> length (quote_arg s) + 1 \<le> quote_room s"
proof -
  have "length a + 1 = argv_room env argv"
    using assms ssh_argv_length
    by (auto simp: task_argv_def argv_room_def Let_def split: if_splits)
  then show ?thesis using quote_chars_length [of s] by (simp add: quote_arg_def quote_room_def)
qed

definition demo_argv :: "string list" where
  "demo_argv = [''monitor'', ''/bin/t'', ''5'', ''p'']"

theorem monitor_buffers_witness:
  "\<exists>a. task_argv [''EVQUEUE_SSH_HOST'' \<mapsto> ''h'', ''EVQUEUE_SSH_PATH'' \<mapsto> ''ssh''] demo_argv = Some a \<and> length a = 4"
proof -
  have a: "task_argv [''EVQUEUE_SSH_HOST'' \<mapsto> ''h'', ''EVQUEUE_SSH_PATH'' \<mapsto> ''ssh''] demo_argv =
      Some [''ssh'', ''h'', ''/bin/t'', quote_arg ''p'']"
    by code_simp
  from monitor_buffers [OF a] show ?thesis using a by (simp add: demo_argv_def)
qed

text \<open>
  The shell on the remote side reads the arguments, joined by blanks, back into words. The
  specification of quoting is that of the POSIX shell: within single quotes every character but the
  single quote stands for itself (a backslash too); outside, a backslash quotes the next character
  and blanks end a word. \<open>None\<close> is a quotation that is not closed.
\<close>

datatype sh_mode = Outside | In_Word | In_Quotes

fun sh_words :: "sh_mode \<Rightarrow> string \<Rightarrow> string \<Rightarrow> string list option" where
  "sh_words Outside w [] = Some []"
| "sh_words In_Word w [] = Some [rev w]"
| "sh_words In_Quotes w [] = None"
| "sh_words In_Quotes w (c # cs) =
     (if c = CHR 0x27 then sh_words In_Word w cs else sh_words In_Quotes (c # w) cs)"
| "sh_words m w (c # cs) =
     (if c = CHR 0x27 then sh_words In_Quotes w cs
      else if c = CHR 0x5C then (case cs of [] \<Rightarrow> None | d # ds \<Rightarrow> sh_words In_Word (d # w) ds)
      else if c = CHR '' '' then (case m of Outside \<Rightarrow> sh_words Outside [] cs
        | _ \<Rightarrow> map_option ((#) (rev w)) (sh_words Outside [] cs))
      else sh_words In_Word (c # w) cs)"

fun join_words :: "string list \<Rightarrow> string" where
  "join_words [] = []"
| "join_words [w] = w"
| "join_words (w # ws) = w @ CHR '' '' # join_words ws"

lemma read_quoted:
  "CHR 0x27 \<notin> set s \<Longrightarrow> sh_words In_Quotes w (s @ CHR 0x27 # r) = sh_words In_Word (rev s @ w) r"
  by (induction s arbitrary: w) auto

lemma quote_plain: "CHR 0x27 \<notin> set s \<Longrightarrow> concat (List.map quote_char s) = s"
  by (induction s) (auto simp: quote_char_def)

text \<open>
  Arguments without a single quote reach a remote task unchanged: the remote shell reads the
  quoted arguments back as exactly the parameters, blanks and all.
\<close>

theorem remote_arguments_roundtrip:
  assumes "\<forall>p \<in> set ps. CHR 0x27 \<notin> set p"
  shows "sh_words Outside [] (join_words (List.map quote_arg ps)) = Some ps"
  using assms
proof (induction ps rule: join_words.induct)
  case 1
  then show ?case by simp
next
  case (2 p)
  then show ?case by (simp add: quote_arg_def quote_plain read_quoted)
next
  case (3 p q ps)
  then show ?case by (simp add: quote_arg_def quote_plain read_quoted)
qed

theorem remote_arguments_roundtrip_witness:
  "sh_words Outside [] (join_words (List.map quote_arg [''a b'', ''*'', ''''])) = Some [''a b'', ''*'', '''']"
  by (rule remote_arguments_roundtrip) simp

text \<open>
  The escape written for a single quote is none: within single quotes the backslash stands for
  itself and the quote ends the quotation. An argument with one quote leaves the command line
  unterminated; if it ends in a backslash, the closing quote is escaped instead, and the text in
  between is read by the shell unquoted: what follows a semicolon is a command of its own.
\<close>

lemma quotes_not_escaped:
  "sh_words Outside [] (quote_arg [CHR ''a'', CHR 0x27, CHR ''b'']) = None"
  "sh_words Outside [] (quote_arg (CHR 0x27 # ''; id '' @ [CHR 0x5C])) =
     Some [[CHR 0x5C, CHR '';''], ''id'', [CHR 0x27]]"
  by code_simp+

text \<open>
  The exit code is zero for the engine exactly when the task exited with zero; codes from 128 on
  arrive as negative numbers.
\<close>

lemma retcode_zero: "retcode_of status = 0 \<longleftrightarrow> status = Some 0"
  using signed_eq_0_iff by (auto simp: retcode_of_def split: option.splits)

lemma retcode_high: "retcode_of (Some 200) = -56"
  by code_simp

end
