(* ===== verification/Pool_Tasks.thy ===== *)
theory Pool_Tasks
  imports Queue_Pool "HOL-Library.Multiset"
begin

text \<open>
  The tasks the pool holds, as two multisets of (instance, task) pairs: those in the queues and
  those registered under a task identifier. What each operation does to them.
\<close>

definition queued :: "pool \<Rightarrow> (wi_ref \<times> node_ref) multiset" where
  "queued p = sum_list (List.map (\<lambda>q. mset (next_out q)) (p_queue p))"

text \<open>The registered tasks but those of the identifiers \<open>X\<close>.\<close>

definition registered :: "nat set \<Rightarrow> pool \<Rightarrow> (wi_ref \<times> node_ref) multiset" where
  "registered X p =
     mset (List.map (\<lambda>t. (the (tid_workflow_instance p ! t), the (tid_task p ! t)))
       (List.filter (\<lambda>t. tid_workflow_instance p ! t \<noteq> None \<and> t \<notin> X) [0..<maxpid p + 1]))"

definition pool_ok :: "pool \<Rightarrow> bool" where
  "pool_ok p \<longleftrightarrow> pool_inv p \<and> (\<forall>q \<in> set (p_queue p). queue_inv q) \<and>
     (\<forall>t \<le> maxpid p. tid_workflow_instance p ! t \<noteq> None \<longrightarrow> tid_task p ! t \<noteq> None)"

definition has_queue :: "pool \<Rightarrow> string \<Rightarrow> bool" where
  "has_queue p n \<longleftrightarrow> queue_lookup (p_name p) n \<noteq> -1"

text \<open>Operations on the queues leave the table of identifiers alone.\<close>

definition same_table :: "pool \<Rightarrow> pool \<Rightarrow> bool" where
  "same_table p p' \<longleftrightarrow> maxpid p' = maxpid p \<and> tid_workflow_instance p' = tid_workflow_instance p \<and>
     tid_task p' = tid_task p \<and> p_name p' = p_name p"

lemma same_table_registered: "same_table p p' \<Longrightarrow> registered X p' = registered X p"
  by (simp add: same_table_def registered_def)

lemma same_table_has_queue: "same_table p p' \<Longrightarrow> has_queue p' = has_queue p"
  by (simp add: same_table_def has_queue_def fun_eq_iff)

lemma sum_list_update:
  fixes f :: "'a \<Rightarrow> 'b::comm_monoid_add"
  assumes "i < length xs"
  shows "sum_list (List.map f (xs[i := y])) + f (xs ! i) = sum_list (List.map f xs) + f y"
proof -
  have "sum_list (List.map f xs) = sum_list (List.map f (take i xs @ xs ! i # drop (Suc i) xs))"
    using id_take_nth_drop [OF assms] by simp
  then show ?thesis using assms by (simp add: upd_conv_take_nth_drop ac_simps)
qed

lemma queued_update:
  assumes "i < length (p_queue p)" and "p_queue p' = (p_queue p)[i := q]"
  shows "queued p' + mset (next_out (p_queue p ! i)) = queued p + mset (next_out q)"
  using sum_list_update [OF assms(1), of "\<lambda>q. mset (next_out q)" q] by (simp add: queued_def assms(2))

lemma next_out_ops [simp]: "next_out (ExecuteTask q) = next_out q" "next_out (TerminateTask q) = next_out q"
  "queue_inv (ExecuteTask q) = queue_inv q" "queue_inv (TerminateTask q) = queue_inv q"
  by (simp_all add: next_out_def ExecuteTask_def TerminateTask_def)

lemma queued_same:
  assumes "p_queue p' = (p_queue p)[i := q]" and "i < length (p_queue p)"
    and "next_out q = next_out (p_queue p ! i)"
  shows "queued p' = queued p"
  using queued_update [OF assms(2,1)] assms(3) by simp

lemma all_updated:
  "\<forall>q \<in> set qs. queue_inv q \<Longrightarrow> queue_inv q' \<Longrightarrow> \<forall>q \<in> set (qs[i := q']). queue_inv q"
  using set_update_subset_insert [of qs i q'] by auto

lemma has_queue_range:
  assumes "pool_inv p" and "has_queue p n"
  shows "nat (queue_lookup (p_name p) n) < length (p_queue p)"
  using assms queue_lookup_range(1) [of "p_name p" n] by (simp add: pool_inv_def has_queue_def)

lemma queue_size_le: "i < length (p_queue p) \<Longrightarrow> length (waiting (p_queue p ! i)) \<le> size (queued p)"
proof -
  assume i: "i < length (p_queue p)"
  have "queued p = sum_list (List.map (\<lambda>q. mset (next_out q)) (take i (p_queue p) @ p_queue p ! i # drop (Suc i) (p_queue p)))"
    using id_take_nth_drop [OF i] by (simp add: queued_def)
  then have "mset (next_out (p_queue p ! i)) \<subseteq># queued p" by (simp add: add_increasing2)
  then show ?thesis using size_mset_mono by (fastforce simp: next_out_def)
qed

lemma pool_enqueue_tasks:
  assumes ok: "pool_ok p" and n: "has_queue p n" and room: "size (queued p) + 1 < 2 ^ 32"
  obtains sig p' where "pool_enqueue n w t p = Some (True, sig, p')" and "pool_ok p'"
    and "same_table p p'" and "queued p' = add_mset (w, t) (queued p)"
proof -
  let ?i = "nat (queue_lookup (p_name p) n)"
  have i: "?i < length (p_queue p)" using has_queue_range ok n by (simp add: pool_ok_def)
  have q: "queue_inv (p_queue p ! ?i)" using ok i by (simp add: pool_ok_def)
  have "Suc (length (waiting (p_queue p ! ?i))) < 2 ^ 32" using queue_size_le [OF i] room by simp
  from EnqueueTask_inv [OF q this] obtain q' where q': "EnqueueTask w t (p_queue p ! ?i) = Some q'"
    "queue_inv q'" "waiting q' = waiting (p_queue p ! ?i) @ [(w, t)]" "cancelled q' = cancelled (p_queue p ! ?i)"
    by metis
  let ?p = "refresh (p\<lparr>p_queue := (p_queue p)[?i := q']\<rparr>)"
  have e: "pool_enqueue n w t p = Some (True, signals ?p, ?p)"
    using n q'(1) by (simp add: pool_enqueue_def has_queue_def Let_def)
  have "next_out q' = next_out (p_queue p ! ?i) @ [(w, t)]" by (simp add: next_out_def q')
  with queued_update [OF i, of ?p q'] have "queued ?p = add_mset (w, t) (queued p)" by simp
  moreover have "pool_ok ?p"
    using ok pool_enqueue_inv [OF _ e] all_updated [OF _ q'(2)] by (auto simp: pool_ok_def)
  moreover have "same_table p ?p" by (simp add: same_table_def)
  ultimately show thesis using that e by blast
qed

lemma pool_dequeue_tasks:
  assumes ok: "pool_ok p"
  obtains r p' where "pool_dequeue_scan p = Some (r, p')" and "pool_ok p'" and "same_table p p'"
    and "r = None \<Longrightarrow> queued p' = queued p"
    and "\<And>n x. r = Some (n, x) \<Longrightarrow> queued p = add_mset x (queued p') \<and> has_queue p n"
proof (cases "p_shutting_down p")
  case True
  then show thesis using that [of None p] ok by (simp add: pool_dequeue_scan_def same_table_def)
next
  case running: False
  let ?p = "p\<lparr>fork_locked := False\<rparr>"
  have inv: "pool_inv p" "\<forall>q \<in> set (p_queue p). queue_inv q" using ok by (simp_all add: pool_ok_def)
  show thesis
  proof (cases "\<forall>q \<in> set (p_queue p). IsLocked q")
    case True
    from task_queue.scan_all_locked [OF this]
    have scan: "pool_dequeue_scan p = Some (None, ?p\<lparr>p_queue := p_queue p\<rparr>)"
      using running by (simp add: pool_dequeue_scan_def)
    have "pool_ok (?p\<lparr>p_queue := p_queue p\<rparr>)"
      using ok pool_dequeue_scan_inv [OF inv(1) scan] by (simp add: pool_ok_def)
    then show thesis by (rule that [OF scan]) (simp_all add: same_table_def queued_def)
  next
    case False
    from task_queue.scan_first_open [OF inv(2) this]
    obtain i x q' where q': "i < length (p_queue p)" "queue_inv q'" "next_out (p_queue p ! i) = x # next_out q'"
      "scan_dequeue DequeueTask (p_queue p) = Some (Some (i, x), (p_queue p)[i := q'])" by blast
    let ?p' = "refresh (?p\<lparr>p_queue := (p_queue p)[i := q']\<rparr>)"
    have scan: "pool_dequeue_scan p = Some (Some (p_name p ! i, x), ?p')"
      using running q'(4) by (simp add: pool_dequeue_scan_def)
    have "pool_ok ?p'"
      using ok pool_dequeue_scan_inv [OF inv(1) scan] all_updated [OF inv(2) q'(2)] by (simp add: pool_ok_def)
    moreover have "queued p = add_mset x (queued ?p')"
      using queued_update [OF q'(1), of ?p' q'] q'(3) by simp
    moreover have "has_queue p (p_name p ! i)"
      using q'(1) inv(1) queue_table.lookup_fail_iff [of "p_name p"] by (simp add: has_queue_def pool_inv_def)
    ultimately show thesis using that [OF scan] by (simp add: same_table_def)
  qed
qed

text \<open>Updating one entry of the table.\<close>

lemma mset_filter_upd:
  assumes "t < n" and "\<not> P t" and "P' t" and "\<And>s. s \<noteq> t \<Longrightarrow> P' s = P s \<and> f' s = f s"
  shows "mset (List.map f' (List.filter P' [0..<n])) = add_mset (f' t) (mset (List.map f (List.filter P [0..<n])))"
proof -
  have n: "[0..<n] = [0..<t] @ t # [Suc t..<n]"
    using assms(1) by (metis upt_add_eq_append upt_conv_Cons le0 less_imp_le_nat less_imp_add_positive)
  have "List.map f' (List.filter P' xs) = List.map f (List.filter P xs)" if "t \<notin> set xs" for xs
    using that assms(4) by (induction xs) auto
  then show ?thesis using assms(2,3) by (simp add: n)
qed

lemma mset_filter_same:
  assumes "\<And>s. P' s = P s" and "\<And>s. P s \<Longrightarrow> f' s = f s"
  shows "mset (List.map f' (List.filter P' xs)) = mset (List.map f (List.filter P xs))"
  using assms by (induction xs) auto

lemma register_task_tasks:
  assumes ok: "pool_ok p" and i: "i < length (p_queue p)" and t: "t \<le> maxpid p"
    and free: "tid_workflow_instance p ! t = None"
  shows "pool_ok (register_task i w n t p)" and "queued (register_task i w n t p) = queued p"
    and "t \<notin> X \<Longrightarrow> registered X (register_task i w n t p) = add_mset (w, n) (registered X p)"
    and "t \<in> X \<Longrightarrow> registered X (register_task i w n t p) = registered X p"
proof -
  let ?p = "register_task i w n t p"
  have inv: "pool_inv p" using ok by (simp add: pool_ok_def)
  have len: "t < length (tid_workflow_instance p)" "t < length (tid_task p)"
    using inv t by (auto simp: pool_inv_def)
  have parts: "maxpid ?p = maxpid p" "tid_workflow_instance ?p = (tid_workflow_instance p)[t := Some w]"
    "tid_task ?p = (tid_task p)[t := Some n]" "p_queue ?p = (p_queue p)[i := ExecuteTask (p_queue p ! i)]"
    by (simp_all add: register_task_def)
  show "pool_ok ?p"
    using ok register_task_inv [OF inv i t free] all_updated [of "p_queue p" "ExecuteTask (p_queue p ! i)" i] i len
    by (auto simp: pool_ok_def parts nth_list_update)
  show "queued ?p = queued p" by (rule queued_same [OF parts(4) i]) simp
  show "registered X ?p = add_mset (w, n) (registered X p)" if "t \<notin> X"
    unfolding registered_def parts(1)
    by (subst mset_filter_upd [where t = t and P = "\<lambda>t. tid_workflow_instance p ! t \<noteq> None \<and> t \<notin> X"
          and f = "\<lambda>t. (the (tid_workflow_instance p ! t), the (tid_task p ! t))"])
       (use t free that len in \<open>auto simp: parts\<close>)
  show "registered X ?p = registered X p" if "t \<in> X"
    unfolding registered_def parts(1)
    by (rule mset_filter_same) (use that len in \<open>auto simp: parts nth_list_update\<close>)
qed

text \<open>\<open>ExecuteTask\<close> with a new identifier, when there is one; with a given one, when it is free.\<close>

definition free_tid :: "pool \<Rightarrow> bool" where
  "free_tid p \<longleftrightarrow> (\<exists>t < maxpid p. tid_workflow_instance p ! t = None)"

lemma registers:
  assumes ok: "pool_ok p" and n: "has_queue p n" and t: "t \<le> maxpid p"
    and free: "tid_workflow_instance p ! t = None" and same: "p1 = p \<or> p1 = p\<lparr>lasttid := t\<rparr>"
  shows "let p' = register_task (nat (queue_lookup (p_name p) n)) w k t p1 in
    pool_ok p' \<and> queued p' = queued p \<and> maxpid p' = maxpid p \<and> p_name p' = p_name p \<and>
    tid_workflow_instance p' = (tid_workflow_instance p)[t := Some w] \<and>
    tid_task p' = (tid_task p)[t := Some k] \<and>
    (\<forall>X. registered X p' = (if t \<in> X then registered X p else add_mset (w, k) (registered X p)))"
proof -
  have p1: "pool_ok p1" "queued p1 = queued p" "maxpid p1 = maxpid p" "p_name p1 = p_name p"
    "tid_workflow_instance p1 = tid_workflow_instance p" "tid_task p1 = tid_task p" "p_queue p1 = p_queue p"
    "\<And>X. registered X p1 = registered X p"
    using same ok by (auto simp: pool_ok_def pool_inv_def pool_locked_def queued_def registered_def)
  have i: "nat (queue_lookup (p_name p) n) < length (p_queue p1)"
    using has_queue_range ok n p1 by (simp add: pool_ok_def)
  note r = register_task_tasks [OF p1(1) i, of t]
  show ?thesis
    using r t free by (simp add: Let_def p1) (simp add: register_task_def p1)
qed

lemma pool_execute_new:
  assumes ok: "pool_ok p" and n: "has_queue p n" and free: "free_tid p"
  obtains t sig p' where "pool_execute w k n 0 p = Some (int t, sig, p')" and "t \<le> maxpid p"
    and "tid_workflow_instance p ! t = None" and "pool_ok p'" and "queued p' = queued p"
    and "maxpid p' = maxpid p" and "p_name p' = p_name p"
    and "tid_workflow_instance p' = (tid_workflow_instance p)[t := Some w]"
    and "tid_task p' = (tid_task p)[t := Some k]"
    and "\<And>X. registered X p' = (if t \<in> X then registered X p else add_mset (w, k) (registered X p))"
proof -
  obtain j t where l: "tid_loop (tid_workflow_instance p) (maxpid p) (lasttid p) 0 0 = (j, t)" by fastforce
  have "j \<noteq> maxpid p" using free tid_loop_complete l unfolding free_tid_def by blast
  with tid_loop_spec [OF _ l] have t: "t < maxpid p" "tid_workflow_instance p ! t = None" by auto
  let ?p = "register_task (nat (queue_lookup (p_name p) n)) w k t (p\<lparr>lasttid := t\<rparr>)"
  have "pool_execute w k n 0 p = Some (int t, signals ?p, ?p)"
    using n l \<open>j \<noteq> maxpid p\<close> by (simp add: pool_execute_def has_queue_def Let_def)
  with t registers [OF ok n, of t "p\<lparr>lasttid := t\<rparr>" w k] show thesis
    by (intro that [of t "signals ?p" ?p]) (simp_all add: Let_def)
qed

lemma pool_execute_given:
  assumes ok: "pool_ok p" and n: "has_queue p n" and tid: "0 < tid" "nat tid \<le> maxpid p"
    and free: "tid_workflow_instance p ! nat tid = None"
  obtains sig p' where "pool_execute w k n tid p = Some (tid, sig, p')" and "pool_ok p'"
    and "queued p' = queued p" and "maxpid p' = maxpid p" and "p_name p' = p_name p"
    and "tid_workflow_instance p' = (tid_workflow_instance p)[nat tid := Some w]"
    and "tid_task p' = (tid_task p)[nat tid := Some k]"
    and "\<And>X. registered X p' = (if nat tid \<in> X then registered X p else add_mset (w, k) (registered X p))"
proof -
  let ?p = "register_task (nat (queue_lookup (p_name p) n)) w k (nat tid) p"
  have "pool_execute w k n tid p = Some (tid, signals ?p, ?p)"
    using n tid by (simp add: pool_execute_def has_queue_def Let_def)
  with tid free registers [OF ok n, of "nat tid" p w k] show thesis
    by (intro that [of "signals ?p" ?p]) (simp_all add: Let_def)
qed

lemma pool_terminate_tasks:
  assumes ok: "pool_ok p" and t: "t \<le> maxpid p" and w: "tid_workflow_instance p ! t = Some w"
    and k: "tid_task p ! t = Some k"
  obtains sig p' where "pool_terminate (int t) p = Some (Some (w, Some k), sig, p')" and "pool_ok p'"
    and "queued p' = queued p" and "maxpid p' = maxpid p" and "p_name p' = p_name p"
    and "tid_workflow_instance p' = (tid_workflow_instance p)[t := None]"
    and "tid_task p' = (tid_task p)[t := None]"
    and "\<And>X. registered X p = (if t \<in> X then registered X p' else add_mset (w, k) (registered X p'))"
proof -
  have inv: "pool_inv p" using ok by (simp add: pool_ok_def)
  have len: "t < length (tid_workflow_instance p)" "t < length (tid_task p)"
    using inv t by (auto simp: pool_inv_def)
  let ?i = "tid_queue_index p ! t"
  have i: "?i < length (p_queue p)" using inv t w by (simp add: pool_inv_def)
  let ?p = "refresh (p\<lparr>p_queue := (p_queue p)[?i := TerminateTask (p_queue p ! ?i)],
                      tid_queue_index := (tid_queue_index p)[t := 0],
                      tid_task := (tid_task p)[t := None],
                      tid_workflow_instance := (tid_workflow_instance p)[t := None]\<rparr>)"
  have e: "pool_terminate (int t) p = Some (Some (w, Some k), signals ?p, ?p)"
    using t w k i by (simp add: pool_terminate_def Let_def)
  have "pool_ok ?p"
    using ok pool_terminate_inv [OF inv e] all_updated [of "p_queue p" "TerminateTask (p_queue p ! ?i)" ?i] i len
    by (auto simp: pool_ok_def nth_list_update)
  moreover have "queued ?p = queued p" by (rule queued_same [OF _ i, of _ "TerminateTask (p_queue p ! ?i)"]) simp_all
  moreover have parts: "maxpid ?p = maxpid p" "tid_workflow_instance ?p = (tid_workflow_instance p)[t := None]"
    "tid_task ?p = (tid_task p)[t := None]" by simp_all
  have "registered X p = (if t \<in> X then registered X ?p else add_mset (w, k) (registered X ?p))" for X
  proof (cases "t \<in> X")
    case True
    have "registered X ?p = registered X p"
      unfolding registered_def parts by (rule mset_filter_same) (use True len in \<open>auto simp: nth_list_update\<close>)
    with True show ?thesis by simp
  next
    case False
    have "registered X p = add_mset (the (tid_workflow_instance p ! t), the (tid_task p ! t)) (registered X ?p)"
      unfolding registered_def
      by (subst mset_filter_upd [where t = t and P = "\<lambda>s. tid_workflow_instance ?p ! s \<noteq> None \<and> s \<notin> X"
            and f = "\<lambda>s. (the (tid_workflow_instance ?p ! s), the (tid_task ?p ! s))"])
         (use t False len w in auto)
    with False w k show ?thesis by simp
  qed
  with calculation show thesis using that [OF e] by simp
qed

lemma pool_terminate_unknown:
  assumes "0 \<le> tid" and "nat tid \<le> maxpid p" and "tid_workflow_instance p ! nat tid = None"
  shows "pool_terminate tid p = Some (None, False, p)"
  using assms by (simp add: pool_terminate_def)

text \<open>
  Cancelling keeps every task, as long as no queue has its last waiting task cancelled while
  others stay.
\<close>

definition cancel_safe :: "(wi_ref \<Rightarrow> u32) \<Rightarrow> u32 \<Rightarrow> pool \<Rightarrow> bool" where
  "cancel_safe f w p \<longleftrightarrow> (\<forall>q \<in> set (p_queue p).
     (\<forall>x \<in> set (waiting q). hit f w x) \<or> \<not> hit f w (last (waiting q)))"

lemma cancel_all_tasks:
  assumes "\<forall>q \<in> set qs. queue_inv q"
    and "\<forall>q \<in> set qs. (\<forall>x \<in> set (waiting q). hit f w x) \<or> \<not> hit f w (last (waiting q))"
  shows "\<exists>qs'. cancel_all f w qs = Some qs' \<and> (\<forall>q \<in> set qs'. queue_inv q) \<and>
    sum_list (List.map (\<lambda>q. mset (next_out q)) qs') = sum_list (List.map (\<lambda>q. mset (next_out q)) qs)"
  using assms
proof (induction qs)
  case (Cons q qs)
  have "queue_wf q" using Cons.prems(1) by (simp add: queue_inv_def)
  then obtain q' where q': "CancelTasks f w q = Some q'" "waiting q' = List.filter (\<lambda>x. \<not> hit f w x) (waiting q)"
    "cancelled q' = rev (List.filter (hit f w) (waiting q)) @ cancelled q"
    "queue_inv q \<Longrightarrow> (\<forall>x \<in> set (waiting q). hit f w x) \<or> \<not> hit f w (last (waiting q)) \<Longrightarrow> queue_inv q'"
    using CancelTasks_wf [of q f w] by metis
  have "mset (List.filter (hit f w) (waiting q)) + mset (List.filter (\<lambda>x. \<not> hit f w x) (waiting q)) = mset (waiting q)"
    by (simp add: multiset_partition [symmetric])
  then have "mset (next_out q') = mset (next_out q)" by (simp add: next_out_def q'(2,3) ac_simps)
  with Cons q'(1,4) show ?case by auto
qed simp

lemma pool_cancel_tasks:
  assumes ok: "pool_ok p" and "cancel_safe f w p"
  obtains sig p' where "pool_cancel f w p = Some (True, sig, p')" and "pool_ok p'" and "same_table p p'"
    and "queued p' = queued p"
proof -
  from cancel_all_tasks [of "p_queue p" f w] assms obtain qs where qs: "cancel_all f w (p_queue p) = Some qs"
    "\<forall>q \<in> set qs. queue_inv q"
    "sum_list (List.map (\<lambda>q. mset (next_out q)) qs) = sum_list (List.map (\<lambda>q. mset (next_out q)) (p_queue p))"
    by (auto simp: pool_ok_def cancel_safe_def)
  let ?p = "refresh (p\<lparr>p_queue := qs\<rparr>)"
  have e: "pool_cancel f w p = Some (True, signals ?p, ?p)" using qs(1) by (simp add: pool_cancel_def Let_def)
  have "pool_ok ?p" using ok pool_cancel_inv [OF _ e] qs(2) by (simp add: pool_ok_def)
  with qs(3) show thesis by (intro that [OF e]) (simp_all add: same_table_def queued_def)
qed

end
