(* ===== verification/Instance_Frame.thy ===== *)
theory Instance_Frame
  imports Instance_Lifecycle
begin

text \<open>
  What every operation of an instance respects. \<open>job_frame\<close> covers the running of jobs; this
  contract extends it with the other things an operation does to the instance, so that a relation
  which allows them holds across each of the operations.
\<close>

text \<open>What an operation asks for itself, besides queueing a task.\<close>

definition own_call :: "call \<Rightarrow> bool" where
  "own_call c = (case c of
     Call_Execute t q i \<Rightarrow> True | Call_Retry t d \<Rightarrow> True | Call_Save q b \<Rightarrow> True | Call_IncErrors \<Rightarrow> True
   | Call_Errlog f s \<Rightarrow> True | Call_Kill p \<Rightarrow> True | _ \<Rightarrow> False)"

lemma own_call_simps [simp]:
  "own_call (Call_Execute t q i)" "own_call (Call_Retry t d)" "own_call (Call_Save v b)" "own_call Call_IncErrors"
  "own_call (Call_Errlog f x)" "own_call (Call_Kill p)"
  by (simp_all add: own_call_def)

locale instance_frame = job_frame +
  assumes running: "R s (s\<lparr>running_tasks := n\<rparr>)"
    and retrying: "R s (s\<lparr>retrying_tasks := n\<rparr>)"
    and own: "own_call c \<Longrightarrow> R s (emit c s)"
begin

lemma put_root: "R s (put_root a v s)"
  unfolding put_root_def by (rule put)

lemma abort_task: "R s (abort_task n r s)"
  unfolding abort_task_def by (rule trans [OF put2 error])

lemma save_tries: "save_tries E' q k s = Some s' \<Longrightarrow> R s s'"
proof (rule save_tries.raw_induct [where P = "\<lambda>E q k s s'. R s s'", rotated])
  show "save_tries E' q k s = Some s' \<Longrightarrow> save_tries E' q k s = Some s'" .
next
  fix again :: "env \<Rightarrow> save \<Rightarrow> nat \<Rightarrow> wf_instance \<Rightarrow> wf_instance option" and E'' :: env and q k s s'
  assume IH: "\<And>E q k s s'. again E q k s = Some s' \<Longrightarrow> R s s'"
  let ?t = "emit (Call_Save q (e_db E'' k)) s"
  assume "(let s = ?t in if e_db E'' k then Some s
      else if savepoint_retry s \<and> (savepoint_retry_times s = 0 \<or> k + 1 \<le> unat (savepoint_retry_times s))
        then again E'' q (k + 1) s else Some s) = Some s'"
  then have "s' = ?t \<or> again E'' q (k + 1) ?t = Some s'" by (auto simp: Let_def split: if_splits)
  then show "R s s'"
  proof
    assume "again E'' q (k + 1) ?t = Some s'"
    from trans [OF own IH [OF this]] show ?thesis by simp
  qed (simp add: own)
qed

lemma workflow_ended: "workflow_ended s = (b, s') \<Longrightarrow> R s s'"
proof -
  have "R s (put_root a v s)" "R s (emit Call_IncErrors (put_root a v (put_root c w s)))" for a v c w
    by (rule put_root, rule trans [OF trans [OF put_root put_root] own]) simp
  then show "workflow_ended s = (b, s') \<Longrightarrow> R s s'"
    by (auto simp: workflow_ended_def Let_def refl split: if_splits)
qed

lemma record_savepoint: "record_savepoint E' f s = Some s' \<Longrightarrow> R s s'"
proof -
  have "R s s'" if "save_tries E' q k (put_root a v (put_root c w s)) = Some s'" for q k a v c w
    by (rule trans [OF trans [OF put_root put_root] save_tries [OF that]])
  then show "record_savepoint E' f s = Some s' \<Longrightarrow> R s s'"
    unfolding record_savepoint_def by (auto simp: Let_def refl dest: save_tries split: if_splits)
qed

lemma finish: "finish E' s = Some (b, s') \<Longrightarrow> R s s'"
  unfolding finish_def by (auto split: prod.splits intro: trans [OF workflow_ended record_savepoint])

lemma finish_after: "R s t \<Longrightarrow> finish E' t = Some (b, s') \<Longrightarrow> R s s'"
  by (rule trans [OF _ finish])

lemma schedule_update: "schedule_update E' task n info s = Some (info', s') \<Longrightarrow> R s s'"
  unfolding schedule_update_def Let_def
  by (auto simp: refl bind_eq_Some_conv intro: put trans [OF put2 put] trans [OF put put2] split: if_splits option.splits)

lemma retry_task:
  assumes "retry_task E' task s = Some s'"
  shows "R s s'"
proof -
  have attributes: "R t u" if "retry_attributes E' task t = Some (i, u)" for t i u
    using that unfolding retry_attributes_def by (auto simp: refl bind_eq_Some_conv split: option.splits)
  have first: "R t u" if "retry_begin E' task t = Some (i, u)" for t i u
    using that unfolding retry_begin_def
    by (auto simp: bind_eq_Some_conv split: option.splits if_splits prod.splits intro: attributes schedule_update)
  have further: "R t u" if "retry_next_level E' task i t = Some (j, u)" for t i j u
    using that unfolding retry_next_level_def
    by (auto simp: refl bind_eq_Some_conv dest: schedule_update split: if_splits option.splits)
  have scheduled: "R t (schedule_retry E' task d k t)" for t d k
    unfolding schedule_retry_def Let_def by (rule trans [OF trans [OF put2 own] retrying]) simp
  obtain i s1 where s1: "retry_begin E' task s = Some (i, s1)"
    using assms by (auto simp: retry_task_def bind_eq_Some_conv)
  show ?thesis
  proof (cases i)
    case None
    with assms s1 trans [OF first [OF s1] error] show ?thesis by (simp add: retry_task_def)
  next
    case (Some info)
    then obtain j s2 where s2: "retry_next_level E' task info s1 = Some (j, s2)"
      using assms s1 by (auto simp: retry_task_def bind_eq_Some_conv)
    have "R s s2" by (rule trans [OF first [OF s1] further [OF s2]])
    moreover have "R s2 s'" using assms s1 s2 Some error scheduled
      by (auto simp: retry_task_def bind_eq_Some_conv refl split: if_splits)
    ultimately show ?thesis by (rule trans)
  qed
qed

section \<open>The operations\<close>

lemma Start: "Start E s = Some (b, s') \<Longrightarrow> R s s'"
  unfolding Start_def Let_def
  by (auto simp: bind_eq_Some_conv intro: finish_after trans [OF trans [OF trans [OF put_root put_root] put_root] try_subjobs]
      split: if_splits)

lemma TaskRestart: "TaskRestart E task s = Some (b, s') \<Longrightarrow> R s s'"
  unfolding TaskRestart_def by (auto simp: bind_eq_Some_conv intro: finish_after trans [OF enqueue retrying])

lemma drop_task: "drop_task E' task r s = Some (b, s') \<Longrightarrow> R s s'"
  unfolding drop_task_def Let_def by (rule finish_after [OF trans [OF abort_task running]])

lemma mark_executing: "R s (mark_executing E' task pid tid s)"
  unfolding mark_executing_def by (rule trans [OF put2 put2])

lemma TaskExecute: "TaskExecute E' task tid forked s = Some (pid, b, s') \<Longrightarrow> R s s'"
  unfolding TaskExecute_def
  by (auto split: if_splits sum.splits intro: drop_task finish_after [OF mark_executing])

lemma mark_stopped: "mark_stopped E' task retval s = (n, s') \<Longrightarrow> R s s'"
  unfolding mark_stopped_def by (auto simp: Let_def intro: trans [OF put2 set_doc] split: prod.splits)

lemma output_text: "R s (output_text task n out s)"
  unfolding output_text_def by (auto simp: Let_def intro: trans [OF put set_doc] split: prod.splits)

lemma output_xml: "R s (output_xml E' task n out s)"
proof -
  note stored = trans [OF trans [OF set_doc put] set_doc]
  have "R s (abort_task task r (emit (Call_Errlog f out) s))" for r f
    by (rule trans [OF own abort_task]) simp
  then show ?thesis
    unfolding output_xml_def Let_def
    by (split option.split prod.split if_split)+ (blast intro: abort_task stored)
qed

lemma stop_success: "R s (stop_success E' task n out s)"
  unfolding stop_success_def
  by (auto simp: refl intro: abort_task output_xml output_text split: sum.splits task_output_method.splits)

lemma stop_failure: "stop_failure E' task n out s = Some s' \<Longrightarrow> R s s'"
  unfolding stop_failure_def Let_def
  by (auto intro: trans [OF output_text put] trans [OF output_text retry_task] split: if_splits)

lemma continue_job: "continue_job E task s = Some s' \<Longrightarrow> R s s'"
  unfolding continue_job_def by (auto simp: Let_def intro: refl try_subjobs split: option.splits if_splits)

lemma TaskStop:
  assumes "TaskStop E task retval out s = Some (b, s')"
  shows "R s s'"
proof -
  obtain n t0 where t0: "mark_stopped E task retval s = (n, t0)" by fastforce
  obtain t1 t2 where t1: "t1 = stop_success E task n out t0 \<or> stop_failure E task n out t0 = Some t1"
    and t2: "continue_job E task t1 = Some t2"
    and s': "finish E (t2\<lparr>running_tasks := running_tasks t2 - 1\<rparr>) = Some (b, s')"
    using assms t0 unfolding TaskStop_def by (auto simp: bind_eq_Some_conv Let_def split: if_splits)
  have "R t0 t1" using t1 stop_success stop_failure by blast
  with mark_stopped [OF t0] continue_job [OF t2] have "R s t2" by (blast intro: trans)
  then show ?thesis using finish_after [OF trans [OF _ running] s'] by blast
qed

lemma resume_task: "resume_task E task s = Some s' \<Longrightarrow> R s s'"
  unfolding resume_task_def
  by (auto simp: Let_def bind_eq_Some_conv refl intro: enqueue retry_task trans [OF own running] split: if_splits)

lemma resume_tasks: "resume_tasks E tasks s = Some s' \<Longrightarrow> R s s'"
  by (induction tasks arbitrary: s) (auto simp: bind_eq_Some_conv intro: refl trans resume_task)

lemma Resume: "Resume E s = Some (b, s') \<Longrightarrow> R s s'"
  unfolding Resume_def by (auto simp: bind_eq_Some_conv intro: finish_after resume_tasks)

lemma KillTask: "R s (snd (KillTask pid s))"
proof -
  have "R s (fold (\<lambda>t. emit (Call_Kill pid)) ts s)" for ts
  proof (induction ts arbitrary: s)
    case (Cons t ts)
    have "R s (emit (Call_Kill pid) s)" by (rule own) simp
    from trans [OF this Cons.IH] show ?case by simp
  qed (simp add: refl)
  then show ?thesis by (simp add: KillTask_def Let_def)
qed

lemmas operations = Start Resume TaskRestart TaskExecute TaskStop

end

end
