(* ===== verification/Instance_Queues.thy ===== *)
theory Instance_Queues
  imports Instance_Frame
begin

text \<open>
  The queues an instance names: it hands a task to \<open>EnqueueTask\<close> and counts it as running only
  when the queue exists.
\<close>

definition names_queue :: "env \<Rightarrow> call \<Rightarrow> bool" where
  "names_queue E c = (case c of Call_Enqueue t q \<Rightarrow> e_queue E q | _ \<Rightarrow> True)"

definition asks :: "env \<Rightarrow> wf_instance \<Rightarrow> wf_instance \<Rightarrow> bool" where
  "asks E s s' \<longleftrightarrow> (\<exists>cs. calls s' = calls s @ cs \<and> list_all (names_queue E) cs)"

lemma asks_refl: "asks E s s"
  by (simp add: asks_def)

lemma asks_trans: "asks E s t \<Longrightarrow> asks E t u \<Longrightarrow> asks E s u"
  by (fastforce simp: asks_def)

lemma asks_same: "calls s' = calls s \<Longrightarrow> asks E s s'"
  by (simp add: asks_def)

lemma asks_new: "asks E s s' \<Longrightarrow> list_all (names_queue E) (new_calls s s')"
  by (auto simp: asks_def new_calls_def)

lemma enqueue_task_asks:
  assumes "enqueue_task E task s = Some s'"
  shows "asks E s s'"
proof -
  have "asks E s (abort_task task r t)" "asks E s t" if "calls t = calls s" for r t
    using that by (simp_all add: asks_same)
  moreover have "asks E s (emit (Call_Enqueue task q) t\<lparr>running_tasks := n\<rparr>)"
    if "calls t = calls s" and "e_queue E q" for t q n
    using that by (simp add: asks_def names_queue_def)
  ultimately show ?thesis using assms unfolding enqueue_task_def
    by (auto simp: Let_def split: if_splits option.splits)
qed

lemma own_call_asks: "own_call c \<Longrightarrow> asks E s (emit c s)"
  by (auto simp: asks_def emit_def own_call_def names_queue_def split: call.splits)

interpretation asking: instance_frame E "asks E" for E
  by unfold_locales (auto intro: asks_refl asks_trans asks_same enqueue_task_asks own_call_asks)

lemmas Start_asks = asking.Start
  and Resume_asks = asking.Resume
  and TaskRestart_asks = asking.TaskRestart
  and TaskExecute_asks = asking.TaskExecute
  and TaskStop_asks = asking.TaskStop

end
