(* ===== verification/Process_Manager.thy ===== *)
theory Process_Manager
  imports Pool_Tasks Retrier Instance_Queues
begin

text \<open>
  The process manager (\<open>ProcessManager.cpp\<close>) with the components it drives: the pool, the
  retrier and the instances in memory. The forker takes a task from the pool, registers it and has
  its instance execute it; the gatherer receives the exit messages of the monitors, takes the task
  back from the pool and has its instance stop it. Both delete an instance that has ended.

  An instance's operation runs under the lock of the instance; what it asks of the pool and the
  retrier meanwhile (\<open>calls\<close>) is delivered at its end. Between the operations the threads
  interleave, so each holds the task it is working on in its own part of the state.
\<close>

section \<open>State\<close>

text \<open>The local variables of the forker.\<close>

datatype forking =
    Fork_Idle
  | Fork_Got string wi_ref node      \<comment> \<open>\<open>DequeueTask\<close> has returned\<close>
  | Fork_Registered int wi_ref node  \<comment> \<open>\<open>ExecuteTask\<close> has returned an identifier\<close>

text \<open>
  \<open>timers\<close> are the tasks taken from the retrier by an alarm or a flush whose restart is still to
  come, \<open>gathering\<close> the task the gatherer has taken from the pool, with its exit code and output,
  \<open>objects\<close> the instances in memory, \<open>log_files\<close> the files of the log directory.
\<close>

record engine =
  qp :: pool
  retrier :: retrier
  timers :: "(wi_ref \<times> node) list"
  objects :: "wi_ref \<rightharpoonup> wf_instance"
  forking :: forking
  gathering :: "(wi_ref \<times> node \<times> int \<times> string) option"
  log_files :: "string \<rightharpoonup> string"

record process_manager =
  logs_dir :: string
  logs_delete :: bool
  pm_shutting_down :: bool

text \<open>
  The constructor: \<open>None\<close> when an entry of the configuration is missing. \<open>msgqid\<close> is the
  result of \<open>msgget\<close>.
\<close>

definition ProcessManager_new :: "config \<Rightarrow> int \<Rightarrow> (exn + process_manager) option" where
  "ProcessManager_new c msgqid = do {
     dir \<leftarrow> config_Get ''processmanager.logs.directory'' c;
     delete \<leftarrow> config_GetBool ''processmanager.logs.delete'' c;
     Some (if msgqid = -1 then Inl (Exception ''ProcessManager'' ''Unable to get message queue'')
       else Inr \<lparr>logs_dir = dir, logs_delete = delete, pm_shutting_down = False\<rparr>) }"

section \<open>Operations\<close>

text \<open>What an instance asked for during an operation; \<open>None\<close> is undefined behaviour.\<close>

fun deliver :: "wi_ref \<Rightarrow> call list \<Rightarrow> pool \<times> retrier \<Rightarrow> (pool \<times> retrier) option" where
  "deliver w [] (p, r) = Some (p, r)"
| "deliver w (Call_Enqueue t q # cs) (p, r) =
     (case pool_enqueue q w t p of None \<Rightarrow> None | Some (_, _, p) \<Rightarrow> deliver w cs (p, r))"
| "deliver w (Call_Execute t q tid # cs) (p, r) =
     (case pool_execute w t q tid p of None \<Rightarrow> None | Some (_, _, p) \<Rightarrow> deliver w cs (p, r))"
| "deliver w (Call_Retry t at # cs) (p, r) = deliver w cs (p, snd (InsertTask w t at r))"
| "deliver w (c # cs) (p, r) = deliver w cs (p, r)"

text \<open>The instance sees the queues of the pool.\<close>

definition seeing :: "engine \<Rightarrow> env \<Rightarrow> env" where
  "seeing g E = E\<lparr>e_queue := has_queue (qp g)\<rparr>"

text \<open>
  After an operation of instance \<open>w\<close> from \<open>s\<close> to \<open>s'\<close>: its calls, and its deletion when it
  has ended.
\<close>

definition settle :: "wi_ref \<Rightarrow> wf_instance \<Rightarrow> bool \<times> wf_instance \<Rightarrow> engine \<Rightarrow> engine option" where
  "settle w s r g = (case r of (workflow_terminated, s') \<Rightarrow>
     map_option (\<lambda>(p, rt). g\<lparr>qp := p, retrier := rt,
         objects := (objects g)(w := if workflow_terminated then None else Some s')\<rparr>)
       (deliver w (new_calls s s') (qp g, retrier g)))"

text \<open>
  \<open>Fork\<close>: one turn of the loop in three steps. \<open>DequeueTask\<close> returns false at shutdown, which
  ends the thread: the state stays idle.
\<close>

definition fork_dequeue :: "engine \<Rightarrow> engine option" where
  "fork_dequeue g = (case pool_dequeue_scan (qp g) of
       None \<Rightarrow> None
     | Some (None, p) \<Rightarrow> Some (g\<lparr>qp := p\<rparr>)
     | Some (Some (n, w, t), p) \<Rightarrow> Some (g\<lparr>qp := p, forking := Fork_Got n w t\<rparr>))"

definition fork_register :: "engine \<Rightarrow> engine option" where
  "fork_register g = (case forking g of
       Fork_Got n w t \<Rightarrow>
         (case pool_execute w t n 0 (qp g) of
            None \<Rightarrow> None
          | Some (tid, _, p) \<Rightarrow> Some (g\<lparr>qp := p, forking := Fork_Registered tid w t\<rparr>))
     | _ \<Rightarrow> None)"

definition fork_execute :: "env \<Rightarrow> int \<Rightarrow> engine \<Rightarrow> engine option" where
  "fork_execute E forked g = (case forking g of
       Fork_Registered tid w t \<Rightarrow> do {
         s \<leftarrow> objects g w;
         (pid, workflow_terminated, s') \<leftarrow> TaskExecute (seeing g E) t tid forked s;
         g \<leftarrow> settle w s (workflow_terminated, s') g;
         p \<leftarrow> (if pid = -1 then map_option (snd \<circ> snd) (pool_terminate tid (qp g)) else Some (qp g));
         Some (g\<lparr>qp := p, forking := Fork_Idle\<rparr>) }
     | _ \<Rightarrow> None)"

text \<open>
  \<open>Gather\<close>: a message (the process of the monitor, the task identifier, the exit code). A message
  without a process is a request to shut down, ignored when there is no shutdown. The output is read
  before the identifier is released; without it the task is stopped with -1. The name of the log
  file is written into a buffer with room for 16 characters after the directory's name.
\<close>

definition log_filename :: "process_manager \<Rightarrow> int \<Rightarrow> string" where
  "log_filename pm tid = logs_dir pm @ ''/'' @ show_int tid @ ''.log''"

datatype gathered = Gather_Exit engine | Gather_Next engine

definition gather_receive :: "process_manager \<Rightarrow> int \<times> int \<times> int \<Rightarrow> engine \<Rightarrow> gathered option" where
  "gather_receive pm m g = (case m of (pid, tid, retcode) \<Rightarrow>
     if pid = 0 then Some (if pm_shutting_down pm then Gather_Exit g else Gather_Next g)
     else if length (logs_dir pm) + 16 < length (log_filename pm tid) + 1 then None
     else
       let file = log_filename pm tid;
           output = log_files g file;
           g = g\<lparr>log_files := (if logs_delete pm then (log_files g)(file := None) else log_files g)\<rparr>
       in case pool_terminate tid (qp g) of
            None \<Rightarrow> None
          | Some (None, _, p) \<Rightarrow> Some (Gather_Next (g\<lparr>qp := p\<rparr>))
          | Some (Some (w, None), _, p) \<Rightarrow> None
          | Some (Some (w, Some t), _, p) \<Rightarrow> Some (Gather_Next (g\<lparr>qp := p, gathering := Some (case output of
                Some out \<Rightarrow> (w, t, retcode, out)
              | None \<Rightarrow> (w, t, -1,
                  ''[ ProcessManager ] Could not read task log, setting retcode to -1 to block subjobs''))\<rparr>)))"

definition gather_stop :: "env \<Rightarrow> engine \<Rightarrow> engine option" where
  "gather_stop E g = do {
     (w, t, retval, output) \<leftarrow> gathering g;
     s \<leftarrow> objects g w;
     r \<leftarrow> TaskStop (seeing g E) t retval output s;
     settle w s r (g\<lparr>gathering := None\<rparr>) }"

text \<open>\<open>Retrier::event_removed\<close> for a task taken from the retrier.\<close>

definition timer_restart :: "env \<Rightarrow> wi_ref \<times> node \<Rightarrow> engine \<Rightarrow> engine option" where
  "timer_restart E x g = do {
     s \<leftarrow> objects g (fst x);
     r \<leftarrow> TaskRestart (seeing g E) (snd x) s;
     settle (fst x) s r (g\<lparr>timers := remove1 x (timers g)\<rparr>) }"

definition timed :: "timed_task event \<Rightarrow> wi_ref \<times> node" where
  "timed e = (tt_instance (payload e), tt_task (payload e))"

definition timer_alarm :: "int \<Rightarrow> engine \<Rightarrow> engine" where
  "timer_alarm now g = (case shift_event now (r_sched (retrier g)) of
       (None, s) \<Rightarrow> g
     | (Some e, s) \<Rightarrow> g\<lparr>retrier := (retrier g)\<lparr>r_sched := s\<rparr>, timers := timers g @ [timed e]\<rparr>)"

definition instance_ids :: "engine \<Rightarrow> wi_ref \<Rightarrow> u32" where
  "instance_ids g w = (case objects g w of Some s \<Rightarrow> workflow_instance_id s | None \<Rightarrow> 0)"

definition flush_instance :: "u32 \<Rightarrow> engine \<Rightarrow> engine" where
  "flush_instance i g = (case FlushWorkflowInstance (instance_ids g) i (retrier g) of
     (_, gone, r) \<Rightarrow> g\<lparr>retrier := r, timers := timers g @ List.map timed gone\<rparr>)"

text \<open>\<open>Flush\<close> without a filter: every task waiting for a retry is taken out, to be restarted.\<close>

definition flush_retrier :: "engine \<Rightarrow> engine" where
  "flush_retrier g = (case Flush flush_filter_default False (r_sched (retrier g)) of
     (_, gone, s) \<Rightarrow> g\<lparr>retrier := (retrier g)\<lparr>r_sched := s\<rparr>, timers := timers g @ List.map timed gone\<rparr>)"

definition cancel_queued :: "u32 \<Rightarrow> engine \<Rightarrow> engine option" where
  "cancel_queued i g = map_option (\<lambda>(_, _, p). g\<lparr>qp := p\<rparr>) (pool_cancel (instance_ids g) i (qp g))"

text \<open>\<open>Shutdown\<close>: the pool is told, and the gatherer gets a message of zeros.\<close>

definition pm_Shutdown :: "process_manager \<Rightarrow> engine \<Rightarrow> process_manager \<times> engine \<times> (int \<times> int \<times> int)" where
  "pm_Shutdown pm g = (pm\<lparr>pm_shutting_down := True\<rparr>, g\<lparr>qp := snd (pool_shutdown (qp g))\<rparr>, (0, 0, 0))"

end
