(* ===== verification/Engine_State.thy ===== *)
theory Engine_State
  imports Process_Manager
begin

text \<open>
  Where the tasks of every instance are, between the pool, the retrier and the threads, and the
  invariant of the whole: seen from one instance, the engine is a life of that instance
  (\<open>Instance_Lifecycle\<close>).
\<close>

section \<open>The tasks in the engine\<close>

type_synonym tasks = "(wi_ref \<times> node) multiset"

definition forker_tasks :: "engine \<Rightarrow> tasks" where
  "forker_tasks g = (case forking g of Fork_Idle \<Rightarrow> {#} | Fork_Got n w t \<Rightarrow> {#(w, t)#}
     | Fork_Registered tid w t \<Rightarrow> {#(w, t)#})"

definition forker_tids :: "engine \<Rightarrow> nat set" where
  "forker_tids g = (case forking g of Fork_Registered tid w t \<Rightarrow> {nat tid} | _ \<Rightarrow> {})"

definition to_start :: "engine \<Rightarrow> tasks" where
  "to_start g = queued (qp g) + forker_tasks g"

definition at_work :: "engine \<Rightarrow> tasks" where
  "at_work g = registered (forker_tids g) (qp g) +
     (case gathering g of None \<Rightarrow> {#} | Some (w, t, _) \<Rightarrow> {#(w, t)#})"

definition events_of :: "retrier \<Rightarrow> tasks" where
  "events_of r = mset (List.map timed (first_event (r_sched r)))"

definition to_retry :: "engine \<Rightarrow> tasks" where
  "to_retry g = events_of (retrier g) + mset (timers g)"

definition total :: "engine \<Rightarrow> nat" where
  "total g = size (to_start g) + size (at_work g) + size (to_retry g)"

definition tasks_of :: "wi_ref \<Rightarrow> tasks \<Rightarrow> node multiset" where
  "tasks_of w M = image_mset snd (filter_mset (\<lambda>x. fst x = w) M)"

lemma tasks_of_simps [simp]:
  "tasks_of w {#} = {#}" "tasks_of w (M + N) = tasks_of w M + tasks_of w N"
  "tasks_of w (add_mset (v, t) M) = (if v = w then add_mset t (tasks_of w M) else tasks_of w M)"
  by (simp_all add: tasks_of_def)

lemma tasks_of_calls [simp]: "tasks_of w (image_mset (Pair v) M) = (if v = w then M else {#})"
  by (induction M) auto

lemma tasks_of_size: "size (tasks_of w M) \<le> size M"
  by (simp add: tasks_of_def size_filter_mset_lesseq)

lemma tasks_of_mem: "(w, t) \<in># M \<Longrightarrow> tasks_of w M \<noteq> {#}"
  by (induction M) (auto split: if_splits)

section \<open>The invariant\<close>

definition base_ok :: "engine \<Rightarrow> bool" where
  "base_ok g \<longleftrightarrow> pool_ok (qp g) \<and> retrier_inv (retrier g) \<and>
     (case forking g of
        Fork_Idle \<Rightarrow> True
      | Fork_Got n w t \<Rightarrow> has_queue (qp g) n
      | Fork_Registered tid w t \<Rightarrow> 0 \<le> tid \<and> nat tid \<le> maxpid (qp g) \<and>
          tid_workflow_instance (qp g) ! nat tid = Some w \<and> tid_task (qp g) ! nat tid = Some t)"

lemma base_ok_same:
  assumes "base_ok g" and "qp g' = qp g" and "forking g' = forking g" and "retrier_inv (retrier g')"
  shows "base_ok g'"
  using assms(1,4) unfolding base_ok_def assms(2,3) by simp

lemma base_ok_table:
  assumes "base_ok g" and "pool_ok p" and "same_table (qp g) p" and "qp g' = p" and "forking g' = forking g"
    and "retrier g' = retrier g"
  shows "base_ok g'"
  using assms(1-3) same_table_has_queue [OF assms(3)] unfolding base_ok_def assms(4-6) same_table_def
  by (cases "forking g") simp_all

definition life_of :: "engine \<Rightarrow> wi_ref \<Rightarrow> wf_instance \<Rightarrow> bool \<Rightarrow> life" where
  "life_of g w s b = \<lparr>inst = s, in_queue = tasks_of w (to_start g), in_execution = tasks_of w (at_work g),
     in_retry = tasks_of w (to_retry g), ended = b\<rparr>"

definition no_tasks :: "wi_ref \<Rightarrow> engine \<Rightarrow> bool" where
  "no_tasks w g \<longleftrightarrow> tasks_of w (to_start g) = {#} \<and> tasks_of w (at_work g) = {#} \<and> tasks_of w (to_retry g) = {#}"

definition object_ok :: "wi_ref \<Rightarrow> engine \<Rightarrow> bool" where
  "object_ok w g \<longleftrightarrow> (case objects g w of
       None \<Rightarrow> no_tasks w g
     | Some s \<Rightarrow> life_reachable (life_of g w s False))"

definition engine_inv :: "engine \<Rightarrow> bool" where
  "engine_inv g \<longleftrightarrow> base_ok g \<and> total g < 2 ^ 32 \<and> (\<forall>w. object_ok w g)"

lemma inv_base: "engine_inv g \<Longrightarrow> base_ok g" "engine_inv g \<Longrightarrow> retrier_inv (retrier g)" "engine_inv g \<Longrightarrow> pool_ok (qp g)"
  by (simp_all add: engine_inv_def base_ok_def)

text \<open>A change that concerns one instance leaves the others as they were.\<close>

definition others_same :: "wi_ref \<Rightarrow> engine \<Rightarrow> engine \<Rightarrow> bool" where
  "others_same w g g' \<longleftrightarrow> (\<forall>v. v \<noteq> w \<longrightarrow> objects g' v = objects g v \<and>
     tasks_of v (to_start g') = tasks_of v (to_start g) \<and> tasks_of v (at_work g') = tasks_of v (at_work g) \<and>
     tasks_of v (to_retry g') = tasks_of v (to_retry g))"

lemma others_same_ok: "others_same w g g' \<Longrightarrow> v \<noteq> w \<Longrightarrow> object_ok v g' = object_ok v g"
  by (simp add: others_same_def object_ok_def no_tasks_def life_of_def split: option.splits)

lemma life_pending_total: "pending (life_of g w s b) \<le> total g"
  unfolding pending_def life_of_def total_def
  using tasks_of_size [of w "to_start g"] tasks_of_size [of w "at_work g"] tasks_of_size [of w "to_retry g"]
  by simp

lemma engine_inv_update:
  assumes "engine_inv g" and "base_ok g'" and "total g' < 2 ^ 32" and "others_same w g g'"
    and life: "life_reachable (life_of g' w s' b)" and obj: "objects g' w = (if b then None else Some s')"
  shows "engine_inv g'"
proof -
  have "no_tasks w g'" if b
  proof -
    have "pending (life_of g' w s' b) < 2 ^ 32" using life_pending_total assms(3) by (rule le_less_trans)
    with ended_instance_free [OF reachable_counted [OF life]] that
    have "pending (life_of g' w s' b) = 0" by (simp add: life_of_def)
    then show ?thesis by (simp add: pending_def life_of_def no_tasks_def)
  qed
  then have "object_ok w g'" using obj life by (auto simp: object_ok_def)
  then have "object_ok v g'" for v
    using others_same_ok [OF assms(4)] assms(1) by (cases "v = w") (simp_all add: engine_inv_def)
  with assms show ?thesis by (simp add: engine_inv_def)
qed

text \<open>A change that moves tasks about within the engine changes nothing for the instances.\<close>

definition moved :: "engine \<Rightarrow> engine \<Rightarrow> bool" where
  "moved g g' \<longleftrightarrow> base_ok g' \<and> objects g' = objects g \<and> to_start g' = to_start g \<and> at_work g' = at_work g \<and>
     to_retry g' = to_retry g"

lemma movedI:
  "base_ok g' \<Longrightarrow> objects g' = objects g \<Longrightarrow> to_start g' = to_start g \<Longrightarrow> at_work g' = at_work g \<Longrightarrow>
   to_retry g' = to_retry g \<Longrightarrow> moved g g'"
  by (simp add: moved_def)

lemma engine_inv_moved:
  assumes "engine_inv g" and moved: "moved g g'"
  shows "engine_inv g'"
proof -
  have same: "base_ok g'" "objects g' = objects g" "to_start g' = to_start g" "at_work g' = at_work g" "to_retry g' = to_retry g"
    using moved by (simp_all add: moved_def)
  have "object_ok w g' = object_ok w g" for w
    unfolding object_ok_def no_tasks_def life_of_def same(2-5) ..
  with assms(1) same show ?thesis by (simp add: engine_inv_def total_def)
qed

section \<open>Delivering the calls of an instance\<close>

text \<open>The identifiers a resumed instance claims are free, different, and of existing queues.\<close>

definition claims :: "call list \<Rightarrow> (string \<times> int) list" where
  "claims cs = concat (List.map (\<lambda>c. case c of Call_Execute t q tid \<Rightarrow> [(q, tid)] | _ \<Rightarrow> []) cs)"

definition claims_free :: "pool \<Rightarrow> call list \<Rightarrow> bool" where
  "claims_free p cs \<longleftrightarrow> distinct (List.map snd (claims cs)) \<and>
     (\<forall>(q, tid) \<in> set (claims cs). has_queue p q \<and> 0 < tid \<and> nat tid \<le> maxpid p \<and>
        tid_workflow_instance p ! nat tid = None)"

lemma no_claims: "executions cs = [] \<Longrightarrow> claims_free p cs"
proof -
  have "executions cs = [] \<Longrightarrow> claims cs = []"
    by (induction cs) (auto simp: executions_def claims_def split: call.splits)
  then show "executions cs = [] \<Longrightarrow> claims_free p cs" by (simp add: claims_free_def)
qed

definition keeps_tids :: "nat set \<Rightarrow> pool \<Rightarrow> pool \<Rightarrow> bool" where
  "keeps_tids X p p' \<longleftrightarrow> maxpid p' = maxpid p \<and> p_name p' = p_name p \<and>
     (\<forall>t \<in> X. tid_workflow_instance p' ! t = tid_workflow_instance p ! t \<and> tid_task p' ! t = tid_task p ! t)"

lemma InsertTask_events:
  assumes "retrier_inv r"
  shows "events_of (snd (InsertTask w t at r)) = add_mset (w, t) (events_of r)"
proof -
  have "sched_inv (r_sched r)" using assms by (simp add: retrier_inv_def)
  from InsertEvent_events [OF this, of "\<lparr>scheduled_at = at, payload = \<lparr>tt_instance = w, tt_task = t\<rparr>\<rparr>"]
  show ?thesis by (auto simp: events_of_def InsertTask_parts Let_def timed_def)
qed

definition named :: "pool \<Rightarrow> call list \<Rightarrow> bool" where
  "named p cs \<longleftrightarrow> list_all (\<lambda>c. case c of Call_Enqueue t q \<Rightarrow> has_queue p q | _ \<Rightarrow> True) cs"

definition used :: "nat set \<Rightarrow> pool \<Rightarrow> bool" where
  "used X p \<longleftrightarrow> (\<forall>t \<in> X. t \<le> maxpid p \<and> tid_workflow_instance p ! t \<noteq> None)"

definition delivered :: "wi_ref \<Rightarrow> nat set \<Rightarrow> call list \<Rightarrow> pool \<times> retrier \<Rightarrow> pool \<times> retrier \<Rightarrow> bool" where
  "delivered w X cs pr pr' \<longleftrightarrow> (case (pr, pr') of ((p, r), (p', r')) \<Rightarrow>
     pool_ok p' \<and> retrier_inv r' \<and> keeps_tids X p p' \<and>
     queued p' = queued p + mset (List.map (Pair w) (enqueues cs)) \<and>
     registered X p' = registered X p + mset (List.map (Pair w) (executions cs)) \<and>
     events_of r' = events_of r + mset (List.map (Pair w) (retries cs)))"

lemma delivered_more:
  assumes "delivered w X [c] pr pr1" and "delivered w X cs pr1 pr2"
  shows "delivered w X (c # cs) pr pr2"
proof -
  have "enqueues (c # cs) = enqueues [c] @ enqueues cs" "executions (c # cs) = executions [c] @ executions cs"
    "retries (c # cs) = retries [c] @ retries cs"
    by (simp_all add: enqueues_def executions_def retries_def)
  with assms show ?thesis
    by (auto simp: delivered_def keeps_tids_def split: prod.splits)
qed

lemma keeps_same_table: "same_table p p' \<Longrightarrow> keeps_tids X p p'"
  by (simp add: same_table_def keeps_tids_def)

lemma keeps_update:
  assumes "maxpid p' = maxpid p" and "p_name p' = p_name p"
    and "tid_workflow_instance p' = (tid_workflow_instance p)[t := w]" and "tid_task p' = (tid_task p)[t := k]"
    and "t \<notin> X"
  shows "keeps_tids X p p'"
  using assms by (auto simp: keeps_tids_def) (metis nth_list_update_neq)+

lemma delivered_one:
  assumes ok: "pool_ok p" "retrier_inv r" and used: "used X p"
    and names: "named p [c]" and free: "claims_free p [c]"
    and room: "size (queued p) + length (enqueues [c]) < 2 ^ 32"
      "size (events_of r) + length (retries [c]) < 2 ^ 32"
  shows "\<exists>p1 r1. (\<forall>cs. deliver w (c # cs) (p, r) = deliver w cs (p1, r1)) \<and> delivered w X [c] (p, r) (p1, r1) \<and>
    (\<forall>t. (\<forall>q tid k. c = Call_Execute k q tid \<longrightarrow> t \<noteq> nat tid) \<longrightarrow>
       tid_workflow_instance p1 ! t = tid_workflow_instance p ! t)"
proof (cases c)
  case (Call_Enqueue t q)
  have "size (queued p) + 1 < 2 ^ 32" using room(1) Call_Enqueue by simp
  moreover have "has_queue p q" using names Call_Enqueue by (simp add: named_def)
  ultimately obtain sig p' where p': "pool_enqueue q w t p = Some (True, sig, p')" "pool_ok p'"
    "same_table p p'" "queued p' = add_mset (w, t) (queued p)"
    using pool_enqueue_tasks [OF ok(1)] by metis
  then show ?thesis
    using Call_Enqueue ok(2) same_table_registered [OF p'(3)] keeps_same_table [OF p'(3)] p'(3)
    by (intro exI [of _ p'] exI [of _ r]) (auto simp: delivered_def same_table_def)
next
  case (Call_Execute k q tid)
  have t: "has_queue p q" "0 < tid" "nat tid \<le> maxpid p" "tid_workflow_instance p ! nat tid = None"
    using free Call_Execute by (simp_all add: claims_free_def claims_def)
  then have X: "nat tid \<notin> X" using used by (auto simp: used_def)
  from pool_execute_given [OF ok(1) t(1-4), of w k] obtain sig p' where p': "pool_execute w k q tid p = Some (tid, sig, p')"
    "pool_ok p'" "queued p' = queued p" "maxpid p' = maxpid p" "p_name p' = p_name p"
    "tid_workflow_instance p' = (tid_workflow_instance p)[nat tid := Some w]"
    "tid_task p' = (tid_task p)[nat tid := Some k]"
    "registered X p' = add_mset (w, k) (registered X p)"
    using X by metis
  from keeps_update [OF p'(4-7) X] p' Call_Execute ok(2) show ?thesis
    by (intro exI [of _ p'] exI [of _ r]) (auto simp: delivered_def)
next
  case (Call_Retry t at)
  have "sched_room (r_sched r)" using room(2) Call_Retry by (simp add: sched_room_def events_of_def)
  then have "retrier_inv (snd (InsertTask w t at r))" using ok(2) by (rule InsertTask_inv [rotated])
  with Call_Retry ok InsertTask_events [OF ok(2), of w t at] show ?thesis
    by (auto simp: delivered_def keeps_tids_def)
qed (use ok in \<open>auto simp: delivered_def keeps_tids_def enqueues_def executions_def retries_def\<close>)

lemma deliver_all:
  assumes "pool_ok p" "retrier_inv r" and "used X p" and "named p cs" and "claims_free p cs"
    and "size (queued p) + length (enqueues cs) < 2 ^ 32"
    and "size (events_of r) + length (retries cs) < 2 ^ 32"
  shows "\<exists>pr'. deliver w cs (p, r) = Some pr' \<and> delivered w X cs (p, r) pr'"
  using assms
proof (induction cs arbitrary: p r)
  case Nil
  then show ?case by (simp add: delivered_def keeps_tids_def)
next
  case (Cons c cs)
  have split: "enqueues (c # cs) = enqueues [c] @ enqueues cs" "retries (c # cs) = retries [c] @ retries cs"
    "claims (c # cs) = claims [c] @ claims cs"
    by (simp_all add: enqueues_def retries_def claims_def)
  have "named p [c]" "named p cs" "claims_free p [c]"
    using Cons.prems(4,5) unfolding named_def claims_free_def split(3) by (simp_all add: ball_Un)
  moreover have "size (queued p) + length (enqueues [c]) < 2 ^ 32" "size (events_of r) + length (retries [c]) < 2 ^ 32"
    using Cons.prems(6,7) unfolding split by simp_all
  ultimately obtain p1 r1 where one: "\<And>cs. deliver w (c # cs) (p, r) = deliver w cs (p1, r1)"
    "delivered w X [c] (p, r) (p1, r1)"
    "\<And>t. (\<forall>q tid k. c = Call_Execute k q tid \<longrightarrow> t \<noteq> nat tid) \<Longrightarrow>
       tid_workflow_instance p1 ! t = tid_workflow_instance p ! t"
    using delivered_one [OF Cons.prems(1-3)] by metis
  have p1: "pool_ok p1" "retrier_inv r1" "keeps_tids X p p1" "p_name p1 = p_name p" "maxpid p1 = maxpid p"
    using one(2) by (auto simp: delivered_def keeps_tids_def)
  have "used X p1" using Cons.prems(3) p1(3) by (auto simp: used_def keeps_tids_def)
  moreover have "named p1 cs" using \<open>named p cs\<close> unfolding named_def has_queue_def p1(4) .
  moreover have "claims_free p1 cs"
  proof -
    have later: "tid_workflow_instance p1 ! nat t = tid_workflow_instance p ! nat t"
      if "(q', t) \<in> set (claims cs)" for q' t
    proof (rule one(3), intro allI impI)
      fix q tid k
      assume "c = Call_Execute k q tid"
      then have c: "claims [c] = [(q, tid)]" by (simp add: claims_def)
      have "0 < t" "0 < tid" "t \<noteq> tid"
        using Cons.prems(5) that image_eqI [of t snd "(q', t)" "set (claims cs)"]
        unfolding claims_free_def split(3) c by auto
      then show "nat t \<noteq> nat tid" by simp
    qed
    have "distinct (List.map snd (claims cs))" using Cons.prems(5) unfolding claims_free_def split(3) by simp
    moreover have "\<forall>(q, t) \<in> set (claims cs). has_queue p q \<and> 0 < t \<and> nat t \<le> maxpid p \<and>
        tid_workflow_instance p ! nat t = None"
      using Cons.prems(5) unfolding claims_free_def split(3) by simp
    ultimately show ?thesis
      using later unfolding claims_free_def has_queue_def p1(4,5) by fastforce
  qed
  moreover have "size (queued p1) + length (enqueues cs) < 2 ^ 32" "size (events_of r1) + length (retries cs) < 2 ^ 32"
    using one(2) Cons.prems(6,7) unfolding split by (auto simp: delivered_def)
  ultimately obtain pr' where "deliver w cs (p1, r1) = Some pr'" "delivered w X cs (p1, r1) pr'"
    using Cons.IH [OF p1(1,2)] by blast
  with one(1,2) delivered_more show ?case by metis
qed

end
