(* ===== verification/Engine_Steps.thy ===== *)
theory Engine_Steps
  imports Engine_State
begin

text \<open>
  The steps of the engine, in any interleaving of its threads, and the proof that each keeps the
  invariant of \<open>Engine_State\<close>.
\<close>

section \<open>The step relation\<close>

text \<open>No counter of tasks reaches the limit of 32 bits.\<close>

definition room_for :: "call list \<Rightarrow> engine \<Rightarrow> bool" where
  "room_for cs g \<longleftrightarrow> total g + (length (enqueues cs) + length (executions cs) + length (retries cs)) < 2 ^ 32"

text \<open>
  What the steps take for granted: an identifier is free when the forker registers a task
  (\<open>ExecuteTask\<close> gives 0 otherwise, which the forker does not check), \<open>fork\<close> gives -1 or a
  process, a message is not for the task whose monitor the forker has not started yet, and a
  cancellation does not take the last waiting task of a queue while leaving others
  (\<open>Task_Queue.cancel_last_corrupts\<close>).
\<close>

inductive engine_step :: "engine \<Rightarrow> engine \<Rightarrow> bool" where
  dequeue: "forking g = Fork_Idle \<Longrightarrow> fork_dequeue g = Some g' \<Longrightarrow> engine_step g g'"
| register: "free_tid (qp g) \<Longrightarrow> fork_register g = Some g' \<Longrightarrow> engine_step g g'"
| execute: "0 < forked \<or> forked = -1 \<Longrightarrow> fork_execute E forked g = Some g' \<Longrightarrow> engine_step g g'"
| receive: "gathering g = None \<Longrightarrow> nat tid \<notin> forker_tids g \<Longrightarrow>
    gather_receive pm (pid, tid, retcode) g = Some (Gather_Next g') \<Longrightarrow> engine_step g g'"
| stop: "gathering g = Some (w, t, retval, out) \<Longrightarrow> objects g w = Some s \<Longrightarrow>
    TaskStop (seeing g E) t retval out s = Some (b, s') \<Longrightarrow> room_for (new_calls s s') g \<Longrightarrow>
    gather_stop E g = Some g' \<Longrightarrow> engine_step g g'"
| alarm: "engine_step g (timer_alarm now g)"
| restart: "(w, t) \<in> set (timers g) \<Longrightarrow> objects g w = Some s \<Longrightarrow>
    TaskRestart (seeing g E) t s = Some (b, s') \<Longrightarrow> room_for (new_calls s s') g \<Longrightarrow>
    timer_restart E (w, t) g = Some g' \<Longrightarrow> engine_step g g'"
| flush: "engine_step g (flush_instance i g)"
| flush_all: "engine_step g (flush_retrier g)"
| cancel: "objects g w = Some s \<Longrightarrow> engine_step g (g\<lparr>objects := (objects g)(w \<mapsto> Cancel s)\<rparr>)"
| cancel_tasks: "cancel_safe (instance_ids g) i (qp g) \<Longrightarrow> cancel_queued i g = Some g' \<Longrightarrow> engine_step g g'"
| savepoint: "objects g w = Some s \<Longrightarrow> RecordSavepoint E s = Some s' \<Longrightarrow>
    engine_step g (g\<lparr>objects := (objects g)(w \<mapsto> s')\<rparr>)"
| kill: "objects g w = Some s \<Longrightarrow> engine_step g (g\<lparr>objects := (objects g)(w \<mapsto> snd (KillTask pid s))\<rparr>)"
| shutdown: "pm_Shutdown pm g = (pm', g', m) \<Longrightarrow> engine_step g g'"
| launch: "objects g w = None \<Longrightarrow> unstarted s \<Longrightarrow> Start (seeing g E) s = Some (b, s') \<Longrightarrow>
    claims_free (qp g) (new_calls s s') \<Longrightarrow> room_for (new_calls s s') g \<Longrightarrow>
    settle w s (b, s') g = Some g' \<Longrightarrow> engine_step g g'"
| resume: "objects g w = None \<Longrightarrow> unstarted s \<Longrightarrow> Resume (seeing g E) s = Some (b, s') \<Longrightarrow>
    claims_free (qp g) (new_calls s s') \<Longrightarrow> room_for (new_calls s s') g \<Longrightarrow>
    settle w s (b, s') g = Some g' \<Longrightarrow> engine_step g g'"

text \<open>The engine starts with the pool of the database's queues and nothing else.\<close>

definition engine_start :: "pool \<Rightarrow> (string \<rightharpoonup> string) \<Rightarrow> engine" where
  "engine_start p files = \<lparr>qp = p, retrier = Retrier_new, timers = [], objects = Map.empty,
     forking = Fork_Idle, gathering = None, log_files = files\<rparr>"

inductive engine_reachable :: "engine \<Rightarrow> bool" where
  initial: "QueuePool_new rows (Some n) = Inr p \<Longrightarrow> sorted (List.map fst rows) \<Longrightarrow> n + 1 < 2 ^ 32 \<Longrightarrow>
    engine_reachable (engine_start p files)"
| step: "engine_reachable g \<Longrightarrow> engine_step g g' \<Longrightarrow> engine_reachable g'"

section \<open>Settling an operation\<close>

lemma settle_parts:
  assumes "settle w s (b, s') g = Some g'"
  obtains p r where "deliver w (new_calls s s') (qp g, retrier g) = Some (p, r)"
    and "g' = g\<lparr>qp := p, retrier := r, objects := (objects g)(w := if b then None else Some s')\<rparr>"
  using assms by (auto simp: settle_def)

lemma seeing_names: "asks (seeing g E) s s' \<Longrightarrow> named (qp g) (new_calls s s')"
proof -
  assume "asks (seeing g E) s s'"
  then have "list_all (names_queue (seeing g E)) (new_calls s s')" by (rule asks_new)
  then show ?thesis
    unfolding named_def names_queue_def by (simp add: seeing_def)
qed

lemma settle_tasks:
  assumes base: "base_ok g" and names: "named (qp g) (new_calls s s')" and free: "claims_free (qp g) (new_calls s s')"
    and room: "room_for (new_calls s s') g" and settled: "settle w s (b, s') g = Some g'"
  shows "to_start g' = to_start g + mset (List.map (Pair w) (enqueues (new_calls s s')))"
    and "at_work g' = at_work g + mset (List.map (Pair w) (executions (new_calls s s')))"
    and "to_retry g' = to_retry g + mset (List.map (Pair w) (retries (new_calls s s')))"
    and "base_ok g'" and "objects g' = (objects g)(w := if b then None else Some s')"
proof -
  let ?cs = "new_calls s s'" and ?X = "forker_tids g"
  have ok: "pool_ok (qp g)" "retrier_inv (retrier g)" using base by (simp_all add: base_ok_def)
  have used: "used ?X (qp g)" using base
    by (auto simp: base_ok_def used_def forker_tids_def split: forking.splits)
  obtain p r where p: "deliver w ?cs (qp g, retrier g) = Some (p, r)"
    and g': "g' = g\<lparr>qp := p, retrier := r, objects := (objects g)(w := if b then None else Some s')\<rparr>"
    using settled by (rule settle_parts)
  have "size (queued (qp g)) + length (enqueues ?cs) < 2 ^ 32" "size (events_of (retrier g)) + length (retries ?cs) < 2 ^ 32"
    using room by (simp_all add: room_for_def total_def to_start_def to_retry_def)
  from deliver_all [OF ok used names free this, of w] p
  have d: "delivered w ?X ?cs (qp g, retrier g) (p, r)" by auto
  then show "to_start g' = to_start g + mset (List.map (Pair w) (enqueues ?cs))"
    "at_work g' = at_work g + mset (List.map (Pair w) (executions ?cs))"
    "to_retry g' = to_retry g + mset (List.map (Pair w) (retries ?cs))"
    by (simp_all add: g' delivered_def to_start_def at_work_def to_retry_def forker_tasks_def forker_tids_def ac_simps)
  show "base_ok g'"
    using base d unfolding base_ok_def g' delivered_def keeps_tids_def
    by (auto simp: forker_tids_def has_queue_def split: forking.splits)
  show "objects g' = (objects g)(w := if b then None else Some s')" by (simp add: g')
qed

lemma settle_inv:
  assumes inv: "engine_inv g" and same: "others_same w g g0" and base: "base_ok g0"
    and names: "named (qp g0) (new_calls s s')" and free: "claims_free (qp g0) (new_calls s s')"
    and room: "room_for (new_calls s s') g0"
    and life: "life_reachable (absorb s s' b (tasks_of w (to_start g0)) (tasks_of w (at_work g0)) (tasks_of w (to_retry g0)))"
    and settled: "settle w s (b, s') g0 = Some g'"
  shows "engine_inv g'"
proof -
  note after = settle_tasks [OF base names free room settled]
  have "total g' < 2 ^ 32" using room unfolding total_def room_for_def after by simp
  moreover have "others_same w g g'"
    using same unfolding others_same_def after by simp
  moreover have "life_of g' w s' b = absorb s s' b (tasks_of w (to_start g0)) (tasks_of w (at_work g0)) (tasks_of w (to_retry g0))"
    unfolding life_of_def after by (simp add: absorb_def Let_def)
  ultimately show ?thesis
    using engine_inv_update [OF inv after(4), of w s' b] life by (simp add: after(5))
qed

lemma inv_object: "engine_inv g \<Longrightarrow> objects g w = Some s \<Longrightarrow> life_reachable (life_of g w s False)"
  by (auto simp: engine_inv_def object_ok_def dest: spec [of _ w])

lemma inv_absent: "engine_inv g \<Longrightarrow> objects g w = None \<Longrightarrow> no_tasks w g"
  by (auto simp: engine_inv_def object_ok_def dest: spec [of _ w])

section \<open>Every step keeps the invariant\<close>

lemma dequeue_moved:
  assumes inv: "engine_inv g" and idle: "forking g = Fork_Idle"
  shows "\<exists>g'. fork_dequeue g = Some g' \<and> moved g g'"
proof -
  have ok: "pool_ok (qp g)" "retrier_inv (retrier g)" using inv by (simp_all add: engine_inv_def base_ok_def)
  obtain r p where p: "pool_dequeue_scan (qp g) = Some (r, p)" "pool_ok p" "same_table (qp g) p"
    "r = None \<Longrightarrow> queued p = queued (qp g)"
    "\<And>n x. r = Some (n, x) \<Longrightarrow> queued (qp g) = add_mset x (queued p) \<and> has_queue (qp g) n"
    using pool_dequeue_tasks [OF ok(1)] by blast
  note same = same_table_registered [OF p(3)] same_table_has_queue [OF p(3)]
  show ?thesis
  proof (cases r)
    case None
    have "moved g (g\<lparr>qp := p\<rparr>)"
      by (rule movedI)
        (use ok p(2,4) None idle same in \<open>simp_all add: base_ok_def to_start_def at_work_def to_retry_def
          forker_tasks_def forker_tids_def\<close>)
    with None p(1) show ?thesis by (simp add: fork_dequeue_def)
  next
    case (Some x)
    obtain n w t where x: "x = (n, w, t)" by (cases x) auto
    let ?g = "g\<lparr>qp := p, forking := Fork_Got n w t\<rparr>"
    have "queued (qp g) = add_mset (w, t) (queued p)" "has_queue p n"
      using p(5) [of n "(w, t)"] Some x same by auto
    then have "moved g ?g"
      by (intro movedI)
        (use ok p(2) idle same in \<open>simp_all add: base_ok_def to_start_def at_work_def to_retry_def
          forker_tasks_def forker_tids_def\<close>)
    with Some x p(1) show ?thesis by (simp add: fork_dequeue_def)
  qed
qed

lemma register_moved:
  assumes inv: "engine_inv g" and free: "free_tid (qp g)" and got: "forking g = Fork_Got n w t"
  shows "\<exists>g'. fork_register g = Some g' \<and> moved g g'"
proof -
  have ok: "pool_ok (qp g)" "retrier_inv (retrier g)" "has_queue (qp g) n"
    using inv got by (simp_all add: engine_inv_def base_ok_def)
  obtain u sig p where p: "pool_execute w t n 0 (qp g) = Some (int u, sig, p)" "u \<le> maxpid (qp g)"
    "tid_workflow_instance (qp g) ! u = None" "pool_ok p" "queued p = queued (qp g)" "maxpid p = maxpid (qp g)"
    "p_name p = p_name (qp g)" "tid_workflow_instance p = (tid_workflow_instance (qp g))[u := Some w]"
    "tid_task p = (tid_task (qp g))[u := Some t]"
    "\<And>X. registered X p = (if u \<in> X then registered X (qp g) else add_mset (w, t) (registered X (qp g)))"
    by (rule pool_execute_new [OF ok(1,3) free, of w t]) (rule that)
  have len: "u < length (tid_workflow_instance (qp g))" "u < length (tid_task (qp g))"
    using ok(1) p(2) by (simp_all add: pool_ok_def pool_inv_def)
  have "registered {u} (qp g) = registered {} (qp g)"
    unfolding registered_def by (rule mset_filter_same) (use p(3) in auto)
  then have "registered {u} p = registered {} (qp g)" using p(10) [of "{u}"] by simp
  then have "moved g (g\<lparr>qp := p, forking := Fork_Registered (int u) w t\<rparr>)"
    by (intro movedI)
      (use ok p(2,4-9) got len in \<open>simp_all add: base_ok_def to_start_def at_work_def to_retry_def
        forker_tasks_def forker_tids_def\<close>)
  then show ?thesis using p(1) got by (simp add: fork_register_def)
qed

text \<open>A registered task counted or not.\<close>

lemma registered_insert:
  assumes "t \<le> maxpid p" and "tid_workflow_instance p ! t = Some w" and "tid_task p ! t = Some k" and "t \<notin> X"
  shows "registered X p = add_mset (w, k) (registered (insert t X) p)"
proof -
  have "registered X p = add_mset (the (tid_workflow_instance p ! t), the (tid_task p ! t)) (registered (insert t X) p)"
    unfolding registered_def
    by (rule mset_filter_upd) (use assms in auto)
  with assms show ?thesis by simp
qed

lemma deliver_nothing:
  "enqueues cs = [] \<Longrightarrow> executions cs = [] \<Longrightarrow> retries cs = [] \<Longrightarrow> deliver w cs (p, r) = Some (p, r)"
proof (induction cs)
  case (Cons c cs)
  then show ?case by (cases c) (auto simp: enqueues_def executions_def retries_def)
qed simp

lemma tasks_minus: "tasks_of w M = add_mset t N \<Longrightarrow> tasks_of w M - {#t#} = N"
  by simp

lemma execute_inv:
  assumes inv: "engine_inv g" and forked: "0 < forked \<or> forked = -1"
    and ex: "fork_execute E forked g = Some g'"
  shows "engine_inv g'"
    and "\<exists>x. to_start g = add_mset x (to_start g') \<and> at_work g' \<in> {at_work g, add_mset x (at_work g)} \<and> to_retry g' = to_retry g"
proof -
  obtain tid w t where f: "forking g = Fork_Registered tid w t"
    using ex by (auto simp: fork_execute_def split: forking.splits)
  then obtain s pid b s' where s: "objects g w = Some s"
    "TaskExecute (seeing g E) t tid forked s = Some (pid, b, s')"
    using ex by (auto simp: fork_execute_def bind_eq_Some_conv)
  have "hands_out_nothing s s'" by (rule TaskExecute_effect(2) [OF s(2)])
  then have none: "enqueues (new_calls s s') = []" "executions (new_calls s s') = []" "retries (new_calls s s') = []"
    by (simp_all add: hands_out_nothing_def Let_def)
  let ?obj = "(objects g)(w := if b then None else Some s')"
  have settle: "settle w s (b, s') g = Some (g\<lparr>objects := ?obj\<rparr>)"
    using deliver_nothing [OF none] by (simp add: settle_def)
  have base: "pool_ok (qp g)" "retrier_inv (retrier g)" "0 \<le> tid" "nat tid \<le> maxpid (qp g)"
    "tid_workflow_instance (qp g) ! nat tid = Some w" "tid_task (qp g) ! nat tid = Some t"
    using inv f by (simp_all add: engine_inv_def base_ok_def)
  have tot: "total g < 2 ^ 32" using inv by (simp add: engine_inv_def)
  have ts: "to_start g = add_mset (w, t) (queued (qp g))" using f by (simp add: to_start_def forker_tasks_def)
  have "t \<in># in_queue (life_of g w s False)" by (simp add: life_of_def ts)
  from life_step.execute [OF _ this, of "seeing g E" tid forked pid b s'] s(2)
  have "life_step True (life_of g w s False) (absorb s s' b (tasks_of w (queued (qp g)))
      (tasks_of w (at_work g) + (if 0 < pid then {#t#} else {#})) (tasks_of w (to_retry g)))"
    by (simp add: life_of_def ts)
  from life_reachable.step [OF inv_object [OF inv s(1)] this]
  have life: "life_reachable (absorb s s' b (tasks_of w (queued (qp g)))
      (tasks_of w (at_work g) + (if 0 < pid then {#t#} else {#})) (tasks_of w (to_retry g)))" .
  have pids: "0 < pid \<or> pid = -1"
    using s(2) forked unfolding TaskExecute_def by (auto split: if_splits sum.splits)
  note reg = registered_insert [OF base(4-6), of "{}"]
  obtain p where p: "g' = g\<lparr>objects := ?obj, qp := p, forking := Fork_Idle\<rparr>" "pool_ok p" "queued p = queued (qp g)"
    "registered {} p = registered {nat tid} (qp g) + (if 0 < pid then {#(w, t)#} else {#})"
  proof (cases "pid = -1")
    case True
    from pool_terminate_tasks [OF base(1,4-6)] obtain sig p where p: "pool_terminate tid (qp g) = Some (Some (w, Some t), sig, p)"
      "pool_ok p" "queued p = queued (qp g)" "registered {} (qp g) = add_mset (w, t) (registered {} p)"
      using base(3) by (metis empty_iff int_nat_eq)
    have "g' = g\<lparr>objects := ?obj, qp := p, forking := Fork_Idle\<rparr>"
      using ex f s settle p(1) True by (simp add: fork_execute_def)
    with p reg True show thesis by (intro that [of p]) simp_all
  next
    case False
    with ex f s settle base(1) reg pids show thesis by (intro that [of "qp g"]) (simp_all add: fork_execute_def)
  qed
  have parts: "to_start g' = queued (qp g)" "to_retry g' = to_retry g"
    "at_work g' = at_work g + (if 0 < pid then {#(w, t)#} else {#})"
    using p f by (simp_all add: to_start_def at_work_def to_retry_def forker_tasks_def forker_tids_def)
  show "\<exists>x. to_start g = add_mset x (to_start g') \<and> at_work g' \<in> {at_work g, add_mset x (at_work g)} \<and> to_retry g' = to_retry g"
    by (intro exI [of _ "(w, t)"]) (simp add: parts ts)
  show "engine_inv g'"
  proof (rule engine_inv_update [OF inv, of g' w s' b])
    show "base_ok g'" using p base(2) by (simp add: base_ok_def)
    show "total g' < 2 ^ 32" using tot unfolding total_def parts ts by (auto split: if_splits)
    show "others_same w g g'" unfolding others_same_def parts ts by (simp add: p)
    have "life_of g' w s' b = absorb s s' b (tasks_of w (queued (qp g)))
        (tasks_of w (at_work g) + (if 0 < pid then {#t#} else {#})) (tasks_of w (to_retry g))"
      unfolding life_of_def parts by (simp add: absorb_def none)
    with life show "life_reachable (life_of g' w s' b)" by simp
    show "objects g' w = (if b then None else Some s')" by (simp add: p)
  qed
qed

lemma receive_moved:
  assumes inv: "engine_inv g" and idle: "gathering g = None" and other: "nat tid \<notin> forker_tids g"
    and r: "gather_receive pm (pid, tid, retcode) g = Some (Gather_Next g')"
  shows "moved g g'"
proof (cases "pid = 0")
  case True
  then have "g' = g" using r by (simp add: gather_receive_def split: if_splits)
  with inv show ?thesis by (simp add: moved_def engine_inv_def)
next
  case False
  let ?files = "\<lambda>f. if logs_delete pm then (log_files g)(f := None) else log_files g"
  have base: "base_ok g" "pool_ok (qp g)" using inv by (simp_all add: engine_inv_def base_ok_def)
  have tid: "0 \<le> tid" "nat tid \<le> maxpid (qp g)"
    using r False by (auto simp: gather_receive_def pool_terminate_def Let_def split: if_splits)
  show ?thesis
  proof (cases "tid_workflow_instance (qp g) ! nat tid")
    case None
    with r False pool_terminate_unknown [OF tid] have "g' = g\<lparr>log_files := ?files (log_filename pm tid)\<rparr>"
      by (auto simp: gather_receive_def Let_def split: if_splits)
    then show ?thesis
      using base by (intro movedI)
        (simp_all add: base_ok_def to_start_def at_work_def to_retry_def forker_tasks_def forker_tids_def
          split: forking.splits)
  next
    case (Some w)
    then obtain t where t: "tid_task (qp g) ! nat tid = Some t" using base(2) tid by (auto simp: pool_ok_def)
    obtain sig p where p: "pool_terminate (int (nat tid)) (qp g) = Some (Some (w, Some t), sig, p)" "pool_ok p"
      "queued p = queued (qp g)" "maxpid p = maxpid (qp g)" "p_name p = p_name (qp g)"
      "tid_workflow_instance p = (tid_workflow_instance (qp g))[nat tid := None]"
      "tid_task p = (tid_task (qp g))[nat tid := None]"
      "\<And>X. registered X (qp g) = (if nat tid \<in> X then registered X p else add_mset (w, t) (registered X p))"
      by (rule pool_terminate_tasks [OF base(2) tid(2) Some t]) (rule that)
    obtain rv out f where g': "g' = g\<lparr>log_files := ?files f, qp := p, gathering := Some (w, t, rv, out)\<rparr>"
      using r False p(1) tid(1) by (auto simp: gather_receive_def Let_def split: if_splits option.splits)
    have "base_ok g'"
      using base p other g' by (auto simp: base_ok_def has_queue_def forker_tids_def split: forking.splits)
    then show ?thesis
      by (rule movedI)
        (use p(3) p(8) [of "forker_tids g"] other idle in \<open>simp_all add: g' to_start_def at_work_def to_retry_def
          forker_tasks_def forker_tids_def\<close>)
  qed
qed

text \<open>\<open>TaskStop\<close> and \<open>TaskRestart\<close>: the task leaves its place, and the operation is settled.\<close>

lemma stop_parts:
  assumes inv: "engine_inv g" and at: "gathering g = Some (w, t, retval, out)" and s: "objects g w = Some s"
    and r: "TaskStop (seeing g E) t retval out s = Some (b, s')" and room: "room_for (new_calls s s') g"
    and g': "gather_stop E g = Some g'"
  obtains g0 where "to_start g0 = to_start g" and "to_retry g0 = to_retry g" and "at_work g = add_mset (w, t) (at_work g0)"
    and "objects g0 = objects g" and "base_ok g0" and "named (qp g0) (new_calls s s')"
    and "claims_free (qp g0) (new_calls s s')" and "room_for (new_calls s s') g0" and "settle w s (b, s') g0 = Some g'"
proof
  let ?g = "g\<lparr>gathering := None\<rparr>"
  show "settle w s (b, s') ?g = Some g'" using g' at s r by (simp add: gather_stop_def)
  show parts: "to_start ?g = to_start g" "to_retry ?g = to_retry g" "at_work g = add_mset (w, t) (at_work ?g)"
    using at by (simp_all add: to_start_def at_work_def to_retry_def forker_tasks_def forker_tids_def)
  show "base_ok ?g" by (rule base_ok_same [OF inv_base(1) [OF inv]]) (use inv_base(2) [OF inv] in simp_all)
  show "named (qp ?g) (new_calls s s')" using seeing_names [OF TaskStop_asks [OF r]] by simp
  show "claims_free (qp ?g) (new_calls s s')" by (rule no_claims [OF TaskStop_effect(2) [OF r]])
  show "room_for (new_calls s s') ?g" using room by (simp add: room_for_def total_def parts)
qed simp

lemma stop_inv:
  assumes inv: "engine_inv g" and at: "gathering g = Some (w, t, retval, out)" and s: "objects g w = Some s"
    and r: "TaskStop (seeing g E) t retval out s = Some (b, s')" and room: "room_for (new_calls s s') g"
    and g': "gather_stop E g = Some g'"
  shows "engine_inv g'"
proof -
  obtain g0 where parts: "to_start g0 = to_start g" "to_retry g0 = to_retry g" "at_work g = add_mset (w, t) (at_work g0)"
    "objects g0 = objects g" and g0: "base_ok g0" "named (qp g0) (new_calls s s')" "claims_free (qp g0) (new_calls s s')"
    "room_for (new_calls s s') g0" and settled: "settle w s (b, s') g0 = Some g'"
    by (rule stop_parts [OF assms])
  have "t \<in># in_execution (life_of g w s False)" by (simp add: life_of_def parts(3))
  from life_step.stop [OF _ this, of "seeing g E" retval out b s'] r
  have "life_step True (life_of g w s False) (absorb s s' b (tasks_of w (to_start g0)) (tasks_of w (at_work g0)) (tasks_of w (to_retry g0)))"
    by (simp add: life_of_def parts)
  from life_reachable.step [OF inv_object [OF inv s] this] have
    life: "life_reachable (absorb s s' b (tasks_of w (to_start g0)) (tasks_of w (at_work g0)) (tasks_of w (to_retry g0)))" .
  show ?thesis
    by (rule settle_inv [OF inv _ g0 life settled]) (simp add: others_same_def parts)
qed

lemma restart_parts:
  assumes inv: "engine_inv g" and at: "(w, t) \<in> set (timers g)" and s: "objects g w = Some s"
    and r: "TaskRestart (seeing g E) t s = Some (b, s')" and room: "room_for (new_calls s s') g"
    and g': "timer_restart E (w, t) g = Some g'"
  obtains g0 where "to_start g0 = to_start g" and "at_work g0 = at_work g" and "to_retry g = add_mset (w, t) (to_retry g0)"
    and "objects g0 = objects g" and "base_ok g0" and "named (qp g0) (new_calls s s')"
    and "claims_free (qp g0) (new_calls s s')" and "room_for (new_calls s s') g0" and "settle w s (b, s') g0 = Some g'"
proof
  let ?g = "g\<lparr>timers := remove1 (w, t) (timers g)\<rparr>"
  show "settle w s (b, s') ?g = Some g'" using g' s r by (simp add: timer_restart_def)
  show parts: "to_start ?g = to_start g" "at_work ?g = at_work g" "to_retry g = add_mset (w, t) (to_retry ?g)"
    using at by (simp_all add: to_start_def at_work_def to_retry_def forker_tasks_def forker_tids_def)
  show "base_ok ?g" by (rule base_ok_same [OF inv_base(1) [OF inv]]) (use inv_base(2) [OF inv] in simp_all)
  show "named (qp ?g) (new_calls s s')" using seeing_names [OF TaskRestart_asks [OF r]] by simp
  show "claims_free (qp ?g) (new_calls s s')" by (rule no_claims [OF TaskRestart_effect(3) [OF r]])
  show "room_for (new_calls s s') ?g" using room by (simp add: room_for_def total_def parts)
qed simp

lemma restart_inv:
  assumes inv: "engine_inv g" and at: "(w, t) \<in> set (timers g)" and s: "objects g w = Some s"
    and r: "TaskRestart (seeing g E) t s = Some (b, s')" and room: "room_for (new_calls s s') g"
    and g': "timer_restart E (w, t) g = Some g'"
  shows "engine_inv g'"
proof -
  obtain g0 where parts: "to_start g0 = to_start g" "at_work g0 = at_work g" "to_retry g = add_mset (w, t) (to_retry g0)"
    "objects g0 = objects g" and g0: "base_ok g0" "named (qp g0) (new_calls s s')" "claims_free (qp g0) (new_calls s s')"
    "room_for (new_calls s s') g0" and settled: "settle w s (b, s') g0 = Some g'"
    by (rule restart_parts [OF assms])
  have "t \<in># in_retry (life_of g w s False)" by (simp add: life_of_def parts(3))
  from life_step.restart [OF _ this, of "seeing g E" b s'] r
  have "life_step True (life_of g w s False) (absorb s s' b (tasks_of w (to_start g0)) (tasks_of w (at_work g0)) (tasks_of w (to_retry g0)))"
    by (simp add: life_of_def parts)
  from life_reachable.step [OF inv_object [OF inv s] this] have
    life: "life_reachable (absorb s s' b (tasks_of w (to_start g0)) (tasks_of w (at_work g0)) (tasks_of w (to_retry g0)))" .
  show ?thesis
    by (rule settle_inv [OF inv _ g0 life settled]) (simp add: others_same_def parts)
qed

text \<open>A new instance.\<close>

lemma begin_inv:
  assumes inv: "engine_inv g" and none: "objects g w = None"
    and life: "life_reachable (absorb s s' b {#} {#} {#})" and asks: "asks (seeing g E) s s'"
    and free: "claims_free (qp g) (new_calls s s')" and room: "room_for (new_calls s s') g"
    and settled: "settle w s (b, s') g = Some g'"
  shows "engine_inv g'"
proof -
  have base: "base_ok g" using inv by (simp add: engine_inv_def)
  have "no_tasks w g" by (rule inv_absent [OF inv none])
  with life have "life_reachable (absorb s s' b (tasks_of w (to_start g)) (tasks_of w (at_work g)) (tasks_of w (to_retry g)))"
    by (simp add: no_tasks_def)
  from settle_inv [OF inv _ base seeing_names [OF asks] free room this settled] show ?thesis
    by (simp add: others_same_def)
qed

text \<open>Steps within one instance.\<close>

lemma object_inv:
  assumes inv: "engine_inv g" and s: "objects g w = Some s"
    and step: "life_step c (life_of g w s False) ((life_of g w s False)\<lparr>inst := s'\<rparr>)"
  shows "engine_inv (g\<lparr>objects := (objects g)(w \<mapsto> s')\<rparr>)"
proof (rule engine_inv_update [OF inv, of _ w s' False])
  let ?g = "g\<lparr>objects := (objects g)(w \<mapsto> s')\<rparr>"
  have parts: "to_start ?g = to_start g" "at_work ?g = at_work g" "to_retry ?g = to_retry g"
    by (simp_all add: to_start_def at_work_def to_retry_def forker_tasks_def forker_tids_def)
  show "base_ok ?g" by (rule base_ok_same [OF inv_base(1) [OF inv]]) (use inv_base(2) [OF inv] in simp_all)
  show "total ?g < 2 ^ 32" "others_same w g ?g"
    using inv by (simp_all add: engine_inv_def total_def others_same_def parts)
  have "life_of ?g w s' False = (life_of g w s False)\<lparr>inst := s'\<rparr>" by (simp add: life_of_def parts)
  with life_reachable.step [OF inv_object [OF inv s] step] show "life_reachable (life_of ?g w s' False)" by simp
qed simp

text \<open>The retrier gives events up to be restarted.\<close>

lemma retrier_moved:
  assumes inv: "engine_inv g" and r: "retrier_inv r"
    and events: "events_of (retrier g) = events_of r + mset ts"
  shows "moved g (g\<lparr>retrier := r, timers := timers g @ ts\<rparr>)"
proof (rule movedI)
  let ?g = "g\<lparr>retrier := r, timers := timers g @ ts\<rparr>"
  show "base_ok ?g" by (rule base_ok_same [OF inv_base(1) [OF inv]]) (use r in simp_all)
qed (use events in \<open>simp_all add: to_start_def at_work_def to_retry_def forker_tasks_def forker_tids_def\<close>)

lemma alarm_moved:
  assumes inv: "engine_inv g"
  shows "moved g (timer_alarm now g)"
proof -
  let ?s = "r_sched (retrier g)"
  have sched: "sched_inv ?s" using inv by (simp add: engine_inv_def base_ok_def retrier_inv_def)
  obtain o1 s1 where s1: "shift_event now ?s = (o1, s1)" by fastforce
  have inv1: "sched_inv s1" using shift_event_inv [OF sched, of now] s1 by simp
  show ?thesis
  proof (cases o1)
    case None
    with s1 inv show ?thesis by (simp add: timer_alarm_def moved_def engine_inv_def)
  next
    case (Some e)
    then have "first_event ?s = e # first_event s1"
      using s1 by (auto simp: shift_event_def split: list.splits if_splits)
    then have "events_of (retrier g) = events_of ((retrier g)\<lparr>r_sched := s1\<rparr>) + mset [timed e]"
      by (simp add: events_of_def)
    from retrier_moved [OF inv _ this] inv1 show ?thesis
      using s1 Some by (simp add: timer_alarm_def retrier_inv_def)
  qed
qed

text \<open>A flush, with a filter or without.\<close>

lemma flushed_events:
  assumes "sched_inv (r_sched (retrier g))" and "Flush ff uf (r_sched (retrier g)) = (eff, gone, s)" and "r_sched r = s"
  shows "retrier_inv r" and "events_of (retrier g) = events_of r + mset (List.map timed gone)"
proof -
  let ?P = "\<lambda>e. uf \<and> \<not> ff e" and ?es = "first_event (r_sched (retrier g))"
  have parts: "gone = List.filter (\<lambda>e. \<not> ?P e) ?es" "first_event s = List.filter ?P ?es"
    using Flush_result [OF assms(1), of ff uf] assms(2) by simp_all
  have "mset (List.map timed xs) = mset (List.map timed (List.filter ?P xs)) + mset (List.map timed (List.filter (\<lambda>e. \<not> ?P e) xs))" for xs
    by (induction xs) auto
  then show "events_of (retrier g) = events_of r + mset (List.map timed gone)"
    unfolding events_of_def assms(3) parts .
  show "retrier_inv r" using Flush_inv [OF assms(1), of ff uf] assms(2,3) by (simp add: retrier_inv_def)
qed

lemma flush_moved:
  assumes inv: "engine_inv g"
  shows "moved g (flush_instance i g)" and "moved g (flush_retrier g)"
proof -
  have sched: "sched_inv (r_sched (retrier g))" using inv by (simp add: engine_inv_def base_ok_def retrier_inv_def)
  let ?P = "\<lambda>e. instance_ids g (tt_instance (payload e)) = i"
  obtain eff gone s where r: "Flush ?P True (r_sched (retrier g)) = (eff, gone, s)" using prod_cases3 by blast
  from retrier_moved [OF inv flushed_events [OF sched r, of "(retrier g)\<lparr>filter_workflow_instance_id := i, r_sched := s\<rparr>"]] r
  show "moved g (flush_instance i g)" by (simp add: flush_instance_def FlushWorkflowInstance_parts)
  obtain eff gone s where r: "Flush flush_filter_default False (r_sched (retrier g)) = (eff, gone, s)" using prod_cases3 by blast
  from retrier_moved [OF inv flushed_events [OF sched r, of "(retrier g)\<lparr>r_sched := s\<rparr>"]] r
  show "moved g (flush_retrier g)" by (simp add: flush_retrier_def)
qed

lemma flush_inv: "engine_inv g \<Longrightarrow> engine_inv (flush_instance i g)"
  using flush_moved by (blast intro: engine_inv_moved)

lemma pool_moved:
  assumes inv: "engine_inv g" and p: "pool_ok p" "same_table (qp g) p" "queued p = queued (qp g)"
  shows "moved g (g\<lparr>qp := p\<rparr>)"
proof (rule movedI)
  show "base_ok (g\<lparr>qp := p\<rparr>)" by (rule base_ok_table [OF inv_base(1) [OF inv] p(1,2)]) simp_all
qed (use p(3) same_table_registered [OF p(2)]
     in \<open>simp_all add: to_start_def at_work_def to_retry_def forker_tasks_def forker_tids_def\<close>)

text \<open>The steps that concern no instance.\<close>

lemma shutdown_moved:
  assumes inv: "engine_inv g" and "pm_Shutdown pm g = (pm', g', m)"
  shows "moved g g'"
proof -
  have "g' = g\<lparr>qp := (qp g)\<lparr>p_shutting_down := True\<rparr>\<rparr>" using assms(2) by (auto simp: pm_Shutdown_def pool_shutdown_def Let_def)
  moreover have "pool_ok ((qp g)\<lparr>p_shutting_down := True\<rparr>)"
    using inv_base(3) [OF inv] by (simp add: pool_ok_def pool_inv_def pool_locked_def)
  ultimately show ?thesis using pool_moved [OF inv] by (simp add: same_table_def queued_def)
qed

lemma cancel_queued_moved:
  assumes inv: "engine_inv g" and "cancel_safe (instance_ids g) i (qp g)" and "cancel_queued i g = Some g'"
  shows "moved g g'"
proof -
  from pool_cancel_tasks [OF inv_base(3) [OF inv] assms(2)] obtain sig p where
    "pool_cancel (instance_ids g) i (qp g) = Some (True, sig, p)" "pool_ok p" "same_table (qp g) p"
    "queued p = queued (qp g)" by metis
  with pool_moved [OF inv] assms(3) show ?thesis by (auto simp: cancel_queued_def)
qed

lemma step_moved:
  assumes inv: "engine_inv g"
  shows "forking g = Fork_Idle \<Longrightarrow> fork_dequeue g = Some g' \<Longrightarrow> moved g g'"
    and "free_tid (qp g) \<Longrightarrow> fork_register g = Some g' \<Longrightarrow> moved g g'"
    and "gathering g = None \<Longrightarrow> nat tid \<notin> forker_tids g \<Longrightarrow>
      gather_receive pm (pid, tid, retcode) g = Some (Gather_Next g') \<Longrightarrow> moved g g'"
    and "moved g (timer_alarm now g)" and "moved g (flush_instance i g)" and "moved g (flush_retrier g)"
    and "cancel_safe (instance_ids g) i (qp g) \<Longrightarrow> cancel_queued i g = Some g' \<Longrightarrow> moved g g'"
    and "pm_Shutdown pm g = (pm', g', m) \<Longrightarrow> moved g g'"
proof -
  assume r: "free_tid (qp g)" "fork_register g = Some g'"
  obtain n w t where "forking g = Fork_Got n w t"
    using r(2) by (auto simp: fork_register_def split: forking.splits)
  with register_moved [OF inv] r show "moved g g'" by auto
qed (use dequeue_moved [OF inv] receive_moved [OF inv] alarm_moved [OF inv] flush_moved [OF inv]
      cancel_queued_moved [OF inv] shutdown_moved [OF inv] in auto)

lemma engine_step_inv:
  assumes "engine_step g g'" and inv: "engine_inv g"
  shows "engine_inv g'"
  using assms(1)
proof cases
  case (cancel w s)
  from object_inv [OF inv cancel(2) life_step.cancel] cancel show ?thesis by (simp add: life_of_def)
next
  case (savepoint w s E s')
  from object_inv [OF inv savepoint(2) life_step.savepoint] savepoint show ?thesis
    by (simp add: life_of_def)
next
  case (kill w s pid)
  from object_inv [OF inv kill(2) life_step.kill] kill show ?thesis by (simp add: life_of_def)
next
  case (launch w s E b s')
  from begin_inv [OF inv launch(1) started [OF launch(2,3)] Start_asks [OF launch(3)] launch(4,5,6)] show ?thesis .
next
  case (resume w s E b s')
  from begin_inv [OF inv resume(1) resumed [OF resume(2,3)] Resume_asks [OF resume(3)] resume(4,5,6)] show ?thesis .
next
  case (execute forked E)
  then show ?thesis by (rule execute_inv(1) [OF inv])
next
  case (stop w t retval out s E b s')
  then show ?thesis by (rule stop_inv [OF inv])
next
  case (restart w t s E b s')
  then show ?thesis by (rule restart_inv [OF inv])
qed (use engine_inv_moved [OF inv] step_moved [OF inv] in blast)+

end
