(* ===== verification/Engine_Properties.thy ===== *)
theory Engine_Properties
  imports Engine_Steps
begin

text \<open>
  What holds in every state of the engine: tasks and counters agree, and no thread ever holds an
  instance that has been deleted.
\<close>

lemma new_queues_empty:
  "new_queues rows = Inr qs \<Longrightarrow> \<forall>q \<in> set qs. next_out q = []"
proof (induction rows arbitrary: qs rule: new_queues.induct)
  case (2 name row rows)
  then show ?case
    by (auto simp: next_out_def Queue_new_inv(2,3) split: sum.splits)
qed simp

lemma QueuePool_new_empty:
  assumes "QueuePool_new rows (Some n) = Inr p"
  shows "queued p = {#}" and "registered X p = {#}" and "tid_workflow_instance p = replicate (n + 1) None"
    and "maxpid p = n" and "p_name p = List.map fst rows"
proof -
  obtain qs where qs: "new_queues rows = Inr qs" and p: "p_queue p = qs" "maxpid p = n"
    "tid_workflow_instance p = replicate (n + 1) None" "p_name p = List.map fst rows"
    using assms by (auto simp: QueuePool_new_def split: sum.splits)
  have "sum_list (List.map (\<lambda>q. mset (next_out q)) qs) = {#}"
    using new_queues_empty [OF qs] by (induction qs) auto
  then show "queued p = {#}" by (simp add: queued_def p)
  show "registered X p = {#}"
    unfolding registered_def p(2,3) by (auto simp: filter_empty_conv simp del: upt_Suc replicate_Suc)
qed (use assms in \<open>auto simp: QueuePool_new_def split: sum.splits\<close>)

lemma start_inv:
  assumes "QueuePool_new rows (Some n) = Inr p" and "sorted (List.map fst rows)" and "n + 1 < 2 ^ 32"
  shows "engine_inv (engine_start p files)"
proof -
  note empty = QueuePool_new_empty [OF assms(1)]
  have "pool_ok p"
    using QueuePool_new_inv [OF assms] empty(3,4) by (auto simp: pool_ok_def simp del: replicate_Suc)
  then show ?thesis
    by (auto simp: engine_inv_def base_ok_def engine_start_def total_def to_start_def at_work_def to_retry_def
        forker_tasks_def forker_tids_def events_of_def Retrier_new_def Scheduler_new_def empty(1,2) object_ok_def
        no_tasks_def retrier_inv_def sched_inv_def)
qed

lemma engine_reachable_inv: "engine_reachable g \<Longrightarrow> engine_inv g"
  by (induction rule: engine_reachable.induct) (auto intro: start_inv engine_step_inv)

text \<open>All the tasks the engine holds for an instance: queued or executing, and to be retried.\<close>

definition running_in :: "engine \<Rightarrow> wi_ref \<Rightarrow> node multiset" where
  "running_in g w = tasks_of w (to_start g) + tasks_of w (at_work g)"

definition retrying_in :: "engine \<Rightarrow> wi_ref \<Rightarrow> node multiset" where
  "retrying_in g w = tasks_of w (to_retry g)"

lemma object_counts:
  assumes "engine_inv g" and "objects g w = Some s"
  shows "unat (running_tasks s) = size (running_in g w) \<and> unat (retrying_tasks s) = size (retrying_in g w) \<and>
    running_in g w + retrying_in g w \<noteq> {#}"
proof -
  have counted: "life_counted (life_of g w s False)" by (rule reachable_counted [OF inv_object [OF assms]])
  have "size (running_in g w) < 2 ^ 32" "size (retrying_in g w) < 2 ^ 32"
    using assms(1) tasks_of_size [of w "to_start g"] tasks_of_size [of w "at_work g"] tasks_of_size [of w "to_retry g"]
    by (simp_all add: engine_inv_def total_def running_in_def retrying_in_def)
  moreover have "running_tasks s = of_nat (size (running_in g w))" "retrying_tasks s = of_nat (size (retrying_in g w))"
    using counted by (simp_all add: life_counted_def life_of_def running_in_def retrying_in_def)
  moreover have "running_in g w + retrying_in g w \<noteq> {#}"
    using live_instance_pending [OF counted] by (auto simp: life_of_def running_in_def retrying_in_def)
  ultimately show ?thesis by (metis unat_of_nat_u32)
qed


lemma absent_no_tasks:
  assumes "engine_inv g" and "objects g w = None"
  shows "running_in g w + retrying_in g w = {#}"
  using inv_absent [OF assms] by (simp add: no_tasks_def running_in_def retrying_in_def)

text \<open>
  C2. No thread uses an instance that has been deleted, and the forker never meets a broken queue:
  in every state \<open>DequeueTask\<close> is defined, the instance of the task it hands out is in memory, and so
  are those of the tasks the forker, the gatherer and the retrier's threads hold.
\<close>

theorem no_dangling_instance:
  assumes "engine_reachable g"
  shows "(case pool_dequeue_scan (qp g) of None \<Rightarrow> False | Some (None, p) \<Rightarrow> True
      | Some (Some (n, w, t), p) \<Rightarrow> objects g w \<noteq> None) \<and>
    (case forking g of Fork_Idle \<Rightarrow> True | Fork_Got n w t \<Rightarrow> objects g w \<noteq> None
      | Fork_Registered tid w t \<Rightarrow> objects g w \<noteq> None) \<and>
    (case gathering g of None \<Rightarrow> True | Some (w, x) \<Rightarrow> objects g w \<noteq> None) \<and>
    list_all (\<lambda>(w, t). objects g w \<noteq> None) (timers g)"
proof -
  have inv: "engine_inv g" by (rule engine_reachable_inv [OF assms])
  have alive: "objects g w \<noteq> None" if "running_in g w + retrying_in g w \<noteq> {#}" for w
    using absent_no_tasks [OF inv] that by blast
  obtain r p where p: "pool_dequeue_scan (qp g) = Some (r, p)"
    "\<And>n x. r = Some (n, x) \<Longrightarrow> queued (qp g) = add_mset x (queued p) \<and> has_queue (qp g) n"
    by (rule pool_dequeue_tasks [OF inv_base(3) [OF inv]]) (rule that)
  have "objects g w \<noteq> None" if "r = Some (n, w, t)" for n w t
    using p(2) [OF that] by (intro alive) (simp add: running_in_def to_start_def)
  moreover have "objects g w \<noteq> None" if "(w, t) \<in> set (timers g)" for w t
  proof (rule alive)
    have "tasks_of w (mset (timers g)) \<noteq> {#}" using that by (intro tasks_of_mem [of _ t]) simp
    then show "running_in g w + retrying_in g w \<noteq> {#}" by (simp add: retrying_in_def to_retry_def)
  qed
  ultimately show ?thesis
    using p(1) alive
    by (auto simp: list_all_iff running_in_def to_start_def at_work_def forker_tasks_def
        split: forking.splits option.splits)
qed

section \<open>A run\<close>

definition run_pool :: pool where
  "run_pool = (case QueuePool_new [(''q'', Some (1, 1))] (Some 7) of Inr p \<Rightarrow> p)"

lemma run_pool: "QueuePool_new [(''q'', Some (1, 1))] (Some 7) = Inr run_pool"
  by (simp add: run_pool_def QueuePool_new_def Queue_new_def CheckQueueName_def
      QUEUE_NAME_MAX_LEN_def isalnum_def isalpha_def)

lemma run_pool_queue: "has_queue run_pool n \<longleftrightarrow> n = ''q''"
  using queue_table.lookup_fail_iff [of "[''q'']" n] QueuePool_new_empty(5) [OF run_pool]
  by (simp add: has_queue_def)

definition run_start :: engine where
  "run_start = engine_start run_pool Map.empty"

lemma run_start_reachable: "engine_reachable run_start"
  unfolding run_start_def by (rule initial [OF run_pool]) simp_all

lemma run_seeing: "seeing run_start demo_env = demo_env"
  by (simp add: seeing_def run_start_def engine_start_def demo_env_def fun_eq_iff run_pool_queue)

text \<open>Instance 0, the small workflow of \<open>Instance_Lifecycle\<close>, has been started.\<close>

lemma run_launched:
  obtains g where "settle 0 demo_instance (False, demo_started) run_start = Some g" "engine_reachable g"
    and "\<exists>sig. pool_enqueue ''q'' 0 4 run_pool = Some (True, sig, qp g)"
    and "objects g = [0 \<mapsto> demo_started]" and "to_start g = {#(0, 4)#}" and "at_work g = {#}" and "to_retry g = {#}"
    and "engine_step run_start g"
proof -
  have inv: "engine_inv run_start" by (rule engine_reachable_inv [OF run_start_reachable])
  have start: "qp run_start = run_pool" "objects run_start = Map.empty" "queued run_pool = {#}"
    "\<And>X. registered X run_pool = {#}" "forking run_start = Fork_Idle" "gathering run_start = None"
    "timers run_start = []" "events_of (retrier run_start) = {#}"
    using QueuePool_new_empty(1,2) [OF run_pool]
    by (simp_all add: run_start_def engine_start_def events_of_def Retrier_new_def Scheduler_new_def)
  have "pool_ok run_pool" using inv_base(3) [OF inv] by (simp add: start)
  then obtain sig p where
    p: "pool_enqueue ''q'' 0 4 run_pool = Some (True, sig, p)" "same_table run_pool p" "queued p = {#(0, 4)#}"
    by (rule pool_enqueue_tasks [of run_pool "''q''" 0 4]) (simp_all add: run_pool_queue start)
  let ?g = "run_start\<lparr>qp := p, objects := [0 \<mapsto> demo_started]\<rparr>"
  have settled: "settle 0 demo_instance (False, demo_started) run_start = Some ?g"
    using p(1) by (simp add: settle_def demo_started_calls(2) start)
  have none: "executions (new_calls demo_instance demo_started) = []" by (simp add: demo_started_calls(2))
  have "unstarted demo_instance" by (simp add: unstarted_def demo_instance_def blank_def)
  from engine_step.launch [OF _ this _ _ _ settled, of demo_env] have "engine_step run_start ?g"
    using no_claims [OF none] demo_started_calls(1)
    by (simp add: run_seeing room_for_def demo_started_calls(2) total_def to_start_def at_work_def to_retry_def
        forker_tasks_def forker_tids_def start)
  moreover from this have "engine_reachable ?g" by (rule engine_reachable.step [OF run_start_reachable])
  ultimately show thesis using settled p(1)
    by (intro that [of ?g]) (simp_all add: to_start_def at_work_def to_retry_def forker_tasks_def forker_tids_def start p(3)
        same_table_registered [OF p(2)])
qed


theorem no_dangling_instance_witness:
  "\<exists>g p. engine_reachable g \<and> pool_dequeue_scan (qp g) = Some (Some (''q'', 0, 4), p) \<and> objects g 0 \<noteq> None"
proof -
  obtain g where g: "engine_reachable g" "\<exists>sig. pool_enqueue ''q'' 0 4 run_pool = Some (True, sig, qp g)"
    by (rule run_launched) (rule that)
  have "map_option (\<lambda>(_, _, p). map_option fst (pool_dequeue_scan p)) (pool_enqueue ''q'' 0 4 run_pool) =
      Some (Some (Some (''q'', 0, 4)))"
    by code_simp
  then obtain p where p: "pool_dequeue_scan (qp g) = Some (Some (''q'', 0, 4), p)" using g(2) by auto
  with no_dangling_instance [OF g(1)] g(1) show ?thesis by auto
qed

end
