(* ===== verification/Connection.thy ===== *)
theory Connection
  imports Socket_Query Statistics Workflow_Instances Workflow_Scheduler Engine_Properties
begin

text \<open>
  A client's connection (\<open>handle_connection.cpp\<close>): one query is read, the component it is for is
  called, a reply is sent and the socket closed. Every branch that does so leaves with
  \<open>throw (void *)0\<close>.
\<close>

section \<open>State\<close>

record server =
  sv_stats :: stats
  sv_registry :: instances
  sv_schedules :: wf_scheduler
  sv_engine :: engine

text \<open>
  What the connection is given: the environment and catalogues of a new instance, its identifier and
  address, the dates of schedules, the savepoint of an identifier in the database (the outer \<open>None\<close>: no such row), and
  the texts of the components that write to the socket themselves.
\<close>

record services =
  srv_env :: env
  srv_workflow :: "string \<Rightarrow> (exn + workflow_def) option"
  srv_schedule :: "string \<Rightarrow> (exn + retry_schedule_def) option"
  srv_inserted :: "exn + u32"
  srv_next_id :: u32
  srv_ref :: wi_ref
  srv_date :: "schedule \<Rightarrow> int option"
  srv_connect :: "exn option"
  srv_savepoint :: "int \<Rightarrow> exn + string option option"
  srv_queue_text :: "engine \<Rightarrow> string list"
  srv_stats_text :: "stats \<Rightarrow> string list"
  srv_scheduler_text :: "string list"

text \<open>
  How a connection stands: closed after what it sent; left without being closed, at the end of the
  function; asleep in \<open>Wait\<close>, with what it does when it wakes (for a launch, with the instance if it had ended); ended by an exception that no
  handler catches, with the whole process.
\<close>

datatype after_wait = Reply_OK | Reply_Launched wi_ref "wf_instance option"

datatype conn =
    Conn_Closed "string list" server
  | Conn_Left server
  | Conn_Waits after_wait server
  | Conn_Terminates exn

text \<open>\<open>send(s,text,n,0)\<close> for a literal.\<close>

definition sends :: "string \<Rightarrow> nat \<Rightarrow> string" where
  "sends text n = take n (text @ [CHR 0x00])"

definition pong :: string where
  "pong = sends ''<pong />'' 8"

definition squoted :: "string \<Rightarrow> string" where
  "squoted s = CHR 0x27 # s @ [CHR 0x27]"

definition reply_ok :: string where
  "reply_ok = sends (''<return status='' @ squoted ''OK'' @ '' />'') 22"

definition reply_unknown :: string where
  "reply_unknown = sends (''<return status='' @ squoted ''KO'' @ '' error='' @ squoted ''UNKNOWN-WORKFLOW-INSTANCE'' @ '' />'') 56"

definition reply_error :: "exn \<Rightarrow> string list" where
  "reply_error e = [sends (''<return status='' @ squoted ''KO'' @ '' error='' @ [CHR 0x22]) 27, exn_error e,
     sends (CHR 0x22 # '' />'') 4]"

definition reply_launched :: "u32 \<Rightarrow> string" where
  "reply_launched i = ''<return status='' @ squoted ''OK'' @ '' workflow-instance-id='' @ squoted (show_u32 i) @ '' />''"

section \<open>Reading the query\<close>

text \<open>
  The parser reports a document that is not well formed (\<open>Not_XML\<close>), cannot begin
  (\<open>Not_Started\<close>), or gives the events that the handler takes.
\<close>

datatype document_read = Not_XML | Not_Started | Events "sax_event list"

text \<open>The query, or \<open>None\<close> when the connection is closed without a reply.\<close>

definition read_query ::
  "(string \<Rightarrow> int option) \<Rightarrow> document_read \<Rightarrow> server \<Rightarrow> handler option \<times> server" where
  "read_query parse_int r sv =
     (let sv = sv\<lparr>sv_stats := IncAcceptedConnections (sv_stats sv)\<rparr>;
          failed = sv\<lparr>sv_stats := IncInputErrors (sv_stats sv)\<rparr>
      in case r of
        Not_XML \<Rightarrow> (None, sv)
      | Not_Started \<Rightarrow> (None, failed)
      | Events evs \<Rightarrow>
          (case sax_run parse_int evs handler_new of
             Inl (Sax_Exception e) \<Rightarrow> (None, failed)
           | Inl Sax_Number \<Rightarrow> (None, failed)
           | Inl (Sax_Complete h) \<Rightarrow> (Some h, sv)
           | Inr h \<Rightarrow> (Some h, sv)))"

section \<open>The branches\<close>

text \<open>
  \<open>delete workflow_instance\<close>: what the destructor calls, in its order. The instance leaves the
  registry, which wakes those who wait for it, and is freed; its schedule is told of its end.
\<close>

definition destroyed :: "wi_ref \<Rightarrow> u32 \<Rightarrow> server \<Rightarrow> server" where
  "destroyed w i sv = sv\<lparr>sv_registry := (let r = instances_Remove i (sv_registry sv) in r\<lparr>allocated := allocated r - {w}\<rparr>)\<rparr>"

fun destruct :: "(schedule \<Rightarrow> int option) \<Rightarrow> wi_ref \<Rightarrow> call list \<Rightarrow> server \<Rightarrow> server option" where
  "destruct nd w [] sv = Some sv"
| "destruct nd w (Call_Remove i # cs) sv = destruct nd w cs (destroyed w i sv)"
| "destruct nd w (Call_Schedule_Stop wsid success # cs) sv =
     Option.bind (ScheduledWorkflowInstanceStop nd wsid success (sv_schedules sv))
       (\<lambda>(inactive, s). destruct nd w cs (sv\<lparr>sv_schedules := s\<rparr>))"
| "destruct nd w (Call_DecExecuting # cs) sv =
     destruct nd w cs (sv\<lparr>sv_stats := DecWorkflowInstanceExecuting (sv_stats sv)\<rparr>)"
| "destruct nd w (_ # cs) sv = destruct nd w cs sv"

text \<open>\<open>if(workflow_terminated) delete\<close>, after an operation that gave \<open>(workflow_terminated, s)\<close>.\<close>

definition delete_ended :: "(schedule \<Rightarrow> int option) \<Rightarrow> wi_ref \<Rightarrow> bool \<times> wf_instance \<Rightarrow> server \<Rightarrow> server option" where
  "delete_ended nd w r sv = (case r of (workflow_terminated, s) \<Rightarrow>
     if workflow_terminated then destruct nd w (WorkflowInstance_delete s) sv else Some sv)"

text \<open>The constructor's calls for a new instance, which is registered before it is started.\<close>

definition constructed :: "wi_ref \<Rightarrow> u32 \<Rightarrow> server \<Rightarrow> server" where
  "constructed w i sv = (let reg = sv_registry sv in
     sv\<lparr>sv_stats := IncWorkflowInstanceExecuting (sv_stats sv),
       sv_registry := instances_Add i w (reg\<lparr>allocated := insert w (allocated reg)\<rparr>)\<rparr>)"

text \<open>
  A launch. \<open>Start\<close> is settled in the engine; an instance that ended in it stays in memory until the
  connection has replied.
\<close>

definition launched :: "services \<Rightarrow> thread_id \<Rightarrow> handler \<Rightarrow> wf_instance \<Rightarrow> server \<Rightarrow> conn option" where
  "launched S thread h s sv = do {
     let w = srv_ref S;
     let i = workflow_instance_id s;
     let sv = constructed w i sv;
     (workflow_terminated, s') \<leftarrow> Start (seeing (sv_engine sv) (srv_env S)) s;
     g \<leftarrow> settle w s (workflow_terminated, s') (sv_engine sv);
     let sv = sv\<lparr>sv_engine := g\<rparr>;
     mode \<leftarrow> query_options h;
     let (waits, reg) = (if mode = MODE_SYNCHRONOUS then instances_Wait thread i (sv_registry sv)
       else (False, sv_registry sv));
     let sv = sv\<lparr>sv_registry := reg\<rparr>;
     if waits then Some (Conn_Waits (Reply_Launched w (if workflow_terminated then Some s' else None)) sv)
     else map_option (Conn_Closed [reply_launched i]) (delete_ended (srv_date S) w (workflow_terminated, s') sv) }"

definition query_launch :: "services \<Rightarrow> thread_id \<Rightarrow> handler \<Rightarrow> server \<Rightarrow> conn option" where
  "query_launch S thread h sv =
     (let sv = sv\<lparr>sv_stats := IncWorkflowQueries (sv_stats sv)\<rparr> in
      do {
        name \<leftarrow> workflow_name h;
        r \<leftarrow> WorkflowInstance_new (srv_env S) (srv_workflow S) (srv_schedule S) (srv_inserted S) (srv_next_id S)
               name (query_params h) 0 (workflow_host h) (workflow_user h);
        case r of
          Inl e \<Rightarrow> Some (Conn_Closed (reply_error e) (sv\<lparr>sv_stats := IncWorkflowExceptions (sv_stats sv)\<rparr>))
        | Inr s \<Rightarrow> launched S thread h s sv })"

text \<open>
  What follows a wait. \<open>None\<close>: the instance the launch still refers to has been freed, or its schedule
  cannot be told of its end.
\<close>

definition wake_up :: "services \<Rightarrow> after_wait \<Rightarrow> server \<Rightarrow> conn option" where
  "wake_up S a sv = (case a of
       Reply_OK \<Rightarrow> Some (Conn_Closed [reply_ok] sv)
     | Reply_Launched w over \<Rightarrow>
         if w \<notin> allocated (sv_registry sv) then None
         else (case over of
             None \<Rightarrow> Some (Conn_Closed [reply_launched (instance_ids (sv_engine sv) w)] sv)
           | Some s \<Rightarrow> map_option (Conn_Closed [reply_launched (workflow_instance_id s)])
               (destruct (srv_date S) w (WorkflowInstance_delete s) sv)))"

definition query_info :: "services \<Rightarrow> handler \<Rightarrow> server \<Rightarrow> conn option" where
  "query_info S h sv = do {
     n \<leftarrow> handler.workflow_id h;
     let xml = (\<lambda>w. case objects (sv_engine sv) w of Some s \<Rightarrow> SendStatus (srv_env S) s | None \<Rightarrow> []);
     (case srv_connect S of
        Some e \<Rightarrow> Some (Conn_Terminates e)
      | None \<Rightarrow> do {
          let sv = sv\<lparr>sv_stats := IncWorkflowStatusQueries (sv_stats sv)\<rparr>;
          (found, text) \<leftarrow> instances_SendStatus xml (word_of_int n) (sv_registry sv);
          if found then Some (Conn_Closed [text] sv)
          else case srv_savepoint S n of
              Inl e \<Rightarrow> Some (Conn_Terminates e)
            | Inr None \<Rightarrow> Some (Conn_Closed [reply_unknown] sv)
            | Inr (Some None) \<Rightarrow> None
            | Inr (Some (Some savepoint)) \<Rightarrow> Some (Conn_Closed [savepoint] sv) }) }"

definition cancel_object :: "wi_ref \<Rightarrow> engine \<Rightarrow> engine" where
  "cancel_object w g = g\<lparr>objects := (objects g)(w := map_option Cancel (objects g w))\<rparr>"

definition kill_object :: "wi_ref \<Rightarrow> int \<Rightarrow> engine \<Rightarrow> engine" where
  "kill_object w pid g = g\<lparr>objects := (objects g)(w := map_option (\<lambda>s. snd (KillTask pid s)) (objects g w))\<rparr>"

text \<open>
  \<open>Retrier::event_removed\<close> (\<open>timer_restart\<close> in the engine), which deletes an instance that has ended;
  the flush calls it for the tasks it removes, one after the other.
\<close>

definition event_removed :: "env \<Rightarrow> (schedule \<Rightarrow> int option) \<Rightarrow> wi_ref \<times> node \<Rightarrow> server \<Rightarrow> server option" where
  "event_removed E nd x sv = (let g = sv_engine sv in do {
     s \<leftarrow> objects g (fst x);
     r \<leftarrow> TaskRestart (seeing g E) (snd x) s;
     g' \<leftarrow> timer_restart E x g;
     delete_ended nd (fst x) r (sv\<lparr>sv_engine := g'\<rparr>) })"

fun restart_all :: "env \<Rightarrow> (schedule \<Rightarrow> int option) \<Rightarrow> (wi_ref \<times> node) list \<Rightarrow> server \<Rightarrow> server option" where
  "restart_all E nd [] sv = Some sv"
| "restart_all E nd (x # xs) sv = Option.bind (event_removed E nd x sv) (restart_all E nd xs)"

definition query_cancel :: "services \<Rightarrow> handler \<Rightarrow> server \<Rightarrow> conn option" where
  "query_cancel S h sv = do {
     n \<leftarrow> handler.workflow_id h;
     let i = word_of_int n;
     let sv = sv\<lparr>sv_stats := IncWorkflowCancelQueries (sv_stats sv)\<rparr>;
     (found, g) \<leftarrow> instances_Cancel cancel_object i (sv_registry sv, sv_engine sv);
     if \<not> found then Some (Conn_Closed [reply_unknown] sv)
     else do {
       let g' = flush_instance i g;
       sv \<leftarrow> restart_all (srv_env S) (srv_date S) (drop (length (timers g)) (timers g')) (sv\<lparr>sv_engine := g'\<rparr>);
       g \<leftarrow> cancel_queued i (sv_engine sv);
       Some (Conn_Closed [reply_ok] (sv\<lparr>sv_engine := g\<rparr>)) } }"

definition query_wait :: "thread_id \<Rightarrow> handler \<Rightarrow> server \<Rightarrow> conn option" where
  "query_wait thread h sv = do {
     n \<leftarrow> handler.workflow_id h;
     let (waits, reg) = instances_Wait thread (word_of_int n) (sv_registry sv);
     Some (if waits then Conn_Waits Reply_OK (sv\<lparr>sv_registry := reg\<rparr>) else Conn_Closed [reply_unknown] sv) }"

definition query_killtask :: "handler \<Rightarrow> server \<Rightarrow> conn option" where
  "query_killtask h sv = do {
     n \<leftarrow> handler.workflow_id h;
     pid \<leftarrow> task_pid h;
     (found, g) \<leftarrow> instances_KillTask kill_object (word_of_int n) pid (sv_registry sv, sv_engine sv);
     Some (Conn_Closed [if found then reply_ok else reply_unknown] (sv\<lparr>sv_engine := g\<rparr>)) }"

definition query_workflows :: "services \<Rightarrow> u32 list \<Rightarrow> server \<Rightarrow> conn option" where
  "query_workflows S is sv =
     (let xml = (\<lambda>w. case objects (sv_engine sv) w of Some s \<Rightarrow> SendStatus (srv_env S) s | None \<Rightarrow> []) in
      Some (Conn_Closed [instances_SendStatus_all xml is (sv_registry sv)]
        (sv\<lparr>sv_stats := IncStatisticsQueries (sv_stats sv)\<rparr>)))"

text \<open>
  The dispatch; \<open>is\<close> are the identifiers of the registry in order. A query whose type was not set
  matches no branch (\<open>None\<close> is an uninitialised field, here one that equals no type), and the function
  ends without closing the socket.
\<close>

definition handle_query :: "services \<Rightarrow> u32 list \<Rightarrow> thread_id \<Rightarrow> handler \<Rightarrow> server \<Rightarrow> conn option" where
  "handle_query S is thread h sv =
     (let counted = sv\<lparr>sv_stats := IncStatisticsQueries (sv_stats sv)\<rparr> in
      case query_type h of
        Some PING \<Rightarrow> Some (Conn_Closed [pong] sv)
      | Some QUERY_WORKFLOW_LAUNCH \<Rightarrow> query_launch S thread h sv
      | Some QUERY_WORKFLOW_INFO \<Rightarrow> query_info S h sv
      | Some QUERY_WORKFLOW_CANCEL \<Rightarrow> query_cancel S h sv
      | Some QUERY_WORKFLOW_WAIT \<Rightarrow> query_wait thread h sv
      | Some QUERY_WORKFLOW_KILLTASK \<Rightarrow> query_killtask h sv
      | Some QUERY_QUEUE_STATS \<Rightarrow> Some (Conn_Closed (srv_queue_text S (sv_engine sv)) counted)
      | Some QUERY_GLOBAL_STATS \<Rightarrow> Some (Conn_Closed (srv_stats_text S (sv_stats counted)) counted)
      | Some RESET_GLOBAL_STATS \<Rightarrow>
          Some (Conn_Closed [reply_ok] (sv\<lparr>sv_stats := ResetGlobalStatistics (sv_stats sv)\<rparr>))
      | Some QUERY_WORKFLOWS_STATUS \<Rightarrow> query_workflows S is sv
      | Some QUERY_SCHEDULER_STATUS \<Rightarrow> Some (Conn_Closed (srv_scheduler_text S) counted)
      | None \<Rightarrow> Some (Conn_Left sv))"

definition handle_connection ::
  "services \<Rightarrow> (string \<Rightarrow> int option) \<Rightarrow> u32 list \<Rightarrow> thread_id \<Rightarrow> document_read \<Rightarrow> server \<Rightarrow> conn option" where
  "handle_connection S parse_int is thread r sv =
     (case read_query parse_int r sv of
        (None, sv) \<Rightarrow> Some (Conn_Closed [] sv)
      | (Some h, sv) \<Rightarrow> handle_query S is thread h sv)"

end
