(* ===== verification/Connection_Properties.thy ===== *)
theory Connection_Properties
  imports Connection
begin

text \<open>What a client can rely on, and two ways in which a connection goes wrong.\<close>

section \<open>Replies\<close>

text \<open>The lengths given to \<open>send\<close> are those of the literals.\<close>

lemma replies_whole:
  "reply_ok = ''<return status='' @ squoted ''OK'' @ '' />''"
  "reply_unknown = ''<return status='' @ squoted ''KO'' @ '' error='' @ squoted ''UNKNOWN-WORKFLOW-INSTANCE'' @ '' />''"
  "concat (reply_error (Exception c e)) = ''<return status='' @ squoted ''KO'' @ '' error='' @ [CHR 0x22] @ e @ CHR 0x22 # '' />''"
  "pong = ''<pong />''"
proof -
  show "reply_ok = ''<return status='' @ squoted ''OK'' @ '' />''" "pong = ''<pong />''"
    "reply_unknown = ''<return status='' @ squoted ''KO'' @ '' error='' @ squoted ''UNKNOWN-WORKFLOW-INSTANCE'' @ '' />''"
    by code_simp+
  have "sends (''<return status='' @ squoted ''KO'' @ '' error='' @ [CHR 0x22]) 27 = ''<return status='' @ squoted ''KO'' @ '' error='' @ [CHR 0x22]"
    "sends (CHR 0x22 # '' />'') 4 = CHR 0x22 # '' />''"
    by code_simp+
  then show "concat (reply_error (Exception c e)) = ''<return status='' @ squoted ''KO'' @ '' error='' @ [CHR 0x22] @ e @ CHR 0x22 # '' />''"
    unfolding reply_error_def Exception_def by simp
qed

lemma instances_call_defined:
  assumes "instances_inv s"
  shows "instances_call act i (s, x) = Some (case wi s i of None \<Rightarrow> (False, x) | Some p \<Rightarrow> (True, act p x))"
proof (cases "wi s i")
  case (Some p)
  then have "p \<in> allocated s" using assms by (auto simp: instances_inv_def ran_def)
  with Some show ?thesis by (simp add: instances_call_def)
qed (simp add: instances_call_def)

definition answered :: "conn \<Rightarrow> bool" where
  "answered c = (case c of Conn_Closed rs sv \<Rightarrow> rs \<noteq> [] | _ \<Rightarrow> False)"

definition asleep_on :: "thread_id \<Rightarrow> u32 \<Rightarrow> conn \<Rightarrow> bool" where
  "asleep_on t i c = (case c of Conn_Waits a sv \<Rightarrow> waits_for t i (sv_registry sv) | _ \<Rightarrow> False)"

lemma Wait_waits:
  "wi s i \<noteq> None \<Longrightarrow> fst (instances_Wait t i s) \<and> waits_for t i (snd (instances_Wait t i s))"
  by (auto simp: instances_Wait_def waits_for_def split: option.splits)


text \<open>A query with an unknown action leaves the function without a reply and without closing the socket.\<close>

lemma unknown_action_leaks:
  "query_type h = None \<Longrightarrow> handle_query S is t h sv = Some (Conn_Left sv)"
  by (simp add: handle_query_def)

section \<open>Synchronous launches\<close>

text \<open>
  A synchronous launch never gets its reply from a living instance. Once launched it waits for
  the instance to be removed; the thread that removes it frees it, so the reply reads freed memory.
  And when the workflow ended in \<open>Start\<close> the engine holds nothing of it, so only this connection
  would remove it: it waits for itself.
\<close>

theorem synchronous_launch:
  assumes "launched S t h s sv = Some c" and "query_options h = Some MODE_SYNCHRONOUS"
  shows "\<exists>over v. c = Conn_Waits (Reply_Launched (srv_ref S) over) v \<and> waits_for t (workflow_instance_id s) (sv_registry v) \<and>
    wake_up S (Reply_Launched (srv_ref S) over) (destroyed (srv_ref S) (workflow_instance_id s) v) = None \<and>
    (over \<noteq> None \<longrightarrow> objects (sv_engine v) (srv_ref S) = None)"
proof -
  let ?w = "srv_ref S" and ?i = "workflow_instance_id s"
  let ?sv = "constructed ?w ?i sv"
  let ?reg = "sv_registry ?sv"
  have there: "wi ?reg ?i \<noteq> None" by (simp add: constructed_def Let_def instances_Add_def)
  have same: "sv_engine ?sv = sv_engine sv" by (simp add: constructed_def Let_def)
  note sleeps = Wait_waits [OF there, of t]
  obtain b s1 g where r: "Start (seeing (sv_engine sv) (srv_env S)) s = Some (b, s1)"
    "settle ?w s (b, s1) (sv_engine sv) = Some g"
    using assms(1) by (auto simp: launched_def Let_def bind_eq_Some_conv same)
  obtain w2 reg2 where reg2: "instances_Wait t ?i ?reg = (w2, reg2)" by fastforce
  with sleeps have w2: "w2" "waits_for t ?i reg2" by simp_all
  let ?over = "if b then Some s1 else None"
  obtain v where v: "c = Conn_Waits (Reply_Launched ?w ?over) v" "sv_registry v = reg2" "sv_engine v = g"
    using assms(1,2) r reg2 w2(1) same by (auto simp: launched_def Let_def)
  have "wake_up S (Reply_Launched ?w ?over) (destroyed ?w ?i v) = None" by (simp add: wake_up_def destroyed_def Let_def)
  moreover have "b \<longrightarrow> objects g ?w = None" using r(2) by (auto elim!: settle_parts)
  ultimately show ?thesis using v w2(2) by auto
qed

section \<open>Witnesses\<close>

definition demo_server :: server where
  "demo_server = \<lparr>sv_stats = Statistics_new, sv_registry = WorkflowInstances_new,
     sv_schedules = WorkflowScheduler_new [], sv_engine = run_start\<rparr>"

definition demo_services :: services where
  "demo_services = \<lparr>srv_env = demo_env, srv_workflow = (\<lambda>_. None), srv_schedule = (\<lambda>_. None), srv_inserted = Inr 7,
     srv_next_id = 7, srv_ref = 0, srv_date = (\<lambda>_. None), srv_connect = None, srv_savepoint = (\<lambda>_. Inr None), srv_queue_text = (\<lambda>_. []),
     srv_stats_text = (\<lambda>_. []), srv_scheduler_text = []\<rparr>"

definition sync_query :: handler where
  "sync_query = handler_new\<lparr>query_type := Some QUERY_WORKFLOW_LAUNCH, query_options := Some MODE_SYNCHRONOUS\<rparr>"

theorem synchronous_launch_witness:
  "\<exists>v. launched demo_services 1 sync_query demo_instance demo_server = Some (Conn_Waits (Reply_Launched 0 None) v) \<and>
     wake_up demo_services (Reply_Launched 0 None) (destroyed 0 7 v) = None"
proof -
  obtain g where g: "settle 0 demo_instance (False, demo_started) run_start = Some g"
    by (rule run_launched) (rule that)
  have q: "query_options sync_query = Some MODE_SYNCHRONOUS" by (simp add: sync_query_def)
  have i: "workflow_instance_id demo_instance = 7" by (simp add: demo_instance_def)
  obtain v where l: "launched demo_services 1 sync_query demo_instance demo_server = Some (Conn_Waits (Reply_Launched 0 None) v)"
    using g demo_started_calls(1)
    by (simp add: launched_def demo_services_def demo_server_def q run_seeing i Let_def constructed_def instances_Add_def
        instances_Wait_def WorkflowInstances_new_def split: prod.splits)
  from synchronous_launch [OF l q] l show ?thesis by (auto simp: demo_services_def i)
qed


end
