(* ===== verification/Cancel_Query.thy ===== *)
theory Cancel_Query
  imports Connection_Properties
begin

text \<open>
  The cancellation of an instance by a client, across the registry, the instance, the retrier and
  the pool: none of its tasks is left waiting.
\<close>

section \<open>Restarting a task of a cancelled instance\<close>

text \<open>The identifiers of an instance do not change.\<close>

definition same_ids :: "wf_instance \<Rightarrow> wf_instance \<Rightarrow> bool" where
  "same_ids s t \<longleftrightarrow> workflow_instance_id t = workflow_instance_id s \<and> workflow_schedule_id t = workflow_schedule_id s"

lemma same_ids_simps [simp]:
  "same_ids s s" "same_ids s (put n a v t) = same_ids s t" "same_ids s (put_root a v t) = same_ids s t"
  "same_ids s (emit c t) = same_ids s t" "same_ids s (abort_task n r t) = same_ids s t"
  "same_ids s (t\<lparr>error_tasks := e\<rparr>) = same_ids s t" "same_ids s (t\<lparr>running_tasks := k\<rparr>) = same_ids s t"
  "same_ids s (t\<lparr>retrying_tasks := k\<rparr>) = same_ids s t" "same_ids s (t\<lparr>xmldoc := d\<rparr>) = same_ids s t"
  by (simp_all add: same_ids_def put_root_def put_def emit_def abort_task_def)

lemma same_ids_trans: "same_ids s t \<Longrightarrow> same_ids t u \<Longrightarrow> same_ids s u"
  by (simp add: same_ids_def)

lemma enqueue_task_ids: "enqueue_task E k s = Some t \<Longrightarrow> same_ids s t"
  unfolding enqueue_task_def by (auto simp: Let_def split: if_splits option.splits)

interpretation identity: instance_frame E same_ids for E
  by unfold_locales (auto intro: same_ids_trans enqueue_task_ids)

text \<open>The state of the cancelled instance \<open>w\<close>, with identifier \<open>i\<close>, during the query.\<close>

definition cancelled_in :: "wi_ref \<Rightarrow> u32 \<Rightarrow> engine \<Rightarrow> bool" where
  "cancelled_in w i g \<longleftrightarrow> engine_inv g \<and> tasks_of w (events_of (retrier g)) = {#} \<and>
     (\<forall>s. objects g w = Some s \<longrightarrow> is_cancelling s \<and> workflow_instance_id s = i)"

lemma restart_cancelled:
  assumes c: "cancelled_in w i g" and t: "(w, t) \<in> set (timers g)" and r: "timer_restart E (w, t) g = Some g'"
  shows "cancelled_in w i g' \<and> retrier g' = retrier g \<and> timers g' = remove1 (w, t) (timers g)"
    and "qp g' = qp g" and "objects g w = Some s \<Longrightarrow> TaskRestart (seeing g E) t s = Some (b, s') \<Longrightarrow> room_for (new_calls s s') g"
proof -
  obtain s b s' where s: "objects g w = Some s" "TaskRestart (seeing g E) t s = Some (b, s')"
    "settle w s (b, s') (g\<lparr>timers := remove1 (w, t) (timers g)\<rparr>) = Some g'"
    using r by (auto simp: timer_restart_def bind_eq_Some_conv)
  have can: "is_cancelling s" "workflow_instance_id s = i" using c s(1) by (simp_all add: cancelled_in_def)
  have "hands_out_nothing s s'" by (rule TaskRestart_effect(2) [OF s(2) can(1)])
  then have none: "enqueues (new_calls s s') = []" "executions (new_calls s s') = []" "retries (new_calls s s') = []"
    by (simp_all add: hands_out_nothing_def Let_def)
  have g': "g' = g\<lparr>timers := remove1 (w, t) (timers g), objects := (objects g)(w := if b then None else Some s')\<rparr>"
    using s(3) deliver_nothing [OF none] by (simp add: settle_def)
  have "is_cancelling s'" using TaskRestart_effect(1) [OF s(2)] can(1) by (simp add: effect_def Let_def)
  moreover have "engine_inv g'"
    by (rule restart_inv [OF _ t s(1,2) _ r])
      (use c none in \<open>simp_all add: cancelled_in_def engine_inv_def room_for_def\<close>)
  ultimately show "cancelled_in w i g' \<and> retrier g' = retrier g \<and> timers g' = remove1 (w, t) (timers g)"
    using c can identity.TaskRestart [OF s(2)] by (auto simp: cancelled_in_def same_ids_def g')
  show "qp g' = qp g" by (simp add: g')
  show "room_for (new_calls s s') g" if "objects g w = Some s" "TaskRestart (seeing g E) t s = Some (b, s')" for s b s'
    using that s c none by (simp add: cancelled_in_def engine_inv_def room_for_def)
qed

text \<open>The deletion of an instance does not touch the engine.\<close>

lemma destruct_engine: "destruct nd w cs sv = Some sv' \<Longrightarrow> sv_engine sv' = sv_engine sv"
  by (induction nd w cs sv rule: destruct.induct) (auto simp: bind_eq_Some_conv destroyed_def)

lemma delete_ended_engine: "delete_ended nd w r sv = Some sv' \<Longrightarrow> sv_engine sv' = sv_engine sv"
  by (auto simp: delete_ended_def dest: destruct_engine split: prod.splits if_splits)

lemma event_removed_engine:
  "event_removed E nd x sv = Some sv' \<Longrightarrow> timer_restart E x (sv_engine sv) = Some (sv_engine sv')"
  by (auto simp: event_removed_def Let_def bind_eq_Some_conv dest: delete_ended_engine)

lemma restart_all_cancelled:
  assumes "cancelled_in w i (sv_engine sv)" and "mset xs \<subseteq># mset (timers (sv_engine sv))" and "list_all (\<lambda>x. fst x = w) xs"
    and "restart_all E nd xs sv = Some sv'"
  shows "cancelled_in w i (sv_engine sv')"
  using assms
proof (induction xs arbitrary: sv)
  case (Cons x xs)
  obtain t where x: "x = (w, t)" using Cons.prems(3) by (cases x) simp
  obtain sv1 where sv1: "event_removed E nd (w, t) sv = Some sv1" "restart_all E nd xs sv1 = Some sv'"
    using Cons.prems(4) by (auto simp: x bind_eq_Some_conv)
  have t: "(w, t) \<in> set (timers (sv_engine sv))" using Cons.prems(2) x by (metis list.set_intros(1) mset_subset_eqD set_mset_mset)
  note one = restart_cancelled [OF Cons.prems(1) t event_removed_engine [OF sv1(1)]]
  have "mset xs \<subseteq># mset (timers (sv_engine sv1))"
    using Cons.prems(2) one t x by (simp add: insert_subset_eq_iff)
  with Cons.IH [of sv1] one Cons.prems(3) sv1(2) show ?case by simp
qed simp

section \<open>The query\<close>

definition none_waiting :: "wi_ref \<Rightarrow> pool \<Rightarrow> bool" where
  "none_waiting w p \<longleftrightarrow> (\<forall>q \<in> set (p_queue p). \<forall>x \<in> set (waiting q). fst x \<noteq> w)"

lemma cancel_all_waiting:
  "\<forall>q \<in> set qs. queue_wf q \<Longrightarrow> cancel_all f i qs = Some qs' \<Longrightarrow>
    \<forall>q \<in> set qs'. \<exists>q0 \<in> set qs. waiting q = List.filter (\<lambda>x. \<not> hit f i x) (waiting q0)"
proof (induction qs arbitrary: qs')
  case (Cons q qs)
  have "queue_wf q" using Cons.prems(1) by simp
  then obtain q' where q': "CancelTasks f i q = Some q'" "waiting q' = List.filter (\<lambda>x. \<not> hit f i x) (waiting q)"
    using CancelTasks_wf [of q f i] by metis
  with Cons.prems(2) obtain qs1 where "cancel_all f i qs = Some qs1" "qs' = q' # qs1" by auto
  with Cons.IH [of qs1] Cons.prems(1) q'(2) show ?case by auto
qed simp

lemma in_queue_queued: "q \<in> set (p_queue p) \<Longrightarrow> x \<in> set (waiting q) \<Longrightarrow> x \<in># queued p"
proof -
  have "q \<in> set qs \<Longrightarrow> x \<in> set (waiting q) \<Longrightarrow> x \<in># sum_list (List.map (\<lambda>q. mset (next_out q)) qs)" for qs
    by (induction qs) (auto simp: next_out_def)
  then show "q \<in> set (p_queue p) \<Longrightarrow> x \<in> set (waiting q) \<Longrightarrow> x \<in># queued p" by (simp add: queued_def)
qed

lemma cancel_queued_clears:
  assumes c: "cancelled_in w i g" and r: "cancel_queued i g = Some g'"
  shows "none_waiting w (qp g') \<and> objects g' = objects g \<and> retrier g' = retrier g"
proof -
  obtain qs where qs: "cancel_all (instance_ids g) i (p_queue (qp g)) = Some qs"
    "g' = g\<lparr>qp := refresh ((qp g)\<lparr>p_queue := qs\<rparr>)\<rparr>"
    using r by (auto simp: cancel_queued_def pool_cancel_def Let_def split: option.splits)
  have inv: "engine_inv g" using c by (simp add: cancelled_in_def)
  have "\<forall>q \<in> set (p_queue (qp g)). queue_wf q"
    using inv_base(3) [OF inv] by (simp add: pool_ok_def queue_inv_def)
  note filtered = cancel_all_waiting [OF this qs(1)]
  have "fst x \<noteq> w" if q: "q \<in> set qs" "x \<in> set (waiting q)" for q x
  proof
    assume w: "fst x = w"
    obtain q0 where q0: "q0 \<in> set (p_queue (qp g))" "x \<in> set (waiting q0)" "\<not> hit (instance_ids g) i x"
      using filtered q by auto
    show False
    proof (cases "objects g w")
      case None
      have "(w, snd x) \<in># to_start g" using in_queue_queued [OF q0(1,2)] w by (auto simp: to_start_def)
      from tasks_of_mem [OF this] inv_absent [OF inv None] show False by (simp add: no_tasks_def)
    next
      case (Some s)
      with c q0(3) w show False by (simp add: cancelled_in_def hit_def instance_ids_def)
    qed
  qed
  then show ?thesis by (auto simp: qs(2) none_waiting_def)
qed

lemma flush_cancelled:
  assumes inv: "engine_inv g" and s: "objects g w = Some s" "is_cancelling s" "workflow_instance_id s = i"
    and unique: "\<And>v s'. objects g v = Some s' \<Longrightarrow> workflow_instance_id s' = i \<Longrightarrow> v = w" and i: "i \<noteq> 0"
  obtains xs where "timers (flush_instance i g) = timers g @ xs" and "list_all (\<lambda>x. fst x = w) xs"
    and "cancelled_in w i (flush_instance i g)"
proof -
  let ?P = "\<lambda>e. instance_ids g (tt_instance (payload e)) = i" and ?s = "r_sched (retrier g)"
  have sched: "sched_inv ?s" using inv_base(2) [OF inv] by (simp add: retrier_inv_def)
  obtain eff gone r where r: "FlushWorkflowInstance (instance_ids g) i (retrier g) = (eff, gone, r)"
    by (cases "FlushWorkflowInstance (instance_ids g) i (retrier g)") auto
  then have parts: "gone = List.filter ?P (first_event ?s)" "first_event (r_sched r) = List.filter (\<lambda>e. \<not> ?P e) (first_event ?s)"
    using Flush_result [OF sched, of ?P True] by (auto simp: FlushWorkflowInstance_parts)
  have g': "flush_instance i g = g\<lparr>retrier := r, timers := timers g @ List.map timed gone\<rparr>"
    by (simp add: flush_instance_def r)
  have "v = w" if "instance_ids g v = i" for v
    using that unique i by (auto simp: instance_ids_def split: option.splits)
  then have mine: "list_all (\<lambda>x. fst x = w) (List.map timed gone)"
    unfolding parts(1) by (auto simp: list_all_iff timed_def)
  have "instance_ids g w = i" using s by (simp add: instance_ids_def)
  then have "\<And>e. e \<in> set (first_event (r_sched r)) \<Longrightarrow> fst (timed e) \<noteq> w"
    unfolding parts(2) by (auto simp: timed_def)
  then have "tasks_of w (events_of r) = {#}"
    unfolding events_of_def tasks_of_def by (auto simp: filter_mset_eq_mempty_iff) (metis fst_conv)
  then have "cancelled_in w i (flush_instance i g)"
    using flush_inv [OF inv, of i] s by (simp add: cancelled_in_def g')
  with mine show thesis by (intro that [of "List.map timed gone"]) (simp_all add: g')
qed

text \<open>The instance is marked before the flush.\<close>

lemma cancel_object_eq: "objects g w = Some s \<Longrightarrow> cancel_object w g = g\<lparr>objects := (objects g)(w \<mapsto> Cancel s)\<rparr>"
  by (simp add: cancel_object_def)

lemma cancel_flushed:
  assumes inv: "engine_inv g" and s: "objects g w = Some s" "workflow_instance_id s = i" and i: "i \<noteq> 0"
    and unique: "\<And>v s'. objects g v = Some s' \<Longrightarrow> workflow_instance_id s' = i \<Longrightarrow> v = w"
  obtains xs where "timers (flush_instance i (cancel_object w g)) = timers (cancel_object w g) @ xs"
    and "list_all (\<lambda>x. fst x = w) xs" and "cancelled_in w i (flush_instance i (cancel_object w g))"
proof -
  let ?g1 = "cancel_object w g"
  note g1 = cancel_object_eq [OF s(1)]
  have inv1: "engine_inv ?g1"
    unfolding g1 using object_inv [OF inv s(1) life_step.cancel] by (simp add: life_of_def)
  have can: "is_cancelling (Cancel s)" "workflow_instance_id (Cancel s) = i" using s(2) by (simp_all add: Cancel_def)
  show thesis
    by (rule flush_cancelled [OF inv1 _ can _ i, of w]) (use unique in \<open>auto simp: g1 split: if_splits intro: that [unfolded g1]\<close>)
qed

text \<open>
  C11. A client's cancellation, when it returns: the client is told \<open>OK\<close>, no task of the instance
  waits in a queue any more (those that did will be handed out next, to be aborted) and none with
  the retrier; the instance is either gone or marked as being cancelled, so that nothing it still
  runs will queue a task (\<open>cancelled_instance_ends\<close>).
\<close>

theorem cancel_clears:
  assumes "engine_reachable (sv_engine sv)" and "handler.workflow_id h = Some n" and "i = word_of_int n"
    and "i \<noteq> 0" and "wi (sv_registry sv) i = Some w" and "objects (sv_engine sv) w = Some s"
    and "workflow_instance_id s = i"
    and "\<forall>v s'. objects (sv_engine sv) v = Some s' \<longrightarrow> workflow_instance_id s' = i \<longrightarrow> v = w"
    and "query_cancel S h sv = Some c"
  shows "\<exists>sv'. c = Conn_Closed [reply_ok] sv' \<and> none_waiting w (qp (sv_engine sv')) \<and>
    tasks_of w (events_of (retrier (sv_engine sv'))) = {#} \<and>
    (case objects (sv_engine sv') w of None \<Rightarrow> True | Some s' \<Rightarrow> is_cancelling s')"
proof -
  let ?g = "sv_engine sv"
  let ?g1 = "cancel_object w ?g"
  have inv: "engine_inv ?g" by (rule engine_reachable_inv [OF assms(1)])
  obtain xs where xs: "timers (flush_instance i ?g1) = timers ?g1 @ xs" "list_all (\<lambda>x. fst x = w) xs"
    "cancelled_in w i (flush_instance i ?g1)"
    by (rule cancel_flushed [OF inv assms(6,7,4)]) (use assms(8) in blast)+
  obtain sv2 g3 where sv2: "restart_all (srv_env S) (srv_date S) xs
      (sv\<lparr>sv_stats := IncWorkflowCancelQueries (sv_stats sv), sv_engine := flush_instance i ?g1\<rparr>) = Some sv2"
    "cancel_queued i (sv_engine sv2) = Some g3" "c = Conn_Closed [reply_ok] (sv2\<lparr>sv_engine := g3\<rparr>)"
    using assms(2,3,5,9) xs(1)
    by (auto simp: query_cancel_def Let_def bind_eq_Some_conv instances_Cancel_def instances_call_def split: if_splits)
  have c2: "cancelled_in w i (sv_engine sv2)"
    by (rule restart_all_cancelled [OF _ _ xs(2) sv2(1)]) (simp_all add: xs)
  from cancel_queued_clears [OF c2 sv2(2)] c2 sv2(3) show ?thesis
    by (auto simp: cancelled_in_def split: option.splits)
qed

definition cancel_handler :: handler where
  "cancel_handler = handler_new\<lparr>query_type := Some QUERY_WORKFLOW_CANCEL, handler.workflow_id := Some 7\<rparr>"

lemma cancel_all_defined: "\<forall>q \<in> set qs. queue_wf q \<Longrightarrow> cancel_all f i qs \<noteq> None"
proof (induction qs)
  case (Cons q qs)
  then have "queue_wf q" by simp
  then obtain q' where "CancelTasks f i q = Some q'" by (metis CancelTasks_wf)
  with Cons show ?case by auto
qed simp

lemma cancel_queued_defined: "engine_inv g \<Longrightarrow> cancel_queued i g \<noteq> None"
  using inv_base(3) [of g] cancel_all_defined [of "p_queue (qp g)" "instance_ids g" i]
  by (auto simp: cancel_queued_def pool_cancel_def pool_ok_def queue_inv_def Let_def)

theorem cancel_clears_witness:
  "\<exists>sv sv'. engine_reachable (sv_engine sv) \<and> objects (sv_engine sv) 0 = Some demo_started \<and>
     query_cancel demo_services cancel_handler sv = Some (Conn_Closed [reply_ok] sv') \<and>
     none_waiting 0 (qp (sv_engine sv'))"
proof -
  obtain g where g: "settle 0 demo_instance (False, demo_started) run_start = Some g" "engine_reachable g"
    "objects g = [0 \<mapsto> demo_started]"
    by (rule run_launched) (rule that)
  define sv where "sv = demo_server\<lparr>sv_engine := g, sv_registry := instances_Add 7 0 (WorkflowInstances_new\<lparr>allocated := {0}\<rparr>)\<rparr>"
  have fresh: "retrier g = Retrier_new" "timers g = []"
    using g(1) by (auto simp: settle_def demo_started_calls(2) run_start_def engine_start_def split: option.splits)
  have reg: "wi (sv_registry sv) 7 = Some 0" "allocated (sv_registry sv) = {0}" "sv_engine sv = g"
    by (simp_all add: sv_def instances_Add_def WorkflowInstances_new_def)
  have i: "workflow_instance_id demo_started = 7"
  proof -
    have "(case Start demo_env demo_instance of Some (b, s) \<Rightarrow> workflow_instance_id s = 7 | None \<Rightarrow> False)" by code_simp
    then show ?thesis by (simp add: demo_started_calls(1))
  qed
  have n: "handler.workflow_id cancel_handler = Some 7" by (simp add: cancel_handler_def)
  let ?g1 = "cancel_object 0 g"
  have inv: "engine_inv g" by (rule engine_reachable_inv [OF g(2)])
  have "retrier ?g1 = Retrier_new" "timers ?g1 = []" by (simp_all add: cancel_object_def fresh)
  then have "timers (flush_instance 7 ?g1) = []"
    by (simp add: flush_instance_def Retrier_new_def FlushWorkflowInstance_def Scheduler_new_def Flush_def split: prod.splits)
  moreover have "engine_inv ?g1"
    using object_inv [OF inv, of 0 demo_started, OF _ life_step.cancel] by (simp add: g(3) life_of_def cancel_object_def)
  then have "engine_inv (flush_instance 7 ?g1)" by (rule flush_inv)
  ultimately have "\<exists>c. query_cancel demo_services cancel_handler sv = Some c"
    using cancel_queued_defined [of "flush_instance 7 ?g1" 7]
    by (auto simp: query_cancel_def Let_def n instances_Cancel_def instances_call_def reg fresh cancel_object_def)
  then obtain c where c: "query_cancel demo_services cancel_handler sv = Some c" by blast
  have only: "\<forall>v s'. objects (sv_engine sv) v = Some s' \<longrightarrow> workflow_instance_id s' = 7 \<longrightarrow> v = 0"
    by (simp add: reg(3) g(3))
  have sv: "engine_reachable (sv_engine sv)" "objects (sv_engine sv) 0 = Some demo_started"
    by (simp_all add: reg(3) g(2,3))
  have "\<exists>sv'. c = Conn_Closed [reply_ok] sv' \<and> none_waiting 0 (qp (sv_engine sv'))"
    using cancel_clears [OF sv(1) n _ _ reg(1) sv(2) i only c] by auto
  with sv c show ?thesis by blast
qed

end
