(* ===== verification/Database.thy ===== *)
theory Database
  imports Catalogues Settings Document "HOL-Library.Monad_Syntax"
begin

text \<open>
  The database object (\<open>DB.cpp\<close>): a connection of the MySQL client library, its current result
  and row, and the printing of queries. The library is an argument: a record of its functions on
  the state of a connection.
\<close>

record 'c client =
  my_connect :: "string \<Rightarrow> string \<Rightarrow> string \<Rightarrow> string \<Rightarrow> 'c \<Rightarrow> bool \<times> 'c"
  my_ping :: "'c \<Rightarrow> bool \<times> 'c"
  my_query :: "string \<Rightarrow> 'c \<Rightarrow> bool \<times> 'c"
  my_store_result :: "'c \<Rightarrow> row list option \<times> 'c"
  my_field_count :: "'c \<Rightarrow> nat"
  my_error :: "'c \<Rightarrow> string"
  my_escape :: "'c \<Rightarrow> string \<Rightarrow> string"
  my_insert_id :: "'c \<Rightarrow> int"
  my_affected_rows :: "'c \<Rightarrow> int"

text \<open>
  The pointer \<open>row\<close> is not initialised, and dangles once its result has been freed.
\<close>

datatype row_ptr = Row_Invalid | Row_Null | Row_Is row

record 'c db =
  mysql :: 'c
  res :: "(row list \<times> nat) option"
  cur_row :: row_ptr
  is_copy :: bool

section \<open>Operations\<close>

text \<open>An operation that may throw gives the exception, if any, and the state after it.\<close>

type_synonym 'c result = "exn option \<times> 'c db"

definition DB_error :: "'c client \<Rightarrow> 'c db \<Rightarrow> 'c result" where
  "DB_error C d = (Some (Exception ''DB'' (my_error C (mysql d))), d)"

definition free_result :: "'c db \<Rightarrow> 'c db" where
  "free_result d = (case res d of None \<Rightarrow> d | Some r \<Rightarrow> d\<lparr>res := None, cur_row := Row_Invalid\<rparr>)"

definition DB_Query :: "'c client \<Rightarrow> string \<Rightarrow> 'c db \<Rightarrow> 'c result" where
  "DB_Query C query d =
     (let d = free_result d;
          (ok, c) = my_query C query (mysql d);
          d = d\<lparr>mysql := c\<rparr>
      in if \<not> ok then DB_error C d
         else let (r, c) = my_store_result C (mysql d);
                  d = d\<lparr>mysql := c, res := map_option (\<lambda>rows. (rows, 0)) r\<rparr>
              in if r = None \<and> my_field_count C (mysql d) \<noteq> 0 then DB_error C d else (None, d))"

definition DB_new :: "'c client \<Rightarrow> string \<Rightarrow> string \<Rightarrow> string \<Rightarrow> string \<Rightarrow> 'c \<Rightarrow> 'c result" where
  "DB_new C host user password dbname c =
     (let (ok, c) = my_connect C host user password dbname c;
          d = \<lparr>mysql = c, res = None, cur_row = Row_Invalid, is_copy = False\<rparr>
      in if ok then DB_Query C (''SET NAMES '' @ [CHR 0x27] @ ''UTF8'' @ [CHR 0x27]) d else DB_error C d)"

text \<open>The constructor that reads the configuration; \<open>None\<close> when an entry is missing.\<close>

definition DB_configured :: "'c client \<Rightarrow> config \<Rightarrow> 'c \<Rightarrow> 'c result option" where
  "DB_configured C cfg c = do {
     host \<leftarrow> config_Get ''mysql.host'' cfg;
     user \<leftarrow> config_Get ''mysql.user'' cfg;
     password \<leftarrow> config_Get ''mysql.password'' cfg;
     dbname \<leftarrow> config_Get ''mysql.database'' cfg;
     let (ok, c) = my_connect C host user password dbname c;
     let d = \<lparr>mysql = c, res = None, cur_row = Row_Invalid, is_copy = False\<rparr>;
     Some (if ok then (None, d) else DB_error C d) }"

definition DB_Clone :: "'c db \<Rightarrow> 'c db" where
  "DB_Clone d = \<lparr>mysql = mysql d, res = None, cur_row = Row_Invalid, is_copy = True\<rparr>"

text \<open>The destructor; whether it closes the connection.\<close>

definition DB_delete :: "'c db \<Rightarrow> bool \<times> 'c db" where
  "DB_delete d = (\<not> is_copy d, free_result d)"

definition DB_Ping :: "'c client \<Rightarrow> 'c db \<Rightarrow> 'c result" where
  "DB_Ping C d = (let (ok, c) = my_ping C (mysql d); d = d\<lparr>mysql := c\<rparr> in if ok then (None, d) else DB_error C d)"

definition DB_EscapeString :: "'c client \<Rightarrow> string \<Rightarrow> 'c db \<Rightarrow> string" where
  "DB_EscapeString C s d = my_escape C (mysql d) s"

definition DB_InsertID :: "'c client \<Rightarrow> 'c db \<Rightarrow> int" where
  "DB_InsertID C d = my_insert_id C (mysql d)"

definition FetchRow :: "'c db \<Rightarrow> bool \<times> 'c db" where
  "FetchRow d = (case res d of
       None \<Rightarrow> (False, d)
     | Some (rows, i) \<Rightarrow>
         if i < length rows then (True, d\<lparr>res := Some (rows, i + 1), cur_row := Row_Is (rows ! i)\<rparr>)
         else (False, d\<lparr>cur_row := Row_Null\<rparr>))"

definition Seek :: "nat \<Rightarrow> 'c db \<Rightarrow> 'c db" where
  "Seek offset d = d\<lparr>res := map_option (\<lambda>(rows, i). (rows, offset)) (res d)\<rparr>"

definition DB_Free :: "'c db \<Rightarrow> 'c db" where
  "DB_Free d = free_result d"

definition NumRows :: "'c db \<Rightarrow> int" where
  "NumRows d = (case res d of Some (rows, i) \<Rightarrow> int (length rows) | None \<Rightarrow> -1)"

definition AffectedRows :: "'c client \<Rightarrow> 'c db \<Rightarrow> int" where
  "AffectedRows C d = my_affected_rows C (mysql d)"

text \<open>The outer \<open>None\<close>: an invalid pointer is read, or a field outside the row.\<close>

definition GetField :: "nat \<Rightarrow> 'c db \<Rightarrow> string option option" where
  "GetField n d =
     (if res d = None then Some None
      else case cur_row d of
        Row_Invalid \<Rightarrow> None
      | Row_Null \<Rightarrow> Some None
      | Row_Is r \<Rightarrow> if n < length r then Some (r ! n) else None)"

definition GetFieldInt :: "nat \<Rightarrow> 'c db \<Rightarrow> int option" where
  "GetFieldInt n d = map_option (\<lambda>v. case v of None \<Rightarrow> 0 | Some v \<Rightarrow> atoi v) (GetField n d)"

text \<open>\<open>atof\<close> is the conversion of the C library.\<close>

definition GetFieldDouble :: "(string \<Rightarrow> 'r::zero) \<Rightarrow> nat \<Rightarrow> 'c db \<Rightarrow> 'r option" where
  "GetFieldDouble atof n d = map_option (\<lambda>v. case v of None \<Rightarrow> 0 | Some v \<Rightarrow> atof v) (GetField n d)"

section \<open>\<open>QueryPrintf\<close>\<close>

text \<open>
  The arguments: pointers to strings and integers. The first pass computes the room for the
  query, the second writes it; \<open>None\<close> when the arguments are not those the format asks for.
\<close>

datatype sql_arg = Str_Arg "string option" | Int_Arg "int option"

definition str_room :: "string option \<Rightarrow> nat" where
  "str_room a = (case a of Some s \<Rightarrow> 2 + 2 * length s | None \<Rightarrow> 4)"

definition int_room :: "int option \<Rightarrow> nat" where
  "int_room a = (case a of Some i \<Rightarrow> 16 | None \<Rightarrow> 4)"

fun printf_room :: "string \<Rightarrow> sql_arg list \<Rightarrow> nat option" where
  "printf_room [] as = Some 0"
| "printf_room [c] as = Some 1"
| "printf_room (c # d # q) as =
     (if c = CHR ''%'' \<and> d = CHR ''s''
      then (case as of Str_Arg a # as \<Rightarrow> map_option ((+) (str_room a)) (printf_room q as) | _ \<Rightarrow> None)
      else if c = CHR ''%'' \<and> d = CHR ''i''
      then (case as of Int_Arg a # as \<Rightarrow> map_option ((+) (int_room a)) (printf_room q as) | _ \<Rightarrow> None)
      else map_option Suc (printf_room (d # q) as))"

definition str_text :: "(string \<Rightarrow> string) \<Rightarrow> string option \<Rightarrow> string" where
  "str_text escape a = (case a of Some s \<Rightarrow> CHR 0x27 # escape s @ [CHR 0x27] | None \<Rightarrow> ''NULL'')"

definition int_text :: "int option \<Rightarrow> string" where
  "int_text a = (case a of Some i \<Rightarrow> show_int i | None \<Rightarrow> ''NULL'')"

fun printf_text :: "(string \<Rightarrow> string) \<Rightarrow> string \<Rightarrow> sql_arg list \<Rightarrow> string option" where
  "printf_text escape [] as = Some []"
| "printf_text escape [c] as = Some [c]"
| "printf_text escape (c # d # q) as =
     (if c = CHR ''%'' \<and> d = CHR ''s''
      then (case as of Str_Arg a # as \<Rightarrow> map_option ((@) (str_text escape a)) (printf_text escape q as) | _ \<Rightarrow> None)
      else if c = CHR ''%'' \<and> d = CHR ''i''
      then (case as of Int_Arg a # as \<Rightarrow> map_option ((@) (int_text a)) (printf_text escape q as) | _ \<Rightarrow> None)
      else map_option (Cons c) (printf_text escape (d # q) as))"

text \<open>\<open>None\<close>: the arguments are wrong, or the query does not fit the buffer.\<close>

definition QueryPrintf :: "'c client \<Rightarrow> string \<Rightarrow> sql_arg list \<Rightarrow> 'c db \<Rightarrow> 'c result option" where
  "QueryPrintf C query args d = do {
     room \<leftarrow> printf_room query args;
     text \<leftarrow> printf_text (my_escape C (mysql d)) query args;
     if length text + 1 \<le> room + 1 then Some (DB_Query C text d) else None }"

section \<open>Properties\<close>

lemma show_nat_length: "0 < k \<Longrightarrow> n < 10 ^ k \<Longrightarrow> length (show_nat n) \<le> k"
proof (induction k arbitrary: n)
  case (Suc k)
  show ?case
  proof (cases "n < 10")
    case True
    then show ?thesis by (simp add: show_nat.simps [of n])
  next
    case False
    then have "0 < k" using Suc.prems(2) by (cases k) simp_all
    moreover have "n div 10 < 10 ^ k" using Suc.prems(2) by (simp add: less_mult_imp_div_less mult.commute)
    ultimately show ?thesis using Suc.IH [of "n div 10"] False by (simp add: show_nat.simps [of n])
  qed
qed simp

definition is_int :: "int \<Rightarrow> bool" where
  "is_int i \<longleftrightarrow> - (2 ^ 31) \<le> i \<and> i < 2 ^ 31"

lemma show_int_length: "is_int i \<Longrightarrow> length (show_int i) \<le> 11"
proof -
  assume "is_int i"
  moreover have "nat j < 10 ^ 10" if "j \<le> 2 ^ 31" for j :: int
    using that by (cases "0 \<le> j") (simp_all add: nat_less_iff)
  ultimately have "nat (- i) < 10 ^ 10" "nat i < 10 ^ 10" by (simp_all add: is_int_def)
  then have "length (show_nat (nat (- i))) \<le> 10" "length (show_nat (nat i)) \<le> 10"
    by (intro show_nat_length; simp)+
  then show ?thesis by (simp add: show_int_def)
qed

definition ints_ok :: "sql_arg list \<Rightarrow> bool" where
  "ints_ok args \<longleftrightarrow> list_all (\<lambda>a. case a of Int_Arg (Some i) \<Rightarrow> is_int i | _ \<Rightarrow> True) args"

lemma printf_fits:
  assumes "\<And>s. length (escape s) \<le> 2 * length s" and "printf_room query args = Some n" and "ints_ok args"
  shows "\<exists>t. printf_text escape query args = Some t \<and> length t \<le> n"
  using assms(2,3)
proof (induction query args arbitrary: n rule: printf_room.induct)
  case (3 c d q as)
  have str: "length (str_text escape a) \<le> str_room a" for a
    using assms(1) by (auto simp: str_text_def str_room_def split: option.splits)
  have int: "length (int_text a) \<le> int_room a" if "ints_ok (Int_Arg a # as')" for a as'
    using that show_int_length by (auto simp: int_text_def int_room_def ints_ok_def split: option.splits) fastforce
  have tail: "ints_ok as'" if "ints_ok (a # as')" for a as' using that by (simp add: ints_ok_def)
  consider "c = CHR ''%''" "d = CHR ''s''" | "c = CHR ''%''" "d = CHR ''i''" |
    "\<not> (c = CHR ''%'' \<and> d = CHR ''s'')" "\<not> (c = CHR ''%'' \<and> d = CHR ''i'')" by blast
  then show ?case
  proof cases
    case 1
    with "3.prems" obtain a as' m where as: "as = Str_Arg a # as'" "printf_room q as' = Some m" "n = str_room a + m"
      by (auto split: list.splits sql_arg.splits)
    from "3.IH"(1) [of "Str_Arg a" as' a m] 1 as tail "3.prems"(2) obtain t where
      "printf_text escape q as' = Some t" "length t \<le> m" by auto
    with 1 as str [of a] show ?thesis by simp
  next
    case 2
    with "3.prems" obtain a as' m where as: "as = Int_Arg a # as'" "printf_room q as' = Some m" "n = int_room a + m"
      by (auto split: list.splits sql_arg.splits)
    from "3.IH"(2) [of "Int_Arg a" as' a m] 2 as tail "3.prems"(2) obtain t where
      "printf_text escape q as' = Some t" "length t \<le> m" by auto
    with 2 as int [of a as'] "3.prems"(2) show ?thesis by simp
  next
    case 3
    with "3.prems" obtain m where "printf_room (d # q) as = Some m" "n = Suc m" by auto
    with "3.IH"(3) 3 "3.prems"(2) show ?thesis by fastforce
  qed
qed auto

text \<open>
  C37. A query whose arguments match its format is always sent, and never written past its buffer:
  the room computed in the first pass is enough for the text of the second, for every string and
  every \<open>int\<close>, since escaping at most doubles a string (the contract of
  \<open>mysql_real_escape_string\<close>).
\<close>

theorem query_printf_fits:
  assumes "\<And>c s. length (my_escape C c s) \<le> 2 * length s"
    and "printf_room query args = Some n" and "ints_ok args"
  shows "\<exists>t. printf_text (my_escape C (mysql d)) query args = Some t \<and>
    QueryPrintf C query args d = Some (DB_Query C t d)"
  using printf_fits [of "my_escape C (mysql d)", OF assms] assms(2) by (auto simp: QueryPrintf_def)

text \<open>A client whose connection is a number of rows, two of which each deletion removes.\<close>

definition quoted :: "string \<Rightarrow> string" where
  "quoted s = concat (List.map (\<lambda>c. if c = CHR 0x27 \<or> c = CHR 0x5C then [CHR 0x5C, c] else [c]) s)"

lemma quoted_length: "length (quoted s) \<le> 2 * length s"
  by (induction s) (auto simp: quoted_def)

definition demo_client :: "(nat \<times> int) client" where
  "demo_client = \<lparr>my_connect = (\<lambda>_ _ _ _ c. (True, c)), my_ping = (\<lambda>c. (True, c)),
     my_query = (\<lambda>q (n, a). (True, if take 6 q = ''DELETE'' then (n - 2, int (min n 2)) else (n, 0))),
     my_store_result = (\<lambda>c. (None, c)), my_field_count = (\<lambda>_. 0), my_error = (\<lambda>_. []),
     my_escape = (\<lambda>_. quoted), my_insert_id = (\<lambda>_. 0), my_affected_rows = snd\<rparr>"

definition demo_db :: "(nat \<times> int) db" where
  "demo_db = \<lparr>mysql = (3, 0), res = None, cur_row = Row_Invalid, is_copy = False\<rparr>"

theorem query_printf_fits_witness:
  "\<exists>t. printf_text quoted ''a=%s,b=%i,c=%i'' [Str_Arg (Some [CHR 0x27]), Int_Arg (Some (-12)), Int_Arg None] = Some t \<and>
     QueryPrintf demo_client ''a=%s,b=%i,c=%i'' [Str_Arg (Some [CHR 0x27]), Int_Arg (Some (-12)), Int_Arg None] demo_db =
       Some (DB_Query demo_client t demo_db)"
proof -
  have "printf_room ''a=%s,b=%i,c=%i'' [Str_Arg (Some [CHR 0x27]), Int_Arg (Some (-12)), Int_Arg None] = Some 32"
    by code_simp
  from query_printf_fits [OF _ this, of demo_client demo_db] quoted_length show ?thesis
    by (simp add: demo_client_def ints_ok_def is_int_def)
qed

text \<open>The loop \<open>while(FetchRow())\<close> sees every row of a result once, in order.\<close>

fun fetch_all :: "nat \<Rightarrow> 'c db \<Rightarrow> row list \<times> 'c db" where
  "fetch_all 0 d = ([], d)"
| "fetch_all (Suc k) d =
     (case FetchRow d of
        (False, d) \<Rightarrow> ([], d)
      | (True, d) \<Rightarrow> apfst (Cons (case cur_row d of Row_Is r \<Rightarrow> r | _ \<Rightarrow> [])) (fetch_all k d))"

lemma fetch_all_rows:
  assumes "res d = Some (rows, i)" and "i \<le> length rows" and "length rows - i < k"
  shows "fst (fetch_all k d) = drop i rows \<and> GetField n (snd (fetch_all k d)) = Some None"
  using assms
proof (induction k arbitrary: d i)
  case (Suc k)
  show ?case
  proof (cases "i < length rows")
    case True
    let ?d = "d\<lparr>res := Some (rows, i + 1), cur_row := Row_Is (rows ! i)\<rparr>"
    have "fst (fetch_all k ?d) = drop (i + 1) rows \<and> GetField n (snd (fetch_all k ?d)) = Some None"
      using True Suc.prems by (intro Suc.IH) simp_all
    with True Suc.prems show ?thesis
      by (simp add: FetchRow_def Cons_nth_drop_Suc split: prod.splits)
  next
    case False
    with Suc.prems show ?thesis by (simp add: FetchRow_def GetField_def)
  qed
qed simp

text \<open>A field read after a new query and before \<open>FetchRow\<close> is read through a dangling pointer.\<close>

lemma field_before_fetch:
  assumes "res d = Some r" and "DB_Query C q d = (None, d')" and "res d' \<noteq> None"
  shows "GetField n d' = None"
  using assms
  by (auto simp: DB_Query_def free_result_def GetField_def DB_error_def Let_def split: prod.splits if_splits)

end
