(* ===== verification/Input_Output.thy ===== *)
theory Input_Output
  imports Database
begin

text \<open>
  Two small components at the border of the program: the logger (\<open>Logger.cpp\<close>), which writes to
  the system log and the database, and the stream from which the XML parser reads a client's query
  (\<open>NetworkInputSource.cpp\<close>, \<open>BinNetworkInputStream.cpp\<close>).
\<close>

section \<open>The logger\<close>

record logger =
  log_syslog :: bool
  log_db :: bool

definition Logger_new :: "config \<Rightarrow> logger option" where
  "Logger_new cfg = do {
     to_syslog \<leftarrow> config_GetBool ''logger.syslog.enable'' cfg;
     to_db \<leftarrow> config_GetBool ''logger.db.enable'' cfg;
     Some \<lparr>log_syslog = to_syslog, log_db = to_db\<rparr> }"

text \<open>
  \<open>text\<close> is the formatted message, \<open>None\<close> when it cannot be formatted; the buffer holds 1023
  characters. The result: the lines of the system log, and the exception thrown. A database that is
  made for the message is left in the state \<open>c\<close>.
\<close>

definition Log ::
  "'c client \<Rightarrow> config \<Rightarrow> logger \<Rightarrow> int \<Rightarrow> string option \<Rightarrow> 'c \<Rightarrow> (string list \<times> exn option \<times> 'c) option" where
  "Log C cfg l level text c = (case text of
       None \<Rightarrow> Some ([], None, c)
     | Some text \<Rightarrow>
         (let buf = take 1023 text;
              syslog = (if log_syslog l then [buf] else [])
          in if \<not> log_db l then Some (syslog, None, c)
             else do {
               (failed, d) \<leftarrow> DB_configured C cfg c;
               case failed of
                 Some e \<Rightarrow> Some (syslog, Some e, mysql d)
               | None \<Rightarrow> do {
                   (failed, d) \<leftarrow> QueryPrintf C ''INSERT INTO t_log(log_level,log_message,log_timestamp) VALUES(%i,%s,NOW())''
                     [Int_Arg (Some level), Str_Arg (Some buf)] d;
                   Some (syslog, failed, mysql (snd (DB_delete d))) } }))"

text \<open>
  A logger that writes to the database throws when the database cannot be reached, also where the
  message reports a failure of the database from inside a handler.
\<close>

lemma log_throws:
  assumes "log_db l" and "DB_configured C cfg c = Some (Some e, d)"
  shows "Log C cfg l level (Some text) c = Some (if log_syslog l then [take 1023 text] else [], Some e, mysql d)"
  using assms by (simp add: Log_def)

section \<open>The input stream\<close>

record input_stream =
  in_socket :: int
  in_pos :: int

definition NetworkInputSource_makeStream :: "int \<Rightarrow> input_stream" where
  "NetworkInputSource_makeStream s = \<lparr>in_socket = s, in_pos = 0\<rparr>"

text \<open>
  \<open>received\<close> is what \<open>recv\<close> gives for this socket and room: \<open>None\<close> for an error, an empty string at
  the end of the connection. The position is an \<open>int\<close>: \<open>None\<close> when it overflows.
\<close>

definition readBytes :: "(int \<Rightarrow> nat \<Rightarrow> string option) \<Rightarrow> nat \<Rightarrow> input_stream \<Rightarrow> (exn + string \<times> input_stream) option" where
  "readBytes received maxToRead st = (case received (in_socket st) maxToRead of
       None \<Rightarrow> Some (Inl (Exception ''BinNetworkInputStream'' ''Error reading socket''))
     | Some bytes \<Rightarrow>
         (let pos = in_pos st + int (length bytes)
          in if pos < 2 ^ 31 then Some (Inr (bytes, st\<lparr>in_pos := pos\<rparr>)) else None))"

end
