(* ===== verification/Garbage_Collector.thy ===== *)
theory Garbage_Collector
  imports Database
begin

text \<open>
  The garbage collector (\<open>GarbageCollector.cpp\<close>): a thread that deletes terminated instances and
  logs past their retention, a bounded number at a time. The database is the client of
  \<open>Database\<close>; \<open>clock\<close> and \<open>shutting\<close> give the time and the shutdown flag at each of the thread's
  pauses, which are numbered; \<open>stamp\<close> is \<open>localtime_r\<close> followed by \<open>strftime\<close>.
\<close>

record collector =
  gc_enable :: bool
  gc_delay :: int
  gc_interval :: int
  gc_limit :: int
  instance_retention :: int
  logs_retention :: int

definition GarbageCollector_new :: "config \<Rightarrow> collector option" where
  "GarbageCollector_new c = map_option (\<lambda>enable.
     \<lparr>gc_enable = enable, gc_delay = config_GetInt ''gc.delay'' c, gc_interval = config_GetInt ''gc.interval'' c,
      gc_limit = config_GetInt ''gc.limit'' c, instance_retention = config_GetInt ''gc.workflowinstance.retention'' c,
      logs_retention = config_GetInt ''gc.logs.retention'' c\<rparr>) (config_GetBool ''gc.enable'' c)"

section \<open>\<open>purge\<close>\<close>

text \<open>A retention in seconds, an \<open>int\<close>; \<open>None\<close> when it overflows.\<close>

definition seconds :: "int \<Rightarrow> int option" where
  "seconds days = (if is_int (days * 86400) then Some (days * 86400) else None)"

definition squote :: "string \<Rightarrow> string" where
  "squote s = CHR 0x27 # s @ [CHR 0x27]"

definition purge_instances :: string where
  "purge_instances = ''DELETE FROM t_workflow_instance WHERE workflow_instance_status='' @ squote ''TERMINATED'' @
     '' AND workflow_instance_end <= %s LIMIT %i''"

definition purge_parameters :: string where
  "purge_parameters = ''DELETE wip FROM t_workflow_instance_parameters wip LEFT JOIN t_workflow_instance wi ON wip.workflow_instance_id=wi.workflow_instance_id WHERE wi.workflow_instance_id IS NULL''"

definition purge_logs :: string where
  "purge_logs = ''DELETE FROM t_log WHERE log_timestamp <= %s LIMIT %i''"

text \<open>After an exception the purge gives 0.\<close>

definition unless_error :: "'c result option \<Rightarrow> ('c db \<Rightarrow> (int \<times> 'c) option) \<Rightarrow> (int \<times> 'c) option" where
  "unless_error r f = (case r of None \<Rightarrow> None
     | Some (Some e, d) \<Rightarrow> Some (0, mysql d)
     | Some (None, d) \<Rightarrow> f d)"

definition purge :: "'c client \<Rightarrow> config \<Rightarrow> (int \<Rightarrow> string) \<Rightarrow> collector \<Rightarrow> int \<Rightarrow> 'c \<Rightarrow> (int \<times> 'c) option" where
  "purge C cfg stamp gc now c = do {
     instance_age \<leftarrow> seconds (instance_retention gc);
     logs_age \<leftarrow> seconds (logs_retention gc);
     unless_error (DB_configured C cfg c) (\<lambda>d.
       unless_error (QueryPrintf C purge_instances
           [Str_Arg (Some (stamp (now - instance_age))), Int_Arg (Some (gc_limit gc))] d) (\<lambda>d.
       let deleted_rows = AffectedRows C d in
       unless_error (QueryPrintf C purge_parameters [] d) (\<lambda>d.
       unless_error (QueryPrintf C purge_logs
           [Str_Arg (Some (stamp (now - logs_age))), Int_Arg (Some (gc_limit gc))] d) (\<lambda>d.
       Some (deleted_rows + AffectedRows C d, mysql d))))) }"

section \<open>The thread\<close>

text \<open>
  A pause of \<open>n\<close> seconds, the flag tested in each: whether the thread returns (with the mutex
  locked), and the number of the next pause.
\<close>

fun pause :: "(nat \<Rightarrow> bool) \<Rightarrow> nat \<Rightarrow> nat \<Rightarrow> bool \<times> nat" where
  "pause shutting 0 t = (False, t)"
| "pause shutting (Suc n) t = (if shutting t then (True, t) else pause shutting n (Suc t))"

text \<open>The loop over \<open>purge\<close>; \<open>None\<close> is undefined behaviour, or no end.\<close>

partial_function (option) clean ::
  "'c client \<Rightarrow> config \<Rightarrow> (int \<Rightarrow> string) \<Rightarrow> (nat \<Rightarrow> int) \<Rightarrow> (nat \<Rightarrow> bool) \<Rightarrow> collector \<Rightarrow> nat \<Rightarrow> 'c \<Rightarrow>
   (bool \<times> nat \<times> 'c) option" where
  "clean C cfg stamp clock shutting gc t c =
     Option.bind (purge C cfg stamp gc (clock t) c) (\<lambda>(deleted_rows, c).
       let (exits, t) = (if deleted_rows \<noteq> 0 then pause shutting (nat (gc_delay gc)) t else (False, t)) in
       if exits then Some (True, t, c)
       else if 0 < deleted_rows then clean C cfg stamp clock shutting gc t c else Some (False, t, c))"

partial_function (option) gc_thread ::
  "'c client \<Rightarrow> config \<Rightarrow> (int \<Rightarrow> string) \<Rightarrow> (nat \<Rightarrow> int) \<Rightarrow> (nat \<Rightarrow> bool) \<Rightarrow> collector \<Rightarrow> nat \<Rightarrow> 'c \<Rightarrow>
   (nat \<times> 'c) option" where
  "gc_thread C cfg stamp clock shutting gc t c =
     (let (exits, t) = pause shutting (nat (gc_interval gc)) t in
      if exits then Some (t, c)
      else Option.bind (clean C cfg stamp clock shutting gc t c) (\<lambda>(exits, t, c).
        if exits then Some (t, c) else gc_thread C cfg stamp clock shutting gc t c))"

text \<open>\<open>WaitForShutdown\<close> joins the thread when there is one.\<close>

definition gc_waits :: "collector \<Rightarrow> bool" where
  "gc_waits gc = gc_enable gc"

section \<open>Termination\<close>

text \<open>
  What the statements do to the database: the \<open>rows\<close> of the tables that are purged, of which a
  \<open>DELETE\<close> removes as many as it says it affected, and which nothing else the client does adds to.
\<close>

definition deletes :: "'c client \<Rightarrow> ('c \<Rightarrow> nat) \<Rightarrow> bool" where
  "deletes C rows \<longleftrightarrow>
     (\<forall>q c c'. my_query C q c = (True, c') \<longrightarrow> int (rows c') + my_affected_rows C c' \<le> int (rows c) \<and> 0 \<le> my_affected_rows C c') \<and>
     (\<forall>q c c'. my_query C q c = (False, c') \<longrightarrow> rows c' \<le> rows c) \<and>
     (\<forall>c. rows (snd (my_store_result C c)) = rows c \<and>
        my_affected_rows C (snd (my_store_result C c)) = my_affected_rows C c) \<and>
     (\<forall>h u p n c. rows (snd (my_connect C h u p n c)) \<le> rows c)"

definition escapes :: "'c client \<Rightarrow> bool" where
  "escapes C \<longleftrightarrow> (\<forall>c s. length (my_escape C c s) \<le> 2 * length s)"

definition gc_ok :: "config \<Rightarrow> collector \<Rightarrow> bool" where
  "gc_ok cfg gc \<longleftrightarrow> seconds (instance_retention gc) \<noteq> None \<and> seconds (logs_retention gc) \<noteq> None \<and> is_int (gc_limit gc) \<and>
     list_all (\<lambda>e. config_Get e cfg \<noteq> None) [''mysql.host'', ''mysql.user'', ''mysql.password'', ''mysql.database'']"

lemma Query_rows:
  assumes del: "deletes C rows" and q: "DB_Query C q d = (e, d')"
  shows "rows (mysql d') \<le> rows (mysql d)"
    and "e = None \<Longrightarrow> int (rows (mysql d')) + my_affected_rows C (mysql d') \<le> int (rows (mysql d)) \<and>
      0 \<le> my_affected_rows C (mysql d')"
proof -
  have free: "mysql (free_result d) = mysql d" by (simp add: free_result_def split: option.splits)
  obtain ok c where c: "my_query C q (mysql d) = (ok, c)" by fastforce
  have rows: "ok \<Longrightarrow> int (rows c) + my_affected_rows C c \<le> int (rows (mysql d)) \<and> 0 \<le> my_affected_rows C c"
    "\<not> ok \<Longrightarrow> rows c \<le> rows (mysql d)"
    using del c unfolding deletes_def by auto
  have store: "rows (snd (my_store_result C c)) = rows c"
    "my_affected_rows C (snd (my_store_result C c)) = my_affected_rows C c"
    using del unfolding deletes_def by blast+
  have end_state: "mysql d' = (if ok then snd (my_store_result C c) else c)" "e = None \<Longrightarrow> ok"
    using q c by (auto simp: DB_Query_def DB_error_def free Let_def split: prod.splits if_splits)
  show "rows (mysql d') \<le> rows (mysql d)" using rows store end_state(1) by (cases ok) auto
  show "e = None \<Longrightarrow> int (rows (mysql d')) + my_affected_rows C (mysql d') \<le> int (rows (mysql d)) \<and>
      0 \<le> my_affected_rows C (mysql d')"
    using rows store end_state by auto
qed

text \<open>The three statements fit their buffers.\<close>

lemma purge_formats:
  "printf_room purge_instances [Str_Arg (Some s), Int_Arg (Some i)] \<noteq> None"
  "printf_room purge_parameters [] \<noteq> None"
  "printf_room purge_logs [Str_Arg (Some s), Int_Arg (Some i)] \<noteq> None"
  unfolding purge_instances_def purge_parameters_def purge_logs_def squote_def by simp_all

lemma QueryPrintf_some:
  assumes "escapes C" and "printf_room q args \<noteq> None" and "ints_ok args"
  obtains t where "QueryPrintf C q args d = Some (DB_Query C t d)"
  using printf_fits [of "my_escape C (mysql d)" q args] assms by (auto simp: escapes_def QueryPrintf_def)

lemma unless_error_rows:
  assumes "r = Some (DB_Query C q d)" and "deletes C rows"
    and "\<And>d'. int (rows (mysql d')) + my_affected_rows C (mysql d') \<le> int (rows (mysql d)) \<Longrightarrow>
      0 \<le> my_affected_rows C (mysql d') \<Longrightarrow> \<exists>k c. f d' = Some (k, c) \<and> P k c"
    and "\<And>c. rows c \<le> rows (mysql d) \<Longrightarrow> P 0 c"
  shows "\<exists>k c. unless_error r f = Some (k, c) \<and> P k c"
proof -
  obtain e d' where d': "DB_Query C q d = (e, d')" by fastforce
  show ?thesis
  proof (cases e)
    case None
    with assms(1,3) d' Query_rows(2) [OF assms(2) d'] show ?thesis by (auto simp: unless_error_def)
  next
    case (Some x)
    with assms(1,4) d' Query_rows(1) [OF assms(2) d'] show ?thesis by (auto simp: unless_error_def)
  qed
qed

lemma purge_rows:
  assumes del: "deletes C rows" and esc: "escapes C" and ok: "gc_ok cfg gc"
  shows "\<exists>k c'. purge C cfg stamp gc now c = Some (k, c') \<and> int (rows c') + k \<le> int (rows c) \<and> 0 \<le> k"
proof -
  let ?P = "\<lambda>k c'. int (rows c') + k \<le> int (rows c) \<and> 0 \<le> k"
  obtain i l where ages: "seconds (instance_retention gc) = Some i" "seconds (logs_retention gc) = Some l"
    using ok by (auto simp: gc_ok_def)
  have ints: "ints_ok [Str_Arg (Some s), Int_Arg (Some (gc_limit gc))]" "ints_ok []" for s
    using ok by (simp_all add: gc_ok_def ints_ok_def)
  obtain h u p n where cfg: "config_Get ''mysql.host'' cfg = Some h" "config_Get ''mysql.user'' cfg = Some u"
    "config_Get ''mysql.password'' cfg = Some p" "config_Get ''mysql.database'' cfg = Some n"
    using ok by (auto simp: gc_ok_def)
  obtain e d where d: "DB_configured C cfg c = Some (e, d)" "mysql d = snd (my_connect C h u p n c)"
  proof (cases "my_connect C h u p n c")
    case (Pair a b)
    then show thesis by (cases a) (intro that, auto simp: DB_configured_def cfg DB_error_def Let_def)+
  qed
  have d0: "rows (mysql d) \<le> rows c" using del unfolding deletes_def d(2) by blast
  let ?logs = "\<lambda>k d. unless_error (QueryPrintf C purge_logs [Str_Arg (Some (stamp (now - l))), Int_Arg (Some (gc_limit gc))] d)
      (\<lambda>d. Some (k + AffectedRows C d, mysql d))"
  have logs: "\<exists>k' c'. ?logs k d = Some (k', c') \<and> ?P k' c'" if "int (rows (mysql d)) + k \<le> int (rows c)" "0 \<le> k" for k d
  proof -
    obtain t where t: "QueryPrintf C purge_logs [Str_Arg (Some (stamp (now - l))), Int_Arg (Some (gc_limit gc))] d = Some (DB_Query C t d)"
      by (rule QueryPrintf_some [OF esc purge_formats(3) ints(1)])
    show ?thesis by (rule unless_error_rows [OF t del]) (use that in \<open>auto simp: AffectedRows_def\<close>)
  qed
  let ?params = "\<lambda>k d. unless_error (QueryPrintf C purge_parameters [] d) (?logs k)"
  have params: "\<exists>k' c'. ?params k d = Some (k', c') \<and> ?P k' c'" if "int (rows (mysql d)) + k \<le> int (rows c)" "0 \<le> k" for k d
  proof -
    obtain t where t: "QueryPrintf C purge_parameters [] d = Some (DB_Query C t d)"
      by (rule QueryPrintf_some [OF esc purge_formats(2) ints(2)])
    show ?thesis by (rule unless_error_rows [OF t del]) (use that in \<open>auto intro: logs\<close>)
  qed
  obtain t where t: "QueryPrintf C purge_instances [Str_Arg (Some (stamp (now - i))), Int_Arg (Some (gc_limit gc))] d = Some (DB_Query C t d)"
    by (rule QueryPrintf_some [OF esc purge_formats(1) ints(1)])
  have "\<exists>k' c'. unless_error (Some (None, d)) (\<lambda>d. unless_error (QueryPrintf C purge_instances
      [Str_Arg (Some (stamp (now - i))), Int_Arg (Some (gc_limit gc))] d) (\<lambda>d. ?params (AffectedRows C d) d)) = Some (k', c') \<and> ?P k' c'"
    unfolding unless_error_def [of "Some (None, d)"] option.case prod.case
  proof (rule unless_error_rows [OF t del])
    fix d' :: "'a db"
    assume "int (rows (mysql d')) + my_affected_rows C (mysql d') \<le> int (rows (mysql d))" "0 \<le> my_affected_rows C (mysql d')"
    then show "\<exists>k' c'. ?params (AffectedRows C d') d' = Some (k', c') \<and> ?P k' c'"
      using d0 by (intro params) (simp_all add: AffectedRows_def)
  qed (use d0 in auto)
  moreover have "unless_error (Some (Some x, d)) f = Some (0, mysql d)" for x f by (simp add: unless_error_def)
  ultimately show ?thesis using d0 by (cases e) (simp_all add: purge_def ages d(1) Let_def)
qed

lemma pause_result:
  "pause shutting n t = (b, t') \<Longrightarrow> t \<le> t' \<and> (\<not> b \<longrightarrow> t' = t + n \<and> (\<forall>k. t \<le> k \<and> k < t' \<longrightarrow> \<not> shutting k)) \<and>
     (b \<longrightarrow> shutting t')"
proof (induction n arbitrary: t)
  case (Suc n)
  show ?case
  proof (cases "shutting t")
    case True
    with Suc.prems show ?thesis by auto
  next
    case False
    with Suc.prems have "pause shutting n (Suc t) = (b, t')" by simp
    from Suc.IH [OF this] False show ?thesis by (auto simp: Suc_le_eq nat_less_le)
  qed
qed auto

lemma clean_returns:
  assumes del: "deletes C rows" and esc: "escapes C" and ok: "gc_ok cfg gc"
  shows "\<exists>b t' c'. clean C cfg stamp clock shutting gc t c = Some (b, t', c') \<and> t \<le> t' \<and> (b \<longrightarrow> shutting t')"
proof (induction "rows c" arbitrary: t c rule: less_induct)
  case less
  obtain k c' where p: "purge C cfg stamp gc (clock t) c = Some (k, c')" "int (rows c') + k \<le> int (rows c)" "0 \<le> k"
    using purge_rows [OF del esc ok] by blast
  show ?case
  proof (cases "k = 0")
    case True
    then show ?thesis using p(1) by (subst clean.simps) (auto intro: exI [of _ False])
  next
    case False
    obtain b t' where b: "pause shutting (nat (gc_delay gc)) t = (b, t')" by fastforce
    note r = pause_result [OF b]
    show ?thesis
    proof (cases b)
      case True
      then show ?thesis using p(1) False b r by (subst clean.simps) auto
    next
      case go: False
      have "rows c' < rows c" using p(2,3) False by linarith
      from less.hyps [OF this, of t'] obtain b2 t2 c2 where
        "clean C cfg stamp clock shutting gc t' c' = Some (b2, t2, c2)" "t' \<le> t2" "b2 \<longrightarrow> shutting t2" by blast
      then show ?thesis using p False b r go by (subst clean.simps) auto
    qed
  qed
qed


text \<open>With an interval that is not positive the flag is never read while nothing expires.\<close>

lemma no_interval_no_stop:
  assumes "gc_interval gc \<le> 0" and "\<And>c. purge C cfg stamp gc (clock t) c = Some (0, c)"
  shows "gc_thread C cfg stamp clock shutting gc t c = None"
proof -
  have "(C, cfg, stamp, clock, shutting, gc, t) = (C, cfg, stamp, clock, shutting, gc, t) \<longrightarrow> False"
    if "gc_thread C cfg stamp clock shutting gc t c = Some y" for y
  proof (rule gc_thread.raw_induct [where P = "\<lambda>C' cfg' stamp' clock' shutting' gc' t' c y.
      (C', cfg', stamp', clock', shutting', gc', t') = (C, cfg, stamp, clock, shutting, gc, t) \<longrightarrow> False", OF _ that])
  fix rec C' cfg' stamp' clock' shutting' gc' t' c y
    assume ih: "\<And>C' cfg' stamp' clock' shutting' gc' t' c y. rec C' cfg' stamp' clock' shutting' gc' t' c = Some y \<Longrightarrow>
        (C', cfg', stamp', clock', shutting', gc', t') = (C, cfg, stamp, clock, shutting, gc, t) \<longrightarrow> False"
      and eq: "(let (exits, t) = pause shutting' (nat (gc_interval gc')) t' in
        if exits then Some (t, c)
        else Option.bind (clean C' cfg' stamp' clock' shutting' gc' t c) (\<lambda>(exits, t, c).
          if exits then Some (t, c) else rec C' cfg' stamp' clock' shutting' gc' t c)) = Some y"
    show "(C', cfg', stamp', clock', shutting', gc', t') = (C, cfg, stamp, clock, shutting, gc, t) \<longrightarrow> False"
    proof
      assume same: "(C', cfg', stamp', clock', shutting', gc', t') = (C, cfg, stamp, clock, shutting, gc, t)"
      have "clean C cfg stamp clock shutting gc t c = Some (False, t, c)" for c
        using assms(2) by (subst clean.simps) simp
      with eq same assms(1) have "rec C cfg stamp clock shutting gc t c = Some y" by simp
      from ih [OF this] show False by simp
    qed
  qed
  then show ?thesis by (cases "gc_thread C cfg stamp clock shutting gc t c") auto
qed

definition demo_collector :: collector where
  "demo_collector = \<lparr>gc_enable = True, gc_delay = 1, gc_interval = 2, gc_limit = 2, instance_retention = 30,
     logs_retention = 7\<rparr>"


end
