(* ===== verification/Engine_Main.thy ===== *)
theory Engine_Main
  imports Cancel_Query Workflow_Scheduler Garbage_Collector
begin

text \<open>
  The main program (\<open>evqueue.cpp\<close>): its options, the start of the engine with the resuming of the
  instances a previous engine left, the loop that accepts connections, the handling of signals and
  the shutdown; and the commands on the message queue (\<open>tools.cpp\<close>).
\<close>

section \<open>Options\<close>

datatype command =
    Run_Engine string bool
  | Queue_Destroy
  | Queue_Stats
  | Unknown_Option string
  | Print_Usage

fun parse_options :: "string list \<Rightarrow> string option \<Rightarrow> bool \<Rightarrow> command" where
  "parse_options [] config_filename daemonize =
     (case config_filename of None \<Rightarrow> Print_Usage | Some f \<Rightarrow> Run_Engine f daemonize)"
| "parse_options (arg # args) config_filename daemonize =
     (if arg = ''--daemon'' then parse_options args config_filename True
      else if arg = ''--config'' \<and> args \<noteq> [] then parse_options (tl args) (Some (hd args)) daemonize
      else if arg = ''--ipcq-remove'' then Queue_Destroy
      else if arg = ''--ipcq-stats'' then Queue_Stats
      else Unknown_Option arg)"

section \<open>The commands on the message queue\<close>

datatype errno = EACCES | ENOENT | EPERM | EOTHER int

definition errno_number :: "errno \<Rightarrow> int" where
  "errno_number e = (case e of EPERM \<Rightarrow> 1 | ENOENT \<Rightarrow> 2 | EACCES \<Rightarrow> 13 | EOTHER n \<Rightarrow> n)"

text \<open>What \<open>msgget\<close> gives, then the error of \<open>msgctl\<close> if any; the exit code and the text.\<close>

definition openipcq :: "errno + int \<Rightarrow> int \<times> string" where
  "openipcq q = (case q of
       Inl EACCES \<Rightarrow> (-1, ''Permission refused while trying to open message queue'')
     | Inl ENOENT \<Rightarrow> (-1, ''No message queue found'')
     | Inl e \<Rightarrow> (-1, ''Unknown error trying to open message queue : '' @ show_int (errno_number e))
     | Inr msgqid \<Rightarrow> (msgqid, []))"

definition tools_queue_destroy :: "errno + int \<Rightarrow> errno option \<Rightarrow> int \<times> string" where
  "tools_queue_destroy q removed =
     (let (msgqid, text) = openipcq q in
      if msgqid = -1 then (-1, text)
      else case removed of
          Some EPERM \<Rightarrow> (-1, ''Permission refused while trying to remove message queue'')
        | Some e \<Rightarrow> (-1, ''Unknown error trying to remove message queue : '' @ show_int (errno_number e))
        | None \<Rightarrow> (0, ''Message queue successfully removed''))"

text \<open>A successful \<open>tools_queue_stats\<close> has no return statement: its exit code is not defined (\<open>None\<close>).\<close>

definition tools_queue_stats :: "errno + int \<Rightarrow> errno + int \<times> int \<Rightarrow> int option \<times> string" where
  "tools_queue_stats q stat =
     (let (msgqid, text) = openipcq q in
      if msgqid = -1 then (Some (-1), text)
      else case stat of
          Inl e \<Rightarrow> (Some (-1), ''Unknown error trying to get message queue statistics: '' @ show_int (errno_number e))
        | Inr (qbytes, qnum) \<Rightarrow> (None, ''Queue size : '' @ show_int qbytes @ CHR 0x0A # ''Pending messages : '' @ show_int qnum))"

section \<open>Starting\<close>

text \<open>The components the main program creates.\<close>

record core =
  core_server :: server
  core_workflows :: "workflow_def catalogue"
  core_tasks :: "task_def catalogue"
  core_retry_schedules :: "retry_schedule_def catalogue"
  core_pm :: "process_manager option"
  core_gc :: "collector option"

abbreviation core_schedules :: "core \<Rightarrow> wf_scheduler" where
  "core_schedules c \<equiv> sv_schedules (core_server c)"

abbreviation with_schedules :: "wf_scheduler \<Rightarrow> core \<Rightarrow> core" where
  "with_schedules s c \<equiv> c\<lparr>core_server := (core_server c)\<lparr>sv_schedules := s\<rparr>\<rparr>"

text \<open>
  What the start reads: from the system, whether files can be opened, identities changed and the
  socket bound; from the database, what each component's constructor finds (or the exception it
  throws), the executing instances with their rows, and the schedules that are active, each with
  the instance that runs it (0 when there is none).
\<close>

record boot =
  os_pidfile :: "string \<Rightarrow> bool"
  os_setgid :: "int \<Rightarrow> bool"
  os_setuid :: "int \<Rightarrow> bool"
  os_bind :: "string \<Rightarrow> int \<Rightarrow> bool"
  os_listen :: "int \<Rightarrow> bool"
  os_pid_max :: "nat option"
  os_msgget :: int
  db_ping :: "exn option"
  db_sequence :: "exn option"
  db_schedules :: "exn + u32 list"
  db_queues :: "(string \<times> (u32 \<times> u32) option) list"
  db_workflows :: "table \<times> string list"
  db_tasks :: "table \<times> string list"
  db_retry_schedules :: "table \<times> string list"
  db_executing :: "exn + u32 list"
  db_instance :: "u32 \<Rightarrow> exn + (string option \<times> u32 \<times> u32) option"
  db_active :: "exn + (u32 \<times> u32) list"
  db_schedule :: "u32 \<Rightarrow> exn + workflow_schedule"
  db_purge :: "exn option"
  boot_env :: env
  boot_ref :: "u32 \<Rightarrow> wi_ref"
  boot_date :: "schedule \<Rightarrow> int option"
  boot_files :: "string \<rightharpoonup> string"

definition core_error :: "string \<Rightarrow> exn" where
  "core_error text = Exception ''core'' text"

text \<open>What comes before the engine: the pid file, the identities and the database connection.\<close>

definition check_system :: "boot \<Rightarrow> config \<Rightarrow> exn option option" where
  "check_system B cfg = do {
     pidfile \<leftarrow> config_Get ''core.pidfile'' cfg;
     gid \<leftarrow> config_Get ''core.gid'' cfg;
     uid \<leftarrow> config_Get ''core.uid'' cfg;
     Some (if \<not> os_pidfile B pidfile then Some (core_error ''Unable to open pid file'')
       else if atoi gid \<noteq> 0 \<and> \<not> os_setgid B (atoi gid) then Some (core_error ''Unable to set requested GID'')
       else if atoi uid \<noteq> 0 \<and> \<not> os_setuid B (atoi uid) then Some (core_error ''Unable to set requested UID'')
       else db_ping B) }"

text \<open>A step that may throw, and what follows it.\<close>

definition and_then :: "(exn + 'a) option \<Rightarrow> ('a \<Rightarrow> (exn + 'b) option) \<Rightarrow> (exn + 'b) option" where
  "and_then r f = Option.bind r (\<lambda>r. case r of Inl e \<Rightarrow> Some (Inl e) | Inr x \<Rightarrow> f x)"

definition passes :: "exn option \<Rightarrow> exn + unit" where
  "passes e = (case e of Some e \<Rightarrow> Inl e | None \<Rightarrow> Inr ())"

definition returns :: "'a option \<Rightarrow> (exn + 'a) option" where
  "returns r = map_option Inr r"

text \<open>An operation that gives the exception it has thrown, if any, with its result.\<close>

definition raises :: "(exn option \<times> 'a) option \<Rightarrow> (exn + 'a) option" where
  "raises r = map_option (\<lambda>(failed, x). case failed of Some e \<Rightarrow> Inl e | None \<Rightarrow> Inr x) r"

text \<open>The components in the order they are created; a catalogue's constructor loads it.\<close>

definition core_new :: "boot \<Rightarrow> (exn + core) option" where
  "core_new B =
     and_then (Some (passes (db_sequence B))) (\<lambda>_.
     and_then (Some (db_schedules B)) (\<lambda>ids.
     and_then (Some (QueuePool_new (db_queues B) (os_pid_max B))) (\<lambda>pool.
     and_then (raises (Workflows_Reload (fst (db_workflows B)) (snd (db_workflows B)) empty_catalogue)) (\<lambda>ws.
     and_then (raises (Tasks_Reload (fst (db_tasks B)) (snd (db_tasks B)) empty_catalogue)) (\<lambda>ts.
     and_then (raises (RetrySchedules_Reload (fst (db_retry_schedules B)) (snd (db_retry_schedules B)) empty_catalogue)) (\<lambda>rs.
       Some (Inr \<lparr>core_server = \<lparr>sv_stats = Statistics_new, sv_registry = WorkflowInstances_new,
                     sv_schedules = WorkflowScheduler_new ids, sv_engine = engine_start pool (boot_files B)\<rparr>,
                   core_workflows = ws, core_tasks = ts,
                   core_retry_schedules = rs, core_pm = None, core_gc = None\<rparr>)))))))"

text \<open>
  One instance left executing. An exception of its construction is logged; \<open>None\<close>: the program
  crashes.
\<close>

definition resumed :: "boot \<Rightarrow> wf_instance \<Rightarrow> core \<Rightarrow> core option" where
  "resumed B s c = do {
     let i = workflow_instance_id s;
     let w = boot_ref B i;
     let sv = constructed w i (core_server c);
     (workflow_terminated, s') \<leftarrow> Resume (seeing (sv_engine sv) (boot_env B)) s;
     g \<leftarrow> settle w s (workflow_terminated, s') (sv_engine sv);
     sv \<leftarrow> delete_ended (boot_date B) w (workflow_terminated, s') (sv\<lparr>sv_engine := g\<rparr>);
     Some (c\<lparr>core_server := sv\<rparr>) }"

definition resume_one :: "boot \<Rightarrow> u32 \<Rightarrow> core \<Rightarrow> core option" where
  "resume_one B i c =
     (case db_instance B i of
        Inl e \<Rightarrow> Some c
      | Inr row \<Rightarrow> do {
          r \<leftarrow> WorkflowInstance_resume (boot_env B) i row;
          case r of Inl e \<Rightarrow> Some c | Inr s \<Rightarrow> resumed B s c })"

fun resume_all :: "boot \<Rightarrow> u32 list \<Rightarrow> core \<Rightarrow> core option" where
  "resume_all B [] c = Some c"
| "resume_all B (i # is) c = Option.bind (resume_one B i c) (resume_all B is)"

text \<open>Whether the rows of executing instances are deleted.\<close>

definition purges :: "config \<Rightarrow> bool" where
  "purges cfg \<longleftrightarrow> config_GetInt ''workflowinstance.savepoint.level'' cfg \<le> 1"

text \<open>The schedules: one that cannot be loaded is logged and left out.\<close>

fun load_schedules ::
  "(schedule \<Rightarrow> int option) \<Rightarrow> (u32 \<Rightarrow> exn + workflow_schedule) \<Rightarrow> (u32 \<times> u32) list \<Rightarrow> wf_scheduler \<Rightarrow> wf_scheduler option" where
  "load_schedules nd load [] s = Some s"
| "load_schedules nd load ((wsid, j) # rows) s =
     (case load wsid of
        Inl e \<Rightarrow> load_schedules nd load rows s
      | Inr w \<Rightarrow> (let (r, s) = ws_new w s in
          Option.bind (ScheduleWorkflow nd (Some r) j s) (load_schedules nd load rows)))"

definition listening :: "boot \<Rightarrow> config \<Rightarrow> exn option option" where
  "listening B cfg = do {
     ip \<leftarrow> config_Get ''network.bind.ip'' cfg;
     port \<leftarrow> config_Get ''network.bind.port'' cfg;
     Some (if \<not> os_bind B ip (atoi port) then Some (core_error ''Unable to bind listen socket'')
       else if \<not> os_listen B (config_GetInt ''network.listen.backlog'' cfg) then Some (core_error ''Unable to listen on socket'')
       else None) }"

text \<open>The engine, ready to accept connections, or the exception that ends the program.\<close>

definition start_engine :: "boot \<Rightarrow> config \<Rightarrow> (exn + core) option" where
  "start_engine B cfg =
     and_then (core_new B) (\<lambda>c.
     and_then (Some (db_executing B)) (\<lambda>is.
     and_then (returns (resume_all B is c)) (\<lambda>c.
     and_then (Some (passes (if purges cfg then db_purge B else None))) (\<lambda>_.
     and_then (Some (db_active B)) (\<lambda>rows.
     and_then (returns (load_schedules (boot_date B) (db_schedule B) rows (core_schedules c))) (\<lambda>s.
     and_then (ProcessManager_new cfg (os_msgget B)) (\<lambda>pm.
     and_then (returns (GarbageCollector_new cfg)) (\<lambda>gc.
     and_then (map_option passes (listening B cfg)) (\<lambda>_.
       Some (Inr ((with_schedules s c)\<lparr>core_pm := Some pm, core_gc := Some gc\<rparr>)))))))))))"

section \<open>Serving and shutting down\<close>

datatype accepted = Connected int | Interrupted | Socket_Error

text \<open>The sockets that get a thread, and whether the loop has ended.\<close>

fun accept_loop :: "accepted list \<Rightarrow> int list \<times> bool" where
  "accept_loop [] = ([], False)"
| "accept_loop (Connected s # as) = (let (ss, ended) = accept_loop as in (s # ss, ended))"
| "accept_loop (Interrupted # as) = accept_loop as"
| "accept_loop (Socket_Error # as) = ([], True)"

text \<open>
  The shutdown. Each component is asked to stop and waited for; \<open>finishing\<close> is what the threads do
  before they have all ended. The savepoints are taken after the last of them.
\<close>

definition shut_down ::
  "(wi_ref \<Rightarrow> engine \<Rightarrow> engine) \<Rightarrow> (engine \<Rightarrow> engine) \<Rightarrow> u32 list \<Rightarrow> process_manager \<Rightarrow> core \<Rightarrow> core" where
  "shut_down save finishing is pm c =
     (let (pm, g, woken) = pm_Shutdown pm (sv_engine (core_server c));
          g = finishing g;
          g = instances_RecordSavepoint save is (sv_registry (core_server c)) g
      in c\<lparr>core_server := (core_server c)\<lparr>sv_engine := g\<rparr>\<rparr>)"

section \<open>Signals\<close>

datatype signum = SIGINT | SIGTERM | SIGHUP | SIGUSR1

text \<open>
  The handler: whether the listening socket is closed, and the core after it. \<open>ids\<close> and \<open>rows\<close> are
  the identifiers of the active schedules, ordered and as they come.
\<close>

definition signal_callback_handler ::
  "boot \<Rightarrow> u32 list \<Rightarrow> u32 list \<Rightarrow> signum \<Rightarrow> core \<Rightarrow> (exn + bool \<times> core) option" where
  "signal_callback_handler B ids rows signum c =
     (if signum = SIGINT \<or> signum = SIGTERM then Some (Inr (True, c))
      else if signum = SIGHUP then
        and_then (returns (WorkflowScheduler_Reload (boot_date B) (db_schedule B) ids rows (core_schedules c))) (\<lambda>s.
        and_then (raises (Tasks_Reload (fst (db_tasks B)) (snd (db_tasks B)) (core_tasks c))) (\<lambda>ts.
        and_then (raises (RetrySchedules_Reload (fst (db_retry_schedules B)) (snd (db_retry_schedules B))
          (core_retry_schedules c))) (\<lambda>rs.
        and_then (raises (Workflows_Reload (fst (db_workflows B)) (snd (db_workflows B)) (core_workflows c))) (\<lambda>ws.
          Some (Inr (False, (with_schedules s c)\<lparr>core_tasks := ts, core_retry_schedules := rs, core_workflows := ws\<rparr>))))))
      else
        (let sv = core_server c; g = sv_engine sv; g' = flush_retrier g
         in map_option (\<lambda>sv. Inr (False, c\<lparr>core_server := sv\<rparr>))
              (restart_all (boot_env B) (boot_date B) (drop (length (timers g)) (timers g')) (sv\<lparr>sv_engine := g'\<rparr>))))"

section \<open>The program\<close>

text \<open>
  The exit code (\<open>None\<close>: not defined) and what is written to the terminal; or the engine that
  serves; or a crash. \<open>cfg\<close> is what reading the configuration file gives.
\<close>

datatype program = Exits "int option" string | Serves core | Crashes

definition unexpected :: "bool \<Rightarrow> exn \<Rightarrow> program" where
  "unexpected daemonized e = Exits (Some (-1))
     (if daemonized then [] else ''Unexpected exception : [ '' @ exn_context e @ '' ] '' @ exn_error e)"

definition run_engine :: "boot \<Rightarrow> bool \<Rightarrow> (exn + config) option \<Rightarrow> program" where
  "run_engine B daemonize read = (case read of
       None \<Rightarrow> Crashes
     | Some (Inl e) \<Rightarrow> unexpected False e
     | Some (Inr cfg) \<Rightarrow> (case check_system B cfg of
         None \<Rightarrow> Crashes
       | Some (Some e) \<Rightarrow> unexpected False e
       | Some None \<Rightarrow> (case start_engine B cfg of
           None \<Rightarrow> Crashes
         | Some (Inl e) \<Rightarrow> unexpected daemonize e
         | Some (Inr c) \<Rightarrow> Serves c)))"

definition usage :: string where
  "usage = concat (List.map (\<lambda>l. l @ [CHR 0x0A]) [''Usage :'',
     ''  Launch evqueue      : evqueue (--daemon) --config <path to config file>'',
     ''  Clean IPC queue     : evqueue --ipcq-remove'', ''  Get IPC queue stats : evqueue --ipcq-stats''])"

text \<open>
  \<open>main\<close>; \<open>files\<close> gives the contents of the configuration files, \<open>q\<close> and the results after it are
  those of \<open>msgget\<close> and \<open>msgctl\<close> for the commands on the queue.
\<close>

definition evqueue_main ::
  "boot \<Rightarrow> (string \<rightharpoonup> string) \<Rightarrow> errno + int \<Rightarrow> errno option \<Rightarrow> errno + int \<times> int \<Rightarrow> string list \<Rightarrow> program" where
  "evqueue_main B files q removed stat argv =
     (case parse_options (tl argv) None False of
        Run_Engine f daemonize \<Rightarrow> run_engine B daemonize (Read (files f))
      | Queue_Destroy \<Rightarrow> (let (code, text) = tools_queue_destroy q removed in Exits (Some code) text)
      | Queue_Stats \<Rightarrow> (let (code, text) = tools_queue_stats q stat in Exits code text)
      | Unknown_Option arg \<Rightarrow> Exits (Some (-1)) (''Unknown option : '' @ arg @ CHR 0x0A # usage)
      | Print_Usage \<Rightarrow> Exits (Some (-1)) usage)"

end
