(* ===== verification/Engine_Main_Properties.thy ===== *)
theory Engine_Main_Properties
  imports Engine_Main
begin

text \<open>What the start of the engine gives, and one way in which it crashes.\<close>

section \<open>Options\<close>

datatype option_word = Daemon | Config string

fun written :: "option_word list \<Rightarrow> string list" where
  "written [] = []"
| "written (Daemon # os) = ''--daemon'' # written os"
| "written (Config f # os) = ''--config'' # f # written os"

fun last_config :: "string option \<Rightarrow> option_word list \<Rightarrow> string option" where
  "last_config c [] = c"
| "last_config c (Daemon # os) = last_config c os"
| "last_config c (Config f # os) = last_config (Some f) os"

lemma parse_written:
  "parse_options (written os) c d =
    (case last_config c os of None \<Rightarrow> Print_Usage | Some f \<Rightarrow> Run_Engine f (d \<or> Daemon \<in> set os))"
proof (induction os arbitrary: c d)
  case (Cons x os)
  then show ?case by (cases x) (auto split: option.splits)
qed (simp split: option.splits)

lemma parse_runs_written:
  "parse_options args c d = Run_Engine f d' \<Longrightarrow> \<exists>os. args = written os"
proof (induction args c d rule: parse_options.induct)
  case (1 c d)
  show ?case by (rule exI [of _ "[]"]) simp
next
  case (2 arg args c d)
  show ?case
  proof (cases "arg = ''--daemon''")
    case True
    with 2 obtain os where "args = written os" by auto
    with True show ?thesis by (intro exI [of _ "Daemon # os"]) simp
  next
    case False
    with 2(3) have arg: "arg = ''--config''" "args \<noteq> []" by (auto split: if_splits)
    with 2 False obtain os where "tl args = written os" by auto
    with arg show ?thesis by (intro exI [of _ "Config (hd args) # os"]) (simp, metis list.collapse)
  qed
qed

text \<open>
  The engine is started exactly by command lines made of \<open>--daemon\<close> and \<open>--config\<close> followed
  by a file name, of which the last counts; whatever follows \<open>--config\<close> is a file name, even when
  it looks like an option.
\<close>

theorem options_grammar:
  "parse_options args None False = Run_Engine f d \<longleftrightarrow>
     (\<exists>os. args = written os \<and> last_config None os = Some f \<and> d = (Daemon \<in> set os))"
proof
  assume run: "parse_options args None False = Run_Engine f d"
  then obtain os where os: "args = written os" using parse_runs_written by blast
  with run parse_written [of os None False] show "\<exists>os. args = written os \<and> last_config None os = Some f \<and> d = (Daemon \<in> set os)"
    by (auto split: option.splits)
next
  assume "\<exists>os. args = written os \<and> last_config None os = Some f \<and> d = (Daemon \<in> set os)"
  then show "parse_options args None False = Run_Engine f d" using parse_written [of _ None False] by auto
qed

section \<open>The schedules\<close>

lemma load_row:
  assumes inv: "wfs_inv nd s" and w: "load i = Inr w" "ws_id w = i" "good_ws nd w"
    and new: "i \<notin># used_ids s" and room: "sched_room (w_sched s)" and known: "j \<noteq> 0 \<longrightarrow> i \<in> set (wfs_ids s)"
  obtains s' where "load_schedules nd load ((i, j) # rows) s = load_schedules nd load rows s'"
    and "wfs_inv nd s'" and "wfs_ids s' = wfs_ids s" and "used_ids s' = add_mset i (used_ids s)"
    and "length (first_event (w_sched s')) \<le> length (first_event (w_sched s)) + 1"
    and "ScheduleWorkflow nd (Some (fst (ws_new w s))) j (snd (ws_new w s)) = Some s'"
proof -
  let ?r = "fst (ws_new w s)" and ?s = "snd (ws_new w s)"
  have s: "wfs_inv nd ?s" "used_ids ?s = used_ids s" using ws_new_inv [OF inv w(3)] by simp_all
  have r: "ws_store ?s ?r = Some w" by (rule ws_new_stored)
  have same: "w_sched ?s = w_sched s" "wfs_ids ?s = wfs_ids s" by (simp_all add: ws_new_def)
  have fresh: "ws_id w \<notin># used_ids ?s" using new w(2) s(2) by simp
  have step: "load_schedules nd load ((i, j) # rows) s = Option.bind (ScheduleWorkflow nd (Some ?r) j ?s) (load_schedules nd load rows)"
    using w(1) by (simp add: Let_def split: prod.splits)
  show thesis
  proof (cases "j = 0")
    case True
    have "sched_room (w_sched ?s)" using room same by simp
    from ScheduleWorkflow_waiting [OF s(1) r fresh this] obtain t s' where
      s': "ScheduleWorkflow nd (Some ?r) 0 ?s = Some s'" "wfs_inv nd s'" "mset (used_refs s') = add_mset ?r (mset (used_refs ?s))"
      "s' = ?s\<lparr>w_sched := snd (InsertEvent \<lparr>scheduled_at = t, payload = ?r\<rparr> (w_sched ?s))\<rparr>"
      by blast
    have "used_ids s' = add_mset i (used_ids s)"
      using used_ids_add [OF s'(3) _ r] s(2) w(2) by (simp add: s'(4))
    moreover have "length (first_event (w_sched s')) \<le> length (first_event (w_sched s)) + 1"
    proof -
      have "sched_inv (w_sched ?s)" using s(1) by (simp add: wfs_inv_def)
      from scheduler.insert_pending [OF this, of "\<lparr>scheduled_at = t, payload = ?r\<rparr>"]
      show ?thesis using s'(4) same(1) by auto
    qed
    ultimately show thesis using that s'(1,2) step True same by (simp add: s'(4))
  next
    case False
    from ScheduleWorkflow_running [OF s(1) r fresh False] obtain s' where
      s': "ScheduleWorkflow nd (Some ?r) j ?s = Some s'" "wfs_inv nd s'"
      "s' = (if lookup_wfs ?s (ws_id w) \<noteq> -1 then set_executing (nat (lookup_wfs ?s (ws_id w))) j (Some ?r) ?s else ?s)"
      "mset (used_refs s') = (if lookup_wfs ?s (ws_id w) \<noteq> -1 then add_mset ?r (mset (used_refs ?s)) else mset (used_refs ?s))"
      by blast
    have "lookup_wfs ?s (ws_id w) \<noteq> -1" using lookup_wfs_iff [OF s(1)] known False w(2) same by simp
    with s'(3,4) have run: "s' = set_executing (nat (lookup_wfs ?s (ws_id w))) j (Some ?r) ?s"
      "mset (used_refs s') = add_mset ?r (mset (used_refs ?s))" by simp_all
    have "used_ids s' = add_mset i (used_ids s)"
      using used_ids_add [OF run(2) _ r] s(2) w(2) by (simp add: run(1) set_executing_def)
    then show thesis using that s'(1,2) step same by (simp add: run(1) set_executing_def)
  qed
qed

definition loadable :: "(u32 \<Rightarrow> exn + workflow_schedule) \<Rightarrow> u32 \<Rightarrow> bool" where
  "loadable load i = (case load i of Inl e \<Rightarrow> False | Inr w \<Rightarrow> True)"

lemma load_schedules_result:
  assumes "wfs_inv nd s" and "distinct (List.map fst rows)" and "set (List.map fst rows) \<subseteq> set (wfs_ids s)"
    and "\<forall>i w. load i = Inr w \<longrightarrow> ws_id w = i \<and> good_ws nd w"
    and "\<forall>i \<in> set (List.map fst rows). i \<notin># used_ids s"
    and "length (first_event (w_sched s)) + length rows + 1 < 2 ^ 32"
  shows "\<exists>s'. load_schedules nd load rows s = Some s' \<and> wfs_inv nd s' \<and>
    used_ids s' = used_ids s + mset (List.filter (loadable load) (List.map fst rows))"
  using assms
proof (induction rows arbitrary: s)
  case (Cons x rows)
  obtain i j where x: "x = (i, j)" by (cases x)
  show ?case
  proof (cases "load i")
    case (Inl e)
    with Cons.IH [OF Cons.prems(1)] Cons.prems(2-) show ?thesis by (simp add: x loadable_def)
  next
    case (Inr w)
    have w: "ws_id w = i" "good_ws nd w" using Cons.prems(4) Inr by simp_all
    have new: "i \<notin># used_ids s" and known: "j \<noteq> 0 \<longrightarrow> i \<in> set (wfs_ids s)"
      using Cons.prems(3,5) by (simp_all add: x)
    have room: "sched_room (w_sched s)" using Cons.prems(6) by (simp add: sched_room_def)
    obtain s1 where s1: "load_schedules nd load ((i, j) # rows) s = load_schedules nd load rows s1"
      "wfs_inv nd s1" "wfs_ids s1 = wfs_ids s" "used_ids s1 = add_mset i (used_ids s)"
      "length (first_event (w_sched s1)) \<le> length (first_event (w_sched s)) + 1"
      by (rule load_row [where load = load and rows = rows and j = j, OF Cons.prems(1) Inr w new room known]) (rule that)
    have "\<exists>s'. load_schedules nd load rows s1 = Some s' \<and> wfs_inv nd s' \<and>
        used_ids s' = used_ids s1 + mset (List.filter (loadable load) (List.map fst rows))"
      by (rule Cons.IH [OF s1(2)]) (use Cons.prems s1 x in auto)
    with s1(1,4) Inr show ?thesis by (auto simp: x loadable_def)
  qed
qed simp

text \<open>
  The scheduler is still as it was created when the schedules are loaded: an instance that ends
  while it is resumed either has a schedule that is not active, or crashes the program.
\<close>

lemma nothing_executes:
  "sorted ids \<Longrightarrow> i \<in> set ids \<Longrightarrow> ScheduledWorkflowInstanceStop nd i ok (WorkflowScheduler_new ids) = None"
proof -
  assume ids: "sorted ids" "i \<in> set ids"
  from id_table.lookup_hit [OF ids(1) _ ids(2)] have "id_lookup ids i \<noteq> -1" "nat (id_lookup ids i) < length ids" by auto
  then show ?thesis
    by (simp add: ScheduledWorkflowInstanceStop_def lookup_wfs_def WorkflowScheduler_new_def wfs_init_def ScheduleWorkflow_def Let_def)
qed

lemma nothing_stops:
  assumes "sorted ids" and "ScheduledWorkflowInstanceStop nd i ok (WorkflowScheduler_new ids) = Some (d, s)"
  shows "s = WorkflowScheduler_new ids"
proof -
  have "i \<notin> set ids" using nothing_executes [OF assms(1), of i nd ok] assms(2) by auto
  then have "id_lookup ids i = -1" using id_table.lookup_fail_iff [OF assms(1), of i] by simp
  then show ?thesis using assms(2)
    by (simp add: ScheduledWorkflowInstanceStop_def lookup_wfs_def WorkflowScheduler_new_def wfs_init_def)
qed

lemma destruct_schedules:
  "destruct nd w cs sv = Some sv' \<Longrightarrow> sorted ids \<Longrightarrow> sv_schedules sv = WorkflowScheduler_new ids \<Longrightarrow>
    sv_schedules sv' = WorkflowScheduler_new ids"
  by (induction nd w cs sv rule: destruct.induct) (auto simp: bind_eq_Some_conv destroyed_def dest: nothing_stops)

lemma resumed_schedules:
  "resumed B s c = Some c' \<Longrightarrow> sorted ids \<Longrightarrow> core_schedules c = WorkflowScheduler_new ids \<Longrightarrow>
    core_schedules c' = WorkflowScheduler_new ids"
  by (auto simp: resumed_def constructed_def delete_ended_def Let_def bind_eq_Some_conv dest: destruct_schedules split: if_splits)

lemma resume_one_cases:
  assumes "resume_one B i c = Some c'"
  obtains "c' = c"
    | row s where "db_instance B i = Inr row" and "WorkflowInstance_resume (boot_env B) i row = Some (Inr s)"
        and "resumed B s c = Some c'"
proof (cases "db_instance B i")
  case (Inr row)
  then obtain r where r: "WorkflowInstance_resume (boot_env B) i row = Some r"
    "(case r of Inl e \<Rightarrow> Some c | Inr s \<Rightarrow> resumed B s c) = Some c'"
    using assms by (auto simp: resume_one_def bind_eq_Some_conv)
  with Inr that show thesis by (cases r) auto
qed (use assms that in \<open>simp add: resume_one_def\<close>)

lemma resume_all_schedules:
  "sorted ids \<Longrightarrow> core_schedules c = WorkflowScheduler_new ids \<Longrightarrow> resume_all B is c = Some c' \<Longrightarrow>
    core_schedules c' = WorkflowScheduler_new ids"
proof (induction "is" arbitrary: c)
  case (Cons i "is")
  obtain c1 where c1: "resume_one B i c = Some c1" "resume_all B is c1 = Some c'"
    using Cons.prems(3) by (auto simp: bind_eq_Some_conv)
  have "core_schedules c1 = WorkflowScheduler_new ids"
    using c1(1) by (rule resume_one_cases) (use Cons.prems(1,2) in \<open>auto dest: resumed_schedules\<close>)
  with Cons.IH Cons.prems(1) c1(2) show ?case by blast
qed simp

lemma and_then_Inr: "and_then r f = Some (Inr y) \<longleftrightarrow> (\<exists>x. r = Some (Inr x) \<and> f x = Some (Inr y))"
  by (cases r) (auto simp: and_then_def split: sum.splits)

lemma core_new_parts:
  assumes "core_new B = Some (Inr c)"
  obtains ids pool where "db_schedules B = Inr ids" and "QueuePool_new (db_queues B) (os_pid_max B) = Inr pool"
    and "sv_engine (core_server c) = engine_start pool (boot_files B)"
    and "sv_registry (core_server c) = WorkflowInstances_new" and "core_schedules c = WorkflowScheduler_new ids"
  using assms unfolding core_new_def by (auto simp: and_then_Inr)

lemma start_engine_parts:
  assumes "start_engine B cfg = Some (Inr c)"
  obtains c0 "is" c1 rows s where "core_new B = Some (Inr c0)" and "db_executing B = Inr is" and "resume_all B is c0 = Some c1"
    and "db_active B = Inr rows" and "load_schedules (boot_date B) (db_schedule B) rows (core_schedules c1) = Some s"
    and "core_server c = (core_server c1)\<lparr>sv_schedules := s\<rparr>"
  using assms unfolding start_engine_def
  by (auto simp: and_then_Inr returns_def)

text \<open>
  C20. When the engine has started, every active schedule that can be loaded is in use exactly
  once, waiting for its date or attached to the instance that runs it, and no other is; with the
  invariant of the scheduler, on which its later operations rest. The active schedules are those
  read when the scheduler is created, in order.
\<close>

theorem startup_schedules:
  assumes "start_engine B cfg = Some (Inr c)" and "db_schedules B = Inr ids" and "db_active B = Inr rows"
    and "sorted ids" and "distinct ids" and "set (List.map fst rows) \<subseteq> set ids" and "distinct (List.map fst rows)"
    and "\<forall>i w. db_schedule B i = Inr w \<longrightarrow> ws_id w = i \<and> good_ws (boot_date B) w"
    and "length rows + 1 < 2 ^ 32"
  shows "wfs_inv (boot_date B) (core_schedules c) \<and>
    used_ids (core_schedules c) = mset (List.filter (loadable (db_schedule B)) (List.map fst rows))"
proof -
  obtain c0 "is" c1 rows' s where start: "core_new B = Some (Inr c0)" "db_executing B = Inr is" "resume_all B is c0 = Some c1"
    "db_active B = Inr rows'" "load_schedules (boot_date B) (db_schedule B) rows' (core_schedules c1) = Some s"
    "core_server c = (core_server c1)\<lparr>sv_schedules := s\<rparr>"
    using assms(1) by (rule start_engine_parts)
  have "core_schedules c0 = WorkflowScheduler_new ids"
    using start(1) by (rule core_new_parts) (use assms(2) in auto)
  then have c1: "core_schedules c1 = WorkflowScheduler_new ids"
    using resume_all_schedules [OF assms(4) _ start(3)] by blast
  have new: "wfs_inv (boot_date B) (WorkflowScheduler_new ids)" by (rule WorkflowScheduler_new_inv [OF assms(4,5)])
  have empty: "used_ids (WorkflowScheduler_new ids) = {#}" "wfs_ids (WorkflowScheduler_new ids) = ids"
    "first_event (w_sched (WorkflowScheduler_new ids)) = []"
    by (simp_all add: used_ids_def used_refs_def WorkflowScheduler_new_def wfs_init_def Scheduler_new_def)
  from load_schedules_result [OF new, of rows "db_schedule B"] assms(3,6-9) start(4-6) c1 empty show ?thesis by auto
qed

section \<open>The resumed instances\<close>

text \<open>
  What resuming takes for granted of each instance: its memory is new, the task identifiers of its
  savepoint are free, and no counter overflows.
\<close>

definition resume_fit :: "boot \<Rightarrow> u32 \<Rightarrow> core \<Rightarrow> bool" where
  "resume_fit B i c =
     (let g = sv_engine (core_server c) in
      objects g (boot_ref B i) = None \<and>
      (case db_instance B i of Inl e \<Rightarrow> True | Inr row \<Rightarrow>
        (case WorkflowInstance_resume (boot_env B) i row of
           Some (Inr s) \<Rightarrow>
             (case Resume (seeing g (boot_env B)) s of
                Some (b, s') \<Rightarrow> claims_free (qp g) (new_calls s s') \<and> room_for (new_calls s s') g
              | None \<Rightarrow> True)
         | _ \<Rightarrow> True)))"

fun resume_fits :: "boot \<Rightarrow> u32 list \<Rightarrow> core \<Rightarrow> bool" where
  "resume_fits B [] c = True"
| "resume_fits B (i # is) c =
     (resume_fit B i c \<and> (case resume_one B i c of Some c \<Rightarrow> resume_fits B is c | None \<Rightarrow> True))"

definition registry_ok :: "server \<Rightarrow> bool" where
  "registry_ok sv \<longleftrightarrow> (\<forall>i w. wi (sv_registry sv) i = Some w \<longleftrightarrow>
     (\<exists>s. objects (sv_engine sv) w = Some s \<and> workflow_instance_id s = i))"

lemma destruct_deleted:
  assumes "destruct nd w (WorkflowInstance_delete s) sv = Some sv'"
  shows "wi (sv_registry sv') = (wi (sv_registry sv))(workflow_instance_id s := None)"
proof -
  have "wi (sv_registry (destroyed w i sv)) = (wi (sv_registry sv))(i := None)" for i sv
    by (simp add: destroyed_def instances_Remove_def Let_def split: option.splits)
  then show ?thesis using assms by (auto simp: WorkflowInstance_delete_def bind_eq_Some_conv split: if_splits)
qed

lemma resume_row_id: "WorkflowInstance_resume E i row = Some (Inr s) \<Longrightarrow> workflow_instance_id s = i"
  unfolding WorkflowInstance_resume_def
  by (auto simp: bind_eq_Some_conv emit_def split: option.splits if_splits prod.splits)

lemma resumed_keeps:
  assumes reach: "engine_reachable (sv_engine (core_server c))" and ok: "registry_ok (core_server c)"
    and free: "wi (sv_registry (core_server c)) i = None" and fit: "resume_fit B i c"
    and one: "resume_one B i c = Some c'"
  shows "engine_reachable (sv_engine (core_server c')) \<and> registry_ok (core_server c') \<and>
    dom (wi (sv_registry (core_server c'))) \<subseteq> insert i (dom (wi (sv_registry (core_server c))))"
  using one
proof (cases rule: resume_one_cases)
  case 1
  with reach ok show ?thesis by auto
next
  case (2 row s)
  let ?sv = "core_server c" and ?w = "boot_ref B i"
  let ?g = "sv_engine ?sv"
  have id: "workflow_instance_id s = i" by (rule resume_row_id [OF 2(2)])
  obtain b s' g where r: "Resume (seeing ?g (boot_env B)) s = Some (b, s')" "settle ?w s (b, s') ?g = Some g"
    and c': "delete_ended (boot_date B) ?w (b, s') ((constructed ?w i ?sv)\<lparr>sv_engine := g\<rparr>) = Some (core_server c')"
    using 2(3) by (auto simp: resumed_def Let_def bind_eq_Some_conv id constructed_def)
  have absent: "objects ?g ?w = None" and calls: "claims_free (qp ?g) (new_calls s s')" "room_for (new_calls s s') ?g"
    using fit 2(1,2) r(1) by (auto simp: resume_fit_def Let_def)
  have "engine_step ?g g"
    by (rule engine_step.resume [OF absent constructors_fresh(2) [OF 2(2)] r(1) calls r(2)])
  then have g: "engine_reachable g" by (rule engine_reachable.step [OF reach])
  have objs: "objects g = (objects ?g)(?w := if b then None else Some s')"
    using r(2) by (auto simp: settle_def)
  have id': "workflow_instance_id s' = i" using identity.Resume [OF r(1)] id by (simp add: same_ids_def)
  have "sv_engine (core_server c') = g \<and>
      wi (sv_registry (core_server c')) = (wi (sv_registry ?sv))(i := if b then None else Some ?w)"
  proof (cases b)
    case True
    with c' destruct_deleted [of "boot_date B" ?w s' _ "core_server c'"] destruct_engine show ?thesis
      by (fastforce simp: id' instances_Add_def delete_ended_def constructed_def Let_def)
  next
    case False
    with c' have "core_server c' = (constructed ?w i ?sv)\<lparr>sv_engine := g\<rparr>" by (simp add: delete_ended_def)
    with False show ?thesis by (simp add: instances_Add_def constructed_def Let_def)
  qed
  moreover have "workflow_instance_id t \<noteq> i" if "objects ?g v = Some t" for v t
    using ok free that unfolding registry_ok_def by (metis option.distinct(1))
  ultimately show ?thesis
    using g objs absent free ok id' unfolding registry_ok_def by (auto split: if_splits)
qed

lemma resume_all_keeps:
  assumes "engine_reachable (sv_engine (core_server c))" and "registry_ok (core_server c)" and "distinct is"
    and "\<forall>i \<in> set is. wi (sv_registry (core_server c)) i = None" and "resume_fits B is c"
    and "resume_all B is c = Some c'"
  shows "engine_reachable (sv_engine (core_server c')) \<and> registry_ok (core_server c')"
  using assms
proof (induction "is" arbitrary: c)
  case (Cons i "is")
  obtain c1 where c1: "resume_one B i c = Some c1" "resume_all B is c1 = Some c'"
    using Cons.prems(6) by (auto simp: bind_eq_Some_conv)
  note one = resumed_keeps [OF Cons.prems(1,2) _ _ c1(1)]
  have "\<forall>j \<in> set is. wi (sv_registry (core_server c1)) j = None"
    using one Cons.prems(3-5) by (auto simp: subset_iff domIff)
  with one Cons.IH [of c1] Cons.prems c1 show ?case by simp
qed simp


section \<open>An instance that ends while it is resumed\<close>

text \<open>
  An instance of an active schedule that ends while it is resumed, which happens when the
  queues of its waiting tasks have been removed, crashes the program: its schedule is attached to
  it only later, and its end is reported to a null schedule. As its row is still there, every new
  start crashes too.
\<close>

theorem ended_resume_crashes:
  assumes "core_new B = Some (Inr c)" and "db_schedules B = Inr ids" and "sorted ids" and "db_executing B = Inr (i # is)"
    and "db_instance B i = Inr row" and "WorkflowInstance_resume (boot_env B) i row = Some (Inr s)"
    and "workflow_schedule_id s \<in> set ids" and "workflow_schedule_id s \<noteq> 0"
    and "Resume (seeing (sv_engine (core_server c)) (boot_env B)) s = Some (True, s')"
  shows "start_engine B cfg = None"
proof -
  have new: "core_schedules c = WorkflowScheduler_new ids"
    using assms(1) by (rule core_new_parts) (use assms(2) in auto)
  have "workflow_schedule_id s' = workflow_schedule_id s" using identity.Resume [OF assms(9)] by (simp add: same_ids_def)
  then have "delete_ended nd w (True, s') ((constructed w i (core_server c))\<lparr>sv_engine := g\<rparr>) = None" for nd w i g
    using assms(7,8) nothing_executes [OF assms(3)]
    by (simp add: delete_ended_def WorkflowInstance_delete_def new destroyed_def constructed_def Let_def)
  moreover have "sv_engine (constructed w i sv) = sv_engine sv" for w i sv by (simp add: constructed_def Let_def)
  ultimately have "resumed B s c = None"
    using assms(9) by (cases "settle (boot_ref B (workflow_instance_id s)) s (True, s') (sv_engine (core_server c))")
      (simp_all add: resumed_def Let_def)
  then have "resume_all B (i # is) c = None"
    using assms(5,6) by (simp add: resume_one_def)
  then show ?thesis
    by (simp add: start_engine_def and_then_def returns_def assms(1,4))
qed

section \<open>A start\<close>

text \<open>
  Schedule 3 is active and its instance 7 was executing; the savepoint has one task, waiting for
  the queue \<open>q\<close>. The database has one queue.
\<close>

definition waiting_document :: "string \<Rightarrow> document" where
  "waiting_document q = document_of
     [node_of ''workflow'' [(''status'', ''EXECUTING'')] [1] None, node_of ''subjobs'' [] [2] (Some 0),
      node_of ''job'' [] [3] (Some 1), node_of ''tasks'' [] [4] (Some 2),
      node_of ''task'' [(''name'', ''t''), (''queue'', q), (''status'', ''QUEUED'')] [] (Some 3)]"

definition demo_config :: config where
  "demo_config = snd (config_Set ''workflowinstance.savepoint.level'' ''0'' Configuration_new)"

definition demo_boot :: "string \<Rightarrow> boot" where
  "demo_boot q = \<lparr>os_pidfile = (\<lambda>_. True), os_setgid = (\<lambda>_. True), os_setuid = (\<lambda>_. True), os_bind = (\<lambda>_ _. True),
     os_listen = (\<lambda>_. True), os_pid_max = Some 7, os_msgget = 0, db_ping = None, db_sequence = None,
     db_schedules = Inr [3], db_queues = [(''q'', Some (1, 1))], db_workflows = (Map.empty, []), db_tasks = (Map.empty, []), db_retry_schedules = (Map.empty, []), db_executing = Inr [7],
     db_instance = (\<lambda>_. Inr (Some (Some ''xml'', 3, 1))), db_active = Inr [(3, 7)],
     db_schedule = (\<lambda>i. Inr (demo_ws i CONTINUE)), db_purge = None,
     boot_env = demo_env\<lparr>e_parse := (\<lambda>_. Some (waiting_document q)), e_config := demo_config\<rparr>,
     boot_ref = (\<lambda>_. 0), boot_date = (\<lambda>_. Some 100), boot_files = Map.empty\<rparr>"

definition demo_resumed :: "string \<Rightarrow> ((bool \<times> wf_instance) \<times> wf_instance) option" where
  "demo_resumed q = (case WorkflowInstance_resume (boot_env (demo_boot q)) 7 (Some (Some ''xml'', 3, 1)) of
      Some (Inr s) \<Rightarrow> map_option (\<lambda>r. (r, s)) (Resume (boot_env (demo_boot q)) s) | _ \<Rightarrow> None)"

lemma demo_resumed:
  "map_option (\<lambda>((b, s'), s). (b, new_calls s s', workflow_schedule_id s)) (demo_resumed ''q'') =
     Some (False, [Call_Enqueue 4 ''q''], 3)"
  "map_option (\<lambda>((b, s'), s). (b, workflow_schedule_id s)) (demo_resumed ''gone'') = Some (True, 3)"
  by code_simp+

definition demo_core :: core where
  "demo_core = \<lparr>core_server = \<lparr>sv_stats = Statistics_new, sv_registry = WorkflowInstances_new,
       sv_schedules = WorkflowScheduler_new [3], sv_engine = run_start\<rparr>, core_workflows = empty_catalogue, core_tasks = empty_catalogue,
     core_retry_schedules = empty_catalogue, core_pm = None, core_gc = None\<rparr>"

lemma demo_core: "core_new (demo_boot q) = Some (Inr demo_core)"
  by (simp add: core_new_def demo_boot_def run_pool demo_core_def run_start_def and_then_def passes_def raises_def
      Workflows_Reload_def Tasks_Reload_def RetrySchedules_Reload_def cat_reload_def empty_catalogue_def)

lemma demo_seeing: "seeing (sv_engine (core_server demo_core)) (boot_env (demo_boot q)) = boot_env (demo_boot q)"
  using run_seeing by (simp add: seeing_def demo_core_def demo_boot_def demo_env_def)

lemma demo_resume:
  assumes "demo_resumed q = Some ((b, s'), s)"
  shows "WorkflowInstance_resume (boot_env (demo_boot q)) 7 (Some (Some ''xml'', 3, 1)) = Some (Inr s)"
    and "Resume (seeing (sv_engine (core_server demo_core)) (boot_env (demo_boot q))) s = Some (b, s')"
  using assms by (auto simp: demo_resumed_def demo_seeing split: option.splits sum.splits)

lemma demo_boot_simps [simp]:
  "db_schedules (demo_boot q) = Inr [3]" "db_executing (demo_boot q) = Inr [7]"
  "db_instance (demo_boot q) i = Inr (Some (Some ''xml'', 3, 1))" "db_active (demo_boot q) = Inr [(3, 7)]"
  "db_schedule (demo_boot q) i = Inr (demo_ws i CONTINUE)" "db_purge (demo_boot q) = None"
  "boot_ref (demo_boot q) i = 0" "boot_date (demo_boot q) = (\<lambda>_. Some 100)" "db_queues (demo_boot q) = [(''q'', Some (1, 1))]"
  "os_pid_max (demo_boot q) = Some 7"
  by (simp_all add: demo_boot_def)

theorem ended_resume_crashes_witness:
  "start_engine (demo_boot ''gone'') Configuration_new = None"
proof -
  obtain s' s where r: "demo_resumed ''gone'' = Some ((True, s'), s)" "workflow_schedule_id s = 3"
    using demo_resumed(2) by auto
  note res = demo_resume [OF r(1)]
  show ?thesis
    by (rule ended_resume_crashes [where ids = "[3]", OF demo_core _ _ _ _ res(1) _ _ res(2)]) (simp_all add: r(2))
qed

lemma demo_started_engine:
  obtains c where "start_engine (demo_boot ''q'') Configuration_new = Some (Inr c)"
    and "resume_fits (demo_boot ''q'') [7] demo_core" and "wi (sv_registry (core_server c)) 7 = Some 0"
proof -
  let ?B = "demo_boot ''q''"
  obtain s' s where r: "demo_resumed ''q'' = Some ((False, s'), s)" "workflow_schedule_id s = 3"
    "new_calls s s' = [Call_Enqueue 4 ''q'']"
    using demo_resumed(1) by auto
  note res = demo_resume [OF r(1)]
  have engine: "sv_engine (core_server demo_core) = run_start" by (simp add: demo_core_def)
  have start: "qp run_start = run_pool" "objects run_start = Map.empty" "queued run_pool = {#}" "pool_ok run_pool"
    "\<And>X. registered X run_pool = {#}" "retrier run_start = Retrier_new" "forking run_start = Fork_Idle"
    "gathering run_start = None" "timers run_start = []" "events_of Retrier_new = {#}"
    using QueuePool_new_empty(1,2) [OF run_pool] inv_base(3) [OF engine_reachable_inv [OF run_start_reachable]]
    by (simp_all add: run_start_def engine_start_def events_of_def Retrier_new_def Scheduler_new_def)
  obtain sig p where p: "pool_enqueue ''q'' 0 4 run_pool = Some (True, sig, p)"
    by (rule pool_enqueue_tasks [of run_pool "''q''" 0 4]) (simp_all add: run_pool_queue start)
  then obtain g where g: "settle 0 s (False, s') run_start = Some g"
    by (simp add: settle_def r(3) start)
  have id: "workflow_instance_id s = 7" by (rule resume_row_id [OF res(1)])
  obtain c where c: "resume_one ?B 7 demo_core = Some c" "core_schedules c = WorkflowScheduler_new [3]"
    "wi (sv_registry (core_server c)) 7 = Some 0"
    using res g by (simp add: resume_one_def resumed_def engine id Let_def demo_core_def constructed_def delete_ended_def instances_Add_def)
  have none: "executions (new_calls s s') = []" by (simp add: r(3))
  have fits: "resume_fits ?B [7] demo_core"
    using res no_claims [OF none] c(1)
    by (simp add: resume_fit_def engine room_for_def r(3) total_def to_start_def at_work_def to_retry_def
        forker_tasks_def forker_tids_def start)
  have sched: "\<exists>w. load_schedules (\<lambda>_. Some 100) (db_schedule ?B) [(3, 7)] (WorkflowScheduler_new [3]) = Some w"
    by (simp add: ws_new_def ScheduleWorkflow_def Let_def)
  have rest: "\<exists>pm. ProcessManager_new Configuration_new (os_msgget ?B) = Some (Inr pm)"
    "\<exists>gc. GarbageCollector_new Configuration_new = Some gc" "listening ?B Configuration_new = Some None"
  proof -
    have "(case ProcessManager_new Configuration_new 0 of Some (Inr pm) \<Rightarrow> True | _ \<Rightarrow> False)"
      "GarbageCollector_new Configuration_new \<noteq> None" "listening ?B Configuration_new = Some None"
      by code_simp+
    then show "\<exists>pm. ProcessManager_new Configuration_new (os_msgget ?B) = Some (Inr pm)"
      "\<exists>gc. GarbageCollector_new Configuration_new = Some gc" "listening ?B Configuration_new = Some None"
      by (auto simp: demo_boot_def split: option.splits sum.splits)
  qed
  then obtain pm gc w where "load_schedules (\<lambda>_. Some 100) (db_schedule ?B) [(3, 7)] (WorkflowScheduler_new [3]) = Some w"
    "ProcessManager_new Configuration_new (os_msgget ?B) = Some (Inr pm)" "GarbageCollector_new Configuration_new = Some gc"
    using sched by blast
  with rest(3) c(1,2) have "start_engine ?B Configuration_new = Some (Inr ((with_schedules w c)\<lparr>core_pm := Some pm, core_gc := Some gc\<rparr>))"
    by (simp add: start_engine_def and_then_def returns_def demo_core passes_def)
  with fits c(3) show thesis by (intro that [of "(with_schedules w c)\<lparr>core_pm := Some pm, core_gc := Some gc\<rparr>"]) simp_all
qed


theorem startup_schedules_witness:
  "\<exists>c. start_engine (demo_boot ''q'') Configuration_new = Some (Inr c) \<and> used_ids (core_schedules c) = {#3#}"
proof -
  obtain c where c: "start_engine (demo_boot ''q'') Configuration_new = Some (Inr c)"
    by (rule demo_started_engine) (rule that)
  have "ws_id (demo_ws i CONTINUE) = i" for i by (simp add: demo_ws_def)
  with startup_schedules [OF c, of "[3]" "[(3, 7)]"] demo_ws_good c show ?thesis
    by (auto simp: loadable_def)
qed

end
