(* ===== verification/Locks.thy ===== *)
theory Locks
  imports Prelude
begin

text \<open>
  Threads that lock and unlock the mutexes of \<open>pthread\<close>: a thread is the list of the operations it
  still has to do. A mutex is free or has an owner and the number of times it is locked; only a
  recursive mutex can be locked again by its owner. A wait on a condition is an unlock followed by
  a lock, since the sleeping thread does not hold the mutex.
\<close>

datatype 'm lock_op = Lock 'm | Unlock 'm

type_synonym 'm owners = "'m \<Rightarrow> (nat \<times> nat) option"

definition lock_mutex :: "('m \<Rightarrow> bool) \<Rightarrow> nat \<Rightarrow> 'm \<Rightarrow> 'm owners \<Rightarrow> 'm owners option" where
  "lock_mutex recursive t m L = (case L m of
       None \<Rightarrow> Some (L(m \<mapsto> (t, 1)))
     | Some (u, n) \<Rightarrow> if recursive m \<and> u = t then Some (L(m \<mapsto> (t, n + 1))) else None)"

text \<open>Only the owner unlocks; anything else is an error of the program (\<open>None\<close>).\<close>

definition unlock_mutex :: "nat \<Rightarrow> 'm \<Rightarrow> 'm owners \<Rightarrow> 'm owners option" where
  "unlock_mutex t m L = (case L m of
       None \<Rightarrow> None
     | Some (u, n) \<Rightarrow> if u = t then Some (L(m := if n \<le> 1 then None else Some (t, n - 1))) else None)"

fun lock_step :: "('m \<Rightarrow> bool) \<Rightarrow> nat \<Rightarrow> 'm lock_op \<Rightarrow> 'm owners \<Rightarrow> 'm owners option" where
  "lock_step recursive t (Lock m) L = lock_mutex recursive t m L"
| "lock_step recursive t (Unlock m) L = unlock_mutex t m L"

text \<open>The threads and the owners; thread \<open>t\<close> does its next operation when it can.\<close>

type_synonym 'm threads = "'m lock_op list list \<times> 'm owners"

definition thread_step :: "('m \<Rightarrow> bool) \<Rightarrow> nat \<Rightarrow> 'm threads \<Rightarrow> 'm threads option" where
  "thread_step recursive t c = (case c of (ps, L) \<Rightarrow>
     if t < length ps
     then case ps ! t of
         [] \<Rightarrow> None
       | a # as \<Rightarrow> map_option (\<lambda>L. (ps[t := as], L)) (lock_step recursive t a L)
     else None)"

text \<open>A schedule: the threads that take the next steps.\<close>

fun threads_run :: "('m \<Rightarrow> bool) \<Rightarrow> nat list \<Rightarrow> 'm threads \<Rightarrow> 'm threads option" where
  "threads_run recursive [] c = Some c"
| "threads_run recursive (t # ts) c = Option.bind (thread_step recursive t c) (threads_run recursive ts)"

definition finished :: "'m threads \<Rightarrow> bool" where
  "finished c \<longleftrightarrow> list_all (\<lambda>p. p = []) (fst c)"

definition deadlocked :: "('m \<Rightarrow> bool) \<Rightarrow> 'm threads \<Rightarrow> bool" where
  "deadlocked recursive c \<longleftrightarrow> \<not> finished c \<and> (\<forall>t < length (fst c). thread_step recursive t c = None)"

definition no_owners :: "'m owners" where
  "no_owners = (\<lambda>m. None)"

section \<open>The discipline\<close>

text \<open>
  A thread that holds \<open>hs\<close> locks in the order of a rank: a mutex only above all those it holds, or
  one it already holds when it is recursive; it unlocks only what it holds, and in the end everything.
\<close>

fun disciplined :: "('m \<Rightarrow> bool) \<Rightarrow> ('m \<Rightarrow> nat) \<Rightarrow> 'm list \<Rightarrow> 'm lock_op list \<Rightarrow> bool" where
  "disciplined recursive rank hs [] = (hs = [])"
| "disciplined recursive rank hs (Lock m # as) =
     ((if m \<in> set hs then recursive m else list_all (\<lambda>h. rank h < rank m) hs) \<and> disciplined recursive rank (m # hs) as)"
| "disciplined recursive rank hs (Unlock m # as) = (m \<in> set hs \<and> disciplined recursive rank (remove1 m hs) as)"

lemma disciplined_append:
  "disciplined recursive rank hs as \<Longrightarrow> disciplined recursive rank [] bs \<Longrightarrow> disciplined recursive rank hs (as @ bs)"
  by (induction recursive rank hs as rule: disciplined.induct) simp_all

lemma disciplined_concat:
  "list_all (disciplined recursive rank []) ps \<Longrightarrow> disciplined recursive rank [] (concat ps)"
  by (induction ps) (simp_all add: disciplined_append)

text \<open>What a thread holds fits the owners.\<close>

definition held_by :: "'m list list \<Rightarrow> 'm owners \<Rightarrow> bool" where
  "held_by hs L \<longleftrightarrow> (\<forall>m. (\<forall>t < length hs. count_list (hs ! t) m = (case L m of Some (u, n) \<Rightarrow> if u = t then n else 0 | None \<Rightarrow> 0)) \<and>
     (\<forall>u n. L m = Some (u, n) \<longrightarrow> u < length hs \<and> 0 < n))"

definition disciplined_threads :: "('m \<Rightarrow> bool) \<Rightarrow> ('m \<Rightarrow> nat) \<Rightarrow> 'm threads \<Rightarrow> bool" where
  "disciplined_threads recursive rank c \<longleftrightarrow> (\<exists>hs. length hs = length (fst c) \<and> held_by hs (snd c) \<and>
     (\<forall>t < length hs. disciplined recursive rank (hs ! t) (fst c ! t)))"

lemma held_mem: "held_by hs L \<Longrightarrow> t < length hs \<Longrightarrow> m \<in> set (hs ! t) \<longleftrightarrow> (\<exists>n. L m = Some (t, n))"
proof -
  assume h: "held_by hs L" and t: "t < length hs"
  have "count_list (hs ! t) m = (case L m of Some (u, n) \<Rightarrow> if u = t then n else 0 | None \<Rightarrow> 0)"
    and pos: "\<And>u n. L m = Some (u, n) \<Longrightarrow> 0 < n"
    using h t unfolding held_by_def by blast+
  then have "m \<in> set (hs ! t) \<longleftrightarrow> (case L m of Some (u, n) \<Rightarrow> if u = t then n else 0 | None \<Rightarrow> 0) \<noteq> 0"
    by (metis count_list_0_iff)
  with pos show ?thesis by (auto split: option.splits if_splits)
qed

lemma count_list_remove1: "count_list (remove1 x xs) y = (if x = y then count_list xs y - 1 else count_list xs y)"
  by (induction xs) (auto simp: count_list_0_iff)

lemma disciplined_step:
  assumes "disciplined_threads recursive rank c" and "thread_step recursive t c = Some c'"
  shows "disciplined_threads recursive rank c'"
proof -
  obtain ps L where c: "c = (ps, L)" by fastforce
  obtain a as L' where t: "t < length ps" "ps ! t = a # as" and L': "lock_step recursive t a L = Some L'"
    and c': "c' = (ps[t := as], L')"
    using assms(2) by (auto simp: thread_step_def c split: if_splits list.splits)
  obtain hs where hs: "length hs = length ps" "held_by hs L"
    "\<And>u. u < length hs \<Longrightarrow> disciplined recursive rank (hs ! u) (ps ! u)"
    using assms(1) by (auto simp: disciplined_threads_def c)
  have d: "disciplined recursive rank (hs ! t) (a # as)" using hs(1,3) t by (metis)
  obtain h where h: "held_by (hs[t := h]) L'" "disciplined recursive rank h as"
  proof (cases a)
    case (Lock m)
    have "held_by (hs[t := m # hs ! t]) L'"
      using hs(2) L' t(1) hs(1) unfolding held_by_def Lock
      by (auto simp: lock_mutex_def nth_list_update split: option.splits if_splits)
    with d Lock that show thesis by simp
  next
    case (Unlock m)
    have "held_by (hs[t := remove1 m (hs ! t)]) L'"
      using hs(2) L' t(1) hs(1) unfolding held_by_def Unlock
      by (auto simp: unlock_mutex_def nth_list_update count_list_remove1 split: option.splits if_splits)
    with d Unlock that show thesis by simp
  qed
  have "disciplined recursive rank (hs[t := h] ! u) (ps[t := as] ! u)" if "u < length hs" for u
    using that h(2) hs(1,3) t(1) by (cases "u = t") simp_all
  with h(1) hs(1) show ?thesis by (auto simp: disciplined_threads_def c' intro!: exI [of _ "hs[t := h]"])
qed

section \<open>No deadlock\<close>

text \<open>
  A thread that cannot step waits for a mutex that another one holds. The highest mutex waited for is
  held by a thread that would have to wait for a higher one.
\<close>

lemma blocked_waits:
  assumes hs: "length hs = length ps" "held_by hs L" and t: "t < length ps"
    and d: "disciplined recursive rank (hs ! t) (ps ! t)" and work: "ps ! t \<noteq> []"
    and blocked: "thread_step recursive t (ps, L) = None"
  obtains m u n as where "ps ! t = Lock m # as" and "L m = Some (u, n)" and "u \<noteq> t" and "u < length ps"
    and "m \<in> set (hs ! u)" and "\<And>h. h \<in> set (hs ! t) \<Longrightarrow> rank h < rank m"
proof -
  obtain a as where a: "ps ! t = a # as" using work by (cases "ps ! t") auto
  have none: "lock_step recursive t a L = None" using blocked t a by (simp add: thread_step_def)
  have len: "t < length hs" using t hs(1) by simp
  show thesis
  proof (cases a)
    case (Lock m)
    obtain u n where L: "L m = Some (u, n)" and other: "\<not> (recursive m \<and> u = t)"
      using none by (auto simp: Lock lock_mutex_def split: option.splits if_splits)
    have u: "u < length hs" using hs(2) L by (auto simp: held_by_def)
    have "u \<noteq> t"
    proof
      assume "u = t"
      then have "m \<in> set (hs ! t)" using held_mem [OF hs(2) len, of m] L by simp
      then have "recursive m" using d by (simp add: a Lock)
      with other \<open>u = t\<close> show False by simp
    qed
    moreover from this have "m \<notin> set (hs ! t)" using held_mem [OF hs(2) len, of m] L by simp
    then have "rank h < rank m" if "h \<in> set (hs ! t)" for h
      using d that by (auto simp: a Lock list_all_iff)
    moreover have "m \<in> set (hs ! u)" using held_mem [OF hs(2) u, of m] L by simp
    ultimately show thesis using that a Lock L u hs(1) by simp
  next
    case (Unlock m)
    then have "m \<in> set (hs ! t)" using d by (simp add: a)
    then obtain n where "L m = Some (t, n)" using held_mem [OF hs(2) len] by blast
    with none Unlock show thesis by (simp add: unlock_mutex_def)
  qed
qed

lemma disciplined_progress:
  assumes "disciplined_threads recursive rank c" and "\<not> finished c"
  shows "\<exists>t c'. thread_step recursive t c = Some c'"
proof (rule ccontr)
  assume stuck: "\<nexists>t c'. thread_step recursive t c = Some c'"
  obtain ps L where c: "c = (ps, L)" by fastforce
  obtain hs where hs: "length hs = length ps" "held_by hs L"
    "\<And>u. u < length hs \<Longrightarrow> disciplined recursive rank (hs ! u) (ps ! u)"
    using assms(1) by (auto simp: disciplined_threads_def c)
  define busy where "busy = {t. t < length ps \<and> ps ! t \<noteq> []}"
  define wanted where "wanted t = (case ps ! t of Lock m # as \<Rightarrow> rank m | _ \<Rightarrow> 0)" for t
  have "finite busy" "busy \<noteq> {}"
    using assms(2) by (auto simp: busy_def c finished_def list_all_length)
  then obtain t where t: "t \<in> busy" "\<And>u. u \<in> busy \<Longrightarrow> wanted u \<le> wanted t"
    using Max_in [of "wanted ` busy"] Max_ge [of "wanted ` busy"] by (metis (no_types, lifting) finite_imageI image_iff image_is_empty)
  have waits: "\<exists>m v n as. ps ! u = Lock m # as \<and> L m = Some (v, n) \<and> v \<noteq> u \<and> v < length ps \<and> m \<in> set (hs ! v) \<and>
      (\<forall>h \<in> set (hs ! u). rank h < rank m)" if "u \<in> busy" for u
  proof -
    have u: "u < length ps" "ps ! u \<noteq> []" using that by (simp_all add: busy_def)
    have "thread_step recursive u (ps, L) = None" using stuck c by (metis option.exhaust)
    from blocked_waits [OF hs(1,2) u(1) _ u(2) this] hs(1,3) u(1) show ?thesis by metis
  qed
  obtain m v n as where m: "ps ! t = Lock m # as" "v < length ps" "m \<in> set (hs ! v)" using waits [OF t(1)] by blast
  have "ps ! v \<noteq> []"
  proof
    assume "ps ! v = []"
    with hs(1) hs(3) [of v] m(2,3) show False by simp
  qed
  then have v: "v \<in> busy" using m(2) by (simp add: busy_def)
  from waits [OF v] m(3) obtain m' bs where "ps ! v = Lock m' # bs" "rank m < rank m'" by blast
  then have "wanted t < wanted v" using m(1) by (simp add: wanted_def)
  with t(2) [OF v] show False by simp
qed

lemma disciplined_not_deadlocked: "disciplined_threads recursive rank c \<Longrightarrow> \<not> deadlocked recursive c"
proof -
  assume d: "disciplined_threads recursive rank c"
  have "t < length (fst c)" if "thread_step recursive t c = Some c'" for t c'
    using that by (auto simp: thread_step_def split: prod.splits if_splits)
  with disciplined_progress [OF d] show ?thesis by (fastforce simp: deadlocked_def)
qed

lemma disciplined_run:
  "threads_run recursive ts c = Some c' \<Longrightarrow> disciplined_threads recursive rank c \<Longrightarrow> disciplined_threads recursive rank c'"
  by (induction ts arbitrary: c) (auto simp: bind_eq_Some_conv intro: disciplined_step)

text \<open>The threads can always be brought to their end.\<close>

lemma threads_run_append:
  "threads_run recursive (ts @ us) c = Option.bind (threads_run recursive ts c) (threads_run recursive us)"
  by (induction ts arbitrary: c) (auto split: Option.bind_splits)

definition work_left :: "'m threads \<Rightarrow> nat" where
  "work_left c = sum_list (List.map length (fst c))"

lemma step_works: "thread_step recursive t c = Some c' \<Longrightarrow> work_left c' < work_left c"
proof -
  have "sum_list (List.map length (ps[t := as])) + 1 = sum_list (List.map length ps)"
    if "t < length ps" "ps ! t = a # as" for ps :: "'m lock_op list list" and a as
    using that by (induction ps arbitrary: t) (auto split: nat.splits)
  then show "thread_step recursive t c = Some c' \<Longrightarrow> work_left c' < work_left c"
    by (fastforce simp: thread_step_def work_left_def split: prod.splits if_splits list.splits)
qed

lemma disciplined_finish:
  "disciplined_threads recursive rank c \<Longrightarrow> \<exists>ts c'. threads_run recursive ts c = Some c' \<and> finished c'"
proof (induction "work_left c" arbitrary: c rule: less_induct)
  case less
  show ?case
  proof (cases "finished c")
    case True
    then show ?thesis by (intro exI [of _ "[]"]) simp
  next
    case False
    obtain t c1 where t: "thread_step recursive t c = Some c1" using disciplined_progress [OF less.prems False] by blast
    obtain ts c' where "threads_run recursive ts c1 = Some c'" "finished c'"
      using less.hyps [OF step_works [OF t] disciplined_step [OF less.prems t]] by blast
    with t show ?thesis by (intro exI [of _ "t # ts"]) auto
  qed
qed

lemma disciplined_start:
  assumes "list_all (disciplined recursive rank []) ps"
  shows "disciplined_threads recursive rank (ps, no_owners)"
proof -
  have "held_by (replicate (length ps) []) no_owners" by (simp add: held_by_def no_owners_def)
  with assms show ?thesis
    unfolding disciplined_threads_def by (auto simp: list_all_length intro!: exI [of _ "replicate (length ps) []"])
qed

section \<open>Building a run\<close>

text \<open>One thread goes on alone.\<close>

fun alone :: "('m \<Rightarrow> bool) \<Rightarrow> nat \<Rightarrow> 'm lock_op list \<Rightarrow> 'm owners \<Rightarrow> 'm owners option" where
  "alone recursive t [] L = Some L"
| "alone recursive t (a # as) L = Option.bind (lock_step recursive t a L) (alone recursive t as)"

lemma alone_run:
  "alone recursive t as L = Some L' \<Longrightarrow> t < length ps \<Longrightarrow> ps ! t = as @ bs \<Longrightarrow>
   \<exists>ts. threads_run recursive ts (ps, L) = Some (ps[t := bs], L')"
proof (induction as arbitrary: ps L)
  case Nil
  then show ?case using list_update_id [of ps t] by (intro exI [of _ "[]"]) simp
next
  case (Cons a as)
  then obtain L1 where L1: "lock_step recursive t a L = Some L1" "alone recursive t as L1 = Some L'"
    by (auto simp: bind_eq_Some_conv)
  obtain ts where "threads_run recursive ts (ps[t := as @ bs], L1) = Some (ps[t := as @ bs, t := bs], L')"
    using Cons.IH [OF L1(2), of "ps[t := as @ bs]"] Cons.prems(2) by auto
  then show ?case using Cons.prems L1(1) by (intro exI [of _ "t # ts"]) (simp add: thread_step_def)
qed

lemma alone_append: "alone recursive t (as @ bs) L = Option.bind (alone recursive t as L) (alone recursive t bs)"
  by (induction as arbitrary: L) (auto split: Option.bind_splits)

end
