(* ===== verification/Lock_Order.thy ===== *)
theory Lock_Order
  imports Locks Instance_Queues Process_Manager
begin

text \<open>
  The mutexes of the program, and in which order its threads lock them. What an instance locks in an
  operation is read off the calls that the operation of \<open>Workflow_Instance\<close> makes, its own
  mutex being held around them. \<open>Lock_Properties\<close> says what follows.
\<close>

section \<open>The mutexes\<close>

datatype mutex =
    M_instance wi_ref       \<comment> \<open>\<open>WorkflowInstance::lock\<close>\<close>
  | M_registry              \<comment> \<open>\<open>WorkflowInstances::lock\<close>\<close>
  | M_pool                  \<comment> \<open>\<open>QueuePool::mutex\<close>\<close>
  | M_filter                \<comment> \<open>\<open>Retrier::retrier_lock\<close>\<close>
  | M_retrier               \<comment> \<open>\<open>Scheduler::mutex\<close> of the retrier\<close>
  | M_schedules             \<comment> \<open>\<open>WorkflowScheduler::wfs_mutex\<close>, recursive\<close>
  | M_events                \<comment> \<open>\<open>Scheduler::mutex\<close> of the workflow scheduler\<close>
  | M_workflows | M_tasks | M_retry_schedules
  | M_statistics | M_sequence | M_collector

definition recursive_mutex :: "mutex \<Rightarrow> bool" where
  "recursive_mutex m = (m = M_schedules)"

definition around :: "mutex \<Rightarrow> mutex lock_op list \<Rightarrow> mutex lock_op list" where
  "around m as = Lock m # as @ [Unlock m]"

definition each :: "mutex list \<Rightarrow> mutex lock_op list" where
  "each ms = concat (List.map (\<lambda>m. around m []) ms)"

section \<open>What the operations lock\<close>

text \<open>The components that an operation of an instance calls under its lock.\<close>

fun call_mutexes :: "call \<Rightarrow> mutex list" where
  "call_mutexes (Call_Enqueue t q) = [M_pool]"
| "call_mutexes (Call_Execute t q i) = [M_pool]"
| "call_mutexes (Call_Retry t d) = [M_retrier]"
| "call_mutexes Call_IncErrors = [M_statistics]"
| "call_mutexes (Call_Add i) = [M_registry]"
| "call_mutexes (Call_Remove i) = [M_registry]"
| "call_mutexes Call_IncExecuting = [M_statistics]"
| "call_mutexes Call_DecExecuting = [M_statistics]"
| "call_mutexes c = []"

text \<open>\<open>ScheduleWorkflow\<close>: a schedule without an instance gets an event.\<close>

definition schedule_locks :: "bool \<Rightarrow> mutex lock_op list" where
  "schedule_locks waits = around M_schedules (if waits then each [M_events] else [])"

text \<open>
  The constructor and the destructor run without the instance's lock. \<open>again\<close> says whether the end of
  an instance makes its schedule wait again.
\<close>

fun call_locks :: "bool \<Rightarrow> call \<Rightarrow> mutex lock_op list" where
  "call_locks again (Call_Schedule_Stop i success) = around M_schedules (if again then schedule_locks True else [])"
| "call_locks again c = each (call_mutexes c)"

text \<open>
  The constructor looks up the workflow and \<open>imported\<close> retry schedules; with the lower savepoint
  levels it takes an identifier. The other one reads the instance from its savepoint.
\<close>

definition construct_locks :: "nat \<Rightarrow> wf_instance \<Rightarrow> mutex lock_op list" where
  "construct_locks imported s =
     each (M_workflows # replicate imported M_retry_schedules @ (if savepoint_level s < 2 then [M_sequence] else [])) @
     concat (List.map (call_locks False) (calls s))"

definition reconstruct_locks :: "wf_instance \<Rightarrow> mutex lock_op list" where
  "reconstruct_locks s = concat (List.map (call_locks False) (calls s))"

definition delete_locks :: "bool \<Rightarrow> bool \<Rightarrow> wf_instance \<Rightarrow> mutex lock_op list" where
  "delete_locks again terminated s =
     (if terminated then concat (List.map (call_locks again) (WorkflowInstance_delete s)) else [])"

text \<open>
  An operation locks the components it calls, and besides, for what it looks up: a task in the
  catalogue, an unknown queue in the pool.
\<close>

definition operation_mutexes :: "wf_instance \<Rightarrow> wf_instance \<Rightarrow> mutex list \<Rightarrow> bool" where
  "operation_mutexes s s' ms \<longleftrightarrow> (\<exists>looks. set looks \<subseteq> {M_pool, M_tasks} \<and>
     ms \<in> shuffles looks (concat (List.map call_mutexes (new_calls s s'))))"

definition operation_locks :: "wi_ref \<Rightarrow> mutex list \<Rightarrow> mutex lock_op list" where
  "operation_locks w ms = around (M_instance w) (each ms)"

text \<open>One turn of the forker and of the gatherer: \<open>ms\<close> is what the operation locks.\<close>

definition fork_locks :: "wi_ref \<Rightarrow> mutex list \<Rightarrow> bool \<Rightarrow> int \<Rightarrow> bool \<Rightarrow> wf_instance \<Rightarrow> mutex lock_op list" where
  "fork_locks w ms again pid terminated s =
     each [M_pool, M_pool] @ operation_locks w ms @ (if pid = -1 then each [M_pool] else []) @
     delete_locks again terminated s"

definition gather_locks :: "wi_ref \<Rightarrow> mutex list \<Rightarrow> bool \<Rightarrow> bool \<Rightarrow> wf_instance \<Rightarrow> mutex lock_op list" where
  "gather_locks w ms again terminated s =
     each [M_pool] @ operation_locks w ms @ delete_locks again terminated s"

text \<open>\<open>Retrier::event_removed\<close>, and the turn of the retrier's thread that calls it.\<close>

definition restart_locks :: "wi_ref \<Rightarrow> mutex list \<Rightarrow> bool \<Rightarrow> bool \<Rightarrow> wf_instance \<Rightarrow> mutex lock_op list" where
  "restart_locks w ms again terminated s = operation_locks w ms @ delete_locks again terminated s"

definition alarm_locks :: "wi_ref \<Rightarrow> mutex list \<Rightarrow> bool \<Rightarrow> bool \<Rightarrow> wf_instance \<Rightarrow> mutex lock_op list" where
  "alarm_locks w ms again terminated s = each [M_retrier] @ restart_locks w ms again terminated s"

text \<open>
  An instance made by a client, who may wait for its end, by the workflow scheduler, or at the start.
\<close>

definition launch_locks ::
  "wf_instance \<Rightarrow> nat \<Rightarrow> bool \<Rightarrow> wi_ref \<Rightarrow> mutex list \<Rightarrow> bool \<Rightarrow> bool \<Rightarrow> wf_instance \<Rightarrow> mutex lock_op list" where
  "launch_locks s0 imported waits w ms again terminated s =
     each [M_statistics, M_statistics] @ construct_locks imported s0 @ operation_locks w ms @
     (if waits then each [M_registry, M_registry] else []) @ delete_locks again terminated s"

definition scheduled_locks ::
  "wf_instance \<Rightarrow> nat \<Rightarrow> wi_ref \<Rightarrow> mutex list \<Rightarrow> bool \<Rightarrow> bool \<Rightarrow> wf_instance \<Rightarrow> mutex lock_op list" where
  "scheduled_locks s0 imported w ms again terminated s =
     each [M_events] @ construct_locks imported s0 @ each [M_schedules] @ operation_locks w ms @
     delete_locks again terminated s"

definition resume_locks :: "wf_instance \<Rightarrow> wi_ref \<Rightarrow> mutex list \<Rightarrow> bool \<Rightarrow> bool \<Rightarrow> wf_instance \<Rightarrow> mutex lock_op list" where
  "resume_locks s0 w ms again terminated s =
     reconstruct_locks s0 @ operation_locks w ms @ delete_locks again terminated s"

text \<open>The registry's operations on instances: each is locked while the registry is.\<close>

definition registry_locks :: "wi_ref list \<Rightarrow> mutex lock_op list" where
  "registry_locks ws = around M_registry (each (List.map M_instance ws))"

text \<open>\<open>WorkflowScheduler::Reload\<close>, for each schedule whether it waits; and its status.\<close>

definition reload_locks :: "bool list \<Rightarrow> mutex lock_op list" where
  "reload_locks waits = around M_schedules (each [M_events] @ concat (List.map schedule_locks waits))"

definition schedules_status_locks :: "mutex lock_op list" where
  "schedules_status_locks = around M_schedules (each [M_events])"

text \<open>
  The retrier's \<open>Flush\<close>: the tasks taken out are restarted (\<open>rs\<close>) while the retrier is locked;
  \<open>FlushWorkflowInstance\<close> holds the lock of its filter too.
\<close>

definition flush_locks :: "mutex lock_op list list \<Rightarrow> mutex lock_op list" where
  "flush_locks rs = around M_retrier (concat rs)"

definition flush_instance_locks :: "mutex lock_op list list \<Rightarrow> mutex lock_op list" where
  "flush_instance_locks rs = around M_filter (flush_locks rs)"

section \<open>The threads\<close>

text \<open>
  What the threads of the program do, in any sequence, the flush of the retrier apart. \<open>Short\<close> are
  the operations that lock one mutex and call nothing under it.
\<close>

inductive thread_program :: "mutex lock_op list \<Rightarrow> bool" where
  Nothing: "thread_program []"
| Sequel: "thread_program as \<Longrightarrow> thread_program bs \<Longrightarrow> thread_program (as @ bs)"
| Short: "thread_program (each [m])"
| Fork: "TaskExecute E t tid forked s = Some (pid, terminated, s') \<Longrightarrow> operation_mutexes s s' ms \<Longrightarrow>
    thread_program (fork_locks w ms again pid terminated s')"
| Gather: "TaskStop E t retval out s = Some (terminated, s') \<Longrightarrow> operation_mutexes s s' ms \<Longrightarrow>
    thread_program (gather_locks w ms again terminated s')"
| Alarm: "TaskRestart E t s = Some (terminated, s') \<Longrightarrow> operation_mutexes s s' ms \<Longrightarrow>
    thread_program (alarm_locks w ms again terminated s')"
| Launch: "WorkflowInstance_new E gw gs ins nid name ps sid host user = Some (Inr s) \<Longrightarrow>
    Start E s = Some (terminated, s') \<Longrightarrow> operation_mutexes s s' ms \<Longrightarrow>
    thread_program (launch_locks s imported waits w ms again terminated s')"
| Scheduled: "WorkflowInstance_new E gw gs ins nid name ps sid host user = Some (Inr s) \<Longrightarrow>
    Start E s = Some (terminated, s') \<Longrightarrow> operation_mutexes s s' ms \<Longrightarrow>
    thread_program (scheduled_locks s imported w ms again terminated s')"
| Resumed: "WorkflowInstance_resume E i row = Some (Inr s) \<Longrightarrow> Resume E s = Some (terminated, s') \<Longrightarrow>
    operation_mutexes s s' ms \<Longrightarrow> thread_program (resume_locks s w ms again terminated s')"
| Registry: "thread_program (registry_locks ws)"
| Schedule: "thread_program (schedule_locks waits)"
| Reload: "thread_program (reload_locks xs)"
| Status: "thread_program schedules_status_locks"

end
