(* ===== verification/Lock_Properties.thy ===== *)
theory Lock_Properties
  imports Lock_Order Instance_Jobs
begin

text \<open>
  The threads of the program lock in the order registry or schedules, instance, everything else, so
  they cannot block one another, whatever the schedule; the retrier's flush is the exception.
\<close>

section \<open>What an operation calls under its lock\<close>

definition inner_call :: "call \<Rightarrow> bool" where
  "inner_call c \<longleftrightarrow> own_call c \<or> (case c of Call_Enqueue t q \<Rightarrow> True | _ \<Rightarrow> False)"

definition within :: "wf_instance \<Rightarrow> wf_instance \<Rightarrow> bool" where
  "within s s' \<longleftrightarrow> (\<exists>cs. calls s' = calls s @ cs \<and> list_all inner_call cs)"

lemma within_refl: "calls s' = calls s \<Longrightarrow> within s s'"
  by (simp add: within_def)

lemma within_trans: "within s t \<Longrightarrow> within t u \<Longrightarrow> within s u"
  by (fastforce simp: within_def)

lemma within_emit: "within s t \<Longrightarrow> inner_call c \<Longrightarrow> within s (emit c t)"
  by (fastforce simp: within_def emit_def)

lemma within_enqueue: "enqueue_task E k s = Some s' \<Longrightarrow> within s s'"
  unfolding enqueue_task_def
  by (auto simp: Let_def within_def inner_call_def abort_task_def emit_def put_def split: if_splits option.splits)

interpretation inner: instance_frame E within for E
  by unfold_locales (auto simp: inner_call_def intro: within_refl within_trans within_enqueue within_emit)

text \<open>The order of the mutexes.\<close>

definition mutex_rank :: "mutex \<Rightarrow> nat" where
  "mutex_rank m = (case m of M_registry \<Rightarrow> 0 | M_filter \<Rightarrow> 0 | M_schedules \<Rightarrow> 0 | M_instance w \<Rightarrow> 1 | _ \<Rightarrow> 2)"

abbreviation in_order :: "mutex list \<Rightarrow> mutex lock_op list \<Rightarrow> bool" where
  "in_order \<equiv> disciplined recursive_mutex mutex_rank"

lemma inner_mutexes: "inner_call c \<Longrightarrow> m \<in> set (call_mutexes c) \<Longrightarrow> mutex_rank m = 2"
  by (cases c) (auto simp: inner_call_def own_call_def mutex_rank_def)

lemma operation_mutexes_rank:
  assumes "within s s'" and "operation_mutexes s s' ms" and "m \<in> set ms"
  shows "mutex_rank m = 2"
proof -
  obtain looks where looks: "set looks \<subseteq> {M_pool, M_tasks}" "ms \<in> shuffles looks (concat (List.map call_mutexes (new_calls s s')))"
    using assms(2) by (auto simp: operation_mutexes_def)
  have "list_all inner_call (new_calls s s')" using assms(1) by (auto simp: within_def new_calls_def)
  moreover have "m \<in> set looks \<union> set (concat (List.map call_mutexes (new_calls s s')))"
    using set_shuffles [OF looks(2)] assms(3) by simp
  moreover have "mutex_rank M_pool = 2" "mutex_rank M_tasks = 2" by (simp_all add: mutex_rank_def)
  ultimately show ?thesis using looks(1) by (auto simp: list_all_iff dest: inner_mutexes)
qed

section \<open>The threads keep the order\<close>

named_theorems ordered

lemma in_order_append [ordered]: "in_order hs as \<Longrightarrow> in_order [] bs \<Longrightarrow> in_order hs (as @ bs)"
  by (rule disciplined_append)

lemma in_order_Nil [ordered]: "in_order [] []"
  by simp

text \<open>Sections that lock one mutex after another, under the mutexes \<open>hs\<close> below them.\<close>

lemma in_order_each_under:
  "\<forall>m \<in> set ms. m \<notin> set hs \<and> (\<forall>h \<in> set hs. mutex_rank h < mutex_rank m) \<Longrightarrow> in_order hs bs \<Longrightarrow> in_order hs (each ms @ bs)"
  by (induction ms) (auto simp: each_def around_def list_all_iff)

lemma in_order_each [ordered]: "in_order [] (each ms)"
  using in_order_each_under [of ms "[]" "[]"] by simp

lemma in_order_around: "\<forall>m \<in> set ms. mutex_rank n < mutex_rank m \<Longrightarrow> in_order [] (around n (each ms))"
  using in_order_each_under [of ms "[n]" "[Unlock n]"] by (auto simp: around_def)

lemma in_order_operation [ordered]:
  "within s s' \<Longrightarrow> operation_mutexes s s' ms \<Longrightarrow> in_order [] (operation_locks w ms)"
  unfolding operation_locks_def by (rule in_order_around) (auto simp: mutex_rank_def dest!: operation_mutexes_rank)

lemma in_order_schedules: "in_order [M_schedules] (concat (List.map schedule_locks waits) @ bs) = in_order [M_schedules] bs"
  by (induction waits) (auto simp: schedule_locks_def each_def around_def recursive_mutex_def mutex_rank_def)

lemma in_order_schedule [ordered]: "in_order [] (schedule_locks waits)"
  by (simp add: schedule_locks_def each_def around_def mutex_rank_def)

lemma in_order_call [ordered]: "in_order [] (call_locks again c)"
proof -
  have "in_order [] (around M_schedules (schedule_locks True))"
    using in_order_schedules [of "[True]" "[Unlock M_schedules]"] by (simp add: around_def)
  moreover have "in_order [] (around M_schedules [])" by (simp add: around_def)
  ultimately show ?thesis by (cases c) (auto intro: in_order_each simp: each_def around_def)
qed

lemma in_order_calls [ordered]: "in_order [] (concat (List.map (call_locks again) cs))"
  by (rule disciplined_concat) (simp add: list_all_iff in_order_call)

lemma in_order_delete [ordered]: "in_order [] (delete_locks again terminated s)"
  by (simp add: delete_locks_def in_order_calls)

lemma in_order_new [ordered]: "in_order [] (construct_locks imported s)" "in_order [] (reconstruct_locks s)"
  unfolding construct_locks_def reconstruct_locks_def by (intro ordered)+

lemma in_order_if [ordered]: "in_order [] as \<Longrightarrow> in_order [] bs \<Longrightarrow> in_order [] (if c then as else bs)"
  by simp

lemma in_order_registry [ordered]: "in_order [] (registry_locks ws)"
  unfolding registry_locks_def by (rule in_order_around) (auto simp: mutex_rank_def)

lemma in_order_reload [ordered]: "in_order [] (reload_locks waits)"
  using in_order_schedules [of waits "[Unlock M_schedules]"]
  by (simp add: reload_locks_def around_def each_def mutex_rank_def)

lemma in_order_status [ordered]: "in_order [] schedules_status_locks"
  by (simp add: schedules_status_locks_def around_def each_def mutex_rank_def)

lemma program_in_order: "thread_program as \<Longrightarrow> in_order [] as"
proof (induction rule: thread_program.induct)
  case (Fork E t tid forked s pid terminated s' ms w again)
  then show ?case unfolding fork_locks_def by (intro ordered inner.TaskExecute)
next
  case (Gather E t retval out s terminated s' ms w again)
  then show ?case unfolding gather_locks_def by (intro ordered inner.TaskStop)
next
  case (Alarm E t s terminated s' ms w again)
  then show ?case unfolding alarm_locks_def restart_locks_def by (intro ordered inner.TaskRestart)
next
  case (Launch E gw gs ins nid name ps sid host user s terminated s' ms imported waits w again)
  then show ?case unfolding launch_locks_def by (intro ordered inner.Start)
next
  case (Scheduled E gw gs ins nid name ps sid host user s terminated s' ms imported w again)
  then show ?case unfolding scheduled_locks_def by (intro ordered inner.Start)
next
  case (Resumed E i row s terminated s' ms w again)
  then show ?case unfolding resume_locks_def by (intro ordered inner.Resume)
qed (auto intro: ordered)


lemma operation_mutexes_calls: "operation_mutexes s s' (concat (List.map call_mutexes (new_calls s s')))"
  unfolding operation_mutexes_def by (intro exI [of _ "[]"]) simp

text \<open>A failed task with a delay and a number of retries is handed to the retrier.\<close>

lemma failed_task_retried:
  assumes job: "in_job (xmldoc s) k p" and quick: "savepoint_level s = 0" "\<not> is_cancelling s" "retval \<noteq> 0"
    and free: "getNamedItem (xmldoc s) k ''retry_schedule'' = None" "getNamedItem (xmldoc s) k ''retry_schedule_level'' = None"
      "getNamedItem (xmldoc s) k ''retry_retval'' = None"
    and retry: "getNamedItem (xmldoc s) k ''retry_delay'' = Some a" "e_parse_int E a = Some d" "d \<noteq> 0"
      "getNamedItem (xmldoc s) k ''retry_times'' = Some n" "e_parse_int E n = Some r" "r \<noteq> 0"
  shows "\<exists>b s'. TaskStop E k retval out s = Some (b, s') \<and> retries (new_calls s s') \<noteq> []"
proof -
  obtain m t0 where t0: "mark_stopped E k retval s = (m, t0)" by fastforce
  let ?t = "output_text k m out t0"
  let ?u = "schedule_retry E k d r ?t"
  let ?v = "?u\<lparr>running_tasks := running_tasks ?u - 1\<rparr>"
  note st = stopped_state [OF t0 job quick(3), where out = out]
  have same: "is_cancelling ?t = is_cancelling s" "savepoint_level ?t = savepoint_level s"
    using t0 by (auto simp: mark_stopped_def output_text_def Let_def case_prod_beta put_def set_doc_def)
  have "retry_task E k ?t = Some ?u"
    using free retry by (simp add: retry_task_def retry_begin_def retry_attributes_def retry_next_level_def retval_excluded_def st(3))
  then have failure: "stop_failure E k m out t0 = Some ?u" using same(1) quick(2) by (simp add: stop_failure_def Let_def)
  have "in_job (xmldoc ?u) k p" "failed_task (xmldoc ?u) k retval"
    using st(1,2) by (auto simp: schedule_retry_def Let_def in_job_def failed_task_def put_def emit_def)
  then have going: "continue_job E k ?u = Some ?u" by (rule continue_job_failed)
  have "savepoint_level ?v = 0" using same(2) quick(1) by (simp add: schedule_retry_def Let_def put_def emit_def)
  then obtain b s' where fin: "finish E ?v = Some (b, s')" using finish_returns by fastforce
  have "TaskStop E k retval out s = Some (b, s')"
    using t0 failure going fin quick(3) by (simp add: TaskStop_def)
  moreover have "retries (new_calls s s') \<noteq> []"
  proof -
    obtain cs where cs: "calls ?t = calls s @ cs"
      using within_trans [OF inner.mark_stopped [OF t0] inner.output_text, of k m out] unfolding within_def by blast
    have "calls ?u = calls ?t @ [Call_Retry k (e_now E + d)]" by (simp add: schedule_retry_def Let_def put_def emit_def)
    moreover obtain ds where "calls s' = calls ?u @ ds" using inner.finish [OF fin] by (auto simp: within_def)
    ultimately have "new_calls s s' = cs @ Call_Retry k (e_now E + d) # ds" using cs by (simp add: new_calls_def)
    then show ?thesis by (simp add: retries_def)
  qed
  ultimately show ?thesis by blast
qed

text \<open>Such a task, and a cancelled instance whose last task is restarted.\<close>

definition failing_instance :: wf_instance where
  "failing_instance = demo_instance\<lparr>running_tasks := 1, xmldoc := document_of
     [node_of ''job'' [] [1] None, node_of ''tasks'' [] [2] (Some 0),
      node_of ''task'' [(''name'', ''t''), (''retry_delay'', ''5''), (''retry_times'', ''1'')] [] (Some 1)]\<rparr>"

lemma failing_stop:
  "\<exists>b s. TaskStop demo_env 2 1 [] failing_instance = Some (b, s) \<and> retries (new_calls failing_instance s) \<noteq> []"
proof (rule failed_task_retried [where p = 1 and a = "''5''" and d = 5 and n = "''1''" and r = 1])
  show "in_job (xmldoc failing_instance) 2 1" by code_simp
  show "e_parse_int demo_env ''5'' = Some 5" "e_parse_int demo_env ''1'' = Some 1" by code_simp+
  show "getNamedItem (xmldoc failing_instance) 2 ''retry_schedule'' = None"
    "getNamedItem (xmldoc failing_instance) 2 ''retry_schedule_level'' = None"
    "getNamedItem (xmldoc failing_instance) 2 ''retry_retval'' = None"
    "getNamedItem (xmldoc failing_instance) 2 ''retry_delay'' = Some ''5''"
    "getNamedItem (xmldoc failing_instance) 2 ''retry_times'' = Some ''1''"
    by code_simp+
qed (simp_all add: failing_instance_def demo_instance_def blank_def)

definition last_retry :: wf_instance where
  "last_retry = Cancel demo_instance\<lparr>retrying_tasks := 1\<rparr>"

lemma last_restart:
  "map_option (\<lambda>(b, s). (b, new_calls last_retry s)) (TaskRestart demo_env 4 last_retry) = Some (True, [Call_IncErrors])"
  by code_simp


section \<open>The flush of the retrier\<close>

lemma alone_each [simp]:
  "\<forall>m \<in> set ms. L m = None \<Longrightarrow> alone recursive_mutex t (each ms @ bs) L = alone recursive_mutex t bs L"
proof (induction ms)
  case (Cons m ms)
  have "(L(m \<mapsto> (t, 1)))(m := None) = L" using Cons.prems by (simp add: fun_upd_idem)
  with Cons show ?case by (simp add: each_def around_def lock_mutex_def unlock_mutex_def)
qed (simp add: each_def)

lemma call_retries: "M_retrier \<in> set (concat (List.map call_mutexes cs)) \<longleftrightarrow> retries cs \<noteq> []"
proof (induction cs)
  case (Cons c cs)
  then show ?case by (cases c) (auto simp: retries_def)
qed (simp add: retries_def)

lemma operation_retries: "operation_mutexes s s' ms \<Longrightarrow> M_retrier \<in> set ms \<longleftrightarrow> retries (new_calls s s') \<noteq> []"
  unfolding operation_mutexes_def using call_retries [of "new_calls s s'"] by (auto dest!: set_shuffles)

lemma TaskRestart_no_retry: "TaskRestart E t s = Some (b, s') \<Longrightarrow> retries (new_calls s s') = []"
proof -
  assume "TaskRestart E t s = Some (b, s')"
  then obtain s1 where "enqueue_task E t s = Some s1" "finish E (s1\<lparr>retrying_tasks := retrying_tasks s1 - 1\<rparr>) = Some (b, s')"
    by (auto simp: TaskRestart_def bind_eq_Some_conv)
  then show ?thesis
    using queues_only_accounts [OF queueing.enqueue] finish_effect_retrying by metis
qed

text \<open>
  C39. The retrier restarts its tasks while its mutex is locked, against that order. So three threads
  can block one another for ever: a cancellation flushes the retries of an instance, which ends with
  the last one and has to leave the registry; a client asks for the status, which locks the registry
  and waits for an instance \<open>w\<close>; and the gatherer, which has locked \<open>w\<close>, hands a failed task of it to
  the retrier.
\<close>

theorem flush_deadlocks:
  assumes "TaskRestart E t s = Some (True, s')" and "operation_mutexes s s' ms"
    and "TaskStop E' u retval out x = Some (b, x')" and "operation_mutexes x x' ns"
    and "retries (new_calls x x') \<noteq> []" and "v \<noteq> w"
  shows "\<exists>ts c. threads_run recursive_mutex ts
      ([flush_instance_locks [restart_locks v ms again True s'], registry_locks [w], gather_locks w ns again' b x'], no_owners) = Some c \<and>
    deadlocked recursive_mutex c"
proof -
  obtain ns1 ns2 where ns: "ns = ns1 @ M_retrier # ns2" "M_retrier \<notin> set ns1"
    using operation_retries [OF assms(4)] assms(5) by (meson split_list_first)
  have leaf: "mutex_rank m = 2" if "m \<in> set ms \<union> set ns" for m
    using that operation_mutexes_rank [OF inner.TaskRestart [OF assms(1)] assms(2)]
      operation_mutexes_rank [OF inner.TaskStop [OF assms(3)] assms(4)] by blast
  have retrier: "M_retrier \<notin> set ms"
    using operation_retries [OF assms(2)] TaskRestart_no_retry [OF assms(1)] by simp
  define flushed where "flushed = drop 1 (delete_locks again True s') @ [Unlock M_retrier, Unlock M_filter]"
  define asked where "asked = [Unlock (M_instance w), Unlock M_registry]"
  define ended where "ended = Unlock M_retrier # each ns2 @ Unlock (M_instance w) # delete_locks again' b x'"
  let ?flush = "flush_instance_locks [restart_locks v ms again True s']"
  let ?gather = "gather_locks w ns again' b x'"
  have flush: "?flush = (Lock M_filter # Lock M_retrier # Lock (M_instance v) # each ms @ [Unlock (M_instance v)]) @ Lock M_registry # flushed"
    by (simp add: flush_instance_locks_def flush_locks_def restart_locks_def operation_locks_def around_def
        flushed_def delete_locks_def WorkflowInstance_delete_def each_def)
  have status: "registry_locks [w] = [Lock M_registry] @ Lock (M_instance w) # asked"
    by (simp add: registry_locks_def around_def each_def asked_def)
  have gather: "?gather = (each [M_pool] @ Lock (M_instance w) # each ns1) @ Lock M_retrier # ended"
    by (simp add: gather_locks_def operation_locks_def around_def each_def ns ended_def)
  let ?L1 = "no_owners(M_instance w \<mapsto> (2, 1))"
  let ?L2 = "?L1(M_registry \<mapsto> (1, 1))"
  let ?L3 = "?L2(M_filter \<mapsto> (0, 1), M_retrier \<mapsto> (0, 1))"
  have "\<forall>m \<in> set ns1. ?L1 m = None" using leaf [of "M_instance w"] by (auto simp: no_owners_def ns mutex_rank_def)
  then have "alone recursive_mutex 2 (each [M_pool] @ Lock (M_instance w) # each ns1) no_owners = Some ?L1"
    using alone_each [of ns1 ?L1 2 "[]"] by (simp add: lock_mutex_def no_owners_def)
  from alone_run [OF this, of "[?flush, registry_locks [w], ?gather]"] gather obtain ts1
    where ts1: "threads_run recursive_mutex ts1 ([?flush, registry_locks [w], ?gather], no_owners) =
      Some ([?flush, registry_locks [w], Lock M_retrier # ended], ?L1)" by auto
  have "alone recursive_mutex 1 [Lock M_registry] ?L1 = Some ?L2" by (simp add: lock_mutex_def no_owners_def)
  from alone_run [OF this, of "[?flush, registry_locks [w], Lock M_retrier # ended]"] status obtain ts2
    where ts2: "threads_run recursive_mutex ts2 ([?flush, registry_locks [w], Lock M_retrier # ended], ?L1) =
      Some ([?flush, Lock (M_instance w) # asked, Lock M_retrier # ended], ?L2)" by auto
  have "\<forall>m \<in> set ms. (?L3(M_instance v \<mapsto> (0, 1))) m = None"
    using leaf [of "M_instance w"] leaf [of "M_instance v"] leaf [of M_registry] leaf [of M_filter] retrier
    by (auto simp: no_owners_def mutex_rank_def)
  then have "alone recursive_mutex 0 (Lock M_filter # Lock M_retrier # Lock (M_instance v) # each ms @ [Unlock (M_instance v)]) ?L2 = Some ?L3"
    using assms(6) by (simp add: lock_mutex_def unlock_mutex_def no_owners_def)
  from alone_run [OF this, of "[?flush, Lock (M_instance w) # asked, Lock M_retrier # ended]"] flush obtain ts3
    where ts3: "threads_run recursive_mutex ts3 ([?flush, Lock (M_instance w) # asked, Lock M_retrier # ended], ?L2) =
      Some ([Lock M_registry # flushed, Lock (M_instance w) # asked, Lock M_retrier # ended], ?L3)" by auto
  have "deadlocked recursive_mutex ([Lock M_registry # flushed, Lock (M_instance w) # asked, Lock M_retrier # ended], ?L3)"
    using assms(6) by (auto simp: deadlocked_def finished_def thread_step_def lock_mutex_def recursive_mutex_def less_Suc_eq)
  with ts1 ts2 ts3 show ?thesis
    by (intro exI [of _ "ts1 @ ts2 @ ts3"] exI) (auto simp: threads_run_append)
qed

theorem flush_deadlocks_witness:
  "\<exists>s x b ms ns ts c. TaskRestart demo_env 4 last_retry = Some (True, s) \<and> TaskStop demo_env 2 1 [] failing_instance = Some (b, x) \<and>
     threads_run recursive_mutex ts ([flush_instance_locks [restart_locks 0 ms False True s],
       registry_locks [1], gather_locks 1 ns False b x], no_owners) = Some c \<and> deadlocked recursive_mutex c"
proof -
  obtain s where s: "TaskRestart demo_env 4 last_retry = Some (True, s)" using last_restart by auto
  obtain b x where x: "TaskStop demo_env 2 1 [] failing_instance = Some (b, x)" "retries (new_calls failing_instance x) \<noteq> []"
    using failing_stop by blast
  have "(0 :: wi_ref) \<noteq> 1" by simp
  from flush_deadlocks [OF s operation_mutexes_calls x(1) operation_mutexes_calls x(2) this] s x(1)
  show ?thesis by blast
qed

end
