(* ===== verification/Exception_Memory.thy ===== *)
theory Exception_Memory
  imports Prelude
begin

text \<open>
  The memory of exceptions (\<open>Exception.cpp\<close>): an object holds two arrays that its constructors
  allocate and its destructor frees. The other theories use the value of an exception; this one shows
  that construction, copying, assignment and destruction implement those values.
\<close>

section \<open>Objects in a heap\<close>

text \<open>The allocated arrays, by address, and the next free address.\<close>

record heap =
  cells :: "nat \<Rightarrow> string option"
  next_free :: nat

record exn_object =
  p_context :: nat
  p_error :: nat

definition no_heap :: heap where
  "no_heap = \<lparr>cells = Map.empty, next_free = 0\<rparr>"

text \<open>\<open>new char[len+1]\<close> and \<open>memcpy\<close> of a C string; \<open>delete[]\<close>, which is undefined for a freed array.\<close>

definition new_string :: "string \<Rightarrow> heap \<Rightarrow> nat \<times> heap" where
  "new_string s h = (next_free h, h\<lparr>cells := (cells h)(next_free h \<mapsto> s), next_free := next_free h + 1\<rparr>)"

definition delete_string :: "nat \<Rightarrow> heap \<Rightarrow> heap option" where
  "delete_string a h = (if cells h a = None then None else Some (h\<lparr>cells := (cells h)(a := None)\<rparr>))"

definition Exception_new :: "string \<Rightarrow> string \<Rightarrow> heap \<Rightarrow> exn_object \<times> heap" where
  "Exception_new context error h =
     (let (a, h) = new_string context h; (b, h) = new_string error h in (\<lparr>p_context = a, p_error = b\<rparr>, h))"

text \<open>Reading a freed array is undefined. The copy constructor and the assignment allocate alike.\<close>

definition Exception_copy :: "exn_object \<Rightarrow> heap \<Rightarrow> (exn_object \<times> heap) option" where
  "Exception_copy e h = Option.bind (cells h (p_context e)) (\<lambda>context.
     let (a, h) = new_string context h
     in map_option (\<lambda>error. let (b, h) = new_string error h in (\<lparr>p_context = a, p_error = b\<rparr>, h)) (cells h (p_error e)))"

definition Exception_delete :: "exn_object \<Rightarrow> heap \<Rightarrow> heap option" where
  "Exception_delete e h = Option.bind (delete_string (p_context e) h) (delete_string (p_error e))"

text \<open>The arrays are freed before the other object is read.\<close>

definition Exception_assign :: "exn_object \<Rightarrow> exn_object \<Rightarrow> heap \<Rightarrow> (exn_object \<times> heap) option" where
  "Exception_assign this e h = Option.bind (Exception_delete this h) (Exception_copy e)"

section \<open>Runs over a table of objects\<close>

type_synonym objects = "(nat \<Rightarrow> exn_object option) \<times> heap"

datatype exn_op =
    Make nat string string
  | Copy nat nat       \<comment> \<open>a new object from another: passing, throwing and catching by value\<close>
  | Assign nat nat
  | Destroy nat

definition object_step :: "exn_op \<Rightarrow> objects \<Rightarrow> objects option" where
  "object_step a s = (case s of (t, h) \<Rightarrow> (case a of
     Make i c e \<Rightarrow> if t i = None then (case Exception_new c e h of (x, h') \<Rightarrow> Some (t(i \<mapsto> x), h')) else None
   | Copy i j \<Rightarrow> if t i = None then Option.bind (t j) (\<lambda>y. map_option (\<lambda>(x, h'). (t(i \<mapsto> x), h')) (Exception_copy y h)) else None
   | Assign i j \<Rightarrow> Option.bind (t i) (\<lambda>x. Option.bind (t j) (\<lambda>y.
       map_option (\<lambda>(x', h'). (t(i \<mapsto> x'), h')) (Exception_assign x y h)))
   | Destroy i \<Rightarrow> Option.bind (t i) (\<lambda>x. map_option (\<lambda>h'. (t(i := None), h')) (Exception_delete x h))))"

fun object_run :: "exn_op list \<Rightarrow> objects \<Rightarrow> objects option" where
  "object_run [] s = Some s"
| "object_run (a # as) s = Option.bind (object_step a s) (object_run as)"

text \<open>The same operations on values; an assignment of an object to itself is refused.\<close>

type_synonym exn_values = "nat \<Rightarrow> exn option"

definition value_step :: "exn_op \<Rightarrow> exn_values \<Rightarrow> exn_values option" where
  "value_step a t = (case a of
     Make i c e \<Rightarrow> if t i = None then Some (t(i \<mapsto> Exception c e)) else None
   | Copy i j \<Rightarrow> if t i = None then map_option (\<lambda>y. t(i \<mapsto> y)) (t j) else None
   | Assign i j \<Rightarrow> if i = j \<or> t i = None then None else map_option (\<lambda>y. t(i \<mapsto> y)) (t j)
   | Destroy i \<Rightarrow> if t i = None then None else Some (t(i := None)))"

fun value_run :: "exn_op list \<Rightarrow> exn_values \<Rightarrow> exn_values option" where
  "value_run [] t = Some t"
| "value_run (a # as) t = Option.bind (value_step a t) (value_run as)"

section \<open>Every object owns its arrays\<close>

definition arrays :: "exn_object \<Rightarrow> nat set" where
  "arrays x = {p_context x, p_error x}"

definition denotes :: "heap \<Rightarrow> exn_object \<Rightarrow> exn \<Rightarrow> bool" where
  "denotes h x e \<longleftrightarrow> p_context x \<noteq> p_error x \<and> cells h (p_context x) = Some (exn_context e) \<and>
     cells h (p_error x) = Some (exn_error e)"

definition owned :: "objects \<Rightarrow> exn_values \<Rightarrow> bool" where
  "owned s t \<longleftrightarrow> (case s of (T, h) \<Rightarrow>
     (\<forall>i. rel_option (denotes h) (T i) (t i)) \<and>
     (\<forall>i j x y. T i = Some x \<and> T j = Some y \<and> i \<noteq> j \<longrightarrow> arrays x \<inter> arrays y = {}) \<and>
     dom (cells h) = (\<Union>x \<in> ran T. arrays x) \<and> (\<forall>a \<in> dom (cells h). a < next_free h))"

lemma owned_denotes: "owned (T, h) t \<Longrightarrow> T i = Some x \<Longrightarrow> \<exists>e. t i = Some e \<and> denotes h x e"
  by (auto simp: owned_def dest!: spec [of _ i] elim: option.rel_cases)

lemma owned_table: "owned (T, h) t \<Longrightarrow> T i = None \<longleftrightarrow> t i = None"
  by (auto simp: owned_def dest!: spec [of _ i] elim: option.rel_cases)

lemma owned_fresh: "owned (T, h) t \<Longrightarrow> T i = Some x \<Longrightarrow> a \<in> arrays x \<Longrightarrow> a < next_free h"
proof -
  assume o: "owned (T, h) t" and "T i = Some x" "a \<in> arrays x"
  then have "a \<in> (\<Union>x \<in> ran T. arrays x)" by (blast intro: ranI)
  with o show ?thesis by (simp add: owned_def)
qed

lemma owned_apart: "owned (T, h) t \<Longrightarrow> T i = Some x \<Longrightarrow> T j = Some y \<Longrightarrow> i \<noteq> j \<Longrightarrow> arrays x \<inter> arrays y = {}"
proof -
  assume "owned (T, h) t" "T i = Some x" "T j = Some y" "i \<noteq> j"
  moreover from this(1) have "\<forall>i j x y. T i = Some x \<and> T j = Some y \<and> i \<noteq> j \<longrightarrow> arrays x \<inter> arrays y = {}"
    unfolding owned_def by simp
  ultimately show ?thesis by metis
qed

lemma ownedI:
  assumes "\<And>i. rel_option (denotes h) (T i) (t i)"
    and "\<And>i j x y. T i = Some x \<Longrightarrow> T j = Some y \<Longrightarrow> i \<noteq> j \<Longrightarrow> arrays x \<inter> arrays y = {}"
    and "dom (cells h) = (\<Union>x \<in> ran T. arrays x)" and "\<And>a. a \<in> dom (cells h) \<Longrightarrow> a < next_free h"
  shows "owned (T, h) t"
  unfolding owned_def using assms by blast

lemma owned_new:
  assumes o: "owned (T, h) t" and i: "T i = None" and new: "Exception_new c e h = (x, h')"
  shows "owned (T(i \<mapsto> x), h') (t(i \<mapsto> Exception c e))"
proof -
  let ?n = "next_free h"
  have x: "p_context x = ?n" "p_error x = ?n + 1" "arrays x = {?n, ?n + 1}"
    and h': "cells h' = (cells h)(?n \<mapsto> c, ?n + 1 \<mapsto> e)" "next_free h' = ?n + 2"
    using new by (auto simp: Exception_new_def new_string_def arrays_def)
  have old: "denotes h' y v" if "T j = Some y" "denotes h y v" for j y v
    using owned_fresh [OF o that(1), of "p_context y"] owned_fresh [OF o that(1), of "p_error y"] that(2)
    by (simp add: denotes_def arrays_def h'(1))
  have "rel_option (denotes h') ((T(i \<mapsto> x)) j) ((t(i \<mapsto> Exception c e)) j)" for j
  proof (cases "j = i")
    case True
    then show ?thesis by (simp add: denotes_def x h' Exception_def)
  next
    case False
    then show ?thesis using owned_denotes [OF o, of j] owned_table [OF o, of j] old [of j] by (cases "T j") auto
  qed
  moreover have "dom (cells h') = (\<Union>y \<in> ran (T(i \<mapsto> x)). arrays y)"
  proof -
    have "dom (cells h') = insert ?n (insert (?n + 1) (dom (cells h)))" by (auto simp: h'(1))
    then show ?thesis using o i by (simp add: owned_def x(3))
  qed
  moreover have "a < next_free h'" if "a \<in> dom (cells h')" for a
  proof -
    have "a = ?n \<or> a = ?n + 1 \<or> a \<in> dom (cells h)" using that by (auto simp: h'(1) split: if_splits)
    moreover have "b < ?n" if "b \<in> dom (cells h)" for b using o that unfolding owned_def by blast
    ultimately show ?thesis by (auto simp: h'(2) intro: less_SucI)
  qed
  moreover have "arrays y \<inter> arrays z = {}" if "(T(i \<mapsto> x)) j = Some y" "(T(i \<mapsto> x)) k = Some z" "j \<noteq> k" for j k y z
  proof -
    have "arrays x \<inter> arrays y = {}" if "T j = Some y" for j y
      using owned_fresh [OF o that] by (fastforce simp: x(3))
    with that owned_apart [OF o, of j y k z] show ?thesis by (auto simp: Int_commute split: if_splits)
  qed
  ultimately show ?thesis by (intro ownedI)
qed

lemma arrays_without:
  assumes o: "owned (T, h) t" and i: "T i = Some x"
  shows "(\<Union>y \<in> ran (T(i := None)). arrays y) = dom (cells h) - arrays x"
proof -
  have others: "arrays y \<inter> arrays x = {}" if y: "y \<in> ran (T(i := None))" for y
  proof -
    from y obtain j where "(T(i := None)) j = Some y" by (auto simp: ran_def)
    then have "T j = Some y" "j \<noteq> i" by (auto split: if_splits)
    then show ?thesis by (rule owned_apart [OF o _ i])
  qed
  have "T = (T(i := None))(i \<mapsto> x)" using i by auto
  then have "ran T = insert x (ran (T(i := None)))" by (metis fun_upd_same ran_map_upd)
  then have "dom (cells h) = arrays x \<union> (\<Union>y \<in> ran (T(i := None)). arrays y)"
    using o by (simp add: owned_def)
  moreover have "(\<Union>y \<in> ran (T(i := None)). arrays y) \<inter> arrays x = {}"
    using others unfolding disjoint_eq_subset_Compl by (intro UN_least)
  ultimately show ?thesis by (simp add: Un_Diff Diff_triv)
qed

lemma owned_delete:
  assumes o: "owned (T, h) t" and i: "T i = Some x"
  shows "\<exists>h'. Exception_delete x h = Some h' \<and> owned (T(i := None), h') (t(i := None))"
proof -
  obtain v where v: "denotes h x v" using owned_denotes [OF o i] by blast
  let ?h = "h\<lparr>cells := (cells h)(p_context x := None, p_error x := None)\<rparr>"
  have freed: "dom (cells ?h) = dom (cells h) - arrays x" by (auto simp: arrays_def)
  have "Exception_delete x h = Some ?h" using v by (simp add: Exception_delete_def delete_string_def denotes_def)
  moreover have "owned (T(i := None), ?h) (t(i := None))"
  proof (rule ownedI)
    show "rel_option (denotes ?h) ((T(i := None)) j) ((t(i := None)) j)" for j
    proof (cases "j = i")
      case False
      have "denotes ?h y w" if "T j = Some y" "denotes h y w" for y w
        using that(2) owned_apart [OF o that(1) i False] by (simp add: denotes_def arrays_def)
      with False show ?thesis using owned_denotes [OF o, of j] owned_table [OF o, of j] by (cases "T j") auto
    qed simp
    show "dom (cells ?h) = (\<Union>y \<in> ran (T(i := None)). arrays y)" unfolding freed arrays_without [OF o i] ..
    show "a < next_free ?h" if "a \<in> dom (cells ?h)" for a
      using o that unfolding freed owned_def by simp
    show "arrays y \<inter> arrays z = {}" if "(T(i := None)) j = Some y" "(T(i := None)) k = Some z" "j \<noteq> k" for j k y z
      using that owned_apart [OF o, of j y k z] by (simp split: if_splits)
  qed
  ultimately show ?thesis by blast
qed

lemma copy_is_new: "denotes h y v \<Longrightarrow> p_error y < next_free h \<Longrightarrow> Exception_copy y h = Some (Exception_new (exn_context v) (exn_error v) h)"
  by (auto simp: denotes_def Exception_copy_def Exception_new_def new_string_def)

lemma owned_copy:
  assumes o: "owned (T, h) t" and "T i = None" and j: "T j = Some y"
  shows "\<exists>x h'. Exception_copy y h = Some (x, h') \<and> owned (T(i \<mapsto> x), h') (t(i := t j))"
proof -
  obtain v where v: "t j = Some v" "denotes h y v" using owned_denotes [OF o j] by blast
  obtain x h' where new: "Exception_new (exn_context v) (exn_error v) h = (x, h')" by fastforce
  have "p_error y < next_free h" using owned_fresh [OF o j] by (simp add: arrays_def)
  moreover have "Exception (exn_context v) (exn_error v) = v" by (simp add: Exception_def)
  ultimately show ?thesis using copy_is_new [OF v(2)] owned_new [OF o assms(2) new] new v(1) by simp
qed

lemma object_step_owned:
  assumes o: "owned s t" and "value_step a t = Some t'"
  shows "\<exists>s'. object_step a s = Some s' \<and> owned s' t'"
proof -
  obtain T h where s: "s = (T, h)" by fastforce
  note table = owned_table [OF o [unfolded s]]
  show ?thesis
  proof (cases a)
    case (Make i c e)
    with assms s show ?thesis by (auto simp: object_step_def value_step_def table split: if_splits prod.splits intro: owned_new)
  next
    case (Copy i j)
    then obtain v where v: "T i = None" "t j = Some v" "t' = t(i := t j)"
      using assms(2) table [of i] by (auto simp: value_step_def split: if_splits)
    then obtain y where y: "T j = Some y" using table [of j] by (cases "T j") auto
    obtain x h' where "Exception_copy y h = Some (x, h')" "owned (T(i \<mapsto> x), h') t'"
      using owned_copy [OF o [unfolded s] v(1) y] v(3) by blast
    with Copy s v(1) y show ?thesis by (simp add: object_step_def)
  next
    case (Assign i j)
    then obtain v where v: "i \<noteq> j" "t i \<noteq> None" "t j = Some v" "t' = t(i := t j)"
      using assms(2) by (auto simp: value_step_def split: if_splits)
    then obtain x y where ij: "i \<noteq> j" "T i = Some x" "T j = Some y" "t' = t(i := t j)"
      using table [of i] table [of j] by (cases "T i"; cases "T j") auto
    obtain h1 where h1: "Exception_delete x h = Some h1" "owned (T(i := None), h1) (t(i := None))"
      using owned_delete [OF o [unfolded s] ij(2)] by blast
    obtain z h2 where "Exception_copy y h1 = Some (z, h2)" "owned (T(i \<mapsto> z), h2) (t(i := t j))"
      using owned_copy [OF h1(2), of i j y] ij by auto
    with h1(1) ij Assign s show ?thesis by (simp add: object_step_def Exception_assign_def)
  next
    case (Destroy i)
    then obtain x where x: "T i = Some x" "t' = t(i := None)"
      using assms(2) table [of i] by (cases "T i") (auto simp: value_step_def split: if_splits)
    then show ?thesis using owned_delete [OF o [unfolded s] x(1)] Destroy s by (auto simp: object_step_def)
  qed
qed

lemma owned_start: "owned (Map.empty, no_heap) Map.empty"
  by (simp add: owned_def no_heap_def)

lemma object_run_owned: "owned s t \<Longrightarrow> value_run as t = Some t' \<Longrightarrow> \<exists>s'. object_run as s = Some s' \<and> owned s' t'"
proof (induction as arbitrary: s t)
  case (Cons a as)
  then obtain t1 where "value_step a t = Some t1" "value_run as t1 = Some t'" by (auto simp: bind_eq_Some_conv)
  with object_step_owned [OF Cons.prems(1)] Cons.IH show ?case by fastforce
qed simp

text \<open>
  C16. Exceptions behave as values: every sequence of constructions, copies, assignments and
  destructions that makes sense on values runs without touching freed memory, and ends with objects
  that hold these values; no array is shared, and the arrays allocated are exactly those of the
  objects that are left, so that nothing leaks.
\<close>

theorem exceptions_are_values:
  assumes "value_run as Map.empty = Some t"
  shows "\<exists>T h. object_run as (Map.empty, no_heap) = Some (T, h) \<and>
    (\<forall>i. (T i = None \<longleftrightarrow> t i = None) \<and> (\<forall>x. T i = Some x \<longrightarrow> denotes h x (the (t i)))) \<and>
    dom (cells h) = (\<Union>x \<in> ran T. arrays x)"
proof -
  obtain T h where run: "object_run as (Map.empty, no_heap) = Some (T, h)" and o: "owned (T, h) t"
    using object_run_owned [OF owned_start assms] by fastforce
  have "dom (cells h) = (\<Union>x \<in> ran T. arrays x)" using o by (simp add: owned_def)
  with run owned_table [OF o] owned_denotes [OF o] show ?thesis by fastforce
qed

theorem exceptions_are_values_witness:
  "\<exists>T h x. object_run [Make 0 ''core'' ''Unable'', Make 1 ''DB'' [], Assign 1 0, Copy 2 1, Destroy 0, Destroy 1]
      (Map.empty, no_heap) = Some (T, h) \<and> T 2 = Some x \<and> denotes h x (Exception ''core'' ''Unable'') \<and> card (dom (cells h)) = 2"
proof -
  have "value_run [Make 0 ''core'' ''Unable'', Make 1 ''DB'' [], Assign 1 0, Copy 2 1, Destroy 0, Destroy 1] Map.empty =
      Some [2 \<mapsto> Exception ''core'' ''Unable'']"
    by (auto simp: value_step_def)
  from exceptions_are_values [OF this] obtain T h where run: "object_run [Make 0 ''core'' ''Unable'', Make 1 ''DB'' [],
      Assign 1 0, Copy 2 1, Destroy 0, Destroy 1] (Map.empty, no_heap) = Some (T, h)"
    and T: "\<And>i. T i = None \<longleftrightarrow> [2 \<mapsto> Exception ''core'' ''Unable''] i = None"
      "\<And>i x. T i = Some x \<Longrightarrow> denotes h x (the ([2 \<mapsto> Exception ''core'' ''Unable''] i))"
    and dom: "dom (cells h) = (\<Union>x \<in> ran T. arrays x)" by blast
  obtain x where x: "T 2 = Some x" using T(1) [of 2] by auto
  have "T = [2 \<mapsto> x]" using T(1) x by (auto simp: fun_eq_iff)
  then have "dom (cells h) = arrays x" using dom by simp
  moreover have d: "denotes h x (Exception ''core'' ''Unable'')" using T(2) [OF x] by simp
  ultimately have "card (dom (cells h)) = 2" by (simp add: arrays_def denotes_def)
  with run x d show ?thesis by blast
qed

text \<open>An assignment of an object to itself reads the arrays it has just freed.\<close>

lemma self_assignment_undefined: "owned (T, h) t \<Longrightarrow> T i = Some x \<Longrightarrow> object_step (Assign i i) (T, h) = None"
proof -
  assume o: "owned (T, h) t" and x: "T i = Some x"
  obtain v where "denotes h x v" using owned_denotes [OF o x] by blast
  then show ?thesis using x
    by (auto simp: object_step_def Exception_assign_def Exception_delete_def delete_string_def Exception_copy_def denotes_def)
qed

end
