(* ===== verification/Roster.thy ===== *)
theory Roster
  imports Workflow_Scheduler Workflow_Instances Statistics
begin

text \<open>
  The instances in memory as the three other components see them: the registry by their identifiers,
  the workflow scheduler by their schedules, the statistics by their number. The roster lists them
  with what is still to be undone by their destructors; each change of it goes with one operation of
  each component.
\<close>

section \<open>The roster\<close>

text \<open>
  \<open>st_registered\<close>: the destructor has not called \<open>Remove\<close> yet; \<open>st_attached\<close>: the instance comes from a
  schedule and the destructor has not called \<open>ScheduledWorkflowInstanceStop\<close> yet.
\<close>

record standing =
  st_id :: u32
  st_schedule :: u32
  st_registered :: bool
  st_attached :: bool

type_synonym roster = "instance_ref \<Rightarrow> standing option"

definition agrees_registry :: "roster \<Rightarrow> instances \<Rightarrow> bool" where
  "agrees_registry R reg \<longleftrightarrow> instances_inv reg \<and> allocated reg = dom R \<and>
     (\<forall>i w. wi reg i = Some w \<longleftrightarrow> (\<exists>x. R w = Some x \<and> st_registered x \<and> st_id x = i))"

text \<open>Instance \<open>i\<close> runs for schedule \<open>j\<close>.\<close>

definition stands_for :: "standing option \<Rightarrow> u32 \<Rightarrow> u32 \<Rightarrow> bool" where
  "stands_for z j i = (case z of None \<Rightarrow> False | Some x \<Rightarrow> st_attached x \<and> st_schedule x = j \<and> st_id x = i)"

definition runs_for :: "roster \<Rightarrow> u32 \<Rightarrow> u32 \<Rightarrow> bool" where
  "runs_for R j i \<longleftrightarrow> (\<exists>w. stands_for (R w) j i)"

definition agrees_schedules :: "(schedule \<Rightarrow> int option) \<Rightarrow> roster \<Rightarrow> wf_scheduler \<Rightarrow> bool" where
  "agrees_schedules nd R s \<longleftrightarrow> wfs_inv nd s \<and>
     (\<forall>j i. entry_of s j \<noteq> None \<longrightarrow> (runs_for R j i \<longleftrightarrow> (\<exists>r. entry_of s j = Some (Some r, i))))"

definition agrees_count :: "roster \<Rightarrow> stats \<Rightarrow> bool" where
  "agrees_count R st \<longleftrightarrow> finite (dom R) \<and> card (dom R) < 2 ^ 32 \<and>
     workflow_instance_executing st = of_nat (card (dom R))"

definition unique_ids :: "roster \<Rightarrow> bool" where
  "unique_ids R \<longleftrightarrow> (\<forall>v w x y. R v = Some x \<longrightarrow> R w = Some y \<longrightarrow> st_id x = st_id y \<longrightarrow> v = w)"

definition new_to :: "roster \<Rightarrow> instance_ref \<Rightarrow> u32 \<Rightarrow> bool" where
  "new_to R w i \<longleftrightarrow> R w = None \<and> (\<forall>v x. R v = Some x \<longrightarrow> st_id x \<noteq> i) \<and> card (dom R) + 1 < 2 ^ 32"

section \<open>Identifiers\<close>

lemma unique_ids_new: "unique_ids R \<Longrightarrow> new_to R w (st_id x) \<Longrightarrow> unique_ids (R(w \<mapsto> x))"
  unfolding unique_ids_def new_to_def by (metis fun_upd_apply option.inject)

lemma unique_ids_change: "unique_ids R \<Longrightarrow> R w = Some x \<Longrightarrow> st_id y = st_id x \<Longrightarrow> unique_ids (R(w \<mapsto> y))"
  unfolding unique_ids_def by (metis fun_upd_apply option.inject)

lemma unique_ids_drop: "unique_ids R \<Longrightarrow> unique_ids (R(w := None))"
  by (simp add: unique_ids_def)

section \<open>The registry\<close>

lemma registry_enter:
  assumes "agrees_registry R reg" and "new_to R w (st_id x)" and "st_registered x"
  shows "agrees_registry (R(w \<mapsto> x)) (instances_Add (st_id x) w (reg\<lparr>allocated := insert w (allocated reg)\<rparr>))"
proof -
  have "w \<notin> allocated reg" "wi reg (st_id x) = None"
    using assms(1,2) by (auto simp: agrees_registry_def new_to_def) (metis option.exhaust)
  then have "instances_inv (instances_Add (st_id x) w (reg\<lparr>allocated := insert w (allocated reg)\<rparr>))"
    using assms(1) by (intro instances_construct_inv) (simp_all add: agrees_registry_def)
  with assms show ?thesis by (auto simp: agrees_registry_def new_to_def instances_Add_def)
qed

lemma registry_remove:
  assumes a: "agrees_registry R reg" and x: "R w = Some x" "st_registered x" and u: "unique_ids R"
  shows "agrees_registry (R(w \<mapsto> x\<lparr>st_registered := False\<rparr>)) (instances_Remove (st_id x) reg)"
proof -
  let ?r = "instances_Remove (st_id x) reg" and ?i = "st_id x"
  have at: "wi reg ?i = Some w" using a x by (auto simp: agrees_registry_def)
  have parts: "wi ?r = (wi reg)(?i := None)" "allocated ?r = allocated reg"
    by (auto simp: instances_Remove_def Let_def split: option.splits)
  have inv: "instances_inv reg" using a by (simp add: agrees_registry_def)
  have "instances_inv (?r\<lparr>allocated := allocated ?r - {w}\<rparr>)"
    using instances_remove_inv [OF inv at] by (simp add: Let_def)
  then have "instances_inv ?r" by (auto simp: instances_inv_def)
  moreover have "wi ?r i = Some v \<longleftrightarrow> (\<exists>y. (R(w \<mapsto> x\<lparr>st_registered := False\<rparr>)) v = Some y \<and> st_registered y \<and> st_id y = i)" for i v
    using a x u unfolding parts agrees_registry_def unique_ids_def by (auto split: if_splits)
  ultimately show ?thesis using a x by (auto simp: agrees_registry_def parts)
qed

lemma registry_free:
  assumes a: "agrees_registry R reg" and x: "R w = Some x" "\<not> st_registered x"
  shows "agrees_registry (R(w := None)) (reg\<lparr>allocated := allocated reg - {w}\<rparr>)"
proof -
  have "w \<notin> ran (wi reg)" using a x by (auto simp: agrees_registry_def ran_def)
  with a x show ?thesis by (auto simp: agrees_registry_def instances_inv_def)
qed

lemma registry_change:
  "agrees_registry R reg \<Longrightarrow> R w = Some x \<Longrightarrow> st_registered y = st_registered x \<Longrightarrow> st_id y = st_id x \<Longrightarrow>
   agrees_registry (R(w \<mapsto> y)) reg"
  by (auto simp: agrees_registry_def)

lemma registry_others:
  "agrees_registry R reg \<Longrightarrow> instances_inv reg' \<Longrightarrow> wi reg' = wi reg \<Longrightarrow> allocated reg' = allocated reg \<Longrightarrow>
   agrees_registry R reg'"
  by (simp add: agrees_registry_def)

section \<open>The statistics\<close>

lemma count_enter:
  assumes "agrees_count R st" and "new_to R w i"
  shows "agrees_count (R(w \<mapsto> x)) (IncWorkflowInstanceExecuting st)"
  using assms by (auto simp: agrees_count_def new_to_def IncWorkflowInstanceExecuting_def domIff)

lemma count_free:
  assumes "agrees_count R st" and "R w = Some x"
  shows "agrees_count (R(w := None)) (DecWorkflowInstanceExecuting st)"
proof -
  let ?n = "card (dom R)"
  have n: "finite (dom R)" "w \<in> dom R" "?n < 2 ^ 32" using assms by (auto simp: agrees_count_def)
  then have "0 < ?n" by (auto simp: card_gt_0_iff)
  then have "workflow_instance_executing (DecWorkflowInstanceExecuting st) = of_nat (?n - 1)"
    using assms(1) n(3) of_nat_u32_pos [of ?n] of_nat_u32_pred [of ?n]
    by (simp add: agrees_count_def DecWorkflowInstanceExecuting_def)
  with n show ?thesis by (simp add: agrees_count_def)
qed

lemma count_change: "agrees_count R st \<Longrightarrow> R w = Some x \<Longrightarrow> agrees_count (R(w \<mapsto> y)) st"
  by (simp add: agrees_count_def insert_absorb domIff)

section \<open>The scheduler\<close>

lemma entry_simps [simp]:
  "entry_of (s\<lparr>w_sched := q\<rparr>) = entry_of s" "entry_of (ws_delete r s) = entry_of s"
  by (simp_all add: fun_eq_iff entry_of_def lookup_wfs_def ws_delete_def)

lemma entry_set_executing:
  assumes inv: "wfs_inv nd s" and lk: "lookup_wfs s j \<noteq> -1"
  shows "entry_of (set_executing (nat (lookup_wfs s j)) i r s) k = (if k = j then Some (r, i) else entry_of s k)"
proof -
  let ?n = "nat (lookup_wfs s j)"
  have len: "?n < length (wfs_executing_instances s)" "?n < length (wfs_wi_ids s)"
    using lookup_wfs_known(1) [OF inv lk] inv by (simp_all add: wfs_inv_def)
  have same: "lookup_wfs (set_executing ?n i r s) = lookup_wfs s" by (simp add: fun_eq_iff lookup_wfs_def set_executing_def)
  show ?thesis
  proof (cases "k = j")
    case True
    with lk len same show ?thesis by (simp add: entry_of_def) (simp add: set_executing_def)
  next
    case False
    then have "lookup_wfs s k \<noteq> -1 \<Longrightarrow> ?n \<noteq> nat (lookup_wfs s k)" using lookup_wfs_inj [OF inv lk, of k] by blast
    with False same show ?thesis by (simp add: entry_of_def) (simp add: set_executing_def)
  qed
qed

lemma entry_known: "entry_of s j \<noteq> None \<longleftrightarrow> lookup_wfs s j \<noteq> -1"
  by (simp add: entry_of_def)

lemma schedules_same:
  "agrees_schedules nd R s \<Longrightarrow> wfs_inv nd s' \<Longrightarrow> entry_of s' = entry_of s \<Longrightarrow> agrees_schedules nd R s'"
  by (simp add: agrees_schedules_def)

lemma schedules_roster: "agrees_schedules nd R s \<Longrightarrow> runs_for R' = runs_for R \<Longrightarrow> agrees_schedules nd R' s"
  by (simp add: agrees_schedules_def)

lemma runs_for_update: "runs_for (R(w := z)) j i \<longleftrightarrow> stands_for z j i \<or> (\<exists>v. v \<noteq> w \<and> stands_for (R v) j i)"
  by (auto simp: runs_for_def split: if_splits)

lemma runs_for_split: "runs_for R j i \<longleftrightarrow> stands_for (R w) j i \<or> (\<exists>v. v \<noteq> w \<and> stands_for (R v) j i)"
  by (auto simp: runs_for_def)

lemma runs_for_same: "(\<And>j i. stands_for z j i = stands_for (R w) j i) \<Longrightarrow> runs_for (R(w := z)) = runs_for R"
  by (auto simp: fun_eq_iff runs_for_update runs_for_split [of R _ _ w])

lemma runs_for_new:
  "R w = None \<Longrightarrow> st_attached x \<Longrightarrow> runs_for (R(w \<mapsto> x)) j i \<longleftrightarrow> runs_for R j i \<or> j = st_schedule x \<and> i = st_id x"
  by (auto simp: runs_for_update runs_for_split [of R _ _ w] stands_for_def)

lemma runs_for_stop:
  assumes "R w = Some x" and "st_attached x" and "unique_ids R"
  shows "runs_for (R(w \<mapsto> x\<lparr>st_attached := False\<rparr>)) j i \<longleftrightarrow> runs_for R j i \<and> \<not> (j = st_schedule x \<and> i = st_id x)"
proof -
  have "v = w" if "stands_for (R v) j (st_id x)" for v
    using assms that by (auto simp: stands_for_def unique_ids_def split: option.splits)
  then show ?thesis using assms(1,2) by (auto simp: runs_for_update runs_for_split [of R _ _ w] stands_for_def)
qed

text \<open>An alarm: the schedule was waiting, so no instance of it executes.\<close>

lemma waiting_not_executing:
  assumes "wfs_inv nd s" and "shift_event now (w_sched s) = (Some e, q)" and "ws_store s (payload e) = Some v"
  shows "entry_of s (ws_id v) \<noteq> Some (Some r, i)"
proof
  assume e: "entry_of s (ws_id v) = Some (Some r, i)"
  let ?s = "s\<lparr>w_sched := q\<rparr>" and ?n = "nat (lookup_wfs s (ws_id v))"
  have inv: "wfs_inv nd ?s" and m: "mset (used_refs s) = add_mset (payload e) (mset (used_refs ?s))"
    using alarm_shift_inv [OF assms(1,2)] by simp_all
  have d: "distinct (List.map (id_of s) (used_refs s))" using assms(1) by (simp add: wfs_inv_def)
  have "id_of s (payload e) \<notin> id_of s ` set (used_refs ?s)" using used_refs_add [OF m, of "id_of s"] d by simp
  then have "ws_id v \<notin># used_ids ?s" using used_ids_set [of ?s "payload e" v] assms(3) by (simp add: id_of_def [abs_def])
  moreover have "lookup_wfs s (ws_id v) \<noteq> -1" using e entry_known [of s "ws_id v"] by simp
  moreover from this have "?n < length (wfs_ids s)" "wfs_ids s ! ?n = ws_id v"
    using lookup_wfs_known [OF assms(1)] by simp_all
  ultimately have "wfs_executing_instances s ! ?n = None" using executing_none [OF inv, of ?n] by simp
  with e show False by (simp add: entry_of_def split: if_splits)
qed

lemma alarm_entries:
  assumes inv: "wfs_inv nd s" and e: "shift_event now (w_sched s) = (Some e, q)" "ws_store s (payload e) = Some v"
    and s': "wfs_alarm now (\<lambda>_. Inr i) s = Some s'"
  shows "entry_of s' k = (if k = ws_id v \<and> entry_of s k \<noteq> None then Some (Some (payload e), i) else entry_of s k)"
proof -
  let ?s = "s\<lparr>w_sched := q\<rparr>" and ?j = "ws_id v"
  have lkq: "lookup_wfs ?s = lookup_wfs s" by (simp add: fun_eq_iff lookup_wfs_def)
  have inv': "wfs_inv nd ?s" using alarm_shift_inv [OF inv e(1)] by simp
  have "Some s' = Some (if lookup_wfs ?s ?j \<noteq> -1 then set_executing (nat (lookup_wfs ?s ?j)) i (Some (payload e)) ?s else ?s)"
    using s' e unfolding wfs_alarm_def wfs_event_alarm_def by (simp add: Let_def)
  then have "s' = (if lookup_wfs s ?j \<noteq> -1 then set_executing (nat (lookup_wfs ?s ?j)) i (Some (payload e)) ?s else ?s)"
    by (simp only: option.inject lkq)
  moreover have "entry_of s ?j \<noteq> None \<longleftrightarrow> lookup_wfs s ?j \<noteq> -1" by (rule entry_known)
  ultimately show ?thesis using entry_set_executing [OF inv', of ?j i "Some (payload e)" k] lkq
    by (cases "lookup_wfs s ?j = -1"; cases "k = ?j") auto
qed

lemma schedules_alarm:
  assumes a: "agrees_schedules nd R s" and e: "shift_event now (w_sched s) = (Some e, q)" "ws_store s (payload e) = Some v"
    and new: "R w = None" and i: "i \<noteq> 0" and s': "wfs_alarm now (\<lambda>_. Inr i) s = Some s'"
    and x: "st_id x = i" "st_schedule x = ws_id v" "st_attached x"
  shows "agrees_schedules nd (R(w \<mapsto> x)) s'"
proof -
  have inv: "wfs_inv nd s" using a by (simp add: agrees_schedules_def)
  have "wfs_inv nd s'" using alarm_result [OF inv e(1), of "\<lambda>_. Inr i"] s' i by auto
  moreover have "runs_for (R(w \<mapsto> x)) k n \<longleftrightarrow> (\<exists>r. entry_of s' k = Some (Some r, n))" if k: "entry_of s' k \<noteq> None" for k n
  proof -
    have known: "entry_of s k \<noteq> None" using k alarm_entries [OF inv e s', of k] by (auto split: if_splits)
    then have old: "runs_for R k n \<longleftrightarrow> (\<exists>r. entry_of s k = Some (Some r, n))" using a unfolding agrees_schedules_def by blast
    have "k = ws_id v \<Longrightarrow> \<not> runs_for R k n" using old waiting_not_executing [OF inv e] by blast
    with known old x show ?thesis
      unfolding alarm_entries [OF inv e s'] runs_for_new [where R = R and w = w and x = x, OF new x(3)] by auto
  qed
  ultimately show ?thesis by (simp add: agrees_schedules_def)
qed

text \<open>An alarm whose instance cannot be made.\<close>

lemma schedules_alarm_failed:
  assumes a: "agrees_schedules nd R s" and e: "shift_event now (w_sched s) = (Some e, q)" "ws_store s (payload e) = Some v"
    and s': "wfs_alarm now (\<lambda>_. Inl f) s = Some s'"
  shows "agrees_schedules nd R s'"
proof (rule schedules_same [OF a])
  have inv: "wfs_inv nd s" using a by (simp add: agrees_schedules_def)
  show "wfs_inv nd s'" using alarm_result [OF inv e(1), of "\<lambda>_. Inl f"] s' by auto
  show "entry_of s' = entry_of s" using s' e by (auto simp: wfs_alarm_def wfs_event_alarm_def)
qed

text \<open>The end of an instance is reported to its schedule.\<close>

lemma stop_entries:
  assumes inv: "wfs_inv nd s" and r: "entry_of s j = Some (Some r, i)" and room: "sched_room (w_sched s)"
  shows "\<exists>d s'. ScheduledWorkflowInstanceStop nd j success s = Some (d, s') \<and> wfs_inv nd s' \<and>
    (\<forall>k. entry_of s' k = (if k = j then Some (None, 0) else entry_of s k))"
proof -
  have lk: "lookup_wfs s j \<noteq> -1" using r entry_known [of s j] by simp
  have "sorted (wfs_ids s)" using inv unfolding wfs_inv_def by blast
  then have "0 \<le> lookup_wfs s j"
    using id_table.lookup_hit [of "wfs_ids s" j] lookup_wfs_iff [OF inv, of j] lk by (auto simp: lookup_wfs_def)
  then obtain n where n: "lookup_wfs s j = int n" using nonneg_int_cases by blast
  have ex: "wfs_executing_instances s ! n = Some r" using r n by (simp add: entry_of_def)
  obtain v :: workflow_schedule and t d s' where s': "ScheduledWorkflowInstanceStop nd j success s = Some (d, s')" "wfs_inv nd s'"
    "if success \<or> ws_onfailure v = Some CONTINUE
     then d = None \<and> mset (used_refs s') = mset (used_refs s) \<and>
       s' = (set_executing n 0 None s)\<lparr>w_sched := snd (InsertEvent \<lparr>scheduled_at = t, payload = r\<rparr> (w_sched s))\<rparr>
     else d = Some j \<and> add_mset r (mset (used_refs s')) = mset (used_refs s) \<and>
       s' = ws_delete r (set_executing n 0 None s)"
    using stop_result [OF inv n ex room, of success] by (elim exE conjE) (rule that)
  have "entry_of s' = entry_of (set_executing n 0 None s)" using s'(3) by (auto split: if_splits)
  then have "\<forall>k. entry_of s' k = (if k = j then Some (None, 0) else entry_of s k)"
    using entry_set_executing [OF inv lk, of 0 None] n by simp
  with s'(1,2) show ?thesis by blast
qed

lemma schedules_stop:
  assumes a: "agrees_schedules nd R s" and x: "R w = Some x" "st_attached x" and u: "unique_ids R"
    and room: "sched_room (w_sched s)"
  shows "\<exists>d s'. ScheduledWorkflowInstanceStop nd (st_schedule x) success s = Some (d, s') \<and>
    agrees_schedules nd (R(w \<mapsto> x\<lparr>st_attached := False\<rparr>)) s'"
proof -
  let ?j = "st_schedule x" and ?R = "R(w \<mapsto> x\<lparr>st_attached := False\<rparr>)"
  have inv: "wfs_inv nd s" using a by (simp add: agrees_schedules_def)
  note stop = runs_for_stop [OF x u]
  show ?thesis
  proof (cases "entry_of s ?j")
    case None
    then have "agrees_schedules nd ?R s" using a unfolding agrees_schedules_def stop by metis
    moreover have "lookup_wfs s ?j = -1" using None entry_known [of s ?j] by simp
    ultimately show ?thesis by (simp add: ScheduledWorkflowInstanceStop_def)
  next
    case (Some z)
    have "runs_for R ?j (st_id x)" using x unfolding runs_for_def stands_for_def by (intro exI [of _ w]) simp
    then obtain r where r: "entry_of s ?j = Some (Some r, st_id x)" using a Some unfolding agrees_schedules_def by auto
    obtain d s' where s': "ScheduledWorkflowInstanceStop nd ?j success s = Some (d, s')" "wfs_inv nd s'"
      "\<forall>k. entry_of s' k = (if k = ?j then Some (None, 0) else entry_of s k)"
      using stop_entries [OF inv r room] by blast
    have "\<not> runs_for ?R ?j n" for n using a r unfolding agrees_schedules_def stop by auto
    then have "agrees_schedules nd ?R s'" using a s'(2,3) unfolding agrees_schedules_def stop by auto
    with s'(1) show ?thesis by blast
  qed
qed

text \<open>
  A reload. It must not bring back a schedule that had vanished while an instance of it runs, nor
  leave out one that runs.
\<close>

definition reload_safe :: "roster \<Rightarrow> wf_scheduler \<Rightarrow> (u32 \<Rightarrow> exn + workflow_schedule) \<Rightarrow> u32 list \<Rightarrow> u32 list \<Rightarrow> bool" where
  "reload_safe R s load ids rows \<longleftrightarrow> (\<forall>j i. runs_for R j i \<longrightarrow> j \<in> set ids \<longrightarrow>
     j \<in> set (wfs_ids s) \<and> j \<in> set rows \<and> (\<exists>v. load j = Inr v))"

text \<open>Only what was running executes after it.\<close>

lemma reload_loop_executing:
  assumes "reload_loop nd load b_ids b_wi b_exec rows s = Some s'" and "\<forall>j \<in> set rows. \<forall>v. load j = Inr v \<longrightarrow> ws_id v = j"
    and "wfs_executing_instances s' ! n \<noteq> wfs_executing_instances s ! n"
  shows "\<exists>j \<in> set rows. was_running b_ids b_exec j \<and> (\<exists>v. load j = Inr v) \<and> lookup_wfs s j \<noteq> -1 \<and> n = nat (lookup_wfs s j)"
  using assms
proof (induction rows arbitrary: s)
  case (Cons j rows)
  show ?case
  proof (cases "load j")
    case (Inl e)
    with Cons show ?thesis by auto
  next
    case (Inr v)
    define s1 where "s1 = snd (ws_new v s)"
    have s1: "lookup_wfs s1 = lookup_wfs s" "wfs_executing_instances s1 = wfs_executing_instances s"
      "ws_store s1 (ws_next s) = Some v"
      by (simp_all add: s1_def ws_new_def lookup_wfs_def fun_eq_iff)
    have "ws_new v s = (ws_next s, s1)" by (simp add: s1_def ws_new_def)
    then obtain s2 where s2: "(if was_running b_ids b_exec j then ScheduleWorkflow nd (Some (ws_next s)) (b_wi ! nat (id_lookup b_ids j)) s1
        else ScheduleWorkflow nd (Some (ws_next s)) 0 s1) = Some s2" "reload_loop nd load b_ids b_wi b_exec rows s2 = Some s'"
      using Cons.prems(1) Inr by (auto simp: Let_def was_running_def split: option.splits if_splits)
    have lk: "lookup_wfs s2 = lookup_wfs s"
      using s2(1) s1 by (auto simp: ScheduleWorkflow_def Let_def lookup_wfs_def set_executing_def fun_eq_iff split: if_splits option.splits)
    show ?thesis
    proof (cases "wfs_executing_instances s2 ! n = wfs_executing_instances s ! n")
      case True
      with Cons.IH [OF s2(2)] Cons.prems(2,3) lk show ?thesis by auto
    next
      case False
      have "ws_id v = j" using Cons.prems(2) Inr by simp
      with False s2(1) s1 Inr show ?thesis
        by (auto simp: ScheduleWorkflow_def Let_def set_executing_def split: if_splits option.splits)
    qed
  qed
qed simp

lemma delete_all_same:
  "wfs_executing_instances (fold ws_delete rs s) = wfs_executing_instances s \<and> wfs_ids (fold ws_delete rs s) = wfs_ids s"
  by (induction rs arbitrary: s) (simp_all add: ws_delete_def)

lemma reload_executing:
  assumes "WorkflowScheduler_Reload nd load ids rows s = Some s'" and "\<forall>j \<in> set rows. \<forall>v. load j = Inr v \<longrightarrow> ws_id v = j"
    and "n < length ids" and "wfs_executing_instances s' ! n = Some r"
  shows "\<exists>j \<in> set rows. was_running (wfs_ids s) (wfs_executing_instances s) j \<and> (\<exists>v. load j = Inr v) \<and>
    id_lookup ids j \<noteq> -1 \<and> n = nat (id_lookup ids j)"
proof -
  obtain eff gone q where q: "Flush flush_filter_default False (w_sched s) = (eff, gone, q)" using prod_cases3 by blast
  define s1 where "s1 = fold ws_delete (List.map payload gone) (s\<lparr>w_sched := q\<rparr>)"
  have s1: "wfs_ids s1 = wfs_ids s" "wfs_executing_instances s1 = wfs_executing_instances s"
    by (simp_all add: s1_def delete_all_same)
  obtain s2 where s2: "reload_loop nd load (wfs_ids s) (wfs_wi_ids s1) (wfs_executing_instances s) rows (wfs_init ids s1) = Some s2"
    "s' = fold ws_delete (executing_refs (wfs_executing_instances s)) s2"
    using assms(1) q by (auto simp: WorkflowScheduler_Reload_def fold_event_flush s1 Let_def simp flip: s1_def split: option.splits)
  have "wfs_executing_instances (wfs_init ids s1) ! n = None" using assms(3) by (simp add: wfs_init_def)
  then have "wfs_executing_instances s2 ! n \<noteq> wfs_executing_instances (wfs_init ids s1) ! n"
    using assms(4) by (simp add: s2(2) delete_all_same)
  from reload_loop_executing [OF s2(1) assms(2) this] show ?thesis
    by (simp add: lookup_wfs_def wfs_init_def)
qed

lemma schedules_reload:
  assumes a: "agrees_schedules nd R s" and load: "load_ok nd load rows" "sorted ids" "distinct ids"
    and safe: "reload_safe R s load ids rows" and reload: "WorkflowScheduler_Reload nd load ids rows s = Some s'"
  shows "agrees_schedules nd R s'"
proof -
  let ?was = "was_running (wfs_ids s) (wfs_executing_instances s)"
  let ?old = "\<lambda>j. wfs_wi_ids s ! nat (id_lookup (wfs_ids s) j)"
  have inv: "wfs_inv nd s" using a by (simp add: agrees_schedules_def)
  have own: "\<forall>j \<in> set rows. \<forall>v. load j = Inr v \<longrightarrow> ws_id v = j" using load(1) unfolding load_ok_def by blast
  have s': "wfs_inv nd s'" "wfs_ids s' = ids"
    and stays: "\<And>j v. j \<in> set rows \<Longrightarrow> ?was j \<Longrightarrow> j \<in> set ids \<Longrightarrow> load j = Inr v \<Longrightarrow> \<exists>r. entry_of s' j = Some (Some r, ?old j)"
    using reload_result [OF inv load] reload by auto
  have old: "entry_of s j = Some (wfs_executing_instances s ! nat (id_lookup (wfs_ids s) j), ?old j)"
    if "id_lookup (wfs_ids s) j \<noteq> -1" for j
    using that by (simp add: entry_of_def lookup_wfs_def)
  have "runs_for R k i \<longleftrightarrow> (\<exists>r. entry_of s' k = Some (Some r, i))" if known: "entry_of s' k \<noteq> None" for k i
  proof
    have lk: "lookup_wfs s' k \<noteq> -1" using known unfolding entry_known .
    then have k: "k \<in> set ids" using lookup_wfs_iff [OF s'(1), of k] s'(2) by simp
    {
      assume runs: "runs_for R k i"
      then obtain v where v: "k \<in> set (wfs_ids s)" "k \<in> set rows" "load k = Inr v"
        using safe k unfolding reload_safe_def by blast
      then have lks: "id_lookup (wfs_ids s) k \<noteq> -1" using lookup_wfs_iff [OF inv, of k] by (simp add: lookup_wfs_def)
      then obtain r where "entry_of s k = Some (Some r, i)" using a runs old [OF lks] unfolding agrees_schedules_def by blast
      then have "wfs_executing_instances s ! nat (id_lookup (wfs_ids s) k) = Some r" "i = ?old k" using old [OF lks] by simp_all
      then have "?was k" "i = ?old k" using lks by (simp_all add: was_running_def)
      with stays [OF v(2) _ k v(3)] show "\<exists>r. entry_of s' k = Some (Some r, i)" by simp
    next
      assume "\<exists>r. entry_of s' k = Some (Some r, i)"
      then obtain r where r: "entry_of s' k = Some (Some r, i)" by blast
      let ?n = "nat (lookup_wfs s' k)"
      have "?n < length ids" using lookup_wfs_known(1) [OF s'(1) lk] s'(2) by simp
      moreover have "wfs_executing_instances s' ! ?n = Some r" using r lk by (simp add: entry_of_def)
      ultimately obtain j v where j: "j \<in> set rows" "?was j" "load j = Inr v" "id_lookup ids j \<noteq> -1" "?n = nat (id_lookup ids j)"
        using reload_executing [OF reload own] by blast
      then have "k = j" using lookup_wfs_inj [OF s'(1) lk, of j] s'(2) by (simp add: lookup_wfs_def)
      with j stays [of k v] k r have "i = ?old k" by auto
      moreover have "id_lookup (wfs_ids s) k \<noteq> -1" "\<exists>x. wfs_executing_instances s ! nat (id_lookup (wfs_ids s) k) = Some x"
        using j(2) \<open>k = j\<close> by (auto simp: was_running_def)
      ultimately have "\<exists>x. entry_of s k = Some (Some x, i)" using old [of k] by auto
      then show "runs_for R k i" using a unfolding agrees_schedules_def by blast
    }
  qed
  with s'(1) show ?thesis by (simp add: agrees_schedules_def)
qed

section \<open>An instance that is not attached\<close>

text \<open>The end of an instance whose schedule has no executing entry follows a null pointer.\<close>

lemma unattached_end_crashes:
  "entry_of s j = Some (None, i) \<Longrightarrow> ScheduledWorkflowInstanceStop nd j success s = None"
  by (auto simp: entry_of_def ScheduledWorkflowInstanceStop_def ScheduleWorkflow_def Let_def split: if_splits)

text \<open>
  C40. A schedule that is deactivated and activated again while an instance of it runs, with a reload
  after each change, is scheduled anew: the scheduler has forgotten the instance. When the instance
  ends before the next date, its end is reported to a null schedule and the program crashes.
\<close>

theorem reactivated_schedule_crashes:
  assumes "wfs_inv nd s" and "load_ok nd load rows" and "load_ok nd load' rows'"
    and "sorted ids" and "distinct ids" and "sorted ids'" and "distinct ids'"
    and "j \<notin> set ids" and "j \<in> set ids'"
  shows "\<exists>s1 s2. WorkflowScheduler_Reload nd load ids rows s = Some s1 \<and>
    WorkflowScheduler_Reload nd load' ids' rows' s1 = Some s2 \<and>
    ScheduledWorkflowInstanceStop nd j success s2 = None"
proof -
  obtain s1 where s1: "WorkflowScheduler_Reload nd load ids rows s = Some s1" "wfs_inv nd s1" "wfs_ids s1 = ids"
    using reload_result [OF assms(1,2,4,5)] by blast
  obtain s2 where s2: "WorkflowScheduler_Reload nd load' ids' rows' s1 = Some s2" "wfs_inv nd s2" "wfs_ids s2 = ids'"
    using reload_result [OF s1(2) assms(3,6,7)] by blast
  have gone: "id_lookup ids j = -1" using lookup_wfs_iff [OF s1(2), of j] s1(3) assms(8) by (simp add: lookup_wfs_def)
  let ?n = "nat (lookup_wfs s2 j)"
  have lk: "lookup_wfs s2 j \<noteq> -1" using lookup_wfs_iff [OF s2(2), of j] s2(3) assms(9) by simp
  have n: "?n < length ids'" using lookup_wfs_known(1) [OF s2(2) lk] s2(3) by simp
  have own: "\<forall>j \<in> set rows'. \<forall>v. load' j = Inr v \<longrightarrow> ws_id v = j" using assms(3) unfolding load_ok_def by blast
  have "wfs_executing_instances s2 ! ?n = None"
  proof (rule ccontr)
    assume "wfs_executing_instances s2 ! ?n \<noteq> None"
    then obtain r where "wfs_executing_instances s2 ! ?n = Some r" by blast
    from reload_executing [OF s2(1) own n this] obtain k where k: "was_running ids (wfs_executing_instances s1) k"
      "id_lookup ids' k \<noteq> -1" "?n = nat (id_lookup ids' k)" using s1(3) by blast
    then have "j = k" using lookup_wfs_inj [OF s2(2) lk, of k] s2(3) by (simp add: lookup_wfs_def)
    with k(1) gone show False by (simp add: was_running_def)
  qed
  then have "\<exists>i. entry_of s2 j = Some (None, i)" using lk by (simp add: entry_of_def)
  with unattached_end_crashes s1(1) s2(1) show ?thesis by blast
qed

theorem reactivated_schedule_crashes_witness:
  "entry_of (demo_running CONTINUE) 7 = Some (Some 0, 41) \<and>
   (\<exists>s1 s2. WorkflowScheduler_Reload (\<lambda>_. Some 100) (\<lambda>i. Inr (demo_ws i CONTINUE)) [] [] (demo_running CONTINUE) = Some s1 \<and>
     WorkflowScheduler_Reload (\<lambda>_. Some 100) (\<lambda>i. Inr (demo_ws i CONTINUE)) [7] [7] s1 = Some s2 \<and>
     ScheduledWorkflowInstanceStop (\<lambda>_. Some 100) 7 True s2 = None)"
proof -
  let ?nd = "\<lambda>_. Some 100" and ?load = "\<lambda>i. Inr (demo_ws i CONTINUE) :: exn + workflow_schedule"
  have good: "good_ws ?nd (demo_ws i CONTINUE)" for i by (simp add: demo_ws_good)
  then have ok: "load_ok ?nd ?load []" "load_ok ?nd ?load [7]" by (simp_all add: load_ok_def demo_ws_def)
  have "entry_of (demo_running CONTINUE) 7 = Some (Some 0, 41)"
    by (simp add: entry_of_def demo_running_lookup) (simp add: demo_running_def)
  with reactivated_schedule_crashes [OF demo_running_inv ok, of "[]" "[7]" 7 CONTINUE True] show ?thesis by simp
qed

end
