(* ===== verification/Whole_System.thy ===== *)
theory Whole_System
  imports Roster Engine_Main_Properties
begin

text \<open>
  The engine with the registry, the statistics and the workflow scheduler around it: how an instance
  is made, lives and is deleted, across all of them, in any interleaving. A thread that makes or
  deletes an instance calls the components one after the other, so between its calls the instance is
  known to some of them only; those phases are part of the state.
\<close>

section \<open>State\<close>

text \<open>
  \<open>sy_born\<close>: the instances whose constructor has returned and that are not started yet; \<open>sy_dying\<close>:
  those that have ended, with the calls their destructors still have to make.
\<close>

record system =
  sy_server :: server
  sy_born :: "wi_ref \<Rightarrow> wf_instance option"
  sy_dying :: "wi_ref \<Rightarrow> (wf_instance \<times> call list) option"

abbreviation sy_engine :: "system \<Rightarrow> engine" where "sy_engine y \<equiv> sv_engine (sy_server y)"
abbreviation sy_registry :: "system \<Rightarrow> instances" where "sy_registry y \<equiv> sv_registry (sy_server y)"
abbreviation sy_schedules :: "system \<Rightarrow> wf_scheduler" where "sy_schedules y \<equiv> sv_schedules (sy_server y)"
abbreviation sy_stats :: "system \<Rightarrow> stats" where "sy_stats y \<equiv> sv_stats (sy_server y)"

abbreviation scheduled_as :: "wf_scheduler \<Rightarrow> system \<Rightarrow> system" where
  "scheduled_as s y \<equiv> y\<lparr>sy_server := (sy_server y)\<lparr>sv_schedules := s\<rparr>\<rparr>"

text \<open>The instances in memory.\<close>

definition present :: "system \<Rightarrow> wi_ref \<Rightarrow> wf_instance option" where
  "present y w = (case sy_born y w of Some s \<Rightarrow> Some s
     | None \<Rightarrow> (case objects (sy_engine y) w of Some s \<Rightarrow> Some s | None \<Rightarrow> map_option fst (sy_dying y w)))"

section \<open>Making and deleting an instance\<close>

text \<open>The constructor's calls; then the first operation is settled in the engine.\<close>

definition enter :: "wi_ref \<Rightarrow> wf_instance \<Rightarrow> system \<Rightarrow> system" where
  "enter w s y = y\<lparr>sy_server := constructed w (workflow_instance_id s) (sy_server y), sy_born := (sy_born y)(w \<mapsto> s)\<rparr>"

text \<open>
  After an operation of \<open>w\<close> that gave \<open>(workflow_terminated, s')\<close>: an ended instance is to be deleted.
\<close>

definition operated :: "wi_ref \<Rightarrow> bool \<times> wf_instance \<Rightarrow> engine \<Rightarrow> system \<Rightarrow> system" where
  "operated w r g y = (case r of (workflow_terminated, s') \<Rightarrow>
     y\<lparr>sy_server := (sy_server y)\<lparr>sv_engine := g\<rparr>,
       sy_dying := (if workflow_terminated then (sy_dying y)(w \<mapsto> (s', WorkflowInstance_delete s')) else sy_dying y)\<rparr>)"

text \<open>One call of the destructor; the memory is freed after the last.\<close>

definition destructor_call :: "(schedule \<Rightarrow> int option) \<Rightarrow> call \<Rightarrow> system \<Rightarrow> system option" where
  "destructor_call nd c y = (let sv = sy_server y in case c of
       Call_Remove i \<Rightarrow> Some (y\<lparr>sy_server := sv\<lparr>sv_registry := instances_Remove i (sv_registry sv)\<rparr>\<rparr>)
     | Call_Schedule_Stop j success \<Rightarrow>
         map_option (\<lambda>(inactive, s). scheduled_as s y) (ScheduledWorkflowInstanceStop nd j success (sy_schedules y))
     | Call_DecExecuting \<Rightarrow> Some (y\<lparr>sy_server := sv\<lparr>sv_stats := DecWorkflowInstanceExecuting (sv_stats sv)\<rparr>\<rparr>)
     | _ \<Rightarrow> None)"

text \<open>A schedule that is told of the end may be inserted again; the number of events is not to overflow.\<close>

definition room_to_stop :: "call \<Rightarrow> system \<Rightarrow> bool" where
  "room_to_stop c y \<longleftrightarrow> (case c of Call_Schedule_Stop j success \<Rightarrow> sched_room (w_sched (sy_schedules y)) | _ \<Rightarrow> True)"

definition called :: "wi_ref \<Rightarrow> wf_instance \<Rightarrow> call list \<Rightarrow> system \<Rightarrow> system" where
  "called w s cs y =
     (if cs = [] then
        y\<lparr>sy_server := (sy_server y)\<lparr>sv_registry := (sy_registry y)\<lparr>allocated := allocated (sy_registry y) - {w}\<rparr>\<rparr>,
          sy_dying := (sy_dying y)(w := None)\<rparr>
      else y\<lparr>sy_dying := (sy_dying y)(w \<mapsto> (s, cs))\<rparr>)"

section \<open>The steps of the engine\<close>

text \<open>
  The operations that can end an instance: \<open>w\<close> goes from \<open>s\<close> to \<open>s'\<close>, and \<open>b\<close> says whether it has ended.
\<close>

inductive engine_turn :: "engine \<Rightarrow> wi_ref \<Rightarrow> wf_instance \<Rightarrow> bool \<Rightarrow> wf_instance \<Rightarrow> engine \<Rightarrow> bool" where
  execute: "forking g = Fork_Registered tid w t \<Longrightarrow> objects g w = Some s \<Longrightarrow> 0 < forked \<or> forked = -1 \<Longrightarrow>
    TaskExecute (seeing g E) t tid forked s = Some (pid, b, s') \<Longrightarrow> fork_execute E forked g = Some g' \<Longrightarrow>
    engine_turn g w s b s' g'"
| stop: "gathering g = Some (w, t, retval, out) \<Longrightarrow> objects g w = Some s \<Longrightarrow>
    TaskStop (seeing g E) t retval out s = Some (b, s') \<Longrightarrow> room_for (new_calls s s') g \<Longrightarrow>
    gather_stop E g = Some g' \<Longrightarrow> engine_turn g w s b s' g'"
| restart: "(w, t) \<in> set (timers g) \<Longrightarrow> objects g w = Some s \<Longrightarrow>
    TaskRestart (seeing g E) t s = Some (b, s') \<Longrightarrow> room_for (new_calls s s') g \<Longrightarrow>
    timer_restart E (w, t) g = Some g' \<Longrightarrow> engine_turn g w s b s' g'"

text \<open>The others: they change what an instance is in, or its marks, and end none.\<close>

inductive engine_quiet :: "engine \<Rightarrow> engine \<Rightarrow> bool" where
  dequeue: "forking g = Fork_Idle \<Longrightarrow> fork_dequeue g = Some g' \<Longrightarrow> engine_quiet g g'"
| register: "free_tid (qp g) \<Longrightarrow> fork_register g = Some g' \<Longrightarrow> engine_quiet g g'"
| receive: "gathering g = None \<Longrightarrow> nat tid \<notin> forker_tids g \<Longrightarrow>
    gather_receive pm (pid, tid, retcode) g = Some (Gather_Next g') \<Longrightarrow> engine_quiet g g'"
| alarm: "engine_quiet g (timer_alarm now g)"
| flush: "engine_quiet g (flush_instance i g)"
| flush_all: "engine_quiet g (flush_retrier g)"
| cancel: "objects g w = Some s \<Longrightarrow> engine_quiet g (g\<lparr>objects := (objects g)(w \<mapsto> Cancel s)\<rparr>)"
| cancel_tasks: "cancel_safe (instance_ids g) i (qp g) \<Longrightarrow> cancel_queued i g = Some g' \<Longrightarrow> engine_quiet g g'"
| savepoint: "objects g w = Some s \<Longrightarrow> RecordSavepoint E s = Some s' \<Longrightarrow>
    engine_quiet g (g\<lparr>objects := (objects g)(w \<mapsto> s')\<rparr>)"
| kill: "objects g w = Some s \<Longrightarrow> engine_quiet g (g\<lparr>objects := (objects g)(w \<mapsto> snd (KillTask pid s))\<rparr>)"
| shutdown: "pm_Shutdown pm g = (pm', g', m) \<Longrightarrow> engine_quiet g g'"

section \<open>The steps of the system\<close>

text \<open>
  A new instance has an identifier no other one in memory has, from the database or the sequence;
  identifiers and those of schedules are not 0.
\<close>

definition can_enter :: "wi_ref \<Rightarrow> wf_instance \<Rightarrow> system \<Rightarrow> bool" where
  "can_enter w s y \<longleftrightarrow> present y w = None \<and> workflow_instance_id s \<noteq> 0 \<and>
     (\<forall>v s'. present y v = Some s' \<longrightarrow> workflow_instance_id s' \<noteq> workflow_instance_id s) \<and>
     card (dom (present y)) + 1 < 2 ^ 32"

text \<open>The instance a schedule makes.\<close>

definition scheduled_instance ::
  "env \<Rightarrow> (string \<Rightarrow> (exn + workflow_def) option) \<Rightarrow> (string \<Rightarrow> (exn + retry_schedule_def) option) \<Rightarrow>
   (exn + u32) \<Rightarrow> u32 \<Rightarrow> workflow_schedule \<Rightarrow> (exn + wf_instance) option" where
  "scheduled_instance E gw gs ins nid v =
     WorkflowInstance_new E gw gs ins nid (ws_name v) (ws_parameters v) (ws_id v) (ws_host v) (ws_user v)"

text \<open>
  What a reload takes for granted: it does not bring back a schedule that had vanished while an
  instance of it runs, nor leave out one that runs (\<open>Roster.reactivated_schedule_crashes\<close>).
\<close>

definition reload_allowed :: "system \<Rightarrow> (u32 \<Rightarrow> exn + workflow_schedule) \<Rightarrow> u32 list \<Rightarrow> u32 list \<Rightarrow> bool" where
  "reload_allowed y load ids rows \<longleftrightarrow> (\<forall>w s. present y w = Some s \<longrightarrow> workflow_schedule_id s \<in> set ids \<longrightarrow>
     workflow_schedule_id s \<in> set (wfs_ids (sy_schedules y)) \<and> workflow_schedule_id s \<in> set rows \<and>
     (\<exists>v. load (workflow_schedule_id s) = Inr v))"

inductive system_step :: "(schedule \<Rightarrow> int option) \<Rightarrow> system \<Rightarrow> system \<Rightarrow> bool" for nd where
  launch: "WorkflowInstance_new E gw gs ins nid name ps 0 host user = Some (Inr s) \<Longrightarrow> can_enter w s y \<Longrightarrow>
    system_step nd y (enter w s y)"
| alarm: "shift_event now (w_sched (sy_schedules y)) = (Some e, q) \<Longrightarrow> ws_store (sy_schedules y) (payload e) = Some v \<Longrightarrow>
    scheduled_instance E gw gs ins nid v = Some (Inr s) \<Longrightarrow> can_enter w s y \<Longrightarrow> ws_id v \<noteq> 0 \<Longrightarrow>
    wfs_alarm now (\<lambda>_. Inr (workflow_instance_id s)) (sy_schedules y) = Some sch \<Longrightarrow>
    system_step nd y (enter w s (scheduled_as sch y))"
| alarm_failed: "shift_event now (w_sched (sy_schedules y)) = (Some e, q) \<Longrightarrow> ws_store (sy_schedules y) (payload e) = Some v \<Longrightarrow>
    scheduled_instance E gw gs ins nid v = Some (Inl f) \<Longrightarrow>
    wfs_alarm now (\<lambda>_. Inl f) (sy_schedules y) = Some sch \<Longrightarrow> system_step nd y (scheduled_as sch y)"
| first_run: "sy_born y w = Some s \<Longrightarrow> Start (seeing (sy_engine y) E) s = Some (b, s') \<Longrightarrow>
    claims_free (qp (sy_engine y)) (new_calls s s') \<Longrightarrow> room_for (new_calls s s') (sy_engine y) \<Longrightarrow>
    settle w s (b, s') (sy_engine y) = Some g \<Longrightarrow>
    system_step nd y (operated w (b, s') g (y\<lparr>sy_born := (sy_born y)(w := None)\<rparr>))"
| turn: "engine_turn (sy_engine y) w s b s' g \<Longrightarrow> system_step nd y (operated w (b, s') g y)"
| quiet: "engine_quiet (sy_engine y) g \<Longrightarrow> system_step nd y (y\<lparr>sy_server := (sy_server y)\<lparr>sv_engine := g\<rparr>\<rparr>)"
| early: "sy_born y w = Some s \<Longrightarrow> s' = Cancel s \<or> s' = snd (KillTask pid s) \<or> RecordSavepoint E s = Some s' \<Longrightarrow>
    system_step nd y (y\<lparr>sy_born := (sy_born y)(w \<mapsto> s')\<rparr>)"
| destruct: "sy_dying y w = Some (s, c # cs) \<Longrightarrow> room_to_stop c y \<Longrightarrow>
    destructor_call nd c y = Some y' \<Longrightarrow> system_step nd y (called w s cs y')"
| reload: "load_ok nd load rows \<Longrightarrow> sorted ids \<Longrightarrow> distinct ids \<Longrightarrow> reload_allowed y load ids rows \<Longrightarrow>
    WorkflowScheduler_Reload nd load ids rows (sy_schedules y) = Some sch \<Longrightarrow>
    system_step nd y (scheduled_as sch y)"
| wait: "\<not> sleeping t (sy_registry y) \<Longrightarrow>
    system_step nd y (y\<lparr>sy_server := (sy_server y)\<lparr>sv_registry := snd (instances_Wait t i (sy_registry y))\<rparr>\<rparr>)"
| wake: "(t, c) \<in> set (sleepers (sy_registry y)) \<Longrightarrow>
    system_step nd y (y\<lparr>sy_server := (sy_server y)\<lparr>sv_registry :=
      (sy_registry y)\<lparr>sleepers := List.filter (\<lambda>x. x \<noteq> (t, c)) (sleepers (sy_registry y))\<rparr>\<rparr>\<rparr>)"
| count: "f \<in> {IncAcceptedConnections, IncInputErrors, IncWorkflowQueries, IncWorkflowStatusQueries,
      IncWorkflowCancelQueries, IncStatisticsQueries, IncWorkflowExceptions, IncWorkflowInstanceErrors} \<Longrightarrow>
    system_step nd y (y\<lparr>sy_server := (sy_server y)\<lparr>sv_stats := f (sy_stats y)\<rparr>\<rparr>)"

text \<open>The system starts with the engine (\<open>start_engine\<close>), the instances of a previous one resumed.\<close>

definition system_start :: "core \<Rightarrow> system" where
  "system_start c = \<lparr>sy_server = core_server c, sy_born = Map.empty, sy_dying = Map.empty\<rparr>"

text \<open>
  The answers of the database and the system at such a start. Schedules and instances come from primary
  keys, and the executing instance that the database has for an active schedule is the one that was
  resumed for it.
\<close>

definition rows_match :: "u32 list \<Rightarrow> (u32 \<times> u32) list \<Rightarrow> (wi_ref \<Rightarrow> wf_instance option) \<Rightarrow> bool" where
  "rows_match ids rows objs \<longleftrightarrow> (\<forall>j \<in> set ids. \<forall>i. i \<noteq> 0 \<and> (j, i) \<in> set rows \<longleftrightarrow>
     (\<exists>w s. objs w = Some s \<and> workflow_instance_id s = i \<and> workflow_schedule_id s = j))"

definition sound_boot :: "boot \<Rightarrow> core \<Rightarrow> u32 list \<Rightarrow> u32 list \<Rightarrow> (u32 \<times> u32) list \<Rightarrow> core \<Rightarrow> bool" where
  "sound_boot B c0 is ids rows c \<longleftrightarrow> core_new B = Some (Inr c0) \<and>
     db_executing B = Inr is \<and> distinct is \<and> 0 \<notin> set is \<and> length is < 2 ^ 32 \<and> resume_fits B is c0 \<and>
     db_schedules B = Inr ids \<and> sorted ids \<and> distinct ids \<and> 0 \<notin> set ids \<and>
     db_active B = Inr rows \<and> set (List.map fst rows) \<subseteq> set ids \<and> distinct (List.map fst rows) \<and> length rows + 1 < 2 ^ 32 \<and>
     rows_match ids rows (objects (sv_engine (core_server c))) \<and>
     (\<forall>i w. db_schedule B i = Inr w \<longrightarrow> ws_id w = i \<and> good_ws (boot_date B) w) \<and>
     (\<forall>j i. (j, i) \<in> set rows \<longrightarrow> i \<noteq> 0 \<longrightarrow> loadable (db_schedule B) j) \<and>
     sorted (List.map fst (db_queues B)) \<and> (\<exists>n. os_pid_max B = Some n \<and> n + 1 < 2 ^ 32)"

inductive system_reachable :: "(schedule \<Rightarrow> int option) \<Rightarrow> system \<Rightarrow> bool" for nd where
  start: "start_engine B cfg = Some (Inr c) \<Longrightarrow> sound_boot B c0 is ids rows c \<Longrightarrow> boot_date B = nd \<Longrightarrow>
    system_reachable nd (system_start c)"
| step: "system_reachable nd y \<Longrightarrow> system_step nd y y' \<Longrightarrow> system_reachable nd y'"

end
