(* ===== verification/Whole_System_Properties.thy ===== *)
theory Whole_System_Properties
  imports Whole_System
begin

text \<open>
  In every state of the system the registry, the statistics and the workflow scheduler agree with the
  instances in memory, so that the end of an instance finds its schedule.
\<close>

section \<open>The steps of the engine\<close>

lemma turn_parts:
  assumes "engine_turn g w s b s' g'"
  shows "engine_step g g'" and "objects g w = Some s" and "objects g' = (objects g)(w := if b then None else Some s')"
    and "same_ids s s'"
proof -
  show "engine_step g g'" using assms
    by cases (blast intro: engine_step.execute engine_step.stop engine_step.restart)+
  show "objects g w = Some s" using assms by cases
  show "objects g' = (objects g)(w := if b then None else Some s')" using assms
    by cases (auto simp: fork_execute_def gather_stop_def timer_restart_def bind_eq_Some_conv elim!: settle_parts)
  show "same_ids s s'" using assms by cases (blast intro: identity.operations)+
qed

lemma quiet_parts:
  assumes "engine_quiet g g'"
  shows "engine_step g g'" and "rel_option same_ids (objects g v) (objects g' v)"
proof -
  show "engine_step g g'" using assms
    by cases (blast intro: engine_step.intros)+
  have refl: "rel_option same_ids x x" for x by (cases x) simp_all
  show "rel_option same_ids (objects g v) (objects g' v)" using assms
  proof cases
    case (savepoint w s E s')
    then have "same_ids s s'" by (auto simp: RecordSavepoint_def intro: identity.record_savepoint)
    with savepoint refl show ?thesis by simp
  next
    case (kill w s pid)
    with identity.KillTask refl show ?thesis by simp
  next
    case (cancel w s)
    then show ?thesis by (auto simp: refl same_ids_def Cancel_def)
  qed (auto simp: refl fork_dequeue_def fork_register_def gather_receive_def timer_alarm_def flush_instance_def flush_retrier_def
      cancel_queued_def pm_Shutdown_def Let_def split: option.splits forking.splits if_splits prod.splits)
qed

section \<open>The roster of the system\<close>

definition standing_of :: "wf_instance \<Rightarrow> call list \<Rightarrow> standing" where
  "standing_of s cs = \<lparr>st_id = workflow_instance_id s, st_schedule = workflow_schedule_id s,
     st_registered = (Call_Remove (workflow_instance_id s) \<in> set cs),
     st_attached = (\<exists>b. Call_Schedule_Stop (workflow_schedule_id s) b \<in> set cs)\<rparr>"

definition roster :: "system \<Rightarrow> roster" where
  "roster y w = (case sy_dying y w of
       Some (s, cs) \<Rightarrow> Some (standing_of s cs)
     | None \<Rightarrow> map_option (\<lambda>s. standing_of s (WorkflowInstance_delete s)) (present y w))"

lemma standing_alive:
  "standing_of s (WorkflowInstance_delete s) = \<lparr>st_id = workflow_instance_id s, st_schedule = workflow_schedule_id s,
     st_registered = True, st_attached = (workflow_schedule_id s \<noteq> 0)\<rparr>"
  by (simp add: standing_of_def WorkflowInstance_delete_def)

lemma standing_same: "same_ids s s' \<Longrightarrow> standing_of s' (WorkflowInstance_delete s') = standing_of s (WorkflowInstance_delete s)"
  by (simp add: standing_alive same_ids_def)

definition apart :: "system \<Rightarrow> bool" where
  "apart y \<longleftrightarrow> (\<forall>w. (sy_born y w \<noteq> None \<longrightarrow> objects (sy_engine y) w = None \<and> sy_dying y w = None) \<and>
     (objects (sy_engine y) w \<noteq> None \<longrightarrow> sy_dying y w = None))"

definition dying_ok :: "wf_instance \<Rightarrow> call list \<Rightarrow> bool" where
  "dying_ok s cs \<longleftrightarrow> cs \<noteq> [] \<and> (\<exists>ds. WorkflowInstance_delete s = ds @ cs)"

definition system_inv :: "(schedule \<Rightarrow> int option) \<Rightarrow> system \<Rightarrow> bool" where
  "system_inv nd y \<longleftrightarrow> engine_inv (sy_engine y) \<and> apart y \<and> (\<forall>w s. sy_born y w = Some s \<longrightarrow> unstarted s) \<and>
     (\<forall>w s cs. sy_dying y w = Some (s, cs) \<longrightarrow> dying_ok s cs) \<and> unique_ids (roster y) \<and>
     agrees_registry (roster y) (sy_registry y) \<and> agrees_schedules nd (roster y) (sy_schedules y) \<and>
     agrees_count (roster y) (sy_stats y)"

lemma roster_present: "roster y w = None \<longleftrightarrow> present y w = None"
  by (auto simp: roster_def present_def split: option.splits)

lemma roster_ids:
  "apart y \<Longrightarrow> present y w = Some s \<Longrightarrow>
   \<exists>x. roster y w = Some x \<and> st_id x = workflow_instance_id s \<and> st_schedule x = workflow_schedule_id s"
  unfolding apart_def
  by (drule spec [of _ w]) (auto simp: roster_def present_def standing_of_def split: option.splits)

lemma absent_phases:
  "present y w = None \<Longrightarrow> sy_born y w = None \<and> objects (sy_engine y) w = None \<and> sy_dying y w = None"
  by (auto simp: present_def split: option.splits)

lemma roster_enter:
  assumes "present y w = None"
  shows "roster (enter w s y) = (roster y)(w \<mapsto> standing_of s (WorkflowInstance_delete s))"
proof
  fix v
  show "roster (enter w s y) v = ((roster y)(w \<mapsto> standing_of s (WorkflowInstance_delete s))) v"
    using absent_phases [OF assms] by (cases "v = w") (simp_all add: roster_def present_def enter_def constructed_def Let_def split: option.split)
qed

lemma roster_same:
  assumes "sy_dying y' = sy_dying y" and "sy_born y' = sy_born y"
    and "\<And>v. rel_option same_ids (objects (sy_engine y) v) (objects (sy_engine y') v)"
  shows "roster y' = roster y"
proof
  fix v
  show "roster y' v = roster y v"
    using assms(3) [of v]
    by (cases "objects (sy_engine y) v"; cases "objects (sy_engine y') v")
      (auto simp: roster_def present_def assms(1,2) standing_same split: option.splits)
qed

text \<open>An instance goes on to its next phase.\<close>

lemma roster_operated:
  assumes "sy_dying y w = None" and "same_ids s s'" and "(sy_born y)(w := None) = (sy_born z)"
    and "present y w = Some s" and "sy_dying z = sy_dying y"
    and "\<And>v. v \<noteq> w \<Longrightarrow> objects (sy_engine z) v = objects (sy_engine y) v" 
    and "objects g = (objects (sy_engine y))(w := if b then None else Some s')"
  shows "roster (operated w (b, s') g z) = roster y"
proof
  fix v
  have "roster y w = Some (standing_of s (WorkflowInstance_delete s))" using assms(1,4) by (simp add: roster_def)
  moreover have "sy_born z w = None" using assms(3) by (metis fun_upd_same)
  moreover have "v \<noteq> w \<Longrightarrow> sy_born z v = sy_born y v" using assms(3) by (metis fun_upd_other)
  ultimately show "roster (operated w (b, s') g z) v = roster y v"
    using assms standing_same [OF assms(2)]
    by (cases "v = w") (auto simp: roster_def present_def operated_def split: option.splits)
qed

lemma roster_called:
  assumes "sy_born y w = None" and "objects (sy_engine y) w = None"
  shows "roster (called w s cs y) = (roster y)(w := if cs = [] then None else Some (standing_of s cs))"
proof
  fix v
  show "roster (called w s cs y) v = ((roster y)(w := if cs = [] then None else Some (standing_of s cs))) v"
    using assms by (cases "v = w") (simp_all add: roster_def present_def called_def split: option.splits)
qed

section \<open>The invariant\<close>

lemma inv_parts:
  assumes "system_inv nd y"
  shows "engine_inv (sy_engine y)" and "apart y" and "unique_ids (roster y)" and "agrees_registry (roster y) (sy_registry y)"
    and "agrees_schedules nd (roster y) (sy_schedules y)" and "agrees_count (roster y) (sy_stats y)"
  using assms by (simp_all add: system_inv_def)

text \<open>A change outside the instances.\<close>

lemma inv_around:
  assumes inv: "system_inv nd y" and same: "sy_dying y' = sy_dying y" "sy_born y' = sy_born y"
    and objects: "\<And>v. rel_option same_ids (objects (sy_engine y) v) (objects (sy_engine y') v)"
    and engine: "engine_inv (sy_engine y')" and registry: "agrees_registry (roster y) (sy_registry y')"
    and schedules: "agrees_schedules nd (roster y) (sy_schedules y')"
    and count: "workflow_instance_executing (sy_stats y') = workflow_instance_executing (sy_stats y)"
  shows "system_inv nd y'"
proof -
  have roster: "roster y' = roster y" using same objects by (rule roster_same)
  have "objects (sy_engine y') v = None \<longleftrightarrow> objects (sy_engine y) v = None" for v
    using objects [of v] by (auto elim: option.rel_cases)
  then have "apart y'" using inv_parts(2) [OF inv] unfolding apart_def same by simp
  with inv engine registry schedules count show ?thesis
    unfolding system_inv_def roster same by (simp add: agrees_count_def)
qed

lemma same_objects: "rel_option same_ids x x"
  by (cases x) simp_all

text \<open>A new instance.\<close>

lemma new_instance_schedule:
  "WorkflowInstance_new E gw gs ins nid name ps sid host user = Some (Inr s) \<Longrightarrow> workflow_schedule_id s = sid"
proof -
  have saved: "record_savepoint E False t = Some u \<Longrightarrow> workflow_schedule_id u = workflow_schedule_id t" for t u
    using identity.record_savepoint by (simp add: same_ids_def)
  have register: "workflow_schedule_id s' = workflow_schedule_id s" if "register_instance E ins nid h ps s = Some (Inr s')" for h ps s s'
    using that unfolding register_instance_def
    by (cases "2 \<le> savepoint_level s"; cases ins) (auto simp: bind_eq_Some_conv emit_def dest!: saved)
  show "WorkflowInstance_new E gw gs ins nid name ps sid host user = Some (Inr s) \<Longrightarrow> workflow_schedule_id s = sid"
    unfolding WorkflowInstance_new_def
    by (auto simp: bind_eq_Some_conv Let_def caught_Inr dest!: register split: if_split_asm)
qed

lemma enter_inv:
  assumes inv: "system_inv nd y" and new: "can_enter w s y" and fresh: "unstarted s"
    and schedules: "agrees_schedules nd ((roster y)(w \<mapsto> standing_of s (WorkflowInstance_delete s))) sch"
  shows "system_inv nd (enter w s (scheduled_as sch y))"
proof -
  let ?x = "standing_of s (WorkflowInstance_delete s)" and ?y = "enter w s (scheduled_as sch y)"
  note parts = inv_parts [OF inv]
  have absent: "present y w = None" using new by (simp add: can_enter_def)
  have same: "present (scheduled_as sch y) = present y" "roster (scheduled_as sch y) = roster y"
    by (auto simp: fun_eq_iff roster_def present_def split: option.splits)
  have roster: "roster ?y = (roster y)(w \<mapsto> ?x)" using roster_enter [of "scheduled_as sch y" w s] absent same by simp
  have "w \<in> dom (roster y) \<longleftrightarrow> w \<in> dom (present y)" for w by (simp add: domIff roster_present)
  then have "dom (roster y) = dom (present y)" by blast
  then have new_to: "new_to (roster y) w (st_id ?x)"
    using new roster_present [of y w] roster_ids [OF parts(2)] roster_present
    unfolding new_to_def can_enter_def by (auto simp: standing_of_def) (metis not_None_eq option.inject)
  have "unique_ids (roster ?y)" unfolding roster by (rule unique_ids_new [OF parts(3) new_to])
  moreover have "agrees_registry (roster ?y) (sy_registry ?y)"
    using registry_enter [OF parts(4) new_to] unfolding roster by (simp add: enter_def constructed_def Let_def standing_alive)
  moreover have "agrees_count (roster ?y) (sy_stats ?y)"
    using count_enter [OF parts(6) new_to, of ?x] unfolding roster by (simp add: enter_def constructed_def Let_def)
  moreover have "apart ?y" using parts(2) absent_phases [OF absent] by (simp add: apart_def enter_def constructed_def Let_def)
  ultimately show ?thesis
    using inv fresh schedules roster by (auto simp: system_inv_def enter_def constructed_def Let_def)
qed

text \<open>An operation of an instance.\<close>

lemma operated_inv:
  assumes inv: "system_inv nd y" and at: "present y w = Some s" "sy_dying y w = None" and ids: "same_ids s s'"
    and g: "engine_inv g" "objects g = (objects (sy_engine y))(w := if b then None else Some s')"
  shows "system_inv nd (operated w (b, s') g (y\<lparr>sy_born := (sy_born y)(w := None)\<rparr>))"
proof -
  let ?y = "operated w (b, s') g (y\<lparr>sy_born := (sy_born y)(w := None)\<rparr>)"
  note parts = inv_parts [OF inv]
  have roster: "roster ?y = roster y" by (rule roster_operated) (use at ids g(2) in simp_all)
  have "apart ?y" using parts(2) at(2) unfolding apart_def by (simp add: operated_def g(2))
  moreover have "dying_ok v cs" if "sy_dying ?y u = Some (v, cs)" for u v cs
    using that inv by (auto simp: operated_def system_inv_def dying_ok_def split: if_splits) (simp add: WorkflowInstance_delete_def)
  moreover have "unstarted v" if "sy_born ?y u = Some v" for u v
    using that inv by (auto simp: operated_def system_inv_def split: if_splits)
  moreover have "sy_registry ?y = sy_registry y" "sy_schedules ?y = sy_schedules y" "sy_stats ?y = sy_stats y" "sy_engine ?y = g"
    by (simp_all add: operated_def)
  ultimately show ?thesis using parts g(1) unfolding system_inv_def roster by simp
qed

lemma turn_inv:
  assumes inv: "system_inv nd y" and turn: "engine_turn (sy_engine y) w s b s' g"
  shows "system_inv nd (operated w (b, s') g y)"
proof -
  note t = turn_parts [OF turn]
  have phases: "sy_born y w = None" "sy_dying y w = None"
    using inv_parts(2) [OF inv] t(2) unfolding apart_def by (metis option.distinct(1))+
  then have "present y w = Some s" using t(2) by (simp add: present_def)
  moreover have "engine_inv g" using engine_step_inv [OF t(1)] inv_parts(1) [OF inv] by simp
  moreover have "y\<lparr>sy_born := (sy_born y)(w := None)\<rparr> = y" using phases(1) by (cases y) (simp add: fun_upd_idem)
  ultimately show ?thesis using operated_inv [OF inv _ phases(2) t(4) _ t(3)] by simp
qed

lemma first_run_inv:
  assumes inv: "system_inv nd y" and s: "sy_born y w = Some s" and start: "Start (seeing (sy_engine y) E) s = Some (b, s')"
    and room: "claims_free (qp (sy_engine y)) (new_calls s s')" "room_for (new_calls s s') (sy_engine y)"
    and settled: "settle w s (b, s') (sy_engine y) = Some g"
  shows "system_inv nd (operated w (b, s') g (y\<lparr>sy_born := (sy_born y)(w := None)\<rparr>))"
proof (rule operated_inv [OF inv])
  have phases: "objects (sy_engine y) w = None" "sy_dying y w = None"
    using inv_parts(2) [OF inv] s unfolding apart_def by auto
  have "unstarted s" using inv s by (simp add: system_inv_def)
  from engine_step_inv [OF engine_step.launch [OF phases(1) this start room settled]] inv_parts(1) [OF inv]
  show "engine_inv g" by simp
  show "present y w = Some s" "sy_dying y w = None" using s phases by (simp_all add: present_def)
  show "same_ids s s'" by (rule identity.Start [OF start])
  show "objects g = (objects (sy_engine y))(w := if b then None else Some s')"
    using settled by (auto elim: settle_parts)
qed

text \<open>A call of an instance that is not started yet.\<close>

lemma early_inv:
  assumes inv: "system_inv nd y" and s: "sy_born y w = Some s" and ids: "same_ids s s'" and fresh: "unstarted s'"
  shows "system_inv nd (y\<lparr>sy_born := (sy_born y)(w \<mapsto> s')\<rparr>)"
proof -
  let ?y = "y\<lparr>sy_born := (sy_born y)(w \<mapsto> s')\<rparr>"
  have "roster ?y = roster y"
    using s standing_same [OF ids] by (auto simp: fun_eq_iff roster_def present_def split: option.splits)
  moreover have "apart ?y" using inv_parts(2) [OF inv] s by (simp add: apart_def)
  moreover have "\<forall>v t. sy_born ?y v = Some t \<longrightarrow> unstarted t" using inv fresh by (simp add: system_inv_def)
  ultimately show ?thesis using inv unfolding system_inv_def by simp
qed

text \<open>The calls of a destructor, in their order.\<close>

lemma dying_cases:
  assumes "dying_ok s (c # cs)"
  obtains (remove) "c = Call_Remove (workflow_instance_id s)" and "st_registered (standing_of s (c # cs))"
      and "standing_of s cs = (standing_of s (c # cs))\<lparr>st_registered := False\<rparr>" and "dying_ok s cs"
    | (stop) success where "c = Call_Schedule_Stop (workflow_schedule_id s) success" and "st_attached (standing_of s (c # cs))"
      and "standing_of s cs = (standing_of s (c # cs))\<lparr>st_attached := False\<rparr>" and "dying_ok s cs"
    | (decrement) "c = Call_DecExecuting" and "cs = []" and "\<not> st_registered (standing_of s (c # cs))"
      and "\<not> st_attached (standing_of s (c # cs))"
proof -
  obtain ds where ds: "WorkflowInstance_delete s = ds @ c # cs" using assms by (auto simp: dying_ok_def)
  let ?i = "workflow_instance_id s" and ?j = "workflow_schedule_id s" and ?ok = "error_tasks s = 0"
  have rest: "dying_ok s cs" if "cs \<noteq> []" unfolding dying_ok_def using ds that by (intro conjI exI [of _ "ds @ [c]"]) simp_all
  have "c = Call_Remove ?i \<and> cs = (if ?j \<noteq> 0 then [Call_Schedule_Stop ?j ?ok] else []) @ [Call_DecExecuting] \<or>
      c = Call_Schedule_Stop ?j ?ok \<and> cs = [Call_DecExecuting] \<or> c = Call_DecExecuting \<and> cs = []"
    using ds by (auto simp: WorkflowInstance_delete_def Cons_eq_append_conv split: if_splits)
  then show thesis
    using rest by (elim disjE) (rule remove stop decrement; force simp: standing_of_def)+
qed

lemma called_parts:
  "sy_schedules (called w s cs y) = sy_schedules y" "sy_engine (called w s cs y) = sy_engine y"
  "sy_stats (called w s cs y) = sy_stats y" "sy_born (called w s cs y) = sy_born y"
  "sy_dying (called w s cs y) = (sy_dying y)(w := if cs = [] then None else Some (s, cs))"
  "sy_registry (called w s cs y) = (if cs = [] then (sy_registry y)\<lparr>allocated := allocated (sy_registry y) - {w}\<rparr> else sy_registry y)"
  by (simp_all add: called_def)

lemma destructor_call_parts:
  assumes "destructor_call nd c y = Some y'"
  shows "sy_engine y' = sy_engine y" and "sy_born y' = sy_born y" and "sy_dying y' = sy_dying y" and "roster y' = roster y"
proof -
  show "sy_engine y' = sy_engine y" "sy_born y' = sy_born y" "sy_dying y' = sy_dying y"
    using assms by (auto simp: destructor_call_def Let_def split: call.splits)
  then show "roster y' = roster y" by (intro roster_same) (simp_all add: same_objects)
qed

text \<open>The next call of a destructor is defined, and the components agree after it.\<close>

lemma destruct_agrees:
  assumes inv: "system_inv nd y" and at: "sy_dying y w = Some (s, c # cs)" and room: "room_to_stop c y"
  shows "\<exists>y'. destructor_call nd c y = Some y' \<and>
    unique_ids (roster (called w s cs y')) \<and> agrees_registry (roster (called w s cs y')) (sy_registry (called w s cs y')) \<and>
    agrees_schedules nd (roster (called w s cs y')) (sy_schedules (called w s cs y')) \<and>
    agrees_count (roster (called w s cs y')) (sy_stats (called w s cs y')) \<and> (cs \<noteq> [] \<longrightarrow> dying_ok s cs)"
proof -
  note parts = inv_parts [OF inv]
  let ?x = "standing_of s (c # cs)"
  have x: "roster y w = Some ?x" using at by (simp add: roster_def)
  have ids: "st_id ?x = workflow_instance_id s" "st_schedule ?x = workflow_schedule_id s" by (simp_all add: standing_of_def)
  have phases: "sy_born y w = None" "objects (sy_engine y) w = None"
    using parts(2) at unfolding apart_def by (metis option.distinct(1))+
  have roster: "roster (called w s cs y') = (roster y)(w := if cs = [] then None else Some (standing_of s cs))"
    if "destructor_call nd c y = Some y'" for y'
    using roster_called [of y' w s cs] destructor_call_parts [OF that] phases by simp
  have "dying_ok s (c # cs)" using inv at by (simp add: system_inv_def)
  then show ?thesis
  proof (cases rule: dying_cases)
    case remove
    then have cs: "cs \<noteq> []" by (simp add: dying_ok_def)
    let ?y = "y\<lparr>sy_server := (sy_server y)\<lparr>sv_registry := instances_Remove (workflow_instance_id s) (sy_registry y)\<rparr>\<rparr>"
    have call: "destructor_call nd c y = Some ?y" using remove(1) by (simp add: destructor_call_def Let_def)
    have "agrees_registry ((roster y)(w \<mapsto> ?x\<lparr>st_registered := False\<rparr>)) (instances_Remove (workflow_instance_id s) (sy_registry y))"
      using registry_remove [OF parts(4) x remove(2) parts(3)] ids by simp
    moreover have "agrees_schedules nd ((roster y)(w \<mapsto> ?x\<lparr>st_registered := False\<rparr>)) (sy_schedules y)"
      by (rule schedules_roster [OF parts(5)]) (rule runs_for_same, simp add: x stands_for_def)
    ultimately show ?thesis
      using call cs remove(3,4) unique_ids_change [OF parts(3) x] count_change [OF parts(6) x]
      by (simp add: roster [OF call] called_parts)
  next
    case (stop success)
    then have cs: "cs \<noteq> []" by (simp add: dying_ok_def)
    have "sched_room (w_sched (sy_schedules y))" using room stop(1) by (simp add: room_to_stop_def)
    then obtain d sch where sch: "ScheduledWorkflowInstanceStop nd (workflow_schedule_id s) success (sy_schedules y) = Some (d, sch)"
      "agrees_schedules nd ((roster y)(w \<mapsto> ?x\<lparr>st_attached := False\<rparr>)) sch"
      using schedules_stop [OF parts(5) x stop(2) parts(3) _, of success] ids by auto
    let ?y = "scheduled_as sch y"
    have call: "destructor_call nd c y = Some ?y" using stop(1) sch(1) by (simp add: destructor_call_def Let_def)
    have "agrees_registry ((roster y)(w \<mapsto> ?x\<lparr>st_attached := False\<rparr>)) (sy_registry y)"
      by (rule registry_change [OF parts(4) x]) simp_all
    then show ?thesis
      using call cs sch(2) stop(3,4) unique_ids_change [OF parts(3) x] count_change [OF parts(6) x]
      by (simp add: roster [OF call] called_parts)
  next
    case decrement
    let ?y = "y\<lparr>sy_server := (sy_server y)\<lparr>sv_stats := DecWorkflowInstanceExecuting (sy_stats y)\<rparr>\<rparr>"
    have call: "destructor_call nd c y = Some ?y" using decrement(1) by (simp add: destructor_call_def Let_def)
    have "agrees_registry ((roster y)(w := None)) ((sy_registry y)\<lparr>allocated := allocated (sy_registry y) - {w}\<rparr>)"
      by (rule registry_free [OF parts(4) x decrement(3)])
    moreover have "agrees_schedules nd ((roster y)(w := None)) (sy_schedules y)"
      by (rule schedules_roster [OF parts(5)]) (rule runs_for_same, use decrement(4) in \<open>simp add: x stands_for_def\<close>)
    moreover have "roster (called w s [] ?y) = (roster y)(w := None)" using roster [OF call] decrement(2) by simp
    ultimately show ?thesis
      using call decrement(2) unique_ids_drop [OF parts(3)] count_free [OF parts(6) x]
      by (simp add: called_parts)
  qed
qed

lemma destruct_inv:
  assumes inv: "system_inv nd y" and at: "sy_dying y w = Some (s, c # cs)" and room: "room_to_stop c y"
    and call: "destructor_call nd c y = Some y'"
  shows "system_inv nd (called w s cs y')"
proof -
  note same = destructor_call_parts [OF call]
  have "apart (called w s cs y')"
    using inv_parts(2) [OF inv] at unfolding apart_def called_parts same(1-3) by (auto split: if_splits)
  with destruct_agrees [OF inv at room] call inv show ?thesis
    unfolding system_inv_def called_parts(2,4,5) same(1-3) by (auto split: if_splits)
qed

section \<open>Every step keeps it\<close>

lemma alarm_schedules:
  assumes inv: "system_inv nd y" and e: "shift_event now (w_sched (sy_schedules y)) = (Some e, q)"
    "ws_store (sy_schedules y) (payload e) = Some v"
    and made: "scheduled_instance E gw gs ins nid v = Some (Inr s)" and new: "can_enter w s y" and v: "ws_id v \<noteq> 0"
    and sch: "wfs_alarm now (\<lambda>_. Inr (workflow_instance_id s)) (sy_schedules y) = Some sch"
  shows "agrees_schedules nd ((roster y)(w \<mapsto> standing_of s (WorkflowInstance_delete s))) sch"
proof (rule schedules_alarm [OF inv_parts(5) [OF inv] e _ _ sch])
  have "workflow_schedule_id s = ws_id v" using new_instance_schedule made by (simp add: scheduled_instance_def)
  then show "st_schedule (standing_of s (WorkflowInstance_delete s)) = ws_id v" "st_attached (standing_of s (WorkflowInstance_delete s))"
    using v by (simp_all add: standing_alive)
qed (use new in \<open>simp_all add: can_enter_def roster_present standing_alive\<close>)

lemma reload_schedules:
  assumes inv: "system_inv nd y" and load: "load_ok nd load rows" "sorted ids" "distinct ids" and ok: "reload_allowed y load ids rows"
    and sch: "WorkflowScheduler_Reload nd load ids rows (sy_schedules y) = Some sch"
  shows "agrees_schedules nd (roster y) sch"
proof (rule schedules_reload [OF inv_parts(5) [OF inv] load _ sch])
  have "\<exists>s. present y w = Some s \<and> workflow_schedule_id s = st_schedule x" if x: "roster y w = Some x" for w x
  proof -
    obtain s where "present y w = Some s" using roster_present [of y w] x by fastforce
    with roster_ids [OF inv_parts(2) [OF inv] this] x show ?thesis by auto
  qed
  with ok show "reload_safe (roster y) (sy_schedules y) load ids rows"
    unfolding reload_safe_def reload_allowed_def runs_for_def stands_for_def by (fastforce split: option.splits)
qed

lemma system_step_inv:
  assumes "system_step nd y y'" and inv: "system_inv nd y"
  shows "system_inv nd y'"
  using assms(1)
proof cases
  case (launch E gw gs ins nid name ps host user s w)
  have "workflow_schedule_id s = 0" by (rule new_instance_schedule [OF launch(2)])
  then have "agrees_schedules nd ((roster y)(w \<mapsto> standing_of s (WorkflowInstance_delete s))) (sy_schedules y)"
    using launch(3) roster_present [of y w]
    by (intro schedules_roster [OF inv_parts(5) [OF inv]] runs_for_same) (simp add: stands_for_def standing_alive can_enter_def)
  from enter_inv [OF inv launch(3) constructors_fresh(1) [OF launch(2)] this] launch(1) show ?thesis by simp
next
  case (alarm now e q v E gw gs ins nid s w sch)
  from enter_inv [OF inv alarm(5) _ alarm_schedules [OF inv alarm(2-7)]] constructors_fresh(1) alarm(1,4)
  show ?thesis unfolding scheduled_instance_def by blast
next
  case (alarm_failed now e q v E gw gs ins nid f sch)
  from schedules_alarm_failed [OF inv_parts(5) [OF inv] alarm_failed(2,3,5)] show ?thesis
    by (intro inv_around [OF inv]) (use alarm_failed(1) inv_parts [OF inv] in \<open>simp_all add: same_objects\<close>)
next
  case (first_run w s E b s' g)
  with first_run_inv [OF inv] show ?thesis by blast
next
  case (turn w s b s' g)
  with turn_inv [OF inv] show ?thesis by blast
next
  case (quiet g)
  from engine_step_inv [OF quiet_parts(1) [OF quiet(2)]] inv_parts(1) [OF inv] have "engine_inv g" by simp
  then show ?thesis
    by (intro inv_around [OF inv]) (use quiet(1) quiet_parts(2) [OF quiet(2)] inv_parts [OF inv] in simp_all)
next
  case (early w s s' pid E)
  have same: "same_ids s s'"
    using early(3) identity.KillTask identity.record_savepoint by (auto simp: RecordSavepoint_def same_ids_def Cancel_def)
  have "unstarted s" using inv early(2) by (simp add: system_inv_def)
  then have "unstarted s'"
    using early(3) silent_unstarted [OF KillTask_silent] silent_unstarted [OF record_savepoint_silent]
    by (auto simp: RecordSavepoint_def unstarted_def Cancel_def)
  then show ?thesis using early_inv [OF inv early(2) same] early(1) by simp
next
  case (destruct w s c cs y')
  with destruct_inv [OF inv] show ?thesis by blast
next
  case (reload load rows ids sch)
  from reload_schedules [OF inv reload(2-6)] show ?thesis
    by (intro inv_around [OF inv]) (use reload(1) inv_parts [OF inv] in \<open>simp_all add: same_objects\<close>)
next
  case (wait t i)
  have "instances_inv (sy_registry y)" using inv_parts(4) [OF inv] by (simp add: agrees_registry_def)
  then have "agrees_registry (roster y) (snd (instances_Wait t i (sy_registry y)))"
    by (intro registry_others [OF inv_parts(4) [OF inv]] instances_wait_inv) (simp_all add: instances_Wait_def split: option.splits)
  then show ?thesis
    by (intro inv_around [OF inv]) (use wait(1) inv_parts [OF inv] in \<open>simp_all add: same_objects\<close>)
next
  case (wake t c)
  let ?r = "(sy_registry y)\<lparr>sleepers := List.filter (\<lambda>x. x \<noteq> (t, c)) (sleepers (sy_registry y))\<rparr>"
  have "instances_inv (sy_registry y)" using inv_parts(4) [OF inv] by (simp add: agrees_registry_def)
  then have "instances_inv ?r" by (auto simp: instances_inv_def)
  then have "agrees_registry (roster y) ?r" by (intro registry_others [OF inv_parts(4) [OF inv]]) simp_all
  then show ?thesis
    by (intro inv_around [OF inv]) (use wake(1) inv_parts [OF inv] in \<open>simp_all add: same_objects\<close>)
next
  case (count f)
  have "workflow_instance_executing (f (sy_stats y)) = workflow_instance_executing (sy_stats y)"
    using count(2) by (auto simp: IncAcceptedConnections_def IncInputErrors_def IncWorkflowQueries_def
        IncWorkflowStatusQueries_def IncWorkflowCancelQueries_def IncStatisticsQueries_def IncWorkflowExceptions_def
        IncWorkflowInstanceErrors_def)
  then show ?thesis
    by (intro inv_around [OF inv]) (use count(1) inv_parts [OF inv] in \<open>simp_all add: same_objects\<close>)
qed

end
