(* ===== verification/System_Start.thy ===== *)
theory System_Start
  imports Whole_System_Properties
begin

text \<open>
  The system that the start of the program leaves, the instances of a previous engine resumed and
  attached to their schedules, satisfies the invariant.
\<close>

section \<open>The resumed instances\<close>

definition core_roster :: "core \<Rightarrow> roster" where
  "core_roster c w = map_option (\<lambda>s. standing_of s (WorkflowInstance_delete s)) (objects (sv_engine (core_server c)) w)"

definition core_ok :: "core \<Rightarrow> bool" where
  "core_ok c \<longleftrightarrow> unique_ids (core_roster c) \<and> agrees_registry (core_roster c) (sv_registry (core_server c)) \<and>
     agrees_count (core_roster c) (sv_stats (core_server c))"

lemma core_roster_registered: "core_roster c w = Some x \<Longrightarrow> st_registered x"
  by (auto simp: core_roster_def standing_alive)

lemma core_ok_registry:
  assumes "core_ok c"
  shows "registry_ok (core_server c)"
proof -
  have "wi (sv_registry (core_server c)) i = Some w \<longleftrightarrow> (\<exists>x. core_roster c w = Some x \<and> st_registered x \<and> st_id x = i)" for i w
    using assms by (simp add: core_ok_def agrees_registry_def)
  then show ?thesis by (auto simp: registry_ok_def core_roster_def standing_alive)
qed

lemma delete_server:
  "destruct nd w (WorkflowInstance_delete s) sv = Some sv' \<Longrightarrow>
   \<exists>sch. sv' = (destroyed w (workflow_instance_id s) sv)
     \<lparr>sv_schedules := sch, sv_stats := DecWorkflowInstanceExecuting (sv_stats sv)\<rparr>"
  by (auto simp: WorkflowInstance_delete_def bind_eq_Some_conv destroyed_def split: if_splits)
    (metis server.surjective server.update_convs(3))

lemma resumed_server:
  assumes "resumed B s c = Some c'"
  obtains b s' g sch where "Resume (seeing (sv_engine (core_server c)) (boot_env B)) s = Some (b, s')"
    and "objects g = (objects (sv_engine (core_server c)))(boot_ref B (workflow_instance_id s) := if b then None else Some s')"
    and "core_server c' = (let w = boot_ref B (workflow_instance_id s);
        sv = (constructed w (workflow_instance_id s) (core_server c))\<lparr>sv_engine := g\<rparr>
      in if b then (destroyed w (workflow_instance_id s') sv)
           \<lparr>sv_schedules := sch, sv_stats := DecWorkflowInstanceExecuting (sv_stats sv)\<rparr> else sv)"
proof -
  let ?w = "boot_ref B (workflow_instance_id s)"
  let ?sv = "constructed ?w (workflow_instance_id s) (core_server c)"
  have same: "sv_engine ?sv = sv_engine (core_server c)" by (simp add: constructed_def Let_def)
  obtain b s' g where r: "Resume (seeing (sv_engine (core_server c)) (boot_env B)) s = Some (b, s')"
    "settle ?w s (b, s') (sv_engine (core_server c)) = Some g"
    and c': "delete_ended (boot_date B) ?w (b, s') (?sv\<lparr>sv_engine := g\<rparr>) = Some (core_server c')"
    using assms by (auto simp: resumed_def Let_def bind_eq_Some_conv same)
  have objs: "objects g = (objects (sv_engine (core_server c)))(?w := if b then None else Some s')"
    using r(2) by (auto simp: settle_def)
  show thesis
  proof (cases b)
    case True
    with c' delete_server [of "boot_date B" ?w s' "?sv\<lparr>sv_engine := g\<rparr>" "core_server c'"] obtain sch where
      "core_server c' = (destroyed ?w (workflow_instance_id s') (?sv\<lparr>sv_engine := g\<rparr>))
        \<lparr>sv_schedules := sch, sv_stats := DecWorkflowInstanceExecuting (sv_stats (?sv\<lparr>sv_engine := g\<rparr>))\<rparr>"
      by (auto simp: delete_ended_def)
    with True show thesis by (intro that [OF r(1) objs, of sch]) (simp add: Let_def)
  next
    case False
    with c' show thesis by (intro that [OF r(1) objs, of undefined]) (simp add: delete_ended_def)
  qed
qed

lemma resumed_core_ok:
  assumes ok: "core_ok c" and s: "resumed B s c = Some c'" and absent: "objects (sv_engine (core_server c)) (boot_ref B i) = None"
    and i: "workflow_instance_id s = i" and new: "\<And>v x. core_roster c v = Some x \<Longrightarrow> st_id x \<noteq> i"
    and room: "card (dom (core_roster c)) + 1 < 2 ^ 32"
  shows "core_ok c' \<and> card (dom (core_roster c')) \<le> card (dom (core_roster c)) + 1 \<and>
    (\<forall>v x. core_roster c' v = Some x \<longrightarrow> (\<exists>y. core_roster c v = Some y \<and> st_id y = st_id x) \<or> st_id x = i)"
proof -
  let ?w = "boot_ref B i" and ?R = "core_roster c"
  let ?x = "standing_of s (WorkflowInstance_delete s)" and ?reg = "sv_registry (core_server c)"
  obtain b s' g sch where r: "Resume (seeing (sv_engine (core_server c)) (boot_env B)) s = Some (b, s')"
    "objects g = (objects (sv_engine (core_server c)))(?w := if b then None else Some s')"
    and c': "core_server c' = (let w = ?w; sv = (constructed w i (core_server c))\<lparr>sv_engine := g\<rparr>
      in if b then (destroyed w (workflow_instance_id s') sv)
           \<lparr>sv_schedules := sch, sv_stats := DecWorkflowInstanceExecuting (sv_stats sv)\<rparr> else sv)"
    by (rule resumed_server [OF s, unfolded i]) (rule that)
  have same: "same_ids s s'" by (rule identity.Resume [OF r(1)])
  have id': "workflow_instance_id s' = i" using same i by (simp add: same_ids_def)
  have w: "?R ?w = None" using absent by (simp add: core_roster_def)
  have new_to: "new_to ?R ?w (st_id ?x)" using w new room i by (auto simp: new_to_def standing_alive)
  have entered: "unique_ids (?R(?w \<mapsto> ?x))" "agrees_count (?R(?w \<mapsto> ?x)) (IncWorkflowInstanceExecuting (sv_stats (core_server c)))"
    "agrees_registry (?R(?w \<mapsto> ?x)) (instances_Add i ?w (?reg\<lparr>allocated := insert ?w (allocated ?reg)\<rparr>))"
    using ok unique_ids_new [OF _ new_to] count_enter [OF _ new_to, of _ ?x] registry_enter [OF _ new_to] i
    by (simp_all add: core_ok_def standing_alive)
  show ?thesis
  proof (cases b)
    case False
    have R: "core_roster c' = ?R(?w \<mapsto> ?x)"
      using r(2) c' False standing_same [OF same] by (auto simp: fun_eq_iff core_roster_def constructed_def Let_def)
    have "finite (dom ?R)" using ok by (simp add: core_ok_def agrees_count_def)
    then have "card (dom (core_roster c')) \<le> card (dom ?R) + 1" unfolding R by (simp add: card_insert_if)
    moreover have "core_ok c'" using entered c' False by (simp add: core_ok_def R constructed_def Let_def)
    ultimately show ?thesis using i by (auto simp: R standing_alive)
  next
    case True
    have R: "core_roster c' = ?R"
      using r(2) c' True w by (auto simp: fun_eq_iff core_roster_def constructed_def Let_def destroyed_def)
    let ?R1 = "?R(?w \<mapsto> ?x\<lparr>st_registered := False\<rparr>)"
    have "?x\<lparr>st_registered := True\<rparr> = ?x" by (simp add: standing_alive)
    have "agrees_registry ?R1 (instances_Remove i (instances_Add i ?w (?reg\<lparr>allocated := insert ?w (allocated ?reg)\<rparr>)))"
      using registry_remove [OF entered(3) _ _ entered(1), of ?w ?x] i by (simp add: standing_alive)
    from registry_free [OF this, of ?w "?x\<lparr>st_registered := False\<rparr>"] count_free [OF entered(2), of ?w ?x] w
    have "agrees_registry ?R (sv_registry (core_server c'))" "agrees_count ?R (sv_stats (core_server c'))"
      using c' True id' by (simp_all add: constructed_def Let_def destroyed_def fun_upd_idem)
    then show ?thesis using ok unfolding core_ok_def R by auto
  qed
qed

lemma resume_one_core_ok:
  assumes ok: "core_ok c" and fit: "resume_fit B i c" and one: "resume_one B i c = Some c'"
    and new: "\<And>v x. core_roster c v = Some x \<Longrightarrow> st_id x \<noteq> i" and room: "card (dom (core_roster c)) + 1 < 2 ^ 32"
  shows "core_ok c' \<and> card (dom (core_roster c')) \<le> card (dom (core_roster c)) + 1 \<and>
    (\<forall>v x. core_roster c' v = Some x \<longrightarrow> (\<exists>y. core_roster c v = Some y \<and> st_id y = st_id x) \<or> st_id x = i)"
  using one
proof (cases rule: resume_one_cases)
  case 1
  with ok show ?thesis by auto
next
  case (2 row s)
  have "objects (sv_engine (core_server c)) (boot_ref B i) = None" using fit by (simp add: resume_fit_def Let_def)
  from resumed_core_ok [OF ok 2(3) this resume_row_id [OF 2(2)] new room] show ?thesis .
qed

lemma resume_all_core_ok:
  assumes "core_ok c" and "distinct is" and "resume_fits B is c" and "resume_all B is c = Some c'"
    and "\<forall>v x. core_roster c v = Some x \<longrightarrow> st_id x \<notin> set is" and "card (dom (core_roster c)) + length is < 2 ^ 32"
  shows "core_ok c'"
  using assms
proof (induction "is" arbitrary: c)
  case (Cons i "is")
  obtain c1 where c1: "resume_one B i c = Some c1" "resume_all B is c1 = Some c'"
    using Cons.prems(4) by (auto simp: bind_eq_Some_conv)
  have one: "core_ok c1 \<and> card (dom (core_roster c1)) \<le> card (dom (core_roster c)) + 1 \<and>
      (\<forall>v x. core_roster c1 v = Some x \<longrightarrow> (\<exists>y. core_roster c v = Some y \<and> st_id y = st_id x) \<or> st_id x = i)"
    by (rule resume_one_core_ok [OF Cons.prems(1) _ c1(1)]) (use Cons.prems(3,5,6) in auto)
  have "\<forall>v x. core_roster c1 v = Some x \<longrightarrow> st_id x \<notin> set is"
    using one Cons.prems(2,5) by fastforce
  with one Cons.IH [of c1] Cons.prems(2,3,6) c1 show ?case by simp
qed simp

section \<open>The schedules\<close>

lemma entry_scheduled:
  assumes inv: "wfs_inv nd s" and w: "good_ws nd w" and s': "ScheduleWorkflow nd (Some (fst (ws_new w s))) j (snd (ws_new w s)) = Some s'"
    and known: "j \<noteq> 0 \<longrightarrow> ws_id w \<in> set (wfs_ids s)"
  shows "entry_of s' k = (if k = ws_id w \<and> j \<noteq> 0 then Some (Some (fst (ws_new w s)), j) else entry_of s k)"
proof -
  let ?s = "snd (ws_new w s)"
  have e: "entry_of ?s = entry_of s" "wfs_ids ?s = wfs_ids s" by (simp_all add: ws_new_def entry_of_def lookup_wfs_def fun_eq_iff)
  have new: "wfs_inv nd ?s" "ws_store ?s (fst (ws_new w s)) = Some w"
    using ws_new_inv [OF inv w] ws_new_stored by blast+
  show ?thesis
  proof (cases "j = 0")
    case True
    then show ?thesis using s' new(2) e
      by (auto simp: ScheduleWorkflow_def entry_of_def lookup_wfs_def fun_eq_iff ws_new_def split: option.splits)
  next
    case False
    then have "lookup_wfs ?s (ws_id w) \<noteq> -1" using known lookup_wfs_iff [OF new(1)] e(2) by simp
    with entry_set_executing [OF new(1) this, of j "Some (fst (ws_new w s))" k] s' new(2) False e(1) show ?thesis
      by (auto simp: ScheduleWorkflow_def Let_def)
  qed
qed

lemma load_entries:
  assumes "wfs_inv nd s" and "distinct (List.map fst rows)" and "set (List.map fst rows) \<subseteq> set (wfs_ids s)"
    and "\<forall>i w. load i = Inr w \<longrightarrow> ws_id w = i \<and> good_ws nd w"
    and "\<forall>i \<in> set (List.map fst rows). i \<notin># used_ids s"
    and "length (first_event (w_sched s)) + length rows + 1 < 2 ^ 32" and "load_schedules nd load rows s = Some s'"
  shows "(\<exists>r. entry_of s' k = Some (Some r, i)) \<longleftrightarrow>
    (if \<exists>i. i \<noteq> 0 \<and> (k, i) \<in> set rows \<and> loadable load k then i \<noteq> 0 \<and> (k, i) \<in> set rows
     else \<exists>r. entry_of s k = Some (Some r, i))"
  using assms
proof (induction rows arbitrary: s)
  case (Cons x rows)
  obtain j n where x: "x = (j, n)" by (cases x)
  show ?case
  proof (cases "load j")
    case (Inl e)
    then have "k \<noteq> j \<or> \<not> loadable load k" by (auto simp: loadable_def)
    with Cons.IH [OF Cons.prems(1)] Cons.prems(2-) Inl show ?thesis by (auto simp: x)
  next
    case (Inr w)
    have w: "ws_id w = j" "good_ws nd w" using Cons.prems(4) Inr by simp_all
    have new: "j \<notin># used_ids s" and known: "n \<noteq> 0 \<longrightarrow> j \<in> set (wfs_ids s)"
      using Cons.prems(3,5) by (simp_all add: x)
    have room: "sched_room (w_sched s)" using Cons.prems(6) by (simp add: sched_room_def)
    obtain s1 where s1: "load_schedules nd load ((j, n) # rows) s = load_schedules nd load rows s1"
      "wfs_inv nd s1" "wfs_ids s1 = wfs_ids s" "used_ids s1 = add_mset j (used_ids s)"
      "length (first_event (w_sched s1)) \<le> length (first_event (w_sched s)) + 1"
      "ScheduleWorkflow nd (Some (fst (ws_new w s))) n (snd (ws_new w s)) = Some s1"
      by (rule load_row [where load = load and rows = rows and j = n, OF Cons.prems(1) Inr w new room known]) (rule that)
    have e: "entry_of s1 k = (if k = j \<and> n \<noteq> 0 then Some (Some (fst (ws_new w s)), n) else entry_of s k)"
      using entry_scheduled [OF Cons.prems(1) w(2) s1(6)] known w(1) by simp
    have later: "(k, i) \<notin> set rows" if "k = j" for i
    proof -
      have "j \<notin> set (List.map fst rows)" using Cons.prems(2) by (simp add: x)
      then show ?thesis using that by (metis fst_conv image_eqI list.set_map)
    qed
    have "(\<exists>r. entry_of s' k = Some (Some r, i)) \<longleftrightarrow>
        (if \<exists>i. i \<noteq> 0 \<and> (k, i) \<in> set rows \<and> loadable load k then i \<noteq> 0 \<and> (k, i) \<in> set rows
         else \<exists>r. entry_of s1 k = Some (Some r, i))"
      by (rule Cons.IH [OF s1(2)]) (use Cons.prems s1 x in auto)
    moreover have "k = j \<Longrightarrow> loadable load k" using Inr by (simp add: loadable_def)
    ultimately show ?thesis using later e by (cases "k = j") (auto simp: x)
  qed
qed simp

lemma load_ids: "load_schedules nd load rows s = Some s' \<Longrightarrow> wfs_ids s' = wfs_ids s"
proof (induction rows arbitrary: s)
  case (Cons x rows)
  obtain i j where x: "x = (i, j)" by (cases x)
  show ?case
  proof (cases "load i")
    case (Inl e)
    with Cons x show ?thesis by simp
  next
    case (Inr w)
    then obtain s1 where s1: "ScheduleWorkflow nd (Some (fst (ws_new w s))) j (snd (ws_new w s)) = Some s1"
      "load_schedules nd load rows s1 = Some s'"
      using Cons.prems x by (auto simp: bind_eq_Some_conv Let_def split: prod.splits)
    then have "wfs_ids s1 = wfs_ids s"
      by (auto simp: ScheduleWorkflow_def Let_def ws_new_def set_executing_def split: option.splits if_splits)
    with Cons.IH [OF s1(2)] show ?thesis by simp
  qed
qed simp

lemma entry_new: "sorted ids \<Longrightarrow> entry_of (WorkflowScheduler_new ids) j \<noteq> Some (Some r, i)"
proof (cases "j \<in> set ids")
  case True
  assume "sorted ids"
  from id_table.lookup_hit [OF this _ True] have "nat (id_lookup ids j) < length ids" by auto
  then show ?thesis by (simp add: entry_of_def lookup_wfs_def WorkflowScheduler_new_def wfs_init_def)
next
  case False
  assume "sorted ids"
  then have "id_lookup ids j = -1" using id_table.lookup_fail_iff False by blast
  then show ?thesis by (simp add: entry_of_def lookup_wfs_def WorkflowScheduler_new_def wfs_init_def)
qed

lemma boot_parts:
  assumes "sound_boot B c0 is ids rows c"
  shows "core_new B = Some (Inr c0)" and "db_executing B = Inr is" and "distinct is" and "length is < 2 ^ 32"
    and "resume_fits B is c0" and "db_schedules B = Inr ids" and "sorted ids" and "distinct ids" and "0 \<notin> set ids"
    and "db_active B = Inr rows" and "set (List.map fst rows) \<subseteq> set ids" and "distinct (List.map fst rows)"
    and "length rows + 1 < 2 ^ 32" and "rows_match ids rows (objects (sv_engine (core_server c)))"
    and "\<forall>i w. db_schedule B i = Inr w \<longrightarrow> ws_id w = i \<and> good_ws (boot_date B) w"
    and "\<And>j i. (j, i) \<in> set rows \<Longrightarrow> i \<noteq> 0 \<Longrightarrow> loadable (db_schedule B) j"
    and "sorted (List.map fst (db_queues B))" and "\<exists>n. os_pid_max B = Some n \<and> n + 1 < 2 ^ 32"
  using assms unfolding sound_boot_def by blast+

lemma runs_core:
  "runs_for (core_roster c) j i \<longleftrightarrow> j \<noteq> 0 \<and>
    (\<exists>w s. objects (sv_engine (core_server c)) w = Some s \<and> workflow_instance_id s = i \<and> workflow_schedule_id s = j)"
  unfolding runs_for_def stands_for_def core_roster_def by (auto simp: standing_alive split: option.splits)

lemma start_schedules:
  assumes boot: "sound_boot B c0 is ids rows c"
    and load: "load_schedules (boot_date B) (db_schedule B) rows (WorkflowScheduler_new ids) = Some s"
  shows "agrees_schedules (boot_date B) (core_roster c) s"
proof -
  note b = boot_parts [OF boot]
  let ?new = "WorkflowScheduler_new ids"
  have new: "wfs_inv (boot_date B) ?new" by (rule WorkflowScheduler_new_inv [OF b(7,8)])
  have empty: "used_ids ?new = {#}" "wfs_ids ?new = ids" "first_event (w_sched ?new) = []"
    by (simp_all add: used_ids_def used_refs_def WorkflowScheduler_new_def wfs_init_def Scheduler_new_def)
  have inv: "wfs_inv (boot_date B) s"
    using load_schedules_result [OF new, of rows "db_schedule B"] b(11-13,15) load empty by auto
  have "runs_for (core_roster c) j i \<longleftrightarrow> (\<exists>r. entry_of s j = Some (Some r, i))" if known: "entry_of s j \<noteq> None" for j i
  proof -
    have j: "j \<in> set ids" "j \<noteq> 0"
      using known b(9) lookup_wfs_iff [OF inv, of j] load_ids [OF load] empty(2) unfolding entry_known by auto
    have "(\<exists>r. entry_of s j = Some (Some r, i)) \<longleftrightarrow>
        (if \<exists>i. i \<noteq> 0 \<and> (j, i) \<in> set rows \<and> loadable (db_schedule B) j then i \<noteq> 0 \<and> (j, i) \<in> set rows
         else \<exists>r. entry_of ?new j = Some (Some r, i))"
      by (rule load_entries [OF new b(12) _ b(15) _ _ load]) (use b(11,13) empty in simp_all)
    then have "(\<exists>r. entry_of s j = Some (Some r, i)) \<longleftrightarrow> i \<noteq> 0 \<and> (j, i) \<in> set rows"
      using b(16) entry_new [OF b(7), of j] by auto
    with b(14) j show ?thesis unfolding rows_match_def runs_core by blast
  qed
  with inv show ?thesis by (simp add: agrees_schedules_def)
qed

section \<open>The start\<close>

lemma core_new_server:
  assumes "core_new B = Some (Inr c)"
  obtains pool ids where "QueuePool_new (db_queues B) (os_pid_max B) = Inr pool"
    and "core_server c = \<lparr>sv_stats = Statistics_new, sv_registry = WorkflowInstances_new,
      sv_schedules = WorkflowScheduler_new ids, sv_engine = engine_start pool (boot_files B)\<rparr>"
  using assms unfolding core_new_def by (auto simp: and_then_Inr)

lemma system_start_inv:
  assumes start: "start_engine B cfg = Some (Inr c)" and boot: "sound_boot B c0 is ids rows c"
  shows "system_inv (boot_date B) (system_start c)"
proof -
  note b = boot_parts [OF boot]
  obtain c1 s where parts: "resume_all B is c0 = Some c1"
    "load_schedules (boot_date B) (db_schedule B) rows (core_schedules c1) = Some s"
    "core_server c = (core_server c1)\<lparr>sv_schedules := s\<rparr>"
    using start by (rule start_engine_parts) (use b(1,2,10) in auto)
  obtain pool ids' where pool: "QueuePool_new (db_queues B) (os_pid_max B) = Inr pool"
    "core_server c0 = \<lparr>sv_stats = Statistics_new, sv_registry = WorkflowInstances_new,
       sv_schedules = WorkflowScheduler_new ids', sv_engine = engine_start pool (boot_files B)\<rparr>"
    using b(1) by (rule core_new_server)
  have none: "core_roster c0 = Map.empty" by (simp add: fun_eq_iff core_roster_def pool(2) engine_start_def)
  then have ok0: "core_ok c0"
    by (simp add: core_ok_def pool(2) unique_ids_def agrees_registry_def agrees_count_def WorkflowInstances_new_def
        instances_inv_def inj_map_def Statistics_new_def)
  have "core_schedules c0 = WorkflowScheduler_new ids" using b(1) by (rule core_new_parts) (use b(6) in auto)
  then have "core_schedules c1 = WorkflowScheduler_new ids" using resume_all_schedules [OF b(7) _ parts(1)] by blast
  then have schedules: "agrees_schedules (boot_date B) (core_roster c) (core_schedules c)"
    using start_schedules [OF boot] parts(2,3) by simp
  have "core_ok c1" by (rule resume_all_core_ok [OF ok0 b(3,5) parts(1)]) (use b(4) none in simp_all)
  then have core: "core_ok c" by (simp add: core_ok_def core_roster_def [abs_def] parts(3))
  have "engine_reachable (sv_engine (core_server c0))" using pool b(17,18) by (auto intro: initial)
  moreover have "\<forall>i \<in> set is. wi (sv_registry (core_server c0)) i = None" by (simp add: pool(2) WorkflowInstances_new_def)
  ultimately have "engine_reachable (sv_engine (core_server c1))"
    using resume_all_keeps [OF _ core_ok_registry [OF ok0] b(3) _ b(5) parts(1)] by blast
  then have "engine_inv (sv_engine (core_server c))" unfolding parts(3) by (simp add: engine_reachable_inv)
  moreover have "roster (system_start c) = core_roster c"
    by (auto simp: fun_eq_iff roster_def present_def system_start_def core_roster_def split: option.split)
  ultimately show ?thesis
    using core schedules by (simp add: system_inv_def core_ok_def system_start_def apart_def)
qed

lemma system_reachable_inv: "system_reachable nd y \<Longrightarrow> system_inv nd y"
  by (induction rule: system_reachable.induct) (use system_start_inv in blast, rule system_step_inv)

end
