(* ===== verification/System_Consistency.thy ===== *)
theory System_Consistency
  imports System_Start
begin

text \<open>
  What holds in every reachable state of the system: the components agree on the instances in memory,
  and the end of an instance is never reported to a null schedule.
\<close>

section \<open>A run\<close>

text \<open>Schedule 3 comes to its date; its instance, of a workflow without jobs, ends at once.\<close>

definition plain_env :: env where
  "plain_env = demo_env\<lparr>
     e_parse := (\<lambda>_. Some (document_of [node_of ''workflow'' [] [1] None, node_of ''subjobs'' [] [] (Some 0)])),
     e_nodes := (\<lambda>_ _ _. Some []), e_config := demo_config\<rparr>"

definition plain_made :: "(exn + wf_instance) option" where
  "plain_made = scheduled_instance plain_env (\<lambda>_. Some (Inr \<lparr>wf_id = 1, wf_name = Some ''backup'', wf_xml = Some ''xml''\<rparr>))
     (\<lambda>_. None) (Inr 0) 41 (demo_ws 3 CONTINUE)"

definition plain_demo_boot :: boot where
  "plain_demo_boot = (demo_boot ''q'')\<lparr>db_executing := Inr [], db_active := Inr [(3, 0)]\<rparr>"

definition plain_schedules :: wf_scheduler where
  "plain_schedules = the (load_schedules (\<lambda>_. Some 100) (\<lambda>i. Inr (demo_ws i CONTINUE)) [(3, 0)] (WorkflowScheduler_new [3]))"

lemma plain_load: "load_schedules (\<lambda>_. Some 100) (\<lambda>i. Inr (demo_ws i CONTINUE)) [(3, 0)] (WorkflowScheduler_new [3]) = Some plain_schedules"
  by (simp add: plain_schedules_def ws_new_def ScheduleWorkflow_def Let_def)

lemma plain_schedules:
  "first_event (w_sched plain_schedules) = [\<lparr>scheduled_at = 100, payload = 0\<rparr>]" 
  "ws_store plain_schedules 0 = Some (demo_ws 3 CONTINUE)" "wfs_ids plain_schedules = [3]"
  by (simp_all add: plain_schedules_def ws_new_def ScheduleWorkflow_def Let_def) code_simp+

lemma plain_start:
  obtains c where "start_engine plain_demo_boot Configuration_new = Some (Inr c)"
    and "core_server c = (core_server demo_core)\<lparr>sv_schedules := plain_schedules\<rparr>" and "core_new plain_demo_boot = Some (Inr demo_core)"
proof -
  have "core_new plain_demo_boot = core_new (demo_boot ''q'')" by (simp add: core_new_def plain_demo_boot_def)
  then have new: "core_new plain_demo_boot = Some (Inr demo_core)" by (simp add: demo_core)
  have "(case ProcessManager_new Configuration_new 0 of Some (Inr pm) \<Rightarrow> True | _ \<Rightarrow> False)"
    "GarbageCollector_new Configuration_new \<noteq> None" "listening plain_demo_boot Configuration_new = Some None"
    by code_simp+
  then obtain pm gc where rest: "ProcessManager_new Configuration_new 0 = Some (Inr pm)"
    "GarbageCollector_new Configuration_new = Some gc" "listening plain_demo_boot Configuration_new = Some None"
    by (auto split: option.splits sum.splits)
  have "start_engine plain_demo_boot Configuration_new = Some (Inr ((with_schedules plain_schedules demo_core)\<lparr>core_pm := Some pm, core_gc := Some gc\<rparr>))"
    using plain_load rest new
    by (simp add: start_engine_def and_then_def returns_def passes_def) (simp add: plain_demo_boot_def demo_boot_def demo_core_def)
  then show thesis by (rule that) (simp_all add: new)
qed

lemma plain_alarm:
  obtains q sch where "shift_event 100 (w_sched plain_schedules) = (Some \<lparr>scheduled_at = 100, payload = 0\<rparr>, q)"
    and "wfs_alarm 100 (\<lambda>_. Inr 41) plain_schedules = Some sch" and "sched_room (w_sched sch)" and "entry_of sch 3 \<noteq> None"
proof -
  obtain q where q: "shift_event 100 (w_sched plain_schedules) = (Some \<lparr>scheduled_at = 100, payload = 0\<rparr>, q)" "first_event q = []"
    by (simp add: shift_event_def plain_schedules)
  from q(1) have "\<exists>sch. wfs_alarm 100 (\<lambda>_. Inr 41) plain_schedules = Some sch \<and> w_sched sch = q \<and> wfs_ids sch = [3]"
    by (simp add: wfs_alarm_def wfs_event_alarm_def plain_schedules Let_def set_executing_def)
  moreover have "entry_of sch 3 \<noteq> None" if "wfs_ids sch = [3]" for sch
    using that id_table.lookup_hit [of "[3]" 3] by (auto simp: entry_known lookup_wfs_def simp del: not_None_eq)
  ultimately show thesis using q that by (auto simp: sched_room_def)
qed

lemma plain_instance:
  obtains s s' where "plain_made = Some (Inr s)" and "workflow_instance_id s = 41" and "workflow_schedule_id s = 3"
    and "Start plain_env s = Some (True, s')" and "new_calls s s' = []" and "error_tasks s' = 0"
proof -
  have "map_option (\<lambda>r. case r of Inl e \<Rightarrow> (0, 0, None) | Inr s \<Rightarrow> (workflow_instance_id s, workflow_schedule_id s,
      map_option (\<lambda>(b, s'). (b, new_calls s s', error_tasks s')) (Start plain_env s))) plain_made = Some (41, 3, Some (True, [], 0))"
    by code_simp
  then obtain r where r: "plain_made = Some r" "(case r of Inl e \<Rightarrow> (0, 0, None) | Inr s \<Rightarrow> (workflow_instance_id s, workflow_schedule_id s,
      map_option (\<lambda>(b, s'). (b, new_calls s s', error_tasks s')) (Start plain_env s))) = (41, 3, Some (True, [], 0))"
    by auto
  with that show thesis by (cases r) auto
qed

lemma plain_reachable:
  obtains c where "core_server c = (core_server demo_core)\<lparr>sv_schedules := plain_schedules\<rparr>"
    and "system_reachable (\<lambda>_. Some 100) (system_start c)"
proof -
  obtain c where c: "start_engine plain_demo_boot Configuration_new = Some (Inr c)"
    "core_server c = (core_server demo_core)\<lparr>sv_schedules := plain_schedules\<rparr>" "core_new plain_demo_boot = Some (Inr demo_core)"
    by (rule plain_start)
  have "rows_match [3] [(3, 0)] (objects (sv_engine (core_server c)))"
    by (simp add: rows_match_def c(2) demo_core_def run_start_def engine_start_def)
  then have "sound_boot plain_demo_boot demo_core [] [3] [(3, 0)] c"
    using demo_ws_good c(3) by (auto simp: sound_boot_def plain_demo_boot_def demo_ws_def)
  moreover have "boot_date plain_demo_boot = (\<lambda>_. Some 100)" by (simp add: plain_demo_boot_def)
  ultimately have "system_reachable (\<lambda>_. Some 100) (system_start c)" by (rule system_reachable.start [OF c(1)])
  with c(2) show thesis by (rule that)
qed

lemma plain_dying:
  obtains y s where "system_reachable (\<lambda>_. Some 100) y" and "workflow_instance_id s = 41" and "workflow_schedule_id s = 3"
    and "sy_dying y 0 = Some (s, [Call_Remove 41, Call_Schedule_Stop 3 True, Call_DecExecuting])"
    and "sched_room (w_sched (sy_schedules y))" and "entry_of (sy_schedules y) 3 \<noteq> None"
    and "sleepers (sy_registry y) = []"
proof -
  let ?nd = "\<lambda>_. Some 100"
  obtain c where c: "core_server c = (core_server demo_core)\<lparr>sv_schedules := plain_schedules\<rparr>"
    and 0: "system_reachable ?nd (system_start c)" by (rule plain_reachable)
  have engine: "sy_engine (system_start c) = run_start" "sy_schedules (system_start c) = plain_schedules"
    "sy_registry (system_start c) = WorkflowInstances_new"
    by (simp_all add: system_start_def c demo_core_def)
  obtain q sch where sch: "shift_event 100 (w_sched plain_schedules) = (Some \<lparr>scheduled_at = 100, payload = 0\<rparr>, q)"
    "wfs_alarm 100 (\<lambda>_. Inr 41) plain_schedules = Some sch" "sched_room (w_sched sch)" "entry_of sch 3 \<noteq> None"
    by (rule plain_alarm)
  obtain s s' where s: "plain_made = Some (Inr s)" "workflow_instance_id s = 41" "workflow_schedule_id s = 3"
    "Start plain_env s = Some (True, s')" "new_calls s s' = []" "error_tasks s' = 0" by (rule plain_instance)
  let ?y = "enter 0 s (scheduled_as sch (system_start c))"
  have none: "present (system_start c) = Map.empty"
    by (simp add: fun_eq_iff present_def system_start_def c demo_core_def run_start_def engine_start_def)
  have "system_step ?nd (system_start c) ?y"
    using s(1-3) sch none
    by (intro system_step.alarm [where now = 100 and v = "demo_ws 3 CONTINUE" and E = plain_env])
      (auto simp: engine plain_schedules plain_made_def can_enter_def demo_ws_def)
  with 0 have 1: "system_reachable ?nd ?y" by (rule system_reachable.step)
  have y: "sy_born ?y = [0 \<mapsto> s]" "sy_engine ?y = run_start" "sy_schedules ?y = sch" "sy_dying ?y = Map.empty"
    using engine by (simp_all add: enter_def constructed_def Let_def) (simp_all add: system_start_def)
  have see: "seeing run_start plain_env = plain_env"
    using run_seeing by (simp add: seeing_def plain_env_def demo_env_def)
  obtain g where g: "settle 0 s (True, s') run_start = Some g" by (simp add: settle_def s)
  have start: "qp run_start = run_pool" "objects run_start = Map.empty" "queued run_pool = {#}" "\<And>X. registered X run_pool = {#}"
    "retrier run_start = Retrier_new" "forking run_start = Fork_Idle" "gathering run_start = None" "timers run_start = []"
    "events_of Retrier_new = {#}"
    using QueuePool_new_empty(1,2) [OF run_pool]
    by (simp_all add: run_start_def engine_start_def events_of_def Retrier_new_def Scheduler_new_def)
  have "claims_free (qp run_start) (new_calls s s')" "room_for (new_calls s s') run_start"
    using no_claims [of "new_calls s s'"] start
    by (simp_all add: s(5) room_for_def total_def to_start_def at_work_def to_retry_def forker_tasks_def forker_tids_def)
  then have "system_step ?nd ?y (operated 0 (True, s') g (?y\<lparr>sy_born := (sy_born ?y)(0 := None)\<rparr>))"
    using s(4) g by (intro system_step.first_run [where E = plain_env]) (auto simp: y see)
  with 1 have "system_reachable ?nd (operated 0 (True, s') g (?y\<lparr>sy_born := (sy_born ?y)(0 := None)\<rparr>))" by (rule system_reachable.step)
  moreover have "same_ids s s'" by (rule identity.Start [OF s(4)])
  moreover have "sleepers (sy_registry ?y) = []"
    using engine by (simp add: enter_def constructed_def Let_def instances_Add_def WorkflowInstances_new_def)
  ultimately show thesis
    using s(2,3,6) sch(3,4) y(3) by (intro that [of "operated 0 (True, s') g (?y\<lparr>sy_born := (sy_born ?y)(0 := None)\<rparr>)" s']) (auto simp: operated_def WorkflowInstance_delete_def same_ids_def)
qed

section \<open>The components agree\<close>

text \<open>Whether the destructor of \<open>w\<close>, if it has begun, still has a call to make.\<close>

definition awaits :: "system \<Rightarrow> wi_ref \<Rightarrow> call \<Rightarrow> bool" where
  "awaits y w c \<longleftrightarrow> (case sy_dying y w of Some (s, cs) \<Rightarrow> c \<in> set cs | None \<Rightarrow> True)"

definition attached :: "system \<Rightarrow> wi_ref \<Rightarrow> u32 \<Rightarrow> bool" where
  "attached y w j \<longleftrightarrow> j \<noteq> 0 \<and> (\<exists>b. awaits y w (Call_Schedule_Stop j b))"

lemma roster_reads:
  assumes inv: "system_inv nd y"
  shows "(\<exists>x. roster y w = Some x \<and> P (st_id x) (st_schedule x) (st_registered x) (st_attached x)) \<longleftrightarrow>
    (\<exists>s. present y w = Some s \<and> P (workflow_instance_id s) (workflow_schedule_id s)
       (awaits y w (Call_Remove (workflow_instance_id s))) (attached y w (workflow_schedule_id s)))"
proof (cases "sy_dying y w")
  case None
  then show ?thesis by (auto simp: roster_def standing_alive awaits_def attached_def)
next
  case (Some d)
  obtain s cs where d: "d = (s, cs)" by (cases d)
  then have "dying_ok s cs" using inv Some by (simp add: system_inv_def)
  then have "Call_Schedule_Stop (workflow_schedule_id s) b \<in> set cs \<Longrightarrow> workflow_schedule_id s \<noteq> 0" for b
    by (auto simp: dying_ok_def WorkflowInstance_delete_def append_eq_Cons_conv Cons_eq_append_conv split: if_splits)
  then have "attached y w (workflow_schedule_id s) \<longleftrightarrow> (\<exists>b. Call_Schedule_Stop (workflow_schedule_id s) b \<in> set cs)"
    using Some d by (auto simp: attached_def awaits_def)
  moreover have "sy_born y w = None" "objects (sy_engine y) w = None"
    using inv_parts(2) [OF inv] Some unfolding apart_def by (metis option.distinct(1))+
  ultimately show ?thesis using Some d by (simp add: roster_def standing_of_def awaits_def present_def)
qed

lemma runs_reads:
  assumes "system_inv nd y"
  shows "runs_for (roster y) j i \<longleftrightarrow>
    (\<exists>w s. present y w = Some s \<and> workflow_instance_id s = i \<and> workflow_schedule_id s = j \<and> attached y w j)"
proof -
  have "stands_for z j i \<longleftrightarrow> (\<exists>x. z = Some x \<and> st_attached x \<and> st_schedule x = j \<and> st_id x = i)" for z
    by (cases z) (simp_all add: stands_for_def)
  then have "runs_for (roster y) j i \<longleftrightarrow>
      (\<exists>w s. present y w = Some s \<and> attached y w (workflow_schedule_id s) \<and> workflow_schedule_id s = j \<and> workflow_instance_id s = i)"
    using roster_reads [OF assms, where P = "\<lambda>n k a b. b \<and> k = j \<and> n = i"] by (simp add: runs_for_def)
  then show ?thesis by auto
qed





text \<open>
  A schedule never has two instances at a time: two instances in memory that have still to
  report their end to the same schedule, one the scheduler knows, are the same.
\<close>

theorem one_instance_per_schedule:
  assumes "system_reachable nd y" and "entry_of (sy_schedules y) j \<noteq> None"
    and "present y v = Some s" and "workflow_schedule_id s = j" and "attached y v j"
    and "present y w = Some t" and "workflow_schedule_id t = j" and "attached y w j"
  shows "v = w"
proof -
  have inv: "system_inv nd y" using assms(1) by (rule system_reachable_inv)
  have "runs_for (roster y) j (workflow_instance_id s)" "runs_for (roster y) j (workflow_instance_id t)"
    using runs_reads [OF inv] assms(3-8) by blast+
  then have "workflow_instance_id s = workflow_instance_id t"
    using inv_parts(5) [OF inv] assms(2) by (auto simp: agrees_schedules_def)
  then show ?thesis
    using inv_parts(3) [OF inv] roster_ids [OF inv_parts(2) [OF inv]] assms(3,6) unfolding unique_ids_def by metis
qed

theorem one_instance_per_schedule_witness:
  "\<exists>y. system_reachable (\<lambda>_. Some 100) y \<and>
     {w. \<exists>t. present y w = Some t \<and> workflow_schedule_id t = 3 \<and> attached y w 3} = {0}"
proof -
  obtain y s where y: "system_reachable (\<lambda>_. Some 100) y" "workflow_schedule_id s = 3"
    "sy_dying y 0 = Some (s, [Call_Remove 41, Call_Schedule_Stop 3 True, Call_DecExecuting])"
    "entry_of (sy_schedules y) 3 \<noteq> None" by (rule plain_dying)
  have s: "present y 0 = Some s"
    using inv_parts(2) [OF system_reachable_inv [OF y(1)]] y(3) unfolding apart_def
    by (auto simp: present_def split: option.split)
  have at: "attached y 0 3" by (auto simp: attached_def awaits_def y(3))
  from one_instance_per_schedule [OF y(1,4) s y(2) at] s y(1,2) at show ?thesis by blast
qed

end
