(* ===== verification/System_Queries.thy ===== *)
theory System_Queries
  imports System_Consistency
begin

text \<open>
  The connections as threads of the system: what a client's query does is a sequence of the system's
  steps, so the components still agree when it is answered.
\<close>

section \<open>Steps\<close>

abbreviation system_run :: "(schedule \<Rightarrow> int option) \<Rightarrow> system \<Rightarrow> system \<Rightarrow> bool" where
  "system_run nd \<equiv> (system_step nd)\<^sup>*\<^sup>*"

lemma run_reachable: "system_run nd y y' \<Longrightarrow> system_reachable nd y \<Longrightarrow> system_reachable nd y'"
  by (induction rule: rtranclp_induct) (auto intro: system_reachable.step)

lemmas run_step = rtranclp.rtrancl_into_rtrancl [where r = "system_step nd" for nd]

lemma run_count:
  assumes "system_run nd y z" and "f \<in> {IncAcceptedConnections, IncInputErrors, IncWorkflowQueries,
    IncWorkflowStatusQueries, IncWorkflowCancelQueries, IncStatisticsQueries, IncWorkflowExceptions, IncWorkflowInstanceErrors}"
  shows "system_run nd y (z\<lparr>sy_server := (sy_server z)\<lparr>sv_stats := f (sy_stats z)\<rparr>\<rparr>)"
  using assms by (blast intro: run_step system_step.count)

lemma run_quiet:
  "system_run nd y z \<Longrightarrow> engine_quiet (sy_engine z) g \<Longrightarrow>
   system_run nd y (z\<lparr>sy_server := (sy_server z)\<lparr>sv_engine := g\<rparr>\<rparr>)"
  by (blast intro: run_step system_step.quiet)

text \<open>
  The whole of a destructor. It is the steps of one thread; the memory is freed in the last one, which
  makes no difference when nobody comes in between.
\<close>

lemma destruct_run:
  assumes at: "sy_dying y w = Some (s, WorkflowInstance_delete s)"
    and room: "workflow_schedule_id s = 0 \<or> sched_room (w_sched (sy_schedules y))"
    and run: "destruct nd w (WorkflowInstance_delete s) (sy_server y) = Some sv"
  shows "\<exists>y'. system_run nd y y' \<and> sy_server y' = sv \<and> sy_born y' = sy_born y \<and> sy_dying y' = (sy_dying y)(w := None)"
proof -
  let ?i = "workflow_instance_id s" and ?j = "workflow_schedule_id s" and ?ok = "error_tasks s = 0"
  have step: "system_run nd y (called w s cs z')"
    if "system_run nd y z" "sy_dying z w = Some (s, c # cs)" "room_to_stop c z" "destructor_call nd c z = Some z'" for z z' c cs
    by (rule run_step [OF that(1) system_step.destruct [OF that(2,3,4)]])
  let ?removed = "y\<lparr>sy_server := (sy_server y)\<lparr>sv_registry := instances_Remove ?i (sy_registry y)\<rparr>\<rparr>"
  have remove: "destructor_call nd (Call_Remove ?i) y = Some ?removed" by (simp add: destructor_call_def Let_def)
  show ?thesis
  proof (cases "?j = 0")
    case True
    let ?y1 = "called w s [Call_DecExecuting] ?removed"
    let ?y2 = "called w s [] (?y1\<lparr>sy_server := (sy_server ?y1)\<lparr>sv_stats := DecWorkflowInstanceExecuting (sy_stats ?y1)\<rparr>\<rparr>)"
    have "system_run nd y ?y1"
      by (rule step [OF rtranclp.rtrancl_refl]) (use at True remove in \<open>simp_all add: WorkflowInstance_delete_def room_to_stop_def\<close>)
    then have "system_run nd y ?y2"
      by (rule step [where c = Call_DecExecuting]) (simp_all add: called_def room_to_stop_def destructor_call_def Let_def)
    then show ?thesis using run True
      by (intro exI [of _ ?y2]) (auto simp: called_def WorkflowInstance_delete_def destroyed_def Let_def)
  next
    case False
    obtain d sch where sch: "ScheduledWorkflowInstanceStop nd ?j ?ok (sy_schedules y) = Some (d, sch)"
      using run False by (auto simp: WorkflowInstance_delete_def bind_eq_Some_conv destroyed_def)
    let ?y1 = "called w s [Call_Schedule_Stop ?j ?ok, Call_DecExecuting] ?removed"
    let ?y2 = "called w s [Call_DecExecuting] (scheduled_as sch ?y1)"
    let ?y3 = "called w s [] (?y2\<lparr>sy_server := (sy_server ?y2)\<lparr>sv_stats := DecWorkflowInstanceExecuting (sy_stats ?y2)\<rparr>\<rparr>)"
    have "system_run nd y ?y1"
      by (rule step [OF rtranclp.rtrancl_refl]) (use at False remove in \<open>simp_all add: WorkflowInstance_delete_def room_to_stop_def\<close>)
    then have "system_run nd y ?y2"
      by (rule step [where c = "Call_Schedule_Stop ?j ?ok"]) (use room False sch in \<open>simp_all add: called_def room_to_stop_def destructor_call_def Let_def\<close>)
    then have "system_run nd y ?y3"
      by (rule step [where c = Call_DecExecuting]) (simp_all add: called_def room_to_stop_def destructor_call_def Let_def)
    then show ?thesis using run False sch
      by (intro exI [of _ ?y3]) (auto simp: called_def WorkflowInstance_delete_def destroyed_def Let_def)
  qed
qed

lemma delete_ended_run:
  assumes free: "sy_dying y w = None"
    and room: "workflow_schedule_id s = 0 \<or> sched_room (w_sched (sy_schedules y))"
    and run: "delete_ended nd w (b, s) ((sy_server y)\<lparr>sv_engine := g\<rparr>) = Some sv"
  shows "\<exists>y'. system_run nd (operated w (b, s) g y) y' \<and> sy_server y' = sv \<and> sy_born y' = sy_born y \<and> sy_dying y' = sy_dying y"
proof (cases b)
  case True
  have "\<exists>y'. system_run nd (operated w (b, s) g y) y' \<and> sy_server y' = sv \<and> sy_born y' = sy_born (operated w (b, s) g y) \<and>
      sy_dying y' = (sy_dying (operated w (b, s) g y))(w := None)"
    by (rule destruct_run) (use True room run in \<open>simp_all add: operated_def delete_ended_def\<close>)
  with True free show ?thesis by (auto simp: operated_def fun_upd_idem)
next
  case False
  with run show ?thesis by (intro exI [of _ "operated w (b, s) g y"]) (simp add: operated_def delete_ended_def)
qed

section \<open>A task that is restarted\<close>

lemma dying_absent: "system_inv nd y \<Longrightarrow> objects (sy_engine y) w = Some s \<Longrightarrow> sy_dying y w = None \<and> sy_born y w = None"
  using inv_parts(2) unfolding apart_def by (metis option.distinct(1))

lemma event_removed_run:
  assumes reach: "system_reachable nd y" and t: "(w, t) \<in> set (timers (sy_engine y))"
    and removed: "event_removed E nd (w, t) (sy_server y) = Some sv"
    and fits: "\<And>s b s'. objects (sy_engine y) w = Some s \<Longrightarrow> TaskRestart (seeing (sy_engine y) E) t s = Some (b, s') \<Longrightarrow>
      room_for (new_calls s s') (sy_engine y)"
    and room: "sched_room (w_sched (sy_schedules y))"
  shows "\<exists>y'. system_run nd y y' \<and> sy_server y' = sv \<and> sy_born y' = sy_born y \<and> sy_dying y' = sy_dying y"
proof -
  let ?g = "sy_engine y"
  obtain s b s' g where r: "objects ?g w = Some s" "TaskRestart (seeing ?g E) t s = Some (b, s')"
    "timer_restart E (w, t) ?g = Some g" "delete_ended nd w (b, s') ((sy_server y)\<lparr>sv_engine := g\<rparr>) = Some sv"
    using removed by (auto simp: event_removed_def Let_def bind_eq_Some_conv)
  have "engine_turn ?g w s b s' g" by (rule engine_turn.restart [OF t r(1,2) fits [OF r(1,2)] r(3)])
  then have "system_run nd y (operated w (b, s') g y)"
    by (rule run_step [OF rtranclp.rtrancl_refl system_step.turn])
  moreover have "sy_dying y w = None" using dying_absent [OF system_reachable_inv [OF reach] r(1)] by simp
  ultimately show ?thesis
    using delete_ended_run [of y w s' nd b g sv] room r(4) by (blast intro: rtranclp_trans)
qed

section \<open>A cancellation\<close>

text \<open>
  The tasks that the flush has removed are restarted one after the other; the instance can end in
  one of the restarts, which is then the last.
\<close>

lemma restarts_run:
  assumes "system_reachable nd y" and "cancelled_in w i (sy_engine y)" and "mset xs \<subseteq># mset (timers (sy_engine y))"
    and "list_all (\<lambda>x. fst x = w) xs" and "restart_all E nd xs (sy_server y) = Some sv"
    and "sched_room (w_sched (sy_schedules y))"
  shows "\<exists>y'. system_run nd y y' \<and> sy_server y' = sv \<and> sy_born y' = sy_born y \<and> sy_dying y' = sy_dying y \<and>
    cancelled_in w i (sv_engine sv) \<and> qp (sv_engine sv) = qp (sy_engine y) \<and>
    (\<forall>v. v \<noteq> w \<longrightarrow> objects (sv_engine sv) v = objects (sy_engine y) v)"
  using assms
proof (induction xs arbitrary: y)
  case Nil
  then show ?case by (intro exI [of _ y]) simp
next
  case (Cons x xs)
  let ?g = "sy_engine y"
  obtain t where x: "x = (w, t)" using Cons.prems(4) by (cases x) simp
  obtain s b s' g sv1 where r: "objects ?g w = Some s" "TaskRestart (seeing ?g E) t s = Some (b, s')"
    "timer_restart E (w, t) ?g = Some g" "delete_ended nd w (b, s') ((sy_server y)\<lparr>sv_engine := g\<rparr>) = Some sv1"
    "restart_all E nd xs sv1 = Some sv"
    using Cons.prems(5) by (auto simp: x event_removed_def Let_def bind_eq_Some_conv)
  have t: "(w, t) \<in> set (timers ?g)" using Cons.prems(3) x by (metis list.set_intros(1) mset_subset_eqD set_mset_mset)
  note one = restart_cancelled [OF Cons.prems(2) t r(3)]
  have turn: "engine_turn ?g w s b s' g" by (rule engine_turn.restart [OF t r(1,2) one(3) [OF r(1,2)] r(3)])
  have removed: "event_removed E nd (w, t) (sy_server y) = Some sv1" using r by (simp add: event_removed_def Let_def)
  obtain y1 where y1: "system_run nd y y1" "sy_server y1 = sv1" "sy_born y1 = sy_born y" "sy_dying y1 = sy_dying y"
    using event_removed_run [OF Cons.prems(1) t removed _ Cons.prems(6)] one(3) by blast
  have reach: "system_reachable nd y1" by (rule run_reachable [OF y1(1) Cons.prems(1)])
  have g: "sy_engine y1 = g" using delete_ended_engine [OF r(4)] y1(2) by simp
  have same: "qp g = qp ?g" "\<forall>v. v \<noteq> w \<longrightarrow> objects g v = objects ?g v"
    using one(2) turn_parts(3) [OF turn] by simp_all
  show ?case
  proof (cases "xs = [] \<or> b")
    case True
    have "xs = []"
    proof (cases xs)
      case (Cons z zs)
      with True have "objects g w = None" "fst z = w" using turn_parts(3) [OF turn] Cons.prems(4) by simp_all
      with r(5) y1(2) g Cons show ?thesis by (simp add: event_removed_def Let_def)
    qed simp
    with r(5) y1 g one(1) same show ?thesis by (intro exI [of _ y1]) auto
  next
    case False
    then have room: "sched_room (w_sched (sy_schedules y1))" using r(4) y1(2) Cons.prems(6) by (auto simp: delete_ended_def)
    have "mset xs \<subseteq># mset (timers (sy_engine y1))"
      using Cons.prems(3) one(1) t x g by (simp add: insert_subset_eq_iff)
    moreover have "cancelled_in w i (sy_engine y1)" "list_all (\<lambda>x. fst x = w) xs" "restart_all E nd xs (sy_server y1) = Some sv"
      using one(1) g Cons.prems(4) r(5) y1(2) by simp_all
    ultimately obtain y' where y': "system_run nd y1 y'" "sy_server y' = sv" "sy_born y' = sy_born y1" "sy_dying y' = sy_dying y1"
      "cancelled_in w i (sv_engine sv)" "qp (sv_engine sv) = qp (sy_engine y1)"
      "\<forall>v. v \<noteq> w \<longrightarrow> objects (sv_engine sv) v = objects (sy_engine y1) v"
      using Cons.IH [OF reach _ _ _ _ room] by blast
    have "\<forall>v. v \<noteq> w \<longrightarrow> objects (sv_engine sv) v = objects ?g v"
      using y'(7) same(2) unfolding g by simp
    moreover have "sy_born y' = sy_born y" by (rule trans [OF y'(3) y1(3)])
    moreover have "sy_dying y' = sy_dying y" by (rule trans [OF y'(4) y1(4)])
    moreover have "qp (sv_engine sv) = qp ?g" using y'(6) same(1) unfolding g by simp
    ultimately show ?thesis using rtranclp_trans [OF y1(1) y'(1)] y'(2,5) by blast
  qed
qed

text \<open>The rest of the queues of a cancelled instance is safe to cancel when it was so before.\<close>

lemma cancel_safe_after:
  assumes safe: "cancel_safe (instance_ids g) i p" and i: "i \<noteq> 0" "instance_ids g w = i" and c: "cancelled_in w i g'"
    and unique: "\<And>v. instance_ids g v = i \<Longrightarrow> v = w" and same: "\<forall>v. v \<noteq> w \<longrightarrow> objects g' v = objects g v"
  shows "cancel_safe (instance_ids g') i p"
proof (cases "objects g' w")
  case None
  have "instance_ids g' v \<noteq> i" for v
  proof (cases "v = w")
    case True
    with None i(1) show ?thesis by (simp add: instance_ids_def)
  next
    case False
    then have "instance_ids g v \<noteq> i" using unique by blast
    with False same show ?thesis by (simp add: instance_ids_def)
  qed
  then show ?thesis by (simp add: cancel_safe_def hit_def)
next
  case (Some s)
  with c have "instance_ids g' w = i" by (simp add: cancelled_in_def instance_ids_def)
  moreover have "instance_ids g' v = instance_ids g v" if "v \<noteq> w" for v using same that by (simp add: instance_ids_def)
  ultimately have "instance_ids g' = instance_ids g" using i(2) by (metis ext)
  with safe show ?thesis by simp
qed

lemma cancel_run:
  assumes reach: "system_reachable nd y" and n: "handler.workflow_id h = Some n" and i: "i = word_of_int n" "i \<noteq> 0"
    and started: "\<forall>w. wi (sy_registry y) i = Some w \<longrightarrow> objects (sy_engine y) w \<noteq> None"
    and room: "sched_room (w_sched (sy_schedules y))" and safe: "cancel_safe (instance_ids (sy_engine y)) i (qp (sy_engine y))"
    and run: "query_cancel S h (sy_server y) = Some c" and nd: "srv_date S = nd"
  shows "\<exists>r y'. c = Conn_Closed r (sy_server y') \<and> system_run nd y y' \<and> sy_born y' = sy_born y \<and> sy_dying y' = sy_dying y"
proof -
  let ?y1 = "y\<lparr>sy_server := (sy_server y)\<lparr>sv_stats := IncWorkflowCancelQueries (sy_stats y)\<rparr>\<rparr>" and ?g = "sy_engine y"
  have r1: "system_run nd y ?y1" by (rule run_count) simp_all
  note inv = system_reachable_inv [OF reach]
  have "instances_inv (sy_registry y)" using inv_parts(4) [OF inv] by (simp add: agrees_registry_def)
  note found = instances_call_defined [OF this]
  show ?thesis
  proof (cases "wi (sy_registry y) i")
    case None
    with run n i(1) have "c = Conn_Closed [reply_unknown] (sy_server ?y1)"
      by (simp add: query_cancel_def instances_Cancel_def Let_def found)
    with r1 show ?thesis by (intro exI [of _ "[reply_unknown]"] exI [of _ ?y1]) simp
  next
    case (Some w)
    then obtain s where s: "objects ?g w = Some s" using started by auto
    have present: "objects ?g v = Some t \<Longrightarrow> present y v = Some t" for v t
      using dying_absent [OF inv] by (auto simp: present_def)
    note ids = roster_ids [OF inv_parts(2) [OF inv] present]
    obtain x where x: "roster y w = Some x" "st_id x = i"
      using inv_parts(4) [OF inv] Some by (auto simp: agrees_registry_def)
    have id: "workflow_instance_id s = i" using ids [OF s] x by auto
    have unique: "v = w" if "objects ?g v = Some t" "workflow_instance_id t = i" for v t
      using ids [OF that(1)] that(2) x inv_parts(3) [OF inv] unfolding unique_ids_def by metis
    let ?g1 = "cancel_object w ?g"
    obtain xs where xs: "timers (flush_instance i ?g1) = timers ?g1 @ xs" "list_all (\<lambda>x. fst x = w) xs"
      "cancelled_in w i (flush_instance i ?g1)"
      by (rule cancel_flushed [OF inv_parts(1) [OF inv] s id i(2)]) (use unique in blast)+
    let ?y2 = "?y1\<lparr>sy_server := (sy_server ?y1)\<lparr>sv_engine := ?g1\<rparr>\<rparr>"
    let ?y3 = "?y2\<lparr>sy_server := (sy_server ?y2)\<lparr>sv_engine := flush_instance i ?g1\<rparr>\<rparr>"
    have "engine_quiet ?g ?g1" unfolding cancel_object_eq [OF s] by (rule engine_quiet.cancel [OF s])
    then have "system_run nd y ?y2" by (intro run_quiet [OF r1]) simp
    then have r3: "system_run nd y ?y3" by (rule run_quiet) (simp add: engine_quiet.flush)
    obtain sv g where sv: "restart_all (srv_env S) nd xs (sy_server ?y3) = Some sv" "cancel_queued i (sv_engine sv) = Some g"
      "c = Conn_Closed [reply_ok] (sv\<lparr>sv_engine := g\<rparr>)"
      using run n i(1) Some xs(1) nd
      by (auto simp: query_cancel_def Let_def bind_eq_Some_conv instances_Cancel_def found split: if_splits)
    obtain y4 where "system_run nd ?y3 y4" and y4: "sy_server y4 = sv" "sy_born y4 = sy_born ?y3" "sy_dying y4 = sy_dying ?y3"
      "cancelled_in w i (sv_engine sv)" "qp (sv_engine sv) = qp (sy_engine ?y3)"
      "\<forall>v. v \<noteq> w \<longrightarrow> objects (sv_engine sv) v = objects (sy_engine ?y3) v"
      using restarts_run [OF run_reachable [OF r3 reach] _ _ xs(2) sv(1)] xs(1,3) room by auto
    with r3 have r4: "system_run nd y y4" by (auto intro: rtranclp_trans)
    have same: "qp (sy_engine ?y3) = qp ?g" "v \<noteq> w \<Longrightarrow> objects (sy_engine ?y3) v = objects ?g v" for v
      by (simp_all add: flush_instance_def cancel_object_def split: prod.splits)
    have "cancel_safe (instance_ids (sv_engine sv)) i (qp ?g)"
    proof (rule cancel_safe_after [OF safe i(2) _ y4(4)])
      show "instance_ids ?g w = i" using s id by (simp add: instance_ids_def)
      show "v = w" if "instance_ids ?g v = i" for v
        using that unique i(2) by (auto simp: instance_ids_def split: option.splits)
      show "\<forall>v. v \<noteq> w \<longrightarrow> objects (sv_engine sv) v = objects ?g v" using y4(6) same(2) by simp
    qed
    then have "engine_quiet (sy_engine y4) g" using sv(2) y4(1,5) same(1) by (simp add: engine_quiet.cancel_tasks)
    from run_quiet [OF r4 this] sv(3) y4(1-3) show ?thesis
      by (intro exI [of _ "[reply_ok]"] exI [of _ "y4\<lparr>sy_server := (sy_server y4)\<lparr>sv_engine := g\<rparr>\<rparr>"]) simp
  qed
qed

section \<open>A launch\<close>

text \<open>What a launch takes for granted of the instance that is made, if one is.\<close>

definition launch_fits :: "services \<Rightarrow> handler \<Rightarrow> system \<Rightarrow> bool" where
  "launch_fits S h y \<longleftrightarrow> (case workflow_name h of None \<Rightarrow> True | Some name \<Rightarrow>
     (case WorkflowInstance_new (srv_env S) (srv_workflow S) (srv_schedule S) (srv_inserted S) (srv_next_id S)
             name (query_params h) 0 (workflow_host h) (workflow_user h) of
        Some (Inr s) \<Rightarrow> can_enter (srv_ref S) s y \<and>
          (case Start (seeing (sy_engine y) (srv_env S)) s of
             Some (b, s') \<Rightarrow> claims_free (qp (sy_engine y)) (new_calls s s') \<and> room_for (new_calls s s') (sy_engine y)
           | None \<Rightarrow> True)
      | _ \<Rightarrow> True))"

text \<open>The server after a connection, and the ended instance that one asleep still has to delete.\<close>

definition conn_server :: "conn \<Rightarrow> server option" where
  "conn_server c = (case c of Conn_Closed r sv \<Rightarrow> Some sv | Conn_Left sv \<Rightarrow> Some sv | Conn_Waits a sv \<Rightarrow> Some sv
     | Conn_Terminates e \<Rightarrow> None)"

definition left_dying ::
  "conn \<Rightarrow> (wi_ref \<Rightarrow> (wf_instance \<times> call list) option) \<Rightarrow> wi_ref \<Rightarrow> (wf_instance \<times> call list) option" where
  "left_dying c d = (case c of
       Conn_Waits (Reply_Launched w (Some s)) sv \<Rightarrow> d(w \<mapsto> (s, WorkflowInstance_delete s))
     | _ \<Rightarrow> d)"

text \<open>The client's thread has made these steps when it has come to \<open>c\<close>.\<close>

definition served :: "(schedule \<Rightarrow> int option) \<Rightarrow> system \<Rightarrow> conn \<Rightarrow> bool" where
  "served nd y c \<longleftrightarrow> (\<forall>sv. conn_server c = Some sv \<longrightarrow> (\<exists>y'. system_run nd y y' \<and> sy_server y' = sv \<and>
     sy_born y' = sy_born y \<and> sy_dying y' = left_dying c (sy_dying y)))"

lemma served_closed:
  "system_run nd y y' \<Longrightarrow> sy_born y' = sy_born y \<Longrightarrow> sy_dying y' = sy_dying y \<Longrightarrow> served nd y (Conn_Closed r (sy_server y'))"
  by (auto simp: served_def conn_server_def left_dying_def)

lemma launched_run:
  assumes new: "WorkflowInstance_new E gw gs ins nid name ps 0 host user = Some (Inr s)" and enter: "can_enter (srv_ref S) s y"
    and fits: "\<And>b s'. Start (seeing (sy_engine y) (srv_env S)) s = Some (b, s') \<Longrightarrow>
      claims_free (qp (sy_engine y)) (new_calls s s') \<and> room_for (new_calls s s') (sy_engine y)"
    and awake: "\<not> sleeping t (sy_registry y)" and run: "launched S t h s (sy_server y) = Some c"
  shows "served (srv_date S) y c"
proof -
  let ?nd = "srv_date S" and ?w = "srv_ref S" and ?i = "workflow_instance_id s" and ?g = "sy_engine y"
  let ?y1 = "enter ?w s y"
  have same: "sy_engine ?y1 = ?g" "sleepers (sy_registry ?y1) = sleepers (sy_registry y)" "sy_dying ?y1 = sy_dying y"
    "sy_server ?y1 = constructed ?w ?i (sy_server y)" "sv_engine (constructed ?w ?i (sy_server y)) = ?g"
    by (simp_all add: enter_def constructed_def instances_Add_def Let_def)
  have absent: "sy_born y ?w = None" "sy_dying y ?w = None"
    using absent_phases [of y ?w] enter by (simp_all add: can_enter_def)
  obtain b s' g where r: "Start (seeing ?g (srv_env S)) s = Some (b, s')" "settle ?w s (b, s') ?g = Some g"
    using run by (auto simp: launched_def Let_def bind_eq_Some_conv same)
  define z where "z = ?y1\<lparr>sy_born := (sy_born ?y1)(?w := None)\<rparr>"
  have z: "sy_server z = constructed ?w ?i (sy_server y)" "sy_born z = sy_born y" "sy_dying z = sy_dying y"
    using absent(1) by (simp_all add: z_def same) (simp add: enter_def fun_upd_idem)
  have "sy_born ?y1 ?w = Some s" by (simp add: enter_def)
  from system_step.first_run [OF this, of "srv_env S" b s' g] r fits [OF r(1)] same(1)
  have "system_step ?nd ?y1 (operated ?w (b, s') g z)" by (simp add: z_def)
  with system_step.launch [OF new enter] have start: "system_run ?nd y (operated ?w (b, s') g z)"
    by (blast intro: rtranclp.rtrancl_refl run_step)
  have sid: "workflow_schedule_id s' = 0"
    using new_instance_schedule [OF new] identity.Start [OF r(1)] by (simp add: same_ids_def)
  obtain mode where mode: "query_options h = Some mode"
    using run r by (auto simp: launched_def Let_def bind_eq_Some_conv same)
  let ?waits = "mode = MODE_SYNCHRONOUS" and ?reg = "sv_registry (sy_server z)"
  have there: "wi ?reg ?i \<noteq> None" by (simp add: z(1) constructed_def Let_def instances_Add_def)
  show ?thesis
  proof (cases ?waits)
    case True
    obtain reg where reg: "instances_Wait t ?i ?reg = (True, reg)"
      using Wait_waits [OF there, of t] by (cases "instances_Wait t ?i ?reg") simp
    let ?y2 = "operated ?w (b, s') g z"
    let ?y3 = "?y2\<lparr>sy_server := (sy_server ?y2)\<lparr>sv_registry := snd (instances_Wait t ?i (sy_registry ?y2))\<rparr>\<rparr>"
    have "\<not> sleeping t (sy_registry ?y2)"
      using awake by (simp add: operated_def sleeping_def z(1) constructed_def instances_Add_def Let_def)
    from run_step [OF start system_step.wait [OF this]] have "system_run ?nd y ?y3" .
    moreover have "c = Conn_Waits (Reply_Launched ?w (if b then Some s' else None)) (sy_server ?y3)"
      using run r mode True reg by (simp add: launched_def Let_def same operated_def z(1))
    moreover have "sy_born ?y3 = sy_born y" "sy_dying ?y3 = (if b then (sy_dying y)(?w \<mapsto> (s', WorkflowInstance_delete s')) else sy_dying y)"
      by (simp_all add: operated_def z)
    ultimately show ?thesis unfolding served_def by (auto simp: conn_server_def left_dying_def intro!: exI [of _ ?y3])
  next
    case False
    obtain sv where sv: "delete_ended ?nd ?w (b, s') ((sy_server z)\<lparr>sv_engine := g\<rparr>) = Some sv"
      "c = Conn_Closed [reply_launched ?i] sv"
      using run r mode False by (auto simp: launched_def Let_def same z(1))
    obtain y' where "system_run ?nd (operated ?w (b, s') g z) y'" "sy_server y' = sv" "sy_born y' = sy_born z" "sy_dying y' = sy_dying z"
      using delete_ended_run [OF _ _ sv(1)] absent(2) sid z(3) by auto
    with start sv(2) z show ?thesis using served_closed [of ?nd y y' "[reply_launched ?i]"] by (auto intro: rtranclp_trans)
  qed
qed

section \<open>Any connection\<close>

text \<open>
  What a cancellation takes for granted: the instance has been started, and the defect of
  \<open>cancel_last_corrupts\<close> is not met.
\<close>

definition cancel_fits :: "handler \<Rightarrow> system \<Rightarrow> bool" where
  "cancel_fits h y \<longleftrightarrow> (case handler.workflow_id h of None \<Rightarrow> True | Some n \<Rightarrow>
     (let i = word_of_int n in i \<noteq> 0 \<and> (\<forall>w. wi (sy_registry y) i = Some w \<longrightarrow> objects (sy_engine y) w \<noteq> None) \<and>
        sched_room (w_sched (sy_schedules y)) \<and> cancel_safe (instance_ids (sy_engine y)) i (qp (sy_engine y))))"

definition query_fits :: "services \<Rightarrow> thread_id \<Rightarrow> handler \<Rightarrow> system \<Rightarrow> bool" where
  "query_fits S t h y \<longleftrightarrow> \<not> sleeping t (sy_registry y) \<and> query_type h \<noteq> Some RESET_GLOBAL_STATS \<and>
     (query_type h = Some QUERY_WORKFLOW_LAUNCH \<longrightarrow> launch_fits S h y) \<and>
     (query_type h = Some QUERY_WORKFLOW_CANCEL \<longrightarrow> cancel_fits h y)"

lemma served_after:
  assumes run: "system_run nd y z" and same: "sy_born z = sy_born y" "sy_dying z = sy_dying y" and "served nd z c"
  shows "served nd y c"
  using assms(4) rtranclp_trans [OF run] unfolding served_def same by blast

lemma served_count:
  assumes "f \<in> {IncAcceptedConnections, IncInputErrors, IncWorkflowQueries,
      IncWorkflowStatusQueries, IncWorkflowCancelQueries, IncStatisticsQueries, IncWorkflowExceptions, IncWorkflowInstanceErrors}"
    and "served nd (y\<lparr>sy_server := (sy_server y)\<lparr>sv_stats := f (sy_stats y)\<rparr>\<rparr>) c"
  shows "served nd y c"
  by (rule served_after [OF run_count [OF rtranclp.rtrancl_refl assms(1)] _ _ assms(2)]) simp_all

lemma served_same: "conn_server c = Some (sy_server y) \<Longrightarrow> left_dying c (sy_dying y) = sy_dying y \<Longrightarrow> served nd y c"
  by (auto simp: served_def intro!: exI [of _ y])

lemma counted_fits:
  "can_enter w s (y\<lparr>sy_server := (sy_server y)\<lparr>sv_stats := f\<rparr>\<rparr>) = can_enter w s y"
proof -
  have "present (y\<lparr>sy_server := (sy_server y)\<lparr>sv_stats := f\<rparr>\<rparr>) = present y" by (simp add: fun_eq_iff present_def split: option.split)
  then show ?thesis by (simp add: can_enter_def)
qed

lemma launch_run:
  assumes fits: "launch_fits S h y" and awake: "\<not> sleeping t (sy_registry y)" and run: "query_launch S t h (sy_server y) = Some c"
  shows "served (srv_date S) y c"
proof -
  let ?sv = "(sy_server y)\<lparr>sv_stats := IncWorkflowQueries (sy_stats y)\<rparr>"
  let ?y = "y\<lparr>sy_server := ?sv\<rparr>"
  obtain name r where r: "workflow_name h = Some name" "WorkflowInstance_new (srv_env S) (srv_workflow S) (srv_schedule S)
      (srv_inserted S) (srv_next_id S) name (query_params h) 0 (workflow_host h) (workflow_user h) = Some r"
    and c: "(case r of Inl e \<Rightarrow> Some (Conn_Closed (reply_error e) (?sv\<lparr>sv_stats := IncWorkflowExceptions (sv_stats ?sv)\<rparr>))
      | Inr s \<Rightarrow> launched S t h s ?sv) = Some c"
    using run unfolding query_launch_def Let_def bind_eq_Some_conv by blast
  have "served (srv_date S) ?y c"
  proof (cases r)
    case (Inl e)
    let ?z = "?y\<lparr>sy_server := (sy_server ?y)\<lparr>sv_stats := IncWorkflowExceptions (sy_stats ?y)\<rparr>\<rparr>"
    have "c = Conn_Closed (reply_error e) (sy_server ?z)" using c Inl by simp
    moreover have "served (srv_date S) ?z (Conn_Closed (reply_error e) (sy_server ?z))"
      by (rule served_same) (simp_all add: conn_server_def left_dying_def)
    ultimately show ?thesis by (intro served_count [where f = IncWorkflowExceptions and y = ?y]) simp_all
  next
    case (Inr s)
    show ?thesis
      by (rule launched_run [OF r(2) [unfolded Inr]])
        (use fits r awake c Inr counted_fits in \<open>auto simp: launch_fits_def split: option.splits\<close>)
  qed
  then show ?thesis by (rule served_count [rotated]) simp
qed

lemma query_run:
  assumes reach: "system_reachable (srv_date S) y" and fits: "query_fits S t h y"
    and run: "handle_query S is t h (sy_server y) = Some c"
  shows "served (srv_date S) y c"
proof -
  let ?nd = "srv_date S"
  have closed: "c = Conn_Closed r (sy_server y) \<Longrightarrow> ?thesis" for r
    by (rule served_same) (simp_all add: conn_server_def left_dying_def)
  have counted: "?thesis" if "c = Conn_Closed r ((sy_server y)\<lparr>sv_stats := f (sy_stats y)\<rparr>)"
    and "f \<in> {IncStatisticsQueries, IncWorkflowStatusQueries}" for r f
  proof (rule served_count [where f = f])
    show "served ?nd (y\<lparr>sy_server := (sy_server y)\<lparr>sv_stats := f (sy_stats y)\<rparr>\<rparr>) c"
      by (rule served_same) (simp_all add: that(1) conn_server_def left_dying_def)
  qed (use that(2) in auto)
  have awake: "\<not> sleeping t (sy_registry y)" using fits by (simp add: query_fits_def)
  show ?thesis
  proof (cases "query_type h")
    case None
    with run have "c = Conn_Left (sy_server y)" by (simp add: handle_query_def Let_def)
    then show ?thesis by (intro served_same) (simp_all add: conn_server_def left_dying_def)
  next
    case (Some q)
    show ?thesis
    proof (cases q)
      case QUERY_WORKFLOW_LAUNCH
      with Some run fits show ?thesis by (intro launch_run [OF _ awake]) (simp_all add: handle_query_def query_fits_def Let_def)
    next
      case QUERY_WORKFLOW_INFO
      with Some run have info: "query_info S h (sy_server y) = Some c" by (simp add: handle_query_def Let_def)
      show ?thesis
      proof (cases "\<exists>e. c = Conn_Terminates e")
        case True
        then show ?thesis by (auto simp: served_def conn_server_def)
      next
        case False
        with info obtain r where "c = Conn_Closed r ((sy_server y)\<lparr>sv_stats := IncWorkflowStatusQueries (sy_stats y)\<rparr>)"
          unfolding query_info_def Let_def
          by (auto simp: bind_eq_Some_conv split: option.splits sum.splits if_splits)
        then show ?thesis by (rule counted) simp
      qed
    next
      case QUERY_WORKFLOW_CANCEL
      then have cancel: "query_cancel S h (sy_server y) = Some c" "cancel_fits h y"
        using Some run fits by (simp_all add: handle_query_def query_fits_def Let_def)
      then obtain n where n: "handler.workflow_id h = Some n" by (auto simp: query_cancel_def bind_eq_Some_conv)
      obtain r y' where "c = Conn_Closed r (sy_server y')" "system_run ?nd y y'" "sy_born y' = sy_born y" "sy_dying y' = sy_dying y"
        using cancel_run [OF reach n refl _ _ _ _ cancel(1) refl] cancel(2) n by (auto simp: cancel_fits_def Let_def)
      then show ?thesis by (simp add: served_closed)
    next
      case QUERY_WORKFLOW_WAIT
      then have "query_wait t h (sy_server y) = Some c" using Some run by (simp add: handle_query_def Let_def)
      then obtain n where n: "(if fst (instances_Wait t (word_of_int n) (sy_registry y))
          then Conn_Waits Reply_OK ((sy_server y)\<lparr>sv_registry := snd (instances_Wait t (word_of_int n) (sy_registry y))\<rparr>)
          else Conn_Closed [reply_unknown] (sy_server y)) = c"
        by (auto simp: query_wait_def Let_def bind_eq_Some_conv case_prod_unfold)
      let ?z = "y\<lparr>sy_server := (sy_server y)\<lparr>sv_registry := snd (instances_Wait t (word_of_int n) (sy_registry y))\<rparr>\<rparr>"
      have "system_run ?nd y ?z" by (rule run_step [OF rtranclp.rtrancl_refl system_step.wait [OF awake]])
      then have "served ?nd y (Conn_Waits Reply_OK (sy_server ?z))"
        by (auto simp: served_def conn_server_def left_dying_def intro!: exI [of _ ?z])
      with n closed show ?thesis by (auto split: if_splits)
    next
      case QUERY_WORKFLOW_KILLTASK
      then have "query_killtask h (sy_server y) = Some c" using Some run by (simp add: handle_query_def Let_def)
      then obtain n p found g where g: "c = Conn_Closed [if found then reply_ok else reply_unknown] ((sy_server y)\<lparr>sv_engine := g\<rparr>)"
        "instances_KillTask kill_object (word_of_int n) p (sy_registry y, sy_engine y) = Some (found, g)"
        by (auto simp: query_killtask_def bind_eq_Some_conv)
      then have "g = sy_engine y \<or> (\<exists>w. g = kill_object w p (sy_engine y))"
        by (auto simp: instances_KillTask_def instances_call_def split: option.splits if_splits)
      moreover have "engine_quiet (sy_engine y) (kill_object w p (sy_engine y)) \<or> kill_object w p (sy_engine y) = sy_engine y" for w
        by (cases "objects (sy_engine y) w") (auto simp: kill_object_def fun_upd_idem intro: engine_quiet.kill)
      ultimately consider "g = sy_engine y" | "engine_quiet (sy_engine y) g" by metis
      then show ?thesis
      proof cases
        case 1
        with g(1) closed show ?thesis by simp
      next
        case 2
        let ?z = "y\<lparr>sy_server := (sy_server y)\<lparr>sv_engine := g\<rparr>\<rparr>"
        have "system_run ?nd y ?z" by (rule run_quiet [OF rtranclp.rtrancl_refl 2])
        from served_closed [OF this] g(1) show ?thesis by simp
      qed
    next
      case QUERY_WORKFLOWS_STATUS
      with Some run obtain r where "c = Conn_Closed r ((sy_server y)\<lparr>sv_stats := IncStatisticsQueries (sy_stats y)\<rparr>)"
        by (auto simp: handle_query_def query_workflows_def Let_def)
      then show ?thesis by (rule counted) simp
    qed (use Some run fits closed counted [where f = IncStatisticsQueries] in \<open>auto simp: handle_query_def query_fits_def Let_def\<close>)
  qed
qed

lemma read_query_counts:
  assumes "read_query parse_int r sv = (x, sv')"
  shows "sv' = sv\<lparr>sv_stats := IncAcceptedConnections (sv_stats sv)\<rparr> \<or>
    x = None \<and> sv' = sv\<lparr>sv_stats := IncInputErrors (IncAcceptedConnections (sv_stats sv))\<rparr>"
  using assms by (auto simp: read_query_def Let_def split: document_read.splits sum.splits sax_exit.splits)

lemma query_fits_counted:
  "query_fits S t h (y\<lparr>sy_server := (sy_server y)\<lparr>sv_stats := f\<rparr>\<rparr>) = query_fits S t h y"
proof -
  let ?y = "y\<lparr>sy_server := (sy_server y)\<lparr>sv_stats := f\<rparr>\<rparr>"
  have "launch_fits S h ?y = launch_fits S h y"
    by (simp add: launch_fits_def counted_fits split: option.split sum.split)
  moreover have "cancel_fits h ?y = cancel_fits h y" by (simp add: cancel_fits_def Let_def split: option.split)
  ultimately show ?thesis by (simp add: query_fits_def)
qed

lemma connection_run:
  assumes reach: "system_reachable (srv_date S) y" and run: "handle_connection S parse_int is t r (sy_server y) = Some c"
    and fits: "\<And>h sv. read_query parse_int r (sy_server y) = (Some h, sv) \<Longrightarrow> query_fits S t h y"
  shows "served (srv_date S) y c"
proof -
  let ?y = "y\<lparr>sy_server := (sy_server y)\<lparr>sv_stats := IncAcceptedConnections (sy_stats y)\<rparr>\<rparr>"
  obtain x sv where read: "read_query parse_int r (sy_server y) = (x, sv)" by fastforce
  note counts = read_query_counts [OF read]
  have refused: "served (srv_date S) z (Conn_Closed [] (sy_server z))" for z
    by (rule served_same) (simp_all add: conn_server_def left_dying_def)
  have "served (srv_date S) ?y c"
  proof (cases x)
    case None
    then have c: "c = Conn_Closed [] sv" using run read by (simp add: handle_connection_def)
    let ?z = "?y\<lparr>sy_server := (sy_server ?y)\<lparr>sv_stats := IncInputErrors (sy_stats ?y)\<rparr>\<rparr>"
    have "sv = sy_server ?y \<or> sv = sy_server ?z" using counts by auto
    then show ?thesis
    proof
      assume "sv = sy_server ?z"
      then show ?thesis using c refused [of ?z] by (intro served_count [where f = IncInputErrors and y = ?y]) simp_all
    qed (use c refused [of ?y] in simp)
  next
    case (Some h)
    with counts have "sv = sy_server ?y" by simp
    moreover have "system_reachable (srv_date S) ?y"
      by (rule run_reachable [OF run_count reach]) simp_all
    moreover have "query_fits S t h ?y" using fits read Some query_fits_counted by blast
    ultimately show ?thesis using query_run [of S ?y t h "is" c] run read Some by (simp add: handle_connection_def)
  qed
  then show ?thesis by (rule served_count [rotated]) simp
qed



end
