(* ===== verification/System_Signals.thy ===== *)
theory System_Signals
  imports System_Queries
begin

text \<open>
  The signal handler of the main thread as a part of the system: a reload of the schedules, or the
  restart of every task that waits for a retry.
\<close>

section \<open>Restarts\<close>

text \<open>No counter overflows in the restarts.\<close>

fun restarts_fit :: "env \<Rightarrow> (schedule \<Rightarrow> int option) \<Rightarrow> (wi_ref \<times> node) list \<Rightarrow> server \<Rightarrow> bool" where
  "restarts_fit E nd [] sv = True"
| "restarts_fit E nd ((w, t) # xs) sv = (let g = sv_engine sv in
     sched_room (w_sched (sv_schedules sv)) \<and>
     (case Option.bind (objects g w) (\<lambda>s. map_option (\<lambda>(b, s'). (s, s')) (TaskRestart (seeing g E) t s)) of
        Some (s, s') \<Rightarrow> room_for (new_calls s s') g | None \<Rightarrow> True) \<and>
     (case event_removed E nd (w, t) sv of Some sv \<Rightarrow> restarts_fit E nd xs sv | None \<Rightarrow> True))"

lemma timer_restart_timers: "timer_restart E x g = Some g' \<Longrightarrow> timers g' = remove1 x (timers g)"
  by (auto simp: timer_restart_def bind_eq_Some_conv settle_def)

lemma all_restarts_run:
  assumes "system_reachable nd y" and "mset xs \<subseteq># mset (timers (sy_engine y))"
    and "restarts_fit E nd xs (sy_server y)" and "restart_all E nd xs (sy_server y) = Some sv"
  shows "\<exists>y'. system_run nd y y' \<and> sy_server y' = sv \<and> sy_born y' = sy_born y \<and> sy_dying y' = sy_dying y"
  using assms
proof (induction xs arbitrary: y)
  case Nil
  then show ?case by (intro exI [of _ y]) simp
next
  case (Cons x xs)
  obtain w t where x: "x = (w, t)" by (cases x)
  obtain sv1 where sv1: "event_removed E nd (w, t) (sy_server y) = Some sv1" "restart_all E nd xs sv1 = Some sv"
    using Cons.prems(4) by (auto simp: x bind_eq_Some_conv)
  have t: "(w, t) \<in> set (timers (sy_engine y))"
    using Cons.prems(2) x by (metis list.set_intros(1) mset_subset_eqD set_mset_mset)
  have fit: "room_for (new_calls s s') (sy_engine y)"
    if "objects (sy_engine y) w = Some s" "TaskRestart (seeing (sy_engine y) E) t s = Some (b, s')" for s b s'
    using Cons.prems(3) that by (simp add: x Let_def)
  have rest: "sched_room (w_sched (sy_schedules y))" "restarts_fit E nd xs sv1"
    using Cons.prems(3) sv1(1) by (simp_all add: x Let_def)
  obtain y1 where y1: "system_run nd y y1" "sy_server y1 = sv1" "sy_born y1 = sy_born y" "sy_dying y1 = sy_dying y"
    using event_removed_run [OF Cons.prems(1) t sv1(1) _ rest(1)] fit by blast
  have "mset xs \<subseteq># mset (timers (sy_engine y1))"
    using timer_restart_timers [OF event_removed_engine [OF sv1(1)]] Cons.prems(2) t x y1(2)
    by (simp add: insert_subset_eq_iff)
  then obtain y' where "system_run nd y1 y'" "sy_server y' = sv" "sy_born y' = sy_born y1" "sy_dying y' = sy_dying y1"
    using Cons.IH [OF run_reachable [OF y1(1) Cons.prems(1)]] rest(2) sv1(2) y1(2) by blast
  with y1 show ?case by (metis rtranclp_trans)
qed

section \<open>The handler\<close>

definition signal_fits :: "boot \<Rightarrow> u32 list \<Rightarrow> u32 list \<Rightarrow> signum \<Rightarrow> system \<Rightarrow> bool" where
  "signal_fits B ids rows signum y \<longleftrightarrow>
     (if signum = SIGHUP then load_ok (boot_date B) (db_schedule B) rows \<and> sorted ids \<and> distinct ids \<and>
        reload_allowed y (db_schedule B) ids rows
      else if signum = SIGUSR1 then (let g = sy_engine y; g' = flush_retrier g in
        restarts_fit (boot_env B) (boot_date B) (drop (length (timers g)) (timers g')) ((sy_server y)\<lparr>sv_engine := g'\<rparr>))
      else True)"

lemma flush_retrier_timers: "\<exists>ts. timers (flush_retrier g) = timers g @ ts"
  by (auto simp: flush_retrier_def split: prod.splits)


lemma plain_reload:
  "WorkflowScheduler_Reload (\<lambda>_. Some 100) (db_schedule plain_demo_boot) [3] [3] plain_schedules \<noteq> None"
  by code_simp


end
