(* ===== verification/Task_Flow.thy ===== *)
theory Task_Flow
  imports Engine_Properties
begin

text \<open>
  What the engine promises, without pools, threads, counters and documents: tasks wait, run, or are
  delayed for another try, and move between the three. Every step of the engine is a step of this
  specification or leaves it as it is.
\<close>

section \<open>The specification\<close>

record flow =
  fl_waiting :: tasks
  fl_running :: tasks
  fl_delayed :: tasks

definition has_tasks :: "wi_ref \<Rightarrow> flow \<Rightarrow> bool" where
  "has_tasks w f \<longleftrightarrow> tasks_of w (fl_waiting f + fl_running f + fl_delayed f) \<noteq> {#}"

text \<open>
  A new instance brings tasks that wait; one that is resumed, tasks of all three kinds. A task that
  waits begins to run or is given up; one that runs ends, with the tasks that follow it, and may be
  delayed; a delayed one waits again or is given up. Only the end of a task brings new ones, and only
  for its own instance.
\<close>

inductive flow_step :: "flow \<Rightarrow> flow \<Rightarrow> bool" where
  enter: "\<not> has_tasks w f \<Longrightarrow> flow_step f (f\<lparr>fl_waiting := fl_waiting f + image_mset (Pair w) A\<rparr>)"
| resume: "\<not> has_tasks w f \<Longrightarrow> flow_step f \<lparr>fl_waiting = fl_waiting f + image_mset (Pair w) A,
      fl_running = fl_running f + image_mset (Pair w) B, fl_delayed = fl_delayed f + image_mset (Pair w) C\<rparr>"
| run: "fl_waiting f = add_mset x W \<Longrightarrow> flow_step f (f\<lparr>fl_waiting := W, fl_running := add_mset x (fl_running f)\<rparr>)"
| give_up: "fl_waiting f = add_mset x W \<Longrightarrow> flow_step f (f\<lparr>fl_waiting := W\<rparr>)"
| finish: "fl_running f = add_mset (w, t) R \<Longrightarrow> D \<in> {{#}, {#(w, t)#}} \<Longrightarrow>
    flow_step f \<lparr>fl_waiting = fl_waiting f + image_mset (Pair w) A, fl_running = R, fl_delayed = fl_delayed f + D\<rparr>"
| again: "fl_delayed f = add_mset x D \<Longrightarrow> A \<in> {{#}, {#x#}} \<Longrightarrow>
    flow_step f (f\<lparr>fl_waiting := fl_waiting f + A, fl_delayed := D\<rparr>)"

definition flow_of :: "engine \<Rightarrow> flow" where
  "flow_of g = \<lparr>fl_waiting = to_start g, fl_running = at_work g, fl_delayed = to_retry g\<rparr>"

section \<open>The engine takes its steps\<close>

lemma flow_parts [simp]:
  "fl_waiting (flow_of g) = to_start g" "fl_running (flow_of g) = at_work g" "fl_delayed (flow_of g) = to_retry g"
  by (simp_all add: flow_of_def)

lemma moved_flow: "moved g g' \<Longrightarrow> flow_of g' = flow_of g"
  by (simp add: moved_def flow_of_def)

lemma object_flow:
  assumes "engine_inv g"
  shows "objects g w \<noteq> None \<longleftrightarrow> has_tasks w (flow_of g)"
proof (cases "objects g w")
  case None
  with absent_no_tasks [OF assms] show ?thesis by (simp add: has_tasks_def running_in_def retrying_in_def)
next
  case (Some s)
  with object_counts [OF assms] show ?thesis by (simp add: has_tasks_def running_in_def retrying_in_def)
qed

lemma execute_flow:
  assumes inv: "engine_inv g" and forked: "0 < forked \<or> forked = -1" and ex: "fork_execute E forked g = Some g'"
  shows "flow_step (flow_of g) (flow_of g')"
proof -
  obtain x where x: "to_start g = add_mset x (to_start g')" "at_work g' \<in> {at_work g, add_mset x (at_work g)}"
    "to_retry g' = to_retry g"
    using execute_inv(2) [OF inv forked ex] by blast
  consider "at_work g' = at_work g" | "at_work g' = add_mset x (at_work g)" using x(2) by blast
  then show ?thesis
  proof cases
    case 1
    then have "flow_of g' = (flow_of g)\<lparr>fl_waiting := to_start g'\<rparr>" using x by (simp add: flow_of_def)
    then show ?thesis using flow_step.give_up [of "flow_of g" x "to_start g'"] x(1) by simp
  next
    case 2
    then have "flow_of g' = (flow_of g)\<lparr>fl_waiting := to_start g', fl_running := add_mset x (fl_running (flow_of g))\<rparr>"
      using x by (simp add: flow_of_def)
    then show ?thesis using flow_step.run [of "flow_of g" x "to_start g'"] x(1) by simp
  qed
qed

lemma pair_mset: "mset (List.map (Pair w) xs) = image_mset (Pair w) (mset xs)"
  by simp

lemma stop_flow:
  assumes inv: "engine_inv g" and at: "gathering g = Some (w, t, retval, out)" and s: "objects g w = Some s"
    and r: "TaskStop (seeing g E) t retval out s = Some (b, s')" and room: "room_for (new_calls s s') g"
    and g': "gather_stop E g = Some g'"
  shows "flow_step (flow_of g) (flow_of g')"
proof -
  obtain g0 where parts: "to_start g0 = to_start g" "to_retry g0 = to_retry g" "at_work g = add_mset (w, t) (at_work g0)"
    "objects g0 = objects g" and g0: "base_ok g0" "named (qp g0) (new_calls s s')" "claims_free (qp g0) (new_calls s s')"
    "room_for (new_calls s s') g0" and settled: "settle w s (b, s') g0 = Some g'"
    by (rule stop_parts [OF assms])
  let ?D = "mset (List.map (Pair w) (retries (new_calls s s')))"
  note after = settle_tasks [OF g0 settled]
  have D: "?D \<in> {{#}, {#(w, t)#}}" using TaskStop_effect(4) [OF r] by auto
  have "flow_of g' = \<lparr>fl_waiting = fl_waiting (flow_of g) + image_mset (Pair w) (mset (enqueues (new_calls s s'))),
      fl_running = at_work g0, fl_delayed = fl_delayed (flow_of g) + ?D\<rparr>"
    using after(1-3) TaskStop_effect(2) [OF r] parts by (simp add: flow_of_def)
  moreover have "fl_running (flow_of g) = add_mset (w, t) (at_work g0)" using parts(3) by simp
  note flow_step.finish [OF this D, of "mset (enqueues (new_calls s s'))"]
  ultimately show ?thesis by metis
qed

lemma restart_flow:
  assumes inv: "engine_inv g" and at: "(w, t) \<in> set (timers g)" and s: "objects g w = Some s"
    and r: "TaskRestart (seeing g E) t s = Some (b, s')" and room: "room_for (new_calls s s') g"
    and g': "timer_restart E (w, t) g = Some g'"
  shows "flow_step (flow_of g) (flow_of g')"
proof -
  obtain g0 where parts: "to_start g0 = to_start g" "at_work g0 = at_work g" "to_retry g = add_mset (w, t) (to_retry g0)"
    "objects g0 = objects g" and g0: "base_ok g0" "named (qp g0) (new_calls s s')" "claims_free (qp g0) (new_calls s s')"
    "room_for (new_calls s s') g0" and settled: "settle w s (b, s') g0 = Some g'"
    by (rule restart_parts [OF assms])
  let ?A = "mset (List.map (Pair w) (enqueues (new_calls s s')))"
  note after = settle_tasks [OF g0 settled]
  have A: "?A \<in> {{#}, {#(w, t)#}}" using TaskRestart_effect(5) [OF r] by auto
  have "flow_of g' = (flow_of g)\<lparr>fl_waiting := fl_waiting (flow_of g) + ?A, fl_delayed := to_retry g0\<rparr>"
    using after(1-3) TaskRestart_effect(3,4) [OF r] parts by (simp add: flow_of_def)
  moreover have "fl_delayed (flow_of g) = add_mset (w, t) (to_retry g0)" using parts(3) by simp
  note flow_step.again [OF this A]
  ultimately show ?thesis by metis
qed

text \<open>A new instance.\<close>

lemma begin_flow:
  assumes inv: "engine_inv g" and none: "objects g w = None" and asks: "asks (seeing g E) s s'"
    and free: "claims_free (qp g) (new_calls s s')" and room: "room_for (new_calls s s') g"
    and settled: "settle w s (b, s') g = Some g'"
  shows "\<not> has_tasks w (flow_of g)"
    and "flow_of g' = \<lparr>fl_waiting = to_start g + image_mset (Pair w) (mset (enqueues (new_calls s s'))),
      fl_running = at_work g + image_mset (Pair w) (mset (executions (new_calls s s'))),
      fl_delayed = to_retry g + image_mset (Pair w) (mset (retries (new_calls s s')))\<rparr>"
proof -
  show "\<not> has_tasks w (flow_of g)" using object_flow [OF inv, of w] none by simp
  note after = settle_tasks [OF inv_base(1) [OF inv] seeing_names [OF asks] free room settled]
  show "flow_of g' = \<lparr>fl_waiting = to_start g + image_mset (Pair w) (mset (enqueues (new_calls s s'))),
      fl_running = at_work g + image_mset (Pair w) (mset (executions (new_calls s s'))),
      fl_delayed = to_retry g + image_mset (Pair w) (mset (retries (new_calls s s')))\<rparr>"
    using after(1-3) by (simp add: flow_of_def)
qed

lemma step_flow:
  assumes inv: "engine_inv g" and "engine_step g g'"
  shows "flow_of g' = flow_of g \<or> flow_step (flow_of g) (flow_of g')"
  using assms(2)
proof cases
  case (launch w s E b s')
  note new = begin_flow [OF inv launch(1) Start_asks [OF launch(3)] launch(4-6)]
  have "flow_of g' = (flow_of g)\<lparr>fl_waiting := fl_waiting (flow_of g) + image_mset (Pair w) (mset (enqueues (new_calls s s')))\<rparr>"
    using new(2) Start_effect(2,3) [OF launch(3)] by (simp add: flow_of_def)
  then show ?thesis using flow_step.enter [OF new(1)] by simp
next
  case (resume w s E b s')
  note new = begin_flow [OF inv resume(1) Resume_asks [OF resume(3)] resume(4-6)]
  from flow_step.resume [OF new(1)] new(2) show ?thesis by (metis flow_parts)
next
  case (execute forked E)
  then show ?thesis using execute_flow [OF inv] by blast
next
  case (stop w t retval out s E b s')
  then show ?thesis using stop_flow [OF inv] by blast
next
  case (restart w t s E b s')
  then show ?thesis using restart_flow [OF inv] by blast
qed (use moved_flow step_moved [OF inv] in blast |
     simp add: flow_of_def to_start_def at_work_def to_retry_def forker_tasks_def forker_tids_def)+



end
