(* ===== verification/Monitor_Signals.thy ===== *)
theory Monitor_Signals
  imports Monitor
begin

text \<open>
  The monitor as a process (\<open>evqueue_monitor.cpp\<close>): its own steps, those of the task it has started,
  and the signals by which the engine asks it to kill the task, in any order.
\<close>

section \<open>The process\<close>

text \<open>
  \<open>Starting\<close>: the handler is not installed yet; \<open>Ready\<close>: before \<open>fork\<close>; \<open>Waiting\<close>: in \<open>waitpid\<close>;
  \<open>Collected\<close>: the exit code is known; \<open>Notified\<close>: the message is sent; \<open>Gone\<close>: ended without it.
\<close>

datatype monitor_phase = Starting | Ready | Waiting | Collected int | Notified int | Gone

text \<open>The task: \<open>Ended\<close> has its exit code, none when it was killed; then it is reaped.\<close>

datatype task_process = Not_Started | Alive | Ended "8 word option" | Reaped

text \<open>
  \<open>pid_of\<close> is the global variable \<open>pid\<close>, zero until \<open>fork\<close>; \<open>stray\<close> lists the processes that were
  sent a signal although the task was no longer there.
\<close>

record monitor =
  phase_of :: monitor_phase
  pid_of :: int
  task_of :: task_process
  stray :: "int list"

definition monitor_start :: monitor where
  "monitor_start = \<lparr>phase_of = Starting, pid_of = 0, task_of = Not_Started, stray = []\<rparr>"

text \<open>\<open>kill(pid, SIGKILL)\<close>: a task that has ended but is not reaped is not affected.\<close>

definition kill_child :: "monitor \<Rightarrow> monitor" where
  "kill_child m = (case task_of m of
       Alive \<Rightarrow> m\<lparr>task_of := Ended None\<rparr>
     | Reaped \<Rightarrow> m\<lparr>stray := pid_of m # stray m\<rparr>
     | _ \<Rightarrow> m)"

definition monitor_signal_callback_handler :: "monitor \<Rightarrow> monitor" where
  "monitor_signal_callback_handler m = (if pid_of m \<noteq> 0 then kill_child m else m)"

text \<open>\<open>SIGTERM\<close> ends a process that has no handler for it.\<close>

definition deliver_sigterm :: "monitor \<Rightarrow> monitor" where
  "deliver_sigterm m = (case phase_of m of
       Starting \<Rightarrow> m\<lparr>phase_of := Gone\<rparr>
     | Notified r \<Rightarrow> m
     | Gone \<Rightarrow> m
     | _ \<Rightarrow> monitor_signal_callback_handler m)"

inductive monitor_step :: "monitor \<Rightarrow> monitor \<Rightarrow> bool" where
  install: "phase_of m = Starting \<Longrightarrow> monitor_step m (m\<lparr>phase_of := Ready\<rparr>)"
| no_task: "phase_of m = Ready \<Longrightarrow> monitor_step m (m\<lparr>phase_of := Gone\<rparr>)"
| fork: "phase_of m = Ready \<Longrightarrow> 0 < child \<Longrightarrow>
    monitor_step m (m\<lparr>phase_of := Waiting, pid_of := child, task_of := Alive\<rparr>)"
| exits: "task_of m = Alive \<Longrightarrow> monitor_step m (m\<lparr>task_of := Ended (Some code)\<rparr>)"
| wait: "phase_of m = Waiting \<Longrightarrow> task_of m = Ended status \<Longrightarrow>
    monitor_step m (m\<lparr>phase_of := Collected (retcode_of status), task_of := Reaped\<rparr>)"
| notify: "phase_of m = Collected r \<Longrightarrow> monitor_step m (m\<lparr>phase_of := Notified r\<rparr>)"
| sigterm: "monitor_step m (deliver_sigterm m)"

inductive_cases monitor_stepE: "monitor_step m m'"

abbreviation monitor_steps :: "monitor \<Rightarrow> monitor \<Rightarrow> bool" where
  "monitor_steps \<equiv> monitor_step\<^sup>*\<^sup>*"

section \<open>What is reported\<close>

text \<open>The task ends once, and its end decides what is collected and reported.\<close>

definition monitor_ok :: "monitor \<Rightarrow> bool" where
  "monitor_ok m \<longleftrightarrow> (case phase_of m of
       Starting \<Rightarrow> task_of m = Not_Started \<and> pid_of m = 0
     | Ready \<Rightarrow> task_of m = Not_Started \<and> pid_of m = 0
     | Waiting \<Rightarrow> (task_of m = Alive \<or> (\<exists>st. task_of m = Ended st)) \<and> 0 < pid_of m
     | Collected r \<Rightarrow> task_of m = Reaped \<and> 0 < pid_of m
     | Notified r \<Rightarrow> task_of m = Reaped
     | Gone \<Rightarrow> task_of m = Not_Started)"

lemmas monitor_defs = monitor_ok_def deliver_sigterm_def monitor_signal_callback_handler_def kill_child_def

lemma monitor_step_ok: "monitor_step m m' \<Longrightarrow> monitor_ok m \<Longrightarrow> monitor_ok m'"
  by (erule monitor_stepE) (auto simp: monitor_defs split: monitor_phase.splits task_process.splits)

lemma monitor_steps_ok: "monitor_steps m m' \<Longrightarrow> monitor_ok m \<Longrightarrow> monitor_ok m'"
  by (induction rule: rtranclp_induct) (auto intro: monitor_step_ok)

text \<open>Once the task has ended with \<open>status\<close>, nothing else can be reported.\<close>

definition will_report :: "8 word option \<Rightarrow> monitor \<Rightarrow> bool" where
  "will_report status m \<longleftrightarrow> phase_of m = Waiting \<and> task_of m = Ended status \<or>
     task_of m = Reaped \<and> phase_of m \<in> {Collected (retcode_of status), Notified (retcode_of status)}"

lemma will_report_step: "monitor_step m m' \<Longrightarrow> will_report status m \<Longrightarrow> will_report status m'"
  by (erule monitor_stepE)
    (auto simp: will_report_def deliver_sigterm_def monitor_signal_callback_handler_def kill_child_def split: monitor_phase.splits)

lemma will_report_steps: "monitor_steps m m' \<Longrightarrow> will_report status m \<Longrightarrow> will_report status m'"
  by (induction rule: rtranclp_induct) (auto intro: will_report_step)

lemma will_report_end: "will_report status m \<Longrightarrow> \<exists>m'. monitor_steps m m' \<and> phase_of m' = Notified (retcode_of status)"
proof -
  have collected: "\<exists>m'. monitor_steps m m' \<and> phase_of m' = Notified r" if "phase_of m = Collected r" for m r
    using monitor_step.notify [OF that] by (intro exI [of _ "m\<lparr>phase_of := Notified r\<rparr>"]) auto
  assume "will_report status m"
  then consider "phase_of m = Waiting" "task_of m = Ended status" | "phase_of m = Collected (retcode_of status)"
    | "phase_of m = Notified (retcode_of status)"
    by (auto simp: will_report_def)
  then show ?thesis
  proof cases
    case 1
    from monitor_step.wait [OF this] collected [of "m\<lparr>phase_of := Collected (retcode_of status), task_of := Reaped\<rparr>" "retcode_of status"]
    show ?thesis by (auto intro: converse_rtranclp_into_rtranclp)
  next
    case 2
    then show ?thesis by (rule collected)
  next
    case 3
    then show ?thesis by blast
  qed
qed


definition running_monitor :: monitor where
  "running_monitor = \<lparr>phase_of = Waiting, pid_of = 12, task_of = Alive, stray = []\<rparr>"


section \<open>What is lost\<close>

text \<open>
  A signal that comes before the handler is installed ends the monitor, and one whose \<open>fork\<close> fails
  ends too: no message is ever sent, and the engine counts the task as running for ever.
\<close>

lemma gone_is_silent: "monitor_steps m m' \<Longrightarrow> phase_of m = Gone \<Longrightarrow> task_of m = Not_Started \<Longrightarrow> phase_of m' = Gone"
proof (induction rule: rtranclp_induct)
  case (step m' m'')
  have "task_of m' = Not_Started \<and> phase_of m' = Gone"
    using step.hyps(1) step.prems
    by (induction rule: rtranclp_induct) (auto elim!: monitor_stepE simp: deliver_sigterm_def)
  with step.hyps(2) show ?case by (auto elim!: monitor_stepE simp: deliver_sigterm_def)
qed

lemma early_signal_loses_task:
  "monitor_steps (deliver_sigterm monitor_start) m \<Longrightarrow> phase_of m \<noteq> Notified r"
  using gone_is_silent [of "deliver_sigterm monitor_start" m] by (auto simp: deliver_sigterm_def monitor_start_def)

text \<open>
  Between the installation of the handler and \<open>fork\<close> a signal is lost, and the task is started all
  the same; after the task is reaped, the signal goes to whatever process has its identifier by then.
\<close>

lemma signal_before_fork: "phase_of m = Ready \<Longrightarrow> pid_of m = 0 \<Longrightarrow> deliver_sigterm m = m"
  by (simp add: deliver_sigterm_def monitor_signal_callback_handler_def)

lemma signal_after_wait:
  "phase_of m = Collected r \<Longrightarrow> task_of m = Reaped \<Longrightarrow> pid_of m \<noteq> 0 \<Longrightarrow> stray (deliver_sigterm m) = pid_of m # stray m"
  by (simp add: deliver_sigterm_def monitor_signal_callback_handler_def kill_child_def)

end
