(* ===== verification/Schedule_Storage.thy ===== *)
theory Schedule_Storage
  imports Workflow_Scheduler Database
begin

text \<open>
  What the workflow scheduler does outside its own memory, and at its end: \<open>WorkflowSchedule::SetStatus\<close>,
  which marks a schedule in the database, its call at the failure of an instance, and the destructor
  of the scheduler.
\<close>

section \<open>Marking a schedule\<close>

definition status_query :: "bool \<Rightarrow> string" where
  "status_query active = (if active
     then ''UPDATE t_workflow_schedule SET workflow_schedule_active=1 WHERE workflow_schedule_id=%i''
     else ''UPDATE t_workflow_schedule SET workflow_schedule_active=0 WHERE workflow_schedule_id=%i'')"

text \<open>
  The identifier is printed as an \<open>int\<close>. The result: the exception thrown, if any, and the database;
  \<open>None\<close> when the configuration has no database.
\<close>

definition SetStatus :: "'c client \<Rightarrow> config \<Rightarrow> bool \<Rightarrow> u32 \<Rightarrow> 'c \<Rightarrow> (exn option \<times> 'c) option" where
  "SetStatus C cfg active workflow_schedule_id c = do {
     (failed, d) \<leftarrow> DB_configured C cfg c;
     case failed of
       Some e \<Rightarrow> Some (Some e, mysql d)
     | None \<Rightarrow> do {
         (failed, d) \<leftarrow> QueryPrintf C (status_query active) [Int_Arg (Some (sint workflow_schedule_id))] d;
         Some (failed, mysql (snd (DB_delete d))) } }"

text \<open>
  \<open>ScheduledWorkflowInstanceStop\<close> with its access to the database: whether \<open>wfs_mutex\<close> is released, the
  exception thrown, the scheduler and the database. The schedule is deleted after it is marked.
\<close>

definition stop_marked ::
  "'c client \<Rightarrow> config \<Rightarrow> (schedule \<Rightarrow> int option) \<Rightarrow> u32 \<Rightarrow> bool \<Rightarrow> wf_scheduler \<Rightarrow> 'c \<Rightarrow>
   (bool \<times> exn option \<times> wf_scheduler \<times> 'c) option" where
  "stop_marked C cfg nd workflow_schedule_id success s c = do {
     (inactive, s') \<leftarrow> ScheduledWorkflowInstanceStop nd workflow_schedule_id success s;
     case inactive of
       None \<Rightarrow> Some (True, None, s', c)
     | Some j \<Rightarrow> do {
         (failed, c) \<leftarrow> SetStatus C cfg False j c;
         case failed of
           Some e \<Rightarrow> Some (False, Some e, set_executing (nat (lookup_wfs s workflow_schedule_id)) 0 None s, c)
         | None \<Rightarrow> Some (True, None, s', c) } }"

text \<open>The destructor deletes the schedules of the events; the arrays go with it.\<close>

definition WorkflowScheduler_delete :: "wf_scheduler \<Rightarrow> wf_scheduler" where
  "WorkflowScheduler_delete s = fold ws_delete (List.map payload (first_event (w_sched s))) s"

section \<open>Properties\<close>

text \<open>What is sent is the query for exactly this schedule.\<close>

definition status_text :: "bool \<Rightarrow> u32 \<Rightarrow> string" where
  "status_text active j = ''UPDATE t_workflow_schedule SET workflow_schedule_active='' @ (if active then ''1'' else ''0'') @
     '' WHERE workflow_schedule_id='' @ show_int (sint j)"

lemma status_query_text:
  "printf_text escape (status_query active) [Int_Arg (Some (sint j))] = Some (status_text active j)"
  by (simp add: status_query_def status_text_def int_text_def)

lemma is_int_sint: "is_int (sint (j :: u32))"
  using sint_range_size [of j] by (simp add: is_int_def word_size)

lemma status_sent:
  assumes "\<And>c s. length (my_escape C c s) \<le> 2 * length s"
  shows "QueryPrintf C (status_query active) [Int_Arg (Some (sint j))] d = Some (DB_Query C (status_text active j) d)"
proof -
  have "\<exists>n. printf_room (status_query active) [Int_Arg (Some (sint j))] = Some n" by (simp add: status_query_def)
  then obtain n where n: "printf_room (status_query active) [Int_Arg (Some (sint j))] = Some n" by blast
  have "ints_ok [Int_Arg (Some (sint j))]" by (simp add: ints_ok_def is_int_sint)
  from printf_fits [of "my_escape C (mysql d)", OF assms n this] n
  show ?thesis by (auto simp: QueryPrintf_def status_query_text)
qed

text \<open>
  When the database cannot be reached as a failed instance ends, the exception leaves the function
  with the mutex locked; the schedule, out of its entry, is then in no list and is never freed.
\<close>

lemma failed_mark_leaks:
  assumes stop: "ScheduledWorkflowInstanceStop nd j success s = Some (Some i, s')" and inv: "wfs_inv nd s"
    and db: "DB_configured C cfg c = Some (Some e, d)"
  shows "\<exists>r s''. stop_marked C cfg nd j success s c = Some (False, Some e, s'', mysql d) \<and>
    ws_store s'' r \<noteq> None \<and> r \<in> set (used_refs s) \<and> r \<notin> set (used_refs s'')"
proof -
  let ?n = "nat (lookup_wfs s j)" and ?s = "set_executing (nat (lookup_wfs s j)) 0 None s"
  obtain r w where r: "wfs_executing_instances s ! ?n = Some r" "ws_store s r = Some w" and lk: "lookup_wfs s j \<noteq> -1"
    using stop by (auto simp: ScheduledWorkflowInstanceStop_def Let_def set_executing_def map_option_case
        split: if_splits option.splits onfailure_behavior.splits)
  have n: "?n < length (wfs_executing_instances s)" using lookup_wfs_known(1) [OF inv lk] inv by (simp add: wfs_inv_def)
  have used: "mset (used_refs s) = add_mset r (mset (used_refs ?s))"
    using executing_refs_update [OF n, of None] r(1) by (simp add: used_refs_def set_executing_def)
  have "distinct (used_refs s)" using inv by (auto simp: wfs_inv_def distinct_map)
  then have "r \<notin> set (used_refs ?s)" using mset_eq_imp_distinct_iff [of "used_refs s" "r # used_refs ?s"] used by simp
  moreover have "r \<in> set (used_refs s)" using used by (metis set_mset_mset union_single_eq_member)
  moreover have "stop_marked C cfg nd j success s c = Some (False, Some e, ?s, mysql d)"
    using stop db by (simp add: stop_marked_def SetStatus_def)
  moreover have "ws_store ?s r \<noteq> None" using r(2) by (simp add: set_executing_def)
  ultimately show ?thesis by blast
qed

text \<open>
  The destructor frees every waiting schedule, and each once; those attached to an executing instance
  stay.
\<close>

lemma fold_delete_store: "ws_store (fold ws_delete rs s) r = (if r \<in> set rs then None else ws_store s r)"
  by (induction rs arbitrary: s) (auto simp: ws_delete_def)

lemma scheduler_delete:
  assumes "wfs_inv nd s"
  shows "distinct (List.map payload (first_event (w_sched s)))"
    and "r \<in> payload ` set (first_event (w_sched s)) \<Longrightarrow> ws_store (WorkflowScheduler_delete s) r = None"
    and "r \<in> set (executing_refs (wfs_executing_instances s)) \<Longrightarrow> ws_store (WorkflowScheduler_delete s) r \<noteq> None"
proof -
  have d: "distinct (used_refs s)" using assms by (auto simp: wfs_inv_def distinct_map)
  then show "distinct (List.map payload (first_event (w_sched s)))" by (simp add: used_refs_def)
  show "r \<in> payload ` set (first_event (w_sched s)) \<Longrightarrow> ws_store (WorkflowScheduler_delete s) r = None"
    by (simp add: WorkflowScheduler_delete_def fold_delete_store)
  assume r: "r \<in> set (executing_refs (wfs_executing_instances s))"
  then have "r \<notin> payload ` set (first_event (w_sched s))" using d by (auto simp: used_refs_def)
  moreover have "ws_store s r \<noteq> None" using assms r unfolding wfs_inv_def used_refs_def by auto
  ultimately show "ws_store (WorkflowScheduler_delete s) r \<noteq> None"
    by (simp add: WorkflowScheduler_delete_def fold_delete_store)
qed

end
